(* ===== verification/Prelude.thy ===== *)
theory Prelude
  imports "HOL-Library.Word" "HOL-Library.Monad_Syntax"
begin

unbundle bit_operations_syntax

text \<open>
  Shared vocabulary of the development.

  \<^item> Machine types: a \<open>char\<close> of the C++ code is a \<open>byte\<close> (8 bits), \<open>uint32_t\<close> is \<open>u32\<close>.
    An \<open>int32_t\<close> or \<open>int\<close> variable is an \<open>int\<close>; where the code can leave the 32-bit range the
    wrap-around of a conversion is written with \<open>to_i32\<close>, and an arithmetic overflow, which is
    undefined in C++, with \<open>add_i32\<close>.
  \<^item> Undefined behaviour: an operation that may leave defined behaviour (a read or write out of the
    bounds of an allocation, a read of an indeterminate value, a null dereference, an allocation
    with a negative size) returns an option, and \<open>None\<close> is that event.  Error codes the program
    itself returns are ordinary values under \<open>Some\<close>.
  \<^item> Network byte order: \<open>be32\<close> is the four bytes that \<open>htonl\<close> followed by a raw store
    puts in memory, and \<open>rd32\<close> is a raw load followed by \<open>ntohl\<close>.
\<close>

section \<open>Types\<close>

type_synonym byte = "8 word"
type_synonym u16 = "16 word"
type_synonym u32 = "32 word"

named_theorems load_simps \<open>facts about loads and stores that stay in bounds\<close>
named_theorems io_defs \<open>definitions of the operations on files and buffers\<close>

section \<open>Faults\<close>

definition require :: "bool \<Rightarrow> unit option" where
  "require b = (if b then Some () else None)"

lemma require_True [simp]: "require True = Some ()"
  by (simp add: require_def)

lemma require_False [simp]: "require False = None"
  by (simp add: require_def)

lemma require_Some [simp]: "require b = Some u \<longleftrightarrow> b"
  by (simp add: require_def)

lemma bind_require [simp]: "b \<Longrightarrow> (require b \<bind> f) = f ()"
  by simp

lemma bind_require_not: "\<not> b \<Longrightarrow> (require b \<bind> f) = None"
  by simp

lemma bind_SomeE:
  assumes "m \<bind> f = Some y"
  obtains x where "m = Some x" and "f x = Some y"
  using assms by (auto simp: bind_eq_Some_conv)

primrec foldM :: "('x \<Rightarrow> 's \<Rightarrow> 's option) \<Rightarrow> 'x list \<Rightarrow> 's \<Rightarrow> 's option" where
  "foldM f [] s = Some s"
| "foldM f (x # xs) s = (f x s \<bind> foldM f xs)"

lemma foldM_append [simp]: "foldM f (xs @ ys) s = (foldM f xs s \<bind> foldM f ys)"
  by (induction xs arbitrary: s) (auto split: bind_splits)

lemma foldM_Nil_fun: "foldM f [] = Some"
  by (rule ext) simp

lemma foldM_Cons_fun: "foldM f (x # xs) = (\<lambda>s. f x s \<bind> foldM f xs)"
  by (rule ext) simp

lemmas foldM_fun = foldM_Nil_fun foldM_Cons_fun

section \<open>32-bit integers\<close>

definition to_i32 :: "int \<Rightarrow> int" where
  "to_i32 i = sint (word_of_int i :: u32)"

definition i32_ok :: "int \<Rightarrow> bool" where
  "i32_ok i \<longleftrightarrow> - (2 ^ 31) \<le> i \<and> i < 2 ^ 31"

definition add_i32 :: "int \<Rightarrow> int \<Rightarrow> int option" where
  "add_i32 a b = (if i32_ok (a + b) then Some (a + b) else None)"

definition u32_of :: "int \<Rightarrow> u32" where
  "u32_of i = word_of_int i"

text \<open>C++ division truncates towards zero.\<close>

definition c_div :: "int \<Rightarrow> int \<Rightarrow> int" where
  "c_div a b = sgn a * sgn b * (\<bar>a\<bar> div \<bar>b\<bar>)"

definition c_mod :: "int \<Rightarrow> int \<Rightarrow> int" where
  "c_mod a b = a - b * c_div a b"

lemma c_div_nonneg [simp]: "0 \<le> a \<Longrightarrow> 0 < b \<Longrightarrow> c_div a b = a div b"
  by (cases "a = 0") (simp_all add: c_div_def)

lemma c_mod_nonneg [simp]: "0 \<le> a \<Longrightarrow> 0 < b \<Longrightarrow> c_mod a b = a mod b"
  by (simp add: c_mod_def minus_mult_div_eq_mod)

lemma c_mod_nonpos: "a \<le> 0 \<Longrightarrow> 0 < b \<Longrightarrow> c_mod a b \<le> 0"
proof -
  assume "a \<le> 0" and "0 < b"
  then have "b * c_div a b = - (b * ((- a) div b))"
    by (cases "a = 0") (simp_all add: c_div_def)
  moreover have "b * ((- a) div b) \<le> - a"
    using \<open>0 < b\<close> by (simp add: minus_mod_eq_mult_div [symmetric])
  ultimately show ?thesis by (simp add: c_mod_def)
qed

lemma c_div_nonpos: "a \<le> 0 \<Longrightarrow> 0 < b \<Longrightarrow> c_div a b \<le> 0"
  by (cases "a = 0") (simp_all add: c_div_def pos_imp_zdiv_nonneg_iff)

lemma to_i32_ok: "i32_ok i \<Longrightarrow> to_i32 i = i"
  by (simp add: to_i32_def i32_ok_def sint_sbintrunc' signed_take_bit_int_eq_self_iff)

lemma to_i32_bounds: "i32_ok (to_i32 i)"
  using sint_ge [of "word_of_int i :: u32"] sint_lt [of "word_of_int i :: u32"]
  by (simp add: to_i32_def i32_ok_def)

lemma to_i32_le:
  assumes "0 \<le> i" and "0 \<le> to_i32 i"
  shows "to_i32 i \<le> i"
proof -
  have "to_i32 i = take_bit 32 (to_i32 i)"
    using assms(2) to_i32_bounds [of i] by (simp add: take_bit_int_eq_self i32_ok_def)
  also have "\<dots> = take_bit 32 i"
    by (simp add: to_i32_def sint_sbintrunc' take_bit_signed_take_bit)
  also have "\<dots> \<le> i"
    using assms(1) by (simp add: take_bit_int_less_eq_self_iff)
  finally show ?thesis .
qed

lemma sint_u32_of [simp]: "i32_ok i \<Longrightarrow> sint (u32_of i) = i"
  using to_i32_ok by (simp add: u32_of_def to_i32_def)

section \<open>Bytes in memory\<close>

text \<open>
  \<open>load\<close> and \<open>store\<close> read and write a run of bytes inside an allocation; a run that leaves the
  allocation is a fault.  \<open>peek\<close> reads one byte.
\<close>

definition load :: "'a list \<Rightarrow> nat \<Rightarrow> nat \<Rightarrow> 'a list option" where
  "load m p n = (if p + n \<le> length m then Some (take n (drop p m)) else None)"

definition store :: "'a list \<Rightarrow> nat \<Rightarrow> 'a list \<Rightarrow> 'a list option" where
  "store m p bs =
     (if p + length bs \<le> length m then Some (take p m @ bs @ drop (p + length bs) m) else None)"

definition peek :: "'a list \<Rightarrow> nat \<Rightarrow> 'a option" where
  "peek m i = (if i < length m then Some (m ! i) else None)"

lemma load_length [load_simps]: "load m p n = Some bs \<Longrightarrow> length bs = n"
  by (auto simp: load_def split: if_splits)

lemma load_append [load_simps]: "load (xs @ ys @ zs) (length xs) (length ys) = Some ys"
  by (simp add: load_def)

lemma store_length [load_simps]: "store m p bs = Some m' \<Longrightarrow> length m' = length m"
  by (auto simp: store_def split: if_splits)

lemma load_store_same [load_simps]:
  "store m p bs = Some m' \<Longrightarrow> load m' p (length bs) = Some bs"
  by (auto simp: store_def load_def split: if_splits)

lemma load_store_disjoint [load_simps]:
  assumes "store m p bs = Some m'" and "q + n \<le> p"
  shows "load m' q n = load m q n"
proof -
  from assms(1) have "p + length bs \<le> length m" and m': "m' = take p m @ bs @ drop (p + length bs) m"
    by (auto simp: store_def split: if_splits)
  with assms(2) show ?thesis
    by (auto simp: load_def drop_take min_absorb1)
qed

definition be32 :: "u32 \<Rightarrow> byte list" where
  "be32 w = [ucast (drop_bit 24 w), ucast (drop_bit 16 w), ucast (drop_bit 8 w), ucast w]"

fun rd32 :: "byte list \<Rightarrow> u32" where
  "rd32 [a, b, c, d] =
     push_bit 24 (ucast a) OR push_bit 16 (ucast b) OR push_bit 8 (ucast c) OR ucast d"
| "rd32 _ = 0"

lemma length_be32 [simp]: "length (be32 w) = 4"
  by (simp add: be32_def)

lemma be32_not_Nil [simp]: "be32 w \<noteq> []"
  by (simp add: be32_def)

lemma rd32_be32 [simp]: "rd32 (be32 w) = w"
proof -
  have "bit (rd32 (be32 w)) n = bit w n" if "n < 32" for n
  proof -
    from that consider "n < 8" | "8 \<le> n" "n < 16" | "16 \<le> n" "n < 24" | "24 \<le> n" "n < 32"
      by linarith
    then show ?thesis
      by cases (auto simp: be32_def bit_simps)
  qed
  then show ?thesis
    by (intro bit_word_eqI) simp
qed

lemma be32_rd32: "length bs = 4 \<Longrightarrow> be32 (rd32 bs) = bs"
proof -
  assume "length bs = 4"
  then obtain a b c d where bs: "bs = [a, b, c, d]"
    by (auto simp: numeral_eq_Suc length_Suc_conv)
  have small: "\<not> bit (x :: byte) (8 + n)" "\<not> bit x (16 + n)" "\<not> bit x (24 + n)" for x n
    using bit_imp_le_length [of x] by fastforce+
  show ?thesis
    unfolding bs by (simp add: be32_def, intro conjI; rule bit_word_eqI; auto simp: bit_simps small)
qed

lemma be32_inj: "be32 v = be32 w \<Longrightarrow> v = w"
  using rd32_be32 by metis

text \<open>The value \<open>int32_t x = ntohl(...)\<close> of four bytes, and the bytes of \<open>htonl\<close> of an \<open>int32_t\<close>.\<close>

definition rd_i32 :: "byte list \<Rightarrow> int" where
  "rd_i32 bs = sint (rd32 bs)"

definition wr_i32 :: "int \<Rightarrow> byte list" where
  "wr_i32 i = be32 (u32_of i)"

lemma length_wr_i32 [simp]: "length (wr_i32 i) = 4"
  by (simp add: wr_i32_def)

lemma rd_wr_i32 [simp]: "i32_ok i \<Longrightarrow> rd_i32 (wr_i32 i) = i"
  by (simp add: rd_i32_def wr_i32_def)

lemma rd_i32_ok: "i32_ok (rd_i32 bs)"
  using sint_ge [of "rd32 bs"] sint_lt [of "rd32 bs"] by (simp add: rd_i32_def i32_ok_def)

section \<open>Lists\<close>

lemma nth_take_drop_cong:
  "take n xs = take n ys \<Longrightarrow> i < n \<Longrightarrow> i < length xs \<Longrightarrow> i < length ys \<Longrightarrow> xs ! i = ys ! i"
  by (metis nth_take)

lemma take_drop_split:
  "a \<le> b \<Longrightarrow> take a xs @ take (b - a) (drop a xs) = take b xs"
  by (metis le_add_diff_inverse take_add)

section \<open>Numbers in strings\<close>

text \<open>
  \<open>atoi\<close> of the C library: white space, an optional sign, then the longest run of digits.  A value
  that does not fit an \<open>int\<close> is undefined.
\<close>

definition is_space :: "char \<Rightarrow> bool" where
  "is_space c \<longleftrightarrow> c = CHR '' '' \<or> (9 \<le> (of_char c :: nat) \<and> (of_char c :: nat) \<le> 13)"

definition is_digit :: "char \<Rightarrow> bool" where
  "is_digit c \<longleftrightarrow> 48 \<le> (of_char c :: nat) \<and> (of_char c :: nat) \<le> 57"

definition digit_val :: "char \<Rightarrow> int" where
  "digit_val c = int (of_char c) - 48"

definition digits_val :: "string \<Rightarrow> int" where
  "digits_val cs = foldl (\<lambda>n c. 10 * n + digit_val c) 0 cs"

definition atoi :: "string \<Rightarrow> int option" where
  "atoi s = (let t = dropWhile is_space s;
                 neg = (t \<noteq> [] \<and> hd t = CHR ''-'');
                 t = (if t \<noteq> [] \<and> (hd t = CHR ''-'' \<or> hd t = CHR ''+'') then tl t else t);
                 v = digits_val (takeWhile is_digit t);
                 i = (if neg then - v else v)
             in if i32_ok i then Some i else None)"

end
