(* ===== verification/CircleQueue.thy ===== *)
theory CircleQueue
  imports Prelude
begin

text \<open>
  The growing ring buffer \<open>type::CircleQueue\<close> of \<open>single_fs/include/circle_queue.h\<close>, the queue
  that holds the rolling window of the checksums.

  The array \<open>data_\<close> is a function from indices to cells; a cell is \<open>None\<close> until it is written
  (the array comes from \<open>new T[n]\<close>, which leaves it indeterminate), and the allocation has
  \<open>capacity_\<close> cells.  \<open>mem_move\<close> is \<open>memmove\<close> between two allocations, with its bounds.
  \<open>cq_inv\<close> is the class invariant and \<open>cq_list\<close> the abstract content.  The locale \<open>fifo\<close> at the
  end is what the checksums rely on; \<open>cq_steady\<close> is the condition under which this queue
  provides it.
\<close>

section \<open>The data and the operations\<close>

record 'a cqueue =
  cq_data :: "nat \<Rightarrow> 'a option"
  cq_size :: nat
  cq_capacity :: nat
  cq_front :: nat
  cq_end :: nat

definition mem_move ::
  "(nat \<Rightarrow> 'a option) \<Rightarrow> nat \<Rightarrow> nat \<Rightarrow> (nat \<Rightarrow> 'a option) \<Rightarrow> nat \<Rightarrow> nat \<Rightarrow> nat \<Rightarrow> (nat \<Rightarrow> 'a option) option" where
  "mem_move src slen s dst dlen d n =
     (if s + n \<le> slen \<and> d + n \<le> dlen
      then Some (\<lambda>i. if d \<le> i \<and> i < d + n then src (s + (i - d)) else dst i) else None)"

definition fresh_block :: "nat \<Rightarrow> 'a option" where
  "fresh_block = (\<lambda>_. None)"

text \<open>
  \<open>capacity_\<close> is overwritten before the copy, so the two copies of a wrapped queue are computed
  with the new capacity.  A negative count becomes a huge \<open>size_t\<close>, which no allocation covers.
\<close>

definition cq_realloc :: "nat \<Rightarrow> 'a cqueue \<Rightarrow> 'a cqueue option" where
  "cq_realloc new_size q = do {
     require (new_size < 2 ^ 31);
     let origin = cq_data q;
     let old_cap = cq_capacity q;
     d \<leftarrow> (if cq_front q < cq_end q then
             mem_move origin old_cap (cq_front q) fresh_block new_size 0 (cq_size q)
           else if cq_end q < cq_front q then do {
             require (cq_front q \<le> new_size);
             d1 \<leftarrow> mem_move origin old_cap (cq_front q) fresh_block new_size 0
                      (new_size - cq_front q);
             mem_move origin old_cap 0 d1 new_size (new_size - cq_front q) (cq_end q)
           } else Some fresh_block);
     Some (q\<lparr>cq_data := d, cq_capacity := new_size, cq_front := 0, cq_end := cq_size q\<rparr>)
   }"

definition cq_new :: "nat \<Rightarrow> 'a cqueue" where
  "cq_new n = \<lparr>cq_data = fresh_block, cq_size = 0, cq_capacity = n + 10,
                  cq_front = 0, cq_end = 0\<rparr>"

definition cq_push :: "'a \<Rightarrow> 'a cqueue \<Rightarrow> 'a cqueue option" where
  "cq_push t q = do {
     q \<leftarrow> (if cq_capacity q - 1 \<le> cq_size q then cq_realloc (cq_capacity q * 2) q else Some q);
     require (cq_end q < cq_capacity q);
     let q = q\<lparr>cq_data := (cq_data q)(cq_end q := Some t)\<rparr>;
     let q = (if cq_capacity q - 1 \<le> cq_end q then q\<lparr>cq_end := 0\<rparr>
              else q\<lparr>cq_end := cq_end q + 1\<rparr>);
     Some (q\<lparr>cq_size := cq_size q + 1\<rparr>)
   }"

definition cq_pop :: "'a cqueue \<Rightarrow> 'a cqueue option" where
  "cq_pop q =
     (if cq_size q = 0 then Some q
      else do {
        q \<leftarrow> (if cq_size q < cq_capacity q div 3 \<and> 15 < cq_capacity q
              then cq_realloc (cq_capacity q div 2) q else Some q);
        let q = (if cq_capacity q - 1 \<le> cq_front q then q\<lparr>cq_front := 0\<rparr>
                 else q\<lparr>cq_front := cq_front q + 1\<rparr>);
        Some (q\<lparr>cq_size := cq_size q - 1\<rparr>)
      })"

definition cq_first :: "'a cqueue \<Rightarrow> 'a option" where
  "cq_first q = (if cq_front q < cq_capacity q then cq_data q (cq_front q) else None)"

definition cq_clear :: "'a cqueue \<Rightarrow> 'a cqueue" where
  "cq_clear q = q\<lparr>cq_front := 0, cq_size := 0, cq_end := 0\<rparr>"

text \<open>The pointer \<open>GetData\<close> returns is the (re-based) array of the new state.\<close>

definition cq_get_data :: "'a cqueue \<Rightarrow> ('a cqueue \<times> (nat \<Rightarrow> 'a option)) option" where
  "cq_get_data q = do {
     q \<leftarrow> cq_realloc (cq_capacity q) q;
     Some (q, cq_data q)
   }"

section \<open>Invariant and abstraction\<close>

definition cq_cell :: "'a cqueue \<Rightarrow> nat \<Rightarrow> 'a option" where
  "cq_cell q i = cq_data q ((cq_front q + i) mod cq_capacity q)"

definition cq_list :: "'a cqueue \<Rightarrow> 'a list" where
  "cq_list q = map (\<lambda>i. the (cq_cell q i)) [0..<cq_size q]"

definition cq_inv :: "'a cqueue \<Rightarrow> bool" where
  "cq_inv q \<longleftrightarrow>
     0 < cq_capacity q \<and> cq_capacity q < 2 ^ 31 \<and> cq_front q < cq_capacity q \<and>
     cq_size q < cq_capacity q \<and> cq_end q = (cq_front q + cq_size q) mod cq_capacity q \<and>
     (\<forall>i < cq_size q. cq_cell q i \<noteq> None)"

definition cq_wrapped :: "'a cqueue \<Rightarrow> bool" where
  "cq_wrapped q \<longleftrightarrow> cq_end q < cq_front q"

lemma wrap_incr: "e < c \<Longrightarrow> (if c - 1 \<le> e then 0 else e + 1) = Suc e mod (c :: nat)"
  by (cases "Suc e = c") auto

lemma length_cq_list [simp]: "length (cq_list q) = cq_size q"
  by (simp add: cq_list_def)

lemma cq_list_nth: "i < cq_size q \<Longrightarrow> cq_list q ! i = the (cq_cell q i)"
  by (simp add: cq_list_def)

lemma cq_list_eqI:
  assumes "cq_size q = length xs" and "\<And>i. i < length xs \<Longrightarrow> cq_cell q i = Some (xs ! i)"
  shows "cq_list q = xs"
  using assms by (intro nth_equalityI) (simp_all add: cq_list_nth)

lemma cq_inv_cell: "cq_inv q \<Longrightarrow> i < cq_size q \<Longrightarrow> cq_cell q i = Some (cq_list q ! i)"
  by (auto simp: cq_inv_def cq_list_nth)

lemma cq_unwrapped_end:
  assumes "cq_inv q" and "\<not> cq_wrapped q"
  shows "cq_end q = cq_front q + cq_size q" and "cq_front q + cq_size q < cq_capacity q"
proof -
  let ?m = "cq_front q + cq_size q"
  have "?m < cq_capacity q"
  proof (rule ccontr)
    assume "\<not> ?m < cq_capacity q"
    moreover have "?m < 2 * cq_capacity q" using assms(1) by (simp add: cq_inv_def)
    ultimately have "?m mod cq_capacity q = ?m - cq_capacity q"
      by (simp add: mod_if)
    then have "cq_end q < cq_front q"
      using assms(1) \<open>\<not> ?m < cq_capacity q\<close> by (auto simp: cq_inv_def)
    with assms(2) show False by (simp add: cq_wrapped_def)
  qed
  with assms(1) show "cq_front q + cq_size q < cq_capacity q" "cq_end q = ?m"
    by (simp_all add: cq_inv_def)
qed

lemma cq_wrapped_end:
  assumes "cq_inv q" and "cq_wrapped q"
  shows "cq_end q + cq_capacity q = cq_front q + cq_size q"
proof -
  let ?m = "cq_front q + cq_size q"
  have "\<not> ?m < cq_capacity q"
    using assms by (auto simp: cq_inv_def cq_wrapped_def)
  moreover have "?m < 2 * cq_capacity q" using assms(1) by (simp add: cq_inv_def)
  ultimately have "?m mod cq_capacity q = ?m - cq_capacity q"
    by (simp add: mod_if)
  then show ?thesis
    using assms(1) \<open>\<not> ?m < cq_capacity q\<close> by (simp add: cq_inv_def)
qed

section \<open>Reallocation\<close>

text \<open>What a successful reallocation must deliver: the same content, re-based at cell 0.\<close>

lemma cq_rebased:
  assumes "n = cq_size q" and "n < new_size" and "new_size < 2 ^ 31"
    and cells: "\<And>i. i < n \<Longrightarrow> d i = Some (cq_list q ! i)"
  defines "q' \<equiv> q\<lparr>cq_data := d, cq_capacity := new_size, cq_front := 0, cq_end := n\<rparr>"
  shows "cq_inv q'" and "cq_list q' = cq_list q" and "\<not> cq_wrapped q'"
proof -
  have cell: "cq_cell q' i = Some (cq_list q ! i)" if "i < n" for i
    using that assms(1,2) cells by (simp add: cq_cell_def q'_def)
  with assms show "cq_inv q'" and "\<not> cq_wrapped q'"
    by (auto simp: cq_inv_def cq_wrapped_def q'_def)
  show "cq_list q' = cq_list q"
    using cell assms(1) by (intro cq_list_eqI) (simp_all add: q'_def)
qed

lemma cq_realloc_unwrapped:
  assumes inv: "cq_inv q" and uw: "\<not> cq_wrapped q"
    and new: "cq_size q < new_size" "new_size < 2 ^ 31"
  shows "\<exists>q'. cq_realloc new_size q = Some q' \<and> cq_inv q' \<and> cq_list q' = cq_list q \<and>
           \<not> cq_wrapped q' \<and> cq_capacity q' = new_size \<and> cq_size q' = cq_size q"
proof (cases "cq_size q = 0")
  case True
  then have "\<not> cq_front q < cq_end q" and "\<not> cq_end q < cq_front q"
    using cq_unwrapped_end [OF inv uw] by simp_all
  then have "cq_realloc new_size q =
      Some (q\<lparr>cq_data := fresh_block, cq_capacity := new_size, cq_front := 0, cq_end := cq_size q\<rparr>)"
    using new by (simp add: cq_realloc_def Let_def)
  with cq_rebased [OF refl new, of fresh_block] True show ?thesis by simp
next
  case False
  define d where "d = (\<lambda>i. if i < cq_size q then cq_data q (cq_front q + i) else fresh_block i)"
  have e: "cq_end q = cq_front q + cq_size q" and lt: "cq_front q + cq_size q < cq_capacity q"
    using cq_unwrapped_end [OF inv uw] by simp_all
  have "cq_realloc new_size q =
      Some (q\<lparr>cq_data := d, cq_capacity := new_size, cq_front := 0, cq_end := cq_size q\<rparr>)"
    using False e lt new by (simp add: cq_realloc_def Let_def mem_move_def d_def cong: if_cong)
  moreover have "d i = Some (cq_list q ! i)" if "i < cq_size q" for i
    using that lt cq_inv_cell [OF inv that] by (simp add: d_def cq_cell_def)
  ultimately show ?thesis
    using cq_rebased [OF refl new, of d] by auto
qed

text \<open>With the capacity unchanged the two copies of a wrapped queue do fit together.\<close>

lemma cq_realloc_same_capacity:
  assumes inv: "cq_inv q" and w: "cq_wrapped q"
  shows "\<exists>q'. cq_realloc (cq_capacity q) q = Some q' \<and> cq_inv q' \<and> cq_list q' = cq_list q \<and>
           \<not> cq_wrapped q' \<and> cq_capacity q' = cq_capacity q \<and> cq_size q' = cq_size q"
proof -
  let ?c = "cq_capacity q" and ?f = "cq_front q"
  define d where "d = (\<lambda>i. if ?c - ?f \<le> i \<and> i < ?c - ?f + cq_end q then cq_data q (i - (?c - ?f))
      else if i < ?c - ?f then cq_data q (?f + i) else fresh_block i)"
  have e: "cq_end q + ?c = ?f + cq_size q" using cq_wrapped_end [OF inv w] .
  have fc: "?f < ?c" "?c < 2 ^ 31" "cq_size q < ?c" using inv by (simp_all add: cq_inv_def)
  have "cq_realloc ?c q =
      Some (q\<lparr>cq_data := d, cq_capacity := ?c, cq_front := 0, cq_end := cq_size q\<rparr>)"
    using w fc by (simp add: cq_realloc_def Let_def mem_move_def d_def cq_wrapped_def fun_eq_iff)
  moreover have "d i = Some (cq_list q ! i)" if i: "i < cq_size q" for i
  proof (cases "i < ?c - ?f")
    case True
    then have "(?f + i) mod ?c = ?f + i" using fc by simp
    with True cq_inv_cell [OF inv i] show ?thesis by (simp add: d_def cq_cell_def)
  next
    case False
    then have "?f + i = ?c + (i - (?c - ?f))" and "i - (?c - ?f) < ?c" using fc i by simp_all
    then have "(?f + i) mod ?c = i - (?c - ?f)" by (simp only: mod_add_self1 mod_less)
    moreover have "i < ?c - ?f + cq_end q" using False i e fc by simp
    ultimately show ?thesis using False cq_inv_cell [OF inv i] by (simp add: d_def cq_cell_def)
  qed
  ultimately show ?thesis
    using cq_rebased [OF refl fc(3) fc(2), of d] by auto
qed

section \<open>The operations refine a list\<close>

lemma cq_store_end:
  fixes t :: 'a
  assumes inv: "cq_inv q" and room: "cq_size q < cq_capacity q - 1"
  defines "q1 \<equiv> q\<lparr>cq_data := (cq_data q)(cq_end q := Some t)\<rparr>"
  defines "q2 \<equiv> (if cq_capacity q1 - 1 \<le> cq_end q1 then q1\<lparr>cq_end := 0\<rparr>
                 else q1\<lparr>cq_end := cq_end q1 + 1\<rparr>)"
  defines "q3 \<equiv> q2\<lparr>cq_size := cq_size q2 + 1\<rparr>"
  shows "cq_inv q3" and "cq_list q3 = cq_list q @ [t]" and "cq_capacity q3 = cq_capacity q"
    and "cq_front q3 = cq_front q"
proof -
  let ?c = "cq_capacity q" and ?f = "cq_front q" and ?n = "cq_size q"
  have c: "0 < ?c" "?f < ?c" "Suc ?n < ?c" "cq_end q = (?f + ?n) mod ?c" "?c < 2 ^ 31"
    using inv room by (auto simp: cq_inv_def)
  have fields: "cq_front q3 = ?f" "cq_capacity q3 = ?c" "cq_size q3 = ?n + 1"
      "cq_data q3 = (cq_data q)(cq_end q := Some t)"
    by (simp_all add: q3_def q2_def q1_def)
  have "cq_end q3 = (if ?c - 1 \<le> cq_end q then 0 else cq_end q + 1)"
    by (simp add: q3_def q2_def q1_def)
  also have "\<dots> = Suc (cq_end q) mod ?c"
    using c by (intro wrap_incr) simp
  finally have "cq_end q3 = (?f + (?n + 1)) mod ?c"
    by (simp add: c(4) mod_Suc_eq)
  moreover have cell: "cq_cell q3 i = Some ((cq_list q @ [t]) ! i)" if i: "i < ?n + 1" for i
  proof (cases "i = ?n")
    case True
    then show ?thesis by (simp add: cq_cell_def fields c nth_append)
  next
    case False
    then have "i < ?n" using i by simp
    moreover have "(?f + i) mod ?c \<noteq> (?f + ?n) mod ?c"
    proof
      assume "(?f + i) mod ?c = (?f + ?n) mod ?c"
      then have "?c dvd ?n - i"
        using mod_eq_dvd_iff_nat [of "?f + i" "?f + ?n" ?c] \<open>i < ?n\<close> by simp
      then show False using \<open>i < ?n\<close> c by (auto dest: dvd_imp_le)
    qed
    ultimately show ?thesis
      using cq_inv_cell [OF inv] by (simp add: cq_cell_def fields c nth_append)
  qed
  ultimately show "cq_inv q3" and "cq_list q3 = cq_list q @ [t]"
    using c by (auto simp: cq_inv_def fields intro!: cq_list_eqI)
  show "cq_capacity q3 = ?c" and "cq_front q3 = ?f" by (simp_all add: fields)
qed

lemma cq_push_no_growth:
  assumes inv: "cq_inv q" and room: "cq_size q < cq_capacity q - 1"
  shows "\<exists>q'. cq_push t q = Some q' \<and> cq_inv q' \<and> cq_list q' = cq_list q @ [t] \<and>
           cq_capacity q' = cq_capacity q \<and> cq_front q' = cq_front q"
proof -
  have "cq_end q < cq_capacity q" using inv by (auto simp: cq_inv_def)
  with cq_store_end [OF inv room, of t] room show ?thesis
    by (auto simp: cq_push_def Let_def)
qed

lemma cq_push_growth:
  assumes inv: "cq_inv q" and uw: "\<not> cq_wrapped q" and full: "cq_capacity q - 1 \<le> cq_size q"
    and lim: "2 * cq_capacity q < 2 ^ 31"
  shows "\<exists>q'. cq_push t q = Some q' \<and> cq_inv q' \<and> cq_list q' = cq_list q @ [t]"
proof -
  have size: "cq_size q = cq_capacity q - 1" "0 < cq_capacity q"
    using inv full by (auto simp: cq_inv_def)
  then obtain q1 where q1: "cq_realloc (cq_capacity q * 2) q = Some q1" "cq_inv q1"
      "cq_list q1 = cq_list q" "cq_capacity q1 = cq_capacity q * 2" "cq_size q1 = cq_size q"
    using cq_realloc_unwrapped [OF inv uw, of "cq_capacity q * 2"] lim by fastforce
  have room: "cq_size q1 < cq_capacity q1 - 1" using q1 size by simp
  have "cq_end q1 < cq_capacity q1" using q1(2) by (auto simp: cq_inv_def)
  with cq_store_end [OF q1(2) room, of t] q1 full show ?thesis
    by (auto simp: cq_push_def Let_def)
qed

lemma cq_advance:
  assumes inv: "cq_inv q" and ne: "0 < cq_size q"
  defines "q1 \<equiv> (if cq_capacity q - 1 \<le> cq_front q then q\<lparr>cq_front := 0\<rparr>
                 else q\<lparr>cq_front := cq_front q + 1\<rparr>)"
  defines "q2 \<equiv> q1\<lparr>cq_size := cq_size q1 - 1\<rparr>"
  shows "cq_inv q2" and "cq_list q2 = tl (cq_list q)" and "cq_capacity q2 = cq_capacity q"
proof -
  let ?c = "cq_capacity q" and ?f = "cq_front q" and ?n = "cq_size q"
  have c: "0 < ?c" "?f < ?c" "?n < ?c" "cq_end q = (?f + ?n) mod ?c" "?c < 2 ^ 31"
    using inv by (auto simp: cq_inv_def)
  have "cq_front q2 = (if ?c - 1 \<le> ?f then 0 else ?f + 1)"
    by (simp add: q2_def q1_def)
  then have f2: "cq_front q2 = Suc ?f mod ?c"
    using wrap_incr [OF c(2)] by simp
  have fields: "cq_capacity q2 = ?c" "cq_size q2 = ?n - 1" "cq_data q2 = cq_data q"
      "cq_end q2 = cq_end q"
    by (simp_all add: q2_def q1_def)
  have cell: "cq_cell q2 i = cq_cell q (Suc i)" for i
    by (simp add: cq_cell_def fields f2 mod_add_left_eq)
  have "cq_end q2 = (Suc ?f + (?n - 1)) mod ?c"
    using c ne by (simp add: fields)
  then have "cq_end q2 = (cq_front q2 + cq_size q2) mod cq_capacity q2"
    by (simp only: fields f2 mod_add_left_eq)
  then show "cq_inv q2"
    using c ne inv by (auto simp: cq_inv_def fields f2 cell)
  show "cq_list q2 = tl (cq_list q)"
    using ne cq_inv_cell [OF inv] by (intro cq_list_eqI) (auto simp: fields cell nth_tl)
  show "cq_capacity q2 = ?c" by (simp add: fields)
qed

lemma cq_pop_no_shrink:
  assumes inv: "cq_inv q" and "0 < cq_size q"
    and "cq_capacity q div 3 \<le> cq_size q \<or> cq_capacity q \<le> 15"
  shows "\<exists>q'. cq_pop q = Some q' \<and> cq_inv q' \<and> cq_list q' = tl (cq_list q) \<and>
           cq_capacity q' = cq_capacity q"
  using cq_advance [OF inv assms(2)] assms by (auto simp: cq_pop_def Let_def)

lemma cq_pop_shrink:
  assumes inv: "cq_inv q" and uw: "\<not> cq_wrapped q" and ne: "0 < cq_size q"
    and small: "cq_size q < cq_capacity q div 3" "15 < cq_capacity q"
  shows "\<exists>q'. cq_pop q = Some q' \<and> cq_inv q' \<and> cq_list q' = tl (cq_list q) \<and>
           cq_capacity q' = cq_capacity q div 2 \<and> cq_front q' = 1"
proof -
  have "cq_capacity q < 2 ^ 31" using inv by (simp add: cq_inv_def)
  then obtain q1 where q1: "cq_realloc (cq_capacity q div 2) q = Some q1" "cq_inv q1"
      "cq_list q1 = cq_list q" "\<not> cq_wrapped q1" "cq_capacity q1 = cq_capacity q div 2"
      "cq_size q1 = cq_size q"
    using cq_realloc_unwrapped [OF inv uw, of "cq_capacity q div 2"] small by fastforce
  have f1: "cq_front q1 = 0" using q1(1) by (auto simp: cq_realloc_def Let_def bind_eq_Some_conv)
  have ne1: "0 < cq_size q1" using ne q1 by simp
  have two: "cq_front q1 < cq_capacity q1 - 1" using f1 q1 small by simp
  from cq_advance [OF q1(2) ne1] q1 small ne f1 two show ?thesis
    by (auto simp: cq_pop_def Let_def)
qed

lemma cq_first_ok: "cq_inv q \<Longrightarrow> cq_list q = x # xs \<Longrightarrow> cq_first q = Some x"
proof -
  assume inv: "cq_inv q" and l: "cq_list q = x # xs"
  then have "0 < cq_size q" by (metis length_cq_list length_greater_0_conv list.discI)
  with inv l cq_inv_cell [OF inv, of 0] show ?thesis
    by (simp add: cq_first_def cq_inv_def cq_cell_def)
qed

lemma cq_new_inv: "n + 10 < 2 ^ 31 \<Longrightarrow> cq_inv (cq_new n) \<and> cq_list (cq_new n) = []"
  by (simp add: cq_inv_def cq_new_def cq_list_def)

lemma cq_clear_inv: "cq_inv q \<Longrightarrow> cq_inv (cq_clear q) \<and> cq_list (cq_clear q) = []"
  by (simp add: cq_inv_def cq_clear_def cq_list_def)

lemma cq_get_data_ok:
  assumes "cq_inv q"
  shows "\<exists>q' d. cq_get_data q = Some (q', d) \<and> cq_inv q' \<and> cq_list q' = cq_list q \<and>
           (\<forall>i < cq_size q. d i = Some (cq_list q ! i))"
proof -
  have cap: "cq_size q < cq_capacity q" "cq_capacity q < 2 ^ 31"
    using assms by (simp_all add: cq_inv_def)
  obtain q' where q': "cq_realloc (cq_capacity q) q = Some q'" "cq_inv q'" "cq_list q' = cq_list q"
      "cq_size q' = cq_size q"
    using cq_realloc_unwrapped [OF assms _ cap] cq_realloc_same_capacity [OF assms] by blast
  have "cq_front q' = 0"
    using q'(1) by (auto simp: cq_realloc_def Let_def bind_eq_Some_conv)
  then have "cq_data q' i = Some (cq_list q ! i)" if "i < cq_size q" for i
    using that q' cq_inv_cell [OF q'(2), of i] by (simp add: cq_cell_def cq_inv_def)
  with q' show ?thesis by (simp add: cq_get_data_def)
qed

section \<open>Where reallocation fails\<close>

text \<open>
  Growing a full wrapped queue reads past the end of the old array; shrinking a wrapped one
  computes a negative copy count.
\<close>

lemma cq_push_wrapped_full:
  assumes "cq_inv q" and "cq_wrapped q" and "cq_capacity q - 1 \<le> cq_size q"
  shows "cq_push t q = None"
proof -
  have "\<not> (cq_front q + (cq_capacity q * 2 - cq_front q) \<le> cq_capacity q)"
    using assms(1) by (simp add: cq_inv_def)
  then have "cq_realloc (cq_capacity q * 2) q = None"
    using assms(1,2) by (simp add: cq_realloc_def Let_def mem_move_def cq_wrapped_def cq_inv_def
        require_def)
  with assms(3) show ?thesis by (simp add: cq_push_def)
qed

lemma cq_pop_wrapped_small:
  assumes inv: "cq_inv q" and w: "cq_wrapped q" and ne: "0 < cq_size q"
    and small: "cq_size q < cq_capacity q div 3" "15 < cq_capacity q"
  shows "cq_pop q = None"
proof -
  have "\<not> cq_front q \<le> cq_capacity q div 2"
    using cq_wrapped_end [OF inv w] small inv by (simp add: cq_inv_def)
  then have "cq_realloc (cq_capacity q div 2) q = None"
    using w by (simp add: cq_realloc_def Let_def cq_wrapped_def require_def)
  with ne small show ?thesis by (simp add: cq_pop_def)
qed

section \<open>The interface of the checksums\<close>

text \<open>
  A bounded first-in first-out buffer for a window of \<open>L\<close> items: it takes items while it holds
  at most \<open>L\<close>, and gives up the oldest one when it holds \<open>L + 1\<close>.
\<close>

locale fifo =
  fixes push :: "'a \<Rightarrow> 'q \<Rightarrow> 'q option"
    and pop :: "'q \<Rightarrow> 'q option"
    and first :: "'q \<Rightarrow> 'a option"
    and items :: "'q \<Rightarrow> 'a list"
    and fit :: "nat \<Rightarrow> 'q \<Rightarrow> bool"
  assumes push_law: "fit L q \<Longrightarrow> length (items q) \<le> L \<Longrightarrow>
      \<exists>q'. push x q = Some q' \<and> fit L q' \<and> items q' = items q @ [x]"
    and pop_law: "fit L q \<Longrightarrow> length (items q) = Suc L \<Longrightarrow>
      \<exists>q'. pop q = Some q' \<and> fit L q' \<and> items q' = tl (items q)"
    and first_law: "fit L q \<Longrightarrow> items q = x # xs \<Longrightarrow> first q = Some x"
begin

lemma push_list:
  "fit L q \<Longrightarrow> length (items q) + length xs \<le> Suc L \<Longrightarrow>
     \<exists>q'. foldM push xs q = Some q' \<and> fit L q' \<and> items q' = items q @ xs"
proof (induction xs arbitrary: q)
  case Nil
  then show ?case by simp
next
  case (Cons x xs)
  then obtain q1 where "push x q = Some q1" "fit L q1" "items q1 = items q @ [x]"
    using push_law [of L q x] by auto
  with Cons.IH [of q1] Cons.prems show ?case by auto
qed

lemma slide:
  assumes "fit L q" and "length (items q) = L"
  shows "\<exists>q1 q2. push x q = Some q1 \<and> first q1 = Some (hd (items q @ [x])) \<and> pop q1 = Some q2 \<and>
           fit L q2 \<and> items q2 = tl (items q @ [x])"
proof -
  obtain q1 where q1: "push x q = Some q1" "fit L q1" "items q1 = items q @ [x]"
    using push_law assms by fastforce
  then obtain q2 where "pop q1 = Some q2" "fit L q2" "items q2 = tl (items q1)"
    using pop_law [of L q1] assms by auto
  moreover have "first q1 = Some (hd (items q1))"
    using q1 first_law [of L q1 "hd (items q1)" "tl (items q1)"] by (cases "items q1") auto
  ultimately show ?thesis using q1 by auto
qed

end

text \<open>
  The ring buffer provides it: while the array is more than three times too large the front is at
  cell 0 or 1, so every shrinking reallocation finds an unwrapped queue, and afterwards there is
  no reallocation at all.
\<close>

definition cq_steady :: "nat \<Rightarrow> 'a cqueue \<Rightarrow> bool" where
  "cq_steady L q \<longleftrightarrow>
     cq_inv q \<and> L + 2 < cq_capacity q \<and>
     (cq_front q \<le> 1 \<or> cq_capacity q div 3 \<le> Suc L \<or> cq_capacity q \<le> 15)"

lemma cq_steady_pop:
  assumes st: "cq_steady L q" and n: "cq_size q = Suc L"
  shows "\<exists>q'. cq_pop q = Some q' \<and> cq_steady L q' \<and> cq_list q' = tl (cq_list q)"
proof (cases "cq_size q < cq_capacity q div 3 \<and> 15 < cq_capacity q")
  case True
  then have "cq_front q \<le> 1" and inv: "cq_inv q" using st n by (auto simp: cq_steady_def)
  moreover have "\<not> cq_wrapped q"
  proof
    assume "cq_wrapped q"
    with cq_wrapped_end [OF inv] have "cq_end q + cq_capacity q = cq_front q + cq_size q" .
    with \<open>cq_front q \<le> 1\<close> True show False by linarith
  qed
  ultimately show ?thesis
    using cq_pop_shrink [OF inv] True n by (fastforce simp: cq_steady_def)
next
  case False
  with st n cq_pop_no_shrink [of q] show ?thesis by (fastforce simp: cq_steady_def)
qed

interpretation ring: fifo cq_push cq_pop cq_first cq_list cq_steady
proof unfold_locales
  fix L and q :: "'a cqueue" and x
  assume "cq_steady L q" and "length (cq_list q) \<le> L"
  then show "\<exists>q'. cq_push x q = Some q' \<and> cq_steady L q' \<and> cq_list q' = cq_list q @ [x]"
    using cq_push_no_growth [of q x] by (fastforce simp: cq_steady_def)
next
  fix L and q :: "'a cqueue"
  assume "cq_steady L q" and "length (cq_list q) = Suc L"
  then show "\<exists>q'. cq_pop q = Some q' \<and> cq_steady L q' \<and> cq_list q' = tl (cq_list q)"
    using cq_steady_pop by simp
next
  fix L and q :: "'a cqueue" and x xs
  assume "cq_steady L q" and "cq_list q = x # xs"
  then show "cq_first q = Some x" by (simp add: cq_steady_def cq_first_ok)
qed

lemma cq_new_steady: "L < n + 8 \<Longrightarrow> n + 10 < 2 ^ 31 \<Longrightarrow> cq_steady L (cq_new n)"
  using cq_new_inv [of n] unfolding cq_steady_def by (auto simp: cq_new_def)

lemma cq_clear_steady: "cq_steady L q \<Longrightarrow> cq_steady L (cq_clear q) \<and> cq_list (cq_clear q) = []"
  using cq_clear_inv [of q] by (auto simp: cq_steady_def) (auto simp: cq_clear_def)

text \<open>The library queues \<open>std::list\<close> and \<open>std::queue\<close> are plain lists.\<close>

definition sq_push :: "'a \<Rightarrow> 'a list \<Rightarrow> 'a list option" where
  "sq_push x q = Some (q @ [x])"

definition sq_pop :: "'a list \<Rightarrow> 'a list option" where
  "sq_pop q = (case q of [] \<Rightarrow> None | _ # xs \<Rightarrow> Some xs)"

definition sq_first :: "'a list \<Rightarrow> 'a option" where
  "sq_first q = (case q of [] \<Rightarrow> None | x # _ \<Rightarrow> Some x)"

interpretation std: fifo sq_push sq_pop sq_first "\<lambda>q. q" "\<lambda>L q. True"
  by unfold_locales (auto simp: sq_push_def sq_pop_def sq_first_def split: list.splits)

end
