(* ===== verification/Checksum.thy ===== *)
theory Checksum
  imports CircleQueue
begin

text \<open>
  The checksum classes of \<open>single_fs/librsync\<close>: \<open>Checksum\<close>, \<open>Checksum1\<close> and \<open>Checksum2\<close> (a
  polynomial hash modulo \<open>2 ^ 32\<close>, over a \<open>std::list\<close>, a \<open>std::queue\<close> and a \<open>CircleQueue\<close>) and
  \<open>Checksum3\<close> (the two 16-bit sums of rsync, the class the programs use as \<open>SUMMER\<close>).

  The locale \<open>basesum\<close> is the abstract class of \<open>basesum.h\<close> with the law its users rely on: after
  \<open>Init\<close>, each \<open>Update\<close> slides the window by one byte and \<open>tmp_sum\<close> is \<open>Sum1\<close> of the window.
  It is interpreted on each of the four classes.

  MD4 is code of OpenSSL.  For the three classes that call \<open>MD4_Init\<close>, \<open>MD4_Update\<close> and
  \<open>MD4_Final\<close> in a row it is a parameter \<open>md4\<close> from a message to its 16 bytes; for \<open>Checksum\<close>,
  which keeps one context across calls, the three functions are parameters of their own.
\<close>

section \<open>The polynomial hash\<close>

definition PRIME :: u32 where
  "PRIME = 49667"

definition poly_step :: "u32 \<Rightarrow> byte \<Rightarrow> u32" where
  "poly_step ret b = ret * PRIME + ucast b"

text \<open>The reference: the bytes are the coefficients, the first one the leading coefficient.\<close>

fun poly_ref :: "byte list \<Rightarrow> u32" where
  "poly_ref [] = 0"
| "poly_ref (b # bs) = ucast b * PRIME ^ length bs + poly_ref bs"

lemma foldl_poly_step: "foldl poly_step r bs = r * PRIME ^ length bs + poly_ref bs"
  by (induction bs arbitrary: r) (simp_all add: poly_step_def algebra_simps)

lemma poly_ref_snoc: "poly_ref (bs @ [b]) = poly_ref bs * PRIME + ucast b"
  using foldl_poly_step [of 0 "bs @ [b]"] foldl_poly_step [of 0 bs]
  by (simp add: poly_step_def)

lemma poly_roll:
  "poly_ref (tl (x # xs @ [b])) =
     poly_ref (x # xs) * PRIME + ucast b - ucast x * PRIME ^ Suc (length xs)"
  by (simp add: poly_ref_snoc algebra_simps)

text \<open>The loops that build \<open>power_map_\<close>.\<close>

definition length_power_prime :: "int \<Rightarrow> u32" where
  "length_power_prime len = ((\<lambda>p. p * PRIME) ^^ nat len) 1"

definition power_table :: "int \<Rightarrow> u32 list" where
  "power_table len = map (\<lambda>i. of_nat i * length_power_prime len) [0..<256]"

lemma length_power_prime_eq: "length_power_prime (int n) = PRIME ^ n"
  by (induction n) (simp_all add: length_power_prime_def nat_add_distrib mult.commute)

lemma unat_lt_256: "unat (x :: byte) < 256"
proof -
  have "unat x < 2 ^ LENGTH(8)" by (rule unsigned_less)
  then show ?thesis by simp
qed

lemma power_table_peek: "peek (power_table (int n)) (unat (x :: byte)) = Some (ucast x * PRIME ^ n)"
proof -
  have "unat x < 256" using unat_lt_256 [of x] by simp
  moreover have "of_nat (unat x) = (ucast x :: u32)" by simp
  ultimately show ?thesis
    by (simp add: peek_def power_table_def length_power_prime_eq)
qed

section \<open>The strong sum as text\<close>

definition hex_digit :: "byte \<Rightarrow> byte" where
  "hex_digit d = (if d < 10 then 48 + d else 55 + d)"

definition hex2 :: "byte \<Rightarrow> byte list" where
  "hex2 b = [hex_digit (drop_bit 4 b), hex_digit (b AND 15)]"

definition hex_string :: "byte list \<Rightarrow> byte list" where
  "hex_string md = concat (map hex2 (take 16 md))"

lemma unat_hex_digit:
  assumes "d < 16"
  shows "unat (hex_digit d) = (if unat d < 10 then 48 + unat d else 55 + unat d)"
proof -
  have "unat d < 16" using assms by (simp add: word_less_nat_alt)
  then show ?thesis
    by (simp add: hex_digit_def unat_word_ariths word_less_nat_alt)
qed

lemma hex_digit_inj:
  assumes "hex_digit d = hex_digit e" and "d < 16" and "e < 16"
  shows "d = e"
proof -
  have "unat (hex_digit d) = unat (hex_digit e)" using assms(1) by simp
  then have "unat d = unat e"
    using assms(2,3) by (simp add: unat_hex_digit split: if_splits)
  then show ?thesis by (simp add: word_unat_eq_iff)
qed

lemma hex_digit_nonzero: "d < 16 \<Longrightarrow> hex_digit d \<noteq> 0"
  using unat_hex_digit [of d] by (auto split: if_splits)

lemma byte_nibbles: "push_bit 4 (drop_bit 4 b) OR (b AND 15) = (b :: byte)"
proof (rule bit_word_eqI)
  fix n
  have m: "(15 :: byte) = mask 4" by (simp add: mask_eq_exp_minus_1)
  show "bit (push_bit 4 (drop_bit 4 b) OR (b AND 15)) n = bit b n" if "n < LENGTH(8)"
    unfolding m using that by (auto simp: bit_simps)
qed

lemma nibble_bounds: "x AND 15 < 16" "drop_bit 4 x < 16" for x :: byte
proof -
  have "x AND 15 \<le> 15" by (rule word_and_le1)
  then show "x AND 15 < 16" by (rule order_le_less_trans) simp
  have "unat (x div 16) = unat x div unat (16 :: byte)" by (rule unat_div_distrib)
  then have "unat (x div 16) < 16" using unat_lt_256 [of x] by simp
  then show "drop_bit 4 x < 16"
    by (simp add: drop_bit_eq_div word_less_nat_alt)
qed

lemma hex2_inj:
  assumes "hex2 a = hex2 b"
  shows "a = b"
proof -
  have eq: "hex_digit (drop_bit 4 a) = hex_digit (drop_bit 4 b)"
      "hex_digit (a AND 15) = hex_digit (b AND 15)"
    using assms by (simp_all only: hex2_def list.inject)
  have "drop_bit 4 a = drop_bit 4 b"
    using hex_digit_inj [OF eq(1) nibble_bounds(2) nibble_bounds(2)] .
  moreover have "a AND 15 = b AND 15"
    using hex_digit_inj [OF eq(2) nibble_bounds(1) nibble_bounds(1)] .
  ultimately show "a = b" by (metis byte_nibbles)
qed

lemma concat_hex2_inj: "concat (map hex2 xs) = concat (map hex2 ys) \<Longrightarrow> xs = ys"
proof (induction xs arbitrary: ys)
  case Nil
  then show ?case by (cases ys) (simp_all add: hex2_def)
next
  case (Cons x xs)
  then obtain y zs where ys: "ys = y # zs"
    by (cases ys) (simp_all add: hex2_def)
  have "length (hex2 x) = length (hex2 y)" by (simp add: hex2_def)
  with Cons.prems ys have "hex2 x = hex2 y" and "concat (map hex2 xs) = concat (map hex2 zs)"
    by simp_all
  with Cons.IH hex2_inj ys show ?case by blast
qed

lemma hex_string_inj:
  "length a = 16 \<Longrightarrow> length b = 16 \<Longrightarrow> hex_string a = hex_string b \<Longrightarrow> a = b"
  using concat_hex2_inj by (fastforce simp: hex_string_def)

lemma length_hex_string: "length a = 16 \<Longrightarrow> length (hex_string a) = 32"
  by (simp add: hex_string_def length_concat comp_def hex2_def sum_list_triv)

section \<open>The abstract class Basesum\<close>

text \<open>
  \<open>window\<close> is the content of the queue, \<open>ready L\<close> says that the object can be initialised with a
  chunk of length \<open>L\<close>, \<open>live L\<close> that it has been and was only updated since.
\<close>

locale basesum =
  fixes sum1 :: "byte list \<Rightarrow> int \<Rightarrow> u32 option"
    and init :: "byte list \<Rightarrow> int \<Rightarrow> 's \<Rightarrow> 's option"
    and tmp_sum :: "'s \<Rightarrow> u32"
    and update :: "byte \<Rightarrow> 's \<Rightarrow> 's option"
    and window :: "'s \<Rightarrow> byte list"
    and ready :: "nat \<Rightarrow> 's \<Rightarrow> bool"
    and live :: "nat \<Rightarrow> 's \<Rightarrow> bool"
  assumes init_law: "ready L s \<Longrightarrow> 0 < L \<Longrightarrow> load buf 0 L = Some w \<Longrightarrow>
      \<exists>s'. init buf (int L) s = Some s' \<and> live L s' \<and> window s' = w"
    and update_law: "live L s \<Longrightarrow>
      \<exists>s'. update b s = Some s' \<and> live L s' \<and> window s' = tl (window s @ [b])"
    and live_sum: "live L s \<Longrightarrow> length (window s) = L \<and> sum1 (window s) (int L) = Some (tmp_sum s)"
    and live_ready: "live L s \<Longrightarrow> ready L s"
begin

lemma roll:
  assumes "live L s" and "0 < L"
  shows "\<exists>s'. foldM update xs s = Some s' \<and> live L s' \<and>
           window s' = drop (length xs) (window s @ xs) \<and>
           sum1 (drop (length xs) (window s @ xs)) (int L) = Some (tmp_sum s')"
  using assms(1)
proof (induction xs arbitrary: s)
  case Nil
  then show ?case using live_sum by simp
next
  case (Cons x xs)
  from update_law [OF Cons.prems, of x] obtain s1 where
    s1: "update x s = Some s1" "live L s1" "window s1 = tl (window s @ [x])" by blast
  obtain w ws where "window s = w # ws"
    using live_sum [OF Cons.prems] assms(2) by (cases "window s") auto
  then have "drop (length xs) (window s1 @ xs) = drop (length (x # xs)) (window s @ x # xs)"
    by (simp add: s1(3))
  with Cons.IH [OF s1(2)] s1(1) show ?case by simp
qed

lemma init_roll:
  assumes "ready L s" and "0 < L" and "L \<le> length buf"
  shows "\<exists>s0 s'. init buf (int L) s = Some s0 \<and> foldM update xs s0 = Some s' \<and> live L s' \<and>
           sum1 (drop (length xs) (take L buf @ xs)) (int L) = Some (tmp_sum s')"
proof -
  have "load buf 0 L = Some (take L buf)" using assms(3) by (simp add: load_def)
  from init_law [OF assms(1,2) this] obtain s0 where
    "init buf (int L) s = Some s0" "live L s0" "window s0 = take L buf" by blast
  with roll [OF \<open>live L s0\<close> assms(2), of xs] show ?thesis by auto
qed

end

section \<open>Checksum: a std::list and one MD4 context\<close>

record 'ctx md4_api =
  MD4_Init :: 'ctx
  MD4_Update :: "'ctx \<Rightarrow> byte list \<Rightarrow> 'ctx"
  MD4_Final :: "'ctx \<Rightarrow> byte list \<times> 'ctx"

record 'ctx checksum =
  ck_buf_list :: "byte list"
  ck_power_map :: "u32 list option"
  ck_length :: int
  ck_tmp_sum :: u32
  ck_ctx :: "'ctx option"

definition Checksum_new :: "'ctx checksum" where
  "Checksum_new = \<lparr>ck_buf_list = [], ck_power_map = None, ck_length = 0, ck_tmp_sum = 0,
                   ck_ctx = None\<rparr>"

definition Checksum_Sum1 :: "byte list \<Rightarrow> int \<Rightarrow> u32 option" where
  "Checksum_Sum1 buf1 len = do {
     b0 \<leftarrow> peek buf1 0;
     rest \<leftarrow> load buf1 1 (nat (len - 1));
     Some (foldl poly_step (ucast b0) rest)
   }"

definition Checksum_Init ::
  "'ctx md4_api \<Rightarrow> byte list \<Rightarrow> int \<Rightarrow> 'ctx checksum \<Rightarrow> 'ctx checksum option" where
  "Checksum_Init api buf len c = do {
     let c = c\<lparr>ck_length := len, ck_ctx := Some (MD4_Init api)\<rparr>;
     let c = (case ck_power_map c of
                None \<Rightarrow> c\<lparr>ck_power_map := Some (power_table (ck_length c))\<rparr> | Some _ \<Rightarrow> c);
     b0 \<leftarrow> peek buf 0;
     rest \<leftarrow> load buf 1 (nat (ck_length c - 1));
     q \<leftarrow> foldM sq_push (b0 # rest) [];
     Some (c\<lparr>ck_buf_list := q, ck_tmp_sum := foldl poly_step (ucast b0) rest\<rparr>)
   }"

text \<open>The value \<open>Update\<close> returns is \<open>tmp_sum_\<close> of the new state.\<close>

definition Checksum_Update :: "byte \<Rightarrow> 'ctx checksum \<Rightarrow> 'ctx checksum option" where
  "Checksum_Update nxt c = do {
     q \<leftarrow> sq_push nxt (ck_buf_list c);
     let t = ck_tmp_sum c * PRIME;
     let t = t + ucast nxt;
     pm \<leftarrow> ck_power_map c;
     f \<leftarrow> sq_first q;
     pw \<leftarrow> peek pm (unat f);
     let t = t - pw;
     q \<leftarrow> sq_pop q;
     Some (c\<lparr>ck_buf_list := q, ck_tmp_sum := t\<rparr>)
   }"

definition Checksum_StrongSum ::
  "'ctx md4_api \<Rightarrow> byte list \<Rightarrow> int \<Rightarrow> 'ctx checksum \<Rightarrow> (byte list \<times> 'ctx checksum) option" where
  "Checksum_StrongSum api dat len c = do {
     ctx \<leftarrow> ck_ctx c;
     require (0 \<le> len);
     msg \<leftarrow> load dat 0 (nat len);
     let (md, ctx) = MD4_Final api (MD4_Update api ctx msg);
     Some (hex_string md, c\<lparr>ck_ctx := Some ctx\<rparr>)
   }"

text \<open>The shared arithmetic of the three polynomial classes.\<close>

lemma poly_window:
  assumes "0 < L" and "load buf 0 L = Some w"
  obtains b0 rest where "peek buf 0 = Some b0" and "load buf 1 (nat (int L - 1)) = Some rest"
    and "w = b0 # rest" and "foldl poly_step (ucast b0) rest = poly_ref w" and "length w = L"
proof -
  have w: "w = take L buf" "L \<le> length buf" using assms(2) by (auto simp: load_def split: if_splits)
  then obtain b0 bs where buf: "buf = b0 # bs" using assms(1) by (cases buf) auto
  have "nat (int L - 1) = L - 1" using assms(1) by simp
  with w buf have "load buf 1 (nat (int L - 1)) = Some (take (L - 1) bs)"
    using assms(1) by (simp add: load_def)
  moreover have "w = b0 # take (L - 1) bs" using w buf assms(1) by (cases L) simp_all
  moreover have "peek buf 0 = Some b0" using buf by (simp add: peek_def)
  moreover have "foldl poly_step (ucast b0) r = poly_ref (b0 # r)" for r
    by (simp add: foldl_poly_step)
  moreover have "length w = L" using w by simp
  ultimately show ?thesis using that by metis
qed

lemma poly_update:
  assumes "length w = L" and "0 < L"
  shows "poly_ref w * PRIME + ucast b - ucast (hd (w @ [b])) * PRIME ^ L = poly_ref (tl (w @ [b]))"
  using assms poly_roll [of "hd w" "tl w" b] by (cases w) auto

definition ck_live :: "nat \<Rightarrow> 'ctx checksum \<Rightarrow> bool" where
  "ck_live L c \<longleftrightarrow> 0 < L \<and> length (ck_buf_list c) = L \<and>
     ck_power_map c = Some (power_table (int L)) \<and> ck_tmp_sum c = poly_ref (ck_buf_list c)"

text \<open>\<open>power_map_\<close> is built once and kept, so a later \<open>Init\<close> must have the same length.\<close>

definition ck_ready :: "nat \<Rightarrow> 'ctx checksum \<Rightarrow> bool" where
  "ck_ready L c \<longleftrightarrow> ck_power_map c = None \<or> ck_power_map c = Some (power_table (int L))"

lemma foldM_sq_push: "foldM sq_push xs q = Some (q @ xs)"
  by (induction xs arbitrary: q) (simp_all add: sq_push_def)

lemma poly_Sum1: "0 < length w \<Longrightarrow> Checksum_Sum1 w (int (length w)) = Some (poly_ref w)"
  by (cases w) (simp_all add: Checksum_Sum1_def peek_def load_def foldl_poly_step)

interpretation checksum: basesum Checksum_Sum1 "Checksum_Init api" ck_tmp_sum Checksum_Update
  ck_buf_list ck_ready ck_live
  for api :: "'ctx md4_api"
proof unfold_locales
  fix L and s :: "'ctx checksum" and buf w :: "byte list"
  assume r: "ck_ready L s" and L: "0 < L" and w: "load buf 0 L = Some w"
  from poly_window [OF L w] obtain b0 rest where b:
    "peek buf 0 = Some b0" "load buf 1 (nat (int L - 1)) = Some rest" "w = b0 # rest"
    "foldl poly_step (ucast b0) rest = poly_ref w" "length w = L" by blast
  then show "\<exists>s'. Checksum_Init api buf (int L) s = Some s' \<and> ck_live L s' \<and> ck_buf_list s' = w"
    using r L by (auto simp: Checksum_Init_def Let_def foldM_sq_push sq_push_def
        ck_live_def ck_ready_def)
next
  fix L b and s :: "'ctx checksum"
  assume l: "ck_live L s"
  then obtain x xs where "ck_buf_list s = x # xs"
    by (cases "ck_buf_list s") (auto simp: ck_live_def)
  then show "\<exists>s'. Checksum_Update b s = Some s' \<and> ck_live L s' \<and>
      ck_buf_list s' = tl (ck_buf_list s @ [b])"
    using l poly_update [of "ck_buf_list s" L b]
    by (auto simp: Checksum_Update_def Let_def ck_live_def sq_push_def sq_pop_def sq_first_def
        power_table_peek)
next
  fix L and s :: "'ctx checksum"
  assume "ck_live L s"
  then show "length (ck_buf_list s) = L \<and>
      Checksum_Sum1 (ck_buf_list s) (int L) = Some (ck_tmp_sum s)"
    using poly_Sum1 [of "ck_buf_list s"] by (auto simp: ck_live_def)
  from \<open>ck_live L s\<close> show "ck_ready L s" by (simp add: ck_live_def ck_ready_def)
qed

section \<open>Checksum1: a std::queue\<close>

record checksum1 =
  ck1_buf_list :: "byte list"
  ck1_power_map :: "u32 list option"
  ck1_length :: int
  ck1_tmp_sum :: u32

definition Checksum1_new :: checksum1 where
  "Checksum1_new = \<lparr>ck1_buf_list = [], ck1_power_map = None, ck1_length = 0, ck1_tmp_sum = 0\<rparr>"

definition Checksum1_Sum1 :: "byte list \<Rightarrow> int \<Rightarrow> u32 option" where
  "Checksum1_Sum1 buf1 len = do {
     b0 \<leftarrow> peek buf1 0;
     rest \<leftarrow> load buf1 1 (nat (len - 1));
     Some (foldl poly_step (ucast b0) rest)
   }"

text \<open>\<open>Clear\<close> pops until the queue is empty.\<close>

fun Checksum1_clear_loop :: "byte list \<Rightarrow> byte list" where
  "Checksum1_clear_loop [] = []"
| "Checksum1_clear_loop (_ # q) = Checksum1_clear_loop q"

definition Checksum1_Clear :: "checksum1 \<Rightarrow> checksum1" where
  "Checksum1_Clear c = c\<lparr>ck1_buf_list := Checksum1_clear_loop (ck1_buf_list c)\<rparr>"

definition Checksum1_Init :: "byte list \<Rightarrow> int \<Rightarrow> checksum1 \<Rightarrow> checksum1 option" where
  "Checksum1_Init buf len c = do {
     let c = c\<lparr>ck1_length := len\<rparr>;
     let c = (case ck1_power_map c of
                None \<Rightarrow> c\<lparr>ck1_power_map := Some (power_table (ck1_length c))\<rparr> | Some _ \<Rightarrow> c);
     let c = Checksum1_Clear c;
     b0 \<leftarrow> peek buf 0;
     rest \<leftarrow> load buf 1 (nat (ck1_length c - 1));
     q \<leftarrow> foldM sq_push (b0 # rest) (ck1_buf_list c);
     Some (c\<lparr>ck1_buf_list := q, ck1_tmp_sum := foldl poly_step (ucast b0) rest\<rparr>)
   }"

definition Checksum1_Update :: "byte \<Rightarrow> checksum1 \<Rightarrow> checksum1 option" where
  "Checksum1_Update nxt c = do {
     q \<leftarrow> sq_push nxt (ck1_buf_list c);
     let t = ck1_tmp_sum c * PRIME;
     let t = t + ucast nxt;
     pm \<leftarrow> ck1_power_map c;
     f \<leftarrow> sq_first q;
     pw \<leftarrow> peek pm (unat f);
     let t = t - pw;
     q \<leftarrow> sq_pop q;
     Some (c\<lparr>ck1_buf_list := q, ck1_tmp_sum := t\<rparr>)
   }"

definition Checksum1_StrongSum :: "(byte list \<Rightarrow> byte list) \<Rightarrow> byte list \<Rightarrow> int \<Rightarrow> byte list option" where
  "Checksum1_StrongSum md4 dat len = do {
     require (0 \<le> len);
     msg \<leftarrow> load dat 0 (nat len);
     Some (hex_string (md4 msg))
   }"

definition ck1_live :: "nat \<Rightarrow> checksum1 \<Rightarrow> bool" where
  "ck1_live L c \<longleftrightarrow> 0 < L \<and> length (ck1_buf_list c) = L \<and>
     ck1_power_map c = Some (power_table (int L)) \<and> ck1_tmp_sum c = poly_ref (ck1_buf_list c)"

definition ck1_ready :: "nat \<Rightarrow> checksum1 \<Rightarrow> bool" where
  "ck1_ready L c \<longleftrightarrow> ck1_power_map c = None \<or> ck1_power_map c = Some (power_table (int L))"

lemma Checksum1_clear_loop_eq [simp]: "Checksum1_clear_loop q = []"
  by (induction q) simp_all

lemma Checksum1_Sum1_eq: "Checksum1_Sum1 = Checksum_Sum1"
  by (simp add: fun_eq_iff Checksum1_Sum1_def Checksum_Sum1_def)

interpretation checksum1: basesum Checksum1_Sum1 Checksum1_Init ck1_tmp_sum Checksum1_Update
  ck1_buf_list ck1_ready ck1_live
proof unfold_locales
  fix L s and buf w :: "byte list"
  assume r: "ck1_ready L s" and L: "0 < L" and w: "load buf 0 L = Some w"
  from poly_window [OF L w] obtain b0 rest where b:
    "peek buf 0 = Some b0" "load buf 1 (nat (int L - 1)) = Some rest" "w = b0 # rest"
    "foldl poly_step (ucast b0) rest = poly_ref w" "length w = L" by blast
  then show "\<exists>s'. Checksum1_Init buf (int L) s = Some s' \<and> ck1_live L s' \<and> ck1_buf_list s' = w"
    using r L by (auto simp: Checksum1_Init_def Let_def foldM_sq_push sq_push_def
        ck1_live_def ck1_ready_def Checksum1_Clear_def)
next
  fix L b s
  assume l: "ck1_live L s"
  then obtain x xs where "ck1_buf_list s = x # xs"
    by (cases "ck1_buf_list s") (auto simp: ck1_live_def)
  then show "\<exists>s'. Checksum1_Update b s = Some s' \<and> ck1_live L s' \<and>
      ck1_buf_list s' = tl (ck1_buf_list s @ [b])"
    using l poly_update [of "ck1_buf_list s" L b]
    by (auto simp: Checksum1_Update_def Let_def ck1_live_def sq_push_def sq_pop_def sq_first_def
        power_table_peek)
next
  fix L s
  assume "ck1_live L s"
  then show "length (ck1_buf_list s) = L \<and>
      Checksum1_Sum1 (ck1_buf_list s) (int L) = Some (ck1_tmp_sum s)"
    using poly_Sum1 [of "ck1_buf_list s"] by (auto simp: ck1_live_def Checksum1_Sum1_eq)
  from \<open>ck1_live L s\<close> show "ck1_ready L s" by (simp add: ck1_live_def ck1_ready_def)
qed

section \<open>Checksum2: the ring buffer\<close>

record checksum2 =
  ck2_buf_list :: "byte cqueue"
  ck2_power_map :: "u32 list option"
  ck2_length :: int
  ck2_tmp_sum :: u32

definition Checksum2_new :: checksum2 where
  "Checksum2_new = \<lparr>ck2_buf_list = cq_new (1024 * 1024 * 4), ck2_power_map = None,
                    ck2_length = 0, ck2_tmp_sum = 0\<rparr>"

definition Checksum2_Sum1 :: "byte list \<Rightarrow> int \<Rightarrow> u32 option" where
  "Checksum2_Sum1 buf1 len = do {
     b0 \<leftarrow> peek buf1 0;
     rest \<leftarrow> load buf1 1 (nat (len - 1));
     Some (foldl poly_step (ucast b0) rest)
   }"

definition Checksum2_Init :: "byte list \<Rightarrow> int \<Rightarrow> checksum2 \<Rightarrow> checksum2 option" where
  "Checksum2_Init buf len c = do {
     let c = c\<lparr>ck2_length := len\<rparr>;
     let c = (case ck2_power_map c of
                None \<Rightarrow> c\<lparr>ck2_power_map := Some (power_table (ck2_length c))\<rparr> | Some _ \<Rightarrow> c);
     let c = c\<lparr>ck2_buf_list := cq_clear (ck2_buf_list c)\<rparr>;
     b0 \<leftarrow> peek buf 0;
     rest \<leftarrow> load buf 1 (nat (ck2_length c - 1));
     q \<leftarrow> foldM cq_push (b0 # rest) (ck2_buf_list c);
     Some (c\<lparr>ck2_buf_list := q, ck2_tmp_sum := foldl poly_step (ucast b0) rest\<rparr>)
   }"

definition Checksum2_Update :: "byte \<Rightarrow> checksum2 \<Rightarrow> checksum2 option" where
  "Checksum2_Update nxt c = do {
     q \<leftarrow> cq_push nxt (ck2_buf_list c);
     let t = ck2_tmp_sum c * PRIME;
     let t = t + ucast nxt;
     pm \<leftarrow> ck2_power_map c;
     f \<leftarrow> cq_first q;
     pw \<leftarrow> peek pm (unat f);
     let t = t - pw;
     q \<leftarrow> cq_pop q;
     Some (c\<lparr>ck2_buf_list := q, ck2_tmp_sum := t\<rparr>)
   }"

text \<open>
  The message of \<open>StrongSum\<close>: the given bytes, or with a null \<open>data\<close> the content of the queue,
  which \<open>GetData\<close> moves to the start of its array.
\<close>

definition read_cells :: "(nat \<Rightarrow> 'a option) \<Rightarrow> nat \<Rightarrow> 'a list option" where
  "read_cells d n = those (map d [0..<n])"

definition strong_message ::
  "byte list option \<Rightarrow> int \<Rightarrow> byte cqueue \<Rightarrow> (byte list \<times> byte cqueue) option" where
  "strong_message dat len q =
     (case dat of
        Some d \<Rightarrow> do { require (0 \<le> len); msg \<leftarrow> load d 0 (nat len); Some (msg, q) }
      | None \<Rightarrow> do { (q, d) \<leftarrow> cq_get_data q; msg \<leftarrow> read_cells d (cq_size q); Some (msg, q) })"

definition Checksum2_StrongSum ::
  "(byte list \<Rightarrow> byte list) \<Rightarrow> byte list option \<Rightarrow> int \<Rightarrow> checksum2 \<Rightarrow> (byte list \<times> checksum2) option"
  where
  "Checksum2_StrongSum md4 dat len c = do {
     (msg, q) \<leftarrow> strong_message dat len (ck2_buf_list c);
     Some (hex_string (md4 msg), c\<lparr>ck2_buf_list := q\<rparr>)
   }"

definition ck2_live :: "nat \<Rightarrow> checksum2 \<Rightarrow> bool" where
  "ck2_live L c \<longleftrightarrow> 0 < L \<and> cq_steady L (ck2_buf_list c) \<and> length (cq_list (ck2_buf_list c)) = L \<and>
     ck2_power_map c = Some (power_table (int L)) \<and>
     ck2_tmp_sum c = poly_ref (cq_list (ck2_buf_list c))"

definition ck2_ready :: "nat \<Rightarrow> checksum2 \<Rightarrow> bool" where
  "ck2_ready L c \<longleftrightarrow> cq_steady L (ck2_buf_list c) \<and>
     (ck2_power_map c = None \<or> ck2_power_map c = Some (power_table (int L)))"

lemma Checksum2_Sum1_eq: "Checksum2_Sum1 = Checksum_Sum1"
  by (simp add: fun_eq_iff Checksum2_Sum1_def Checksum_Sum1_def)

lemma ring_fill:
  assumes "cq_steady L q" and "length w = L"
  shows "\<exists>q'. foldM cq_push w (cq_clear q) = Some q' \<and> cq_steady L q' \<and> cq_list q' = w"
  using ring.push_list [of L "cq_clear q" w] cq_clear_steady [OF assms(1)] assms(2) by fastforce

interpretation checksum2: basesum Checksum2_Sum1 Checksum2_Init ck2_tmp_sum Checksum2_Update
  "\<lambda>c. cq_list (ck2_buf_list c)" ck2_ready ck2_live
proof unfold_locales
  fix L s and buf w :: "byte list"
  assume r: "ck2_ready L s" and L: "0 < L" and w: "load buf 0 L = Some w"
  from poly_window [OF L w] obtain b0 rest where b:
    "peek buf 0 = Some b0" "load buf 1 (nat (int L - 1)) = Some rest" "w = b0 # rest"
    "foldl poly_step (ucast b0) rest = poly_ref w" "length w = L" by blast
  obtain q' where "foldM cq_push (b0 # rest) (cq_clear (ck2_buf_list s)) = Some q'"
      "cq_steady L q'" "cq_list q' = w"
    using ring_fill [of L "ck2_buf_list s" w] r b by (auto simp: ck2_ready_def)
  then show "\<exists>s'. Checksum2_Init buf (int L) s = Some s' \<and> ck2_live L s' \<and>
      cq_list (ck2_buf_list s') = w"
    using r L b by (auto simp: Checksum2_Init_def Let_def ck2_live_def ck2_ready_def
        simp del: foldM.simps poly_ref.simps length_cq_list)
next
  fix L b s
  assume l: "ck2_live L s"
  let ?w = "cq_list (ck2_buf_list s)"
  obtain q1 q2 where "cq_push b (ck2_buf_list s) = Some q1" "cq_first q1 = Some (hd (?w @ [b]))"
      "cq_pop q1 = Some q2" "cq_steady L q2" "cq_list q2 = tl (?w @ [b])"
    using ring.slide [of L "ck2_buf_list s" b] l by (auto simp: ck2_live_def)
  then show "\<exists>s'. Checksum2_Update b s = Some s' \<and> ck2_live L s' \<and>
      cq_list (ck2_buf_list s') = tl (?w @ [b])"
    using l poly_update [of ?w L b]
    by (auto simp: Checksum2_Update_def Let_def ck2_live_def power_table_peek
        simp del: length_cq_list)
next
  fix L s
  assume "ck2_live L s"
  then show "length (cq_list (ck2_buf_list s)) = L \<and>
      Checksum2_Sum1 (cq_list (ck2_buf_list s)) (int L) = Some (ck2_tmp_sum s)"
    using poly_Sum1 [of "cq_list (ck2_buf_list s)"]
    by (auto simp: ck2_live_def Checksum2_Sum1_eq)
  from \<open>ck2_live L s\<close> show "ck2_ready L s" by (simp add: ck2_live_def ck2_ready_def)
qed

lemma Checksum2_new_ready: "L < 4194312 \<Longrightarrow> ck2_ready L Checksum2_new"
  using cq_new_steady [of L 4194304] by (simp add: ck2_ready_def Checksum2_new_def)

lemma read_cells_list:
  assumes "\<And>i. i < length xs \<Longrightarrow> d i = Some (xs ! i)"
  shows "read_cells d (length xs) = Some xs"
proof -
  have "map d [0..<length xs] = map Some xs"
    using assms by (intro nth_equalityI) simp_all
  moreover have "those (map Some xs) = Some xs" by (induction xs) simp_all
  ultimately show ?thesis by (simp add: read_cells_def)
qed

lemma strong_message_queue:
  assumes "cq_inv q"
  shows "\<exists>q'. strong_message None len q = Some (cq_list q, q') \<and> cq_inv q' \<and> cq_list q' = cq_list q"
proof -
  from cq_get_data_ok [OF assms] obtain q' d where g: "cq_get_data q = Some (q', d)" "cq_inv q'"
    "cq_list q' = cq_list q" "\<forall>i < cq_size q. d i = Some (cq_list q ! i)" by blast
  have "cq_size q' = length (cq_list q)" using g(3) length_cq_list by metis
  then have "read_cells d (cq_size q') = Some (cq_list q)"
    using g(4) read_cells_list [of "cq_list q" d] by simp
  with g show ?thesis by (simp add: strong_message_def)
qed

section \<open>Checksum3: the two sums of rsync\<close>

text \<open>
  \<open>CHAR_OFFSET\<close> is 0 in \<open>librsync/checksum3.h\<close> and 5 in \<open>simple_rsync/checksum3.h\<close>; it is the
  argument \<open>off\<close>.  All the arithmetic is on \<open>uint32_t\<close>.
\<close>

record checksum3 =
  ck3_buf_list :: "byte cqueue"
  ck3_length :: int
  ck3_tmp_sum :: u32

definition Checksum3_new :: checksum3 where
  "Checksum3_new = \<lparr>ck3_buf_list = cq_new (1024 * 1024 * 4), ck3_length = 0, ck3_tmp_sum = 0\<rparr>"

text \<open>The second loop of \<open>Sum1\<close>, one byte at a time.\<close>

fun ck3_bytes :: "u32 \<Rightarrow> byte list \<Rightarrow> u32 \<Rightarrow> u32 \<Rightarrow> u32 \<times> u32" where
  "ck3_bytes off [] s1 s2 = (s1, s2)"
| "ck3_bytes off (b # bs) s1 s2 =
     (let s1 = s1 + (ucast b + off); s2 = s2 + s1 in ck3_bytes off bs s1 s2)"

text \<open>The first loop takes four bytes while more than four are left, then the second one runs.\<close>

fun ck3_quads :: "u32 \<Rightarrow> byte list \<Rightarrow> u32 \<Rightarrow> u32 \<Rightarrow> u32 \<times> u32" where
  "ck3_quads off (a # b # c # d # e # bs) s1 s2 =
     (let s2 = s2 + (4 * (s1 + ucast a) + 3 * ucast b + 2 * ucast c + ucast d + 10 * off);
          s1 = s1 + (ucast a + ucast b + ucast c + ucast d + 4 * off)
      in ck3_quads off (e # bs) s1 s2)"
| "ck3_quads off bs s1 s2 = ck3_bytes off bs s1 s2"

definition ck3_pack :: "u32 \<Rightarrow> u32 \<Rightarrow> u32" where
  "ck3_pack s1 s2 = (s1 AND 0xffff) + push_bit 16 s2"

definition Checksum3_Sum1 :: "u32 \<Rightarrow> byte list \<Rightarrow> int \<Rightarrow> u32 option" where
  "Checksum3_Sum1 off buf1 len = do {
     bs \<leftarrow> load buf1 0 (nat len);
     let (s1, s2) = ck3_quads off bs 0 0;
     Some (ck3_pack s1 s2)
   }"

definition Checksum3_Init :: "u32 \<Rightarrow> byte list \<Rightarrow> int \<Rightarrow> checksum3 \<Rightarrow> checksum3 option" where
  "Checksum3_Init off buf len c = do {
     let c = c\<lparr>ck3_length := len\<rparr>;
     let c = c\<lparr>ck3_buf_list := cq_clear (ck3_buf_list c)\<rparr>;
     b0 \<leftarrow> peek buf 0;
     rest \<leftarrow> load buf 1 (nat (ck3_length c - 1));
     q \<leftarrow> foldM cq_push (b0 # rest) (ck3_buf_list c);
     t \<leftarrow> Checksum3_Sum1 off buf len;
     Some (c\<lparr>ck3_buf_list := q, ck3_tmp_sum := t\<rparr>)
   }"

definition Checksum3_Update :: "u32 \<Rightarrow> byte \<Rightarrow> checksum3 \<Rightarrow> checksum3 option" where
  "Checksum3_Update off nxt c = do {
     let s1 = ck3_tmp_sum c AND 0xffff;
     let s2 = drop_bit 16 (ck3_tmp_sum c);
     q \<leftarrow> cq_push nxt (ck3_buf_list c);
     let s1 = s1 + (ucast nxt + off);
     f \<leftarrow> cq_first q;
     let s1 = s1 - (ucast f + off);
     let s2 = s2 + s1;
     let s2 = s2 - (u32_of (ck3_length c) AND 0xffff) * (ucast f + off);
     q \<leftarrow> cq_pop q;
     Some (c\<lparr>ck3_buf_list := q, ck3_tmp_sum := ck3_pack s1 s2\<rparr>)
   }"

definition Checksum3_StrongSum ::
  "(byte list \<Rightarrow> byte list) \<Rightarrow> byte list option \<Rightarrow> int \<Rightarrow> checksum3 \<Rightarrow> (byte list \<times> checksum3) option"
  where
  "Checksum3_StrongSum md4 dat len c = do {
     (msg, q) \<leftarrow> strong_message dat len (ck3_buf_list c);
     Some (hex_string (md4 msg), c\<lparr>ck3_buf_list := q\<rparr>)
   }"

text \<open>The unrolled loop computes what the plain one does.\<close>

lemma ck3_quads_bytes: "ck3_quads off bs s1 s2 = ck3_bytes off bs s1 s2"
  by (induction off bs s1 s2 rule: ck3_quads.induct) (simp_all add: Let_def algebra_simps)

text \<open>The reference: \<open>s1\<close> is the sum of the bytes, \<open>s2\<close> the sum weighted by the distance to the end.\<close>

definition ck3_s1 :: "u32 \<Rightarrow> byte list \<Rightarrow> u32" where
  "ck3_s1 off bs = (\<Sum>b\<leftarrow>bs. ucast b + off)"

fun ck3_s2 :: "u32 \<Rightarrow> byte list \<Rightarrow> u32" where
  "ck3_s2 off [] = 0"
| "ck3_s2 off (b # bs) = of_nat (Suc (length bs)) * (ucast b + off) + ck3_s2 off bs"

lemma ck3_bytes_eq:
  "ck3_bytes off bs s1 s2 = (s1 + ck3_s1 off bs, s2 + of_nat (length bs) * s1 + ck3_s2 off bs)"
  by (induction bs arbitrary: s1 s2) (simp_all add: Let_def ck3_s1_def algebra_simps)

lemma ck3_s1_snoc [simp]: "ck3_s1 off (bs @ [b]) = ck3_s1 off bs + (ucast b + off)"
  by (simp add: ck3_s1_def)

lemma ck3_s1_Cons [simp]: "ck3_s1 off (b # bs) = ucast b + off + ck3_s1 off bs"
  by (simp add: ck3_s1_def)

lemma ck3_s2_snoc: "ck3_s2 off (bs @ [b]) = ck3_s2 off bs + ck3_s1 off (bs @ [b])"
  by (induction bs) (simp_all add: ck3_s1_def algebra_simps)

lemma Checksum3_Sum1_eq:
  "Checksum3_Sum1 off w (int (length w)) = Some (ck3_pack (ck3_s1 off w) (ck3_s2 off w))"
  by (simp add: Checksum3_Sum1_def load_def ck3_quads_bytes ck3_bytes_eq)

text \<open>\<open>ck3_pack\<close> keeps the residues of the two sums modulo \<open>2 ^ 16\<close>, and nothing else.\<close>

lemma mask16: "(0xffff :: u32) = mask 16"
  by (simp add: mask_eq_exp_minus_1)

lemma ck3_pack_or: "ck3_pack s1 s2 = (s1 AND mask 16) OR push_bit 16 s2"
  unfolding ck3_pack_def mask16
  by (rule disjunctive_add) (auto simp: bit_simps)

lemma ck3_pack_low: "ucast (ck3_pack s1 s2 AND 0xffff) = (ucast s1 :: u16)"
  unfolding ck3_pack_or mask16 by (rule bit_word_eqI) (auto simp: bit_simps)

lemma ck3_pack_high: "ucast (drop_bit 16 (ck3_pack s1 s2)) = (ucast s2 :: u16)"
  unfolding ck3_pack_or by (rule bit_word_eqI) (auto simp: bit_simps)

lemma ck3_pack_cong:
  assumes "(ucast s1 :: u16) = ucast t1" and "(ucast s2 :: u16) = ucast t2"
  shows "ck3_pack s1 s2 = ck3_pack t1 t2"
proof (rule bit_word_eqI)
  fix n
  assume n: "n < LENGTH(32)"
  have a: "bit s1 m = bit t1 m" if "m < 16" for m
    using arg_cong [OF assms(1), of "\<lambda>w. bit w m"] that by (simp add: bit_simps)
  have b: "bit s2 m = bit t2 m" if "m < 16" for m
    using arg_cong [OF assms(2), of "\<lambda>w. bit w m"] that by (simp add: bit_simps)
  show "bit (ck3_pack s1 s2) n = bit (ck3_pack t1 t2) n"
    unfolding ck3_pack_or using n a [of n] b [of "n - 16"] by (auto simp: bit_simps)
qed

lemma low16_add: "(ucast (a + b :: u32) :: u16) = ucast a + ucast b"
proof (transfer, simp)
  fix a b :: int
  show "take_bit 16 (a + b) = take_bit 16 (take_bit 32 a + take_bit 32 b)"
    using take_bit_add [of 16 a b] take_bit_add [of 16 "take_bit 32 a" "take_bit 32 b"] by simp
qed

lemma low16_diff: "(ucast (a - b :: u32) :: u16) = ucast a - ucast b"
proof (transfer, simp)
  fix a b :: int
  show "take_bit 16 (a - b) = take_bit 16 (take_bit 32 a - take_bit 32 b)"
    using take_bit_diff [of 16 a b] take_bit_diff [of 16 "take_bit 32 a" "take_bit 32 b"] by simp
qed

lemma low16_mult: "(ucast (a * b :: u32) :: u16) = ucast a * ucast b"
proof (transfer, simp)
  fix a b :: int
  show "take_bit 16 (a * b) = take_bit 16 (take_bit 32 a * take_bit 32 b)"
    using take_bit_mult [of 16 a b] take_bit_mult [of 16 "take_bit 32 a" "take_bit 32 b"] by simp
qed

lemma low16_and: "(ucast (a AND 0xffff :: u32) :: u16) = ucast a"
  unfolding mask16 by (rule bit_word_eqI) (auto simp: bit_simps)

lemmas low16 = low16_add low16_diff low16_mult low16_and

text \<open>One step of the rolling sum.\<close>

lemma ck3_roll:
  fixes off :: u32 and nxt x :: byte and xs :: "byte list"
  defines "w \<equiv> x # xs"
  defines "t \<equiv> ck3_pack (ck3_s1 off w) (ck3_s2 off w)"
  defines "s1 \<equiv> (t AND 0xffff) + (ucast nxt + off) - (ucast x + off)"
  shows "ck3_pack s1 (drop_bit 16 t + s1 - (u32_of (int (length w)) AND 0xffff) * (ucast x + off)) =
         ck3_pack (ck3_s1 off (xs @ [nxt])) (ck3_s2 off (xs @ [nxt]))"
proof (rule ck3_pack_cong)
  have t: "(ucast (t AND 0xffff) :: u16) = ucast (ck3_s1 off w)"
      "(ucast (drop_bit 16 t) :: u16) = ucast (ck3_s2 off w)"
    unfolding t_def by (rule ck3_pack_low, rule ck3_pack_high)
  have "(ucast s1 :: u16) = ucast (ck3_s1 off w + (ucast nxt + off) - (ucast x + off))"
    unfolding s1_def low16_diff low16_add t(1) ..
  also have "ck3_s1 off w + (ucast nxt + off) - (ucast x + off) = ck3_s1 off (xs @ [nxt])"
    by (simp add: w_def)
  finally show s1: "(ucast s1 :: u16) = ucast (ck3_s1 off (xs @ [nxt]))" .
  have "(ucast (drop_bit 16 t + s1 - (u32_of (int (length w)) AND 0xffff) * (ucast x + off)) :: u16) =
      ucast (ck3_s2 off w + ck3_s1 off (xs @ [nxt]) - u32_of (int (length w)) * (ucast x + off))"
    by (simp only: low16 s1 t(2))
  also have "ck3_s2 off w + ck3_s1 off (xs @ [nxt]) - u32_of (int (length w)) * (ucast x + off) =
      ck3_s2 off (xs @ [nxt])"
    by (simp add: w_def ck3_s2_snoc u32_of_def algebra_simps)
  finally show "(ucast (drop_bit 16 t + s1 - (u32_of (int (length w)) AND 0xffff) *
      (ucast x + off)) :: u16) = ucast (ck3_s2 off (xs @ [nxt]))" .
qed

definition ck3_live :: "u32 \<Rightarrow> nat \<Rightarrow> checksum3 \<Rightarrow> bool" where
  "ck3_live off L c \<longleftrightarrow> 0 < L \<and> cq_steady L (ck3_buf_list c) \<and> length (cq_list (ck3_buf_list c)) = L \<and>
     ck3_length c = int L \<and>
     ck3_tmp_sum c = ck3_pack (ck3_s1 off (cq_list (ck3_buf_list c)))
                              (ck3_s2 off (cq_list (ck3_buf_list c)))"

definition ck3_ready :: "nat \<Rightarrow> checksum3 \<Rightarrow> bool" where
  "ck3_ready L c \<longleftrightarrow> cq_steady L (ck3_buf_list c)"

definition ck3_window :: "checksum3 \<Rightarrow> byte list" where
  "ck3_window c = cq_list (ck3_buf_list c)"

interpretation checksum3: basesum "Checksum3_Sum1 off" "Checksum3_Init off" ck3_tmp_sum
  "Checksum3_Update off" ck3_window ck3_ready "ck3_live off"
  for off :: u32
proof unfold_locales
  fix L s and buf w :: "byte list"
  assume r: "ck3_ready L s" and L: "0 < L" and w: "load buf 0 L = Some w"
  from poly_window [OF L w] obtain b0 rest where b:
    "peek buf 0 = Some b0" "load buf 1 (nat (int L - 1)) = Some rest" "w = b0 # rest"
    "length w = L" by blast
  obtain q' where "foldM cq_push (b0 # rest) (cq_clear (ck3_buf_list s)) = Some q'"
      "cq_steady L q'" "cq_list q' = w"
    using ring_fill [of L "ck3_buf_list s" w] r b by (auto simp: ck3_ready_def)
  moreover have "Checksum3_Sum1 off buf (int L) = Some (ck3_pack (ck3_s1 off w) (ck3_s2 off w))"
    using w by (simp add: Checksum3_Sum1_def ck3_quads_bytes ck3_bytes_eq)
  ultimately show "\<exists>s'. Checksum3_Init off buf (int L) s = Some s' \<and> ck3_live off L s' \<and>
      ck3_window s' = w"
    using L b by (auto simp: Checksum3_Init_def Let_def ck3_live_def ck3_window_def
        simp del: foldM.simps length_cq_list)
next
  fix L b s
  assume l: "ck3_live off L s"
  let ?w = "cq_list (ck3_buf_list s)"
  obtain x xs where w: "?w = x # xs" using l by (cases ?w) (auto simp: ck3_live_def)
  obtain q1 q2 where "cq_push b (ck3_buf_list s) = Some q1" "cq_first q1 = Some x"
      "cq_pop q1 = Some q2" "cq_steady L q2" "cq_list q2 = xs @ [b]"
    using ring.slide [of L "ck3_buf_list s" b] l w by (auto simp: ck3_live_def)
  then show "\<exists>s'. Checksum3_Update off b s = Some s' \<and> ck3_live off L s' \<and>
      ck3_window s' = tl (ck3_window s @ [b])"
    using l w ck3_roll [where off = off and nxt = b and x = x and xs = xs]
    by (auto simp: Checksum3_Update_def Let_def ck3_live_def ck3_window_def
        simp del: length_cq_list)
next
  fix L s
  assume "ck3_live off L s"
  then show "length (ck3_window s) = L \<and>
      Checksum3_Sum1 off (ck3_window s) (int L) = Some (ck3_tmp_sum s)"
    using Checksum3_Sum1_eq [of off "cq_list (ck3_buf_list s)"]
    by (auto simp: ck3_live_def ck3_window_def)
  from \<open>ck3_live off L s\<close> show "ck3_ready L s" by (simp add: ck3_live_def ck3_ready_def)
qed

lemma Checksum3_new_ready: "L < 4194312 \<Longrightarrow> ck3_ready L Checksum3_new"
  using cq_new_steady [of L 4194304] by (simp add: ck3_ready_def Checksum3_new_def)

lemma Checksum3_StrongSum_data:
  "0 \<le> len \<Longrightarrow> load d 0 (nat len) = Some msg \<Longrightarrow>
     Checksum3_StrongSum md4 (Some d) len c = Some (hex_string (md4 msg), c)"
  by (simp add: Checksum3_StrongSum_def strong_message_def)

end
