(* ===== verification/FileIO.thy ===== *)
theory FileIO
  imports Prelude
begin

text \<open>
  Files as the programs of \<open>single_fs\<close> use them: the helpers of \<open>depends/fs/file_utils.cpp\<close>, the
  read window \<open>FileMap\<close> and the buffered writer \<open>WriteFileMap\<close> of \<open>librsync\<close>, and the copy tool
  \<open>librsync/file_tool.cpp\<close> built from them.

  The file system is a map from paths to contents; \<open>fs_denied\<close> are the paths \<open>fopen\<close> refuses.
  Writes to disk always succeed, except in \<open>write_loop\<close>, where short writes are a parameter.
  A \<open>FileMap\<close> reads its file again at every miss, so a writer on the same path is visible to it.
\<close>

record fsys =
  fs_files :: "string \<rightharpoonup> byte list"
  fs_denied :: "string \<Rightarrow> bool"

definition fopen_read :: "fsys \<Rightarrow> string \<Rightarrow> byte list option" where
  "fopen_read fs name = (if fs_denied fs name then None else fs_files fs name)"

definition fopen_write :: "fsys \<Rightarrow> string \<Rightarrow> fsys option" where
  "fopen_write fs name =
     (if fs_denied fs name then None else Some (fs\<lparr>fs_files := (fs_files fs)(name \<mapsto> [])\<rparr>))"

definition fs_frame :: "string \<Rightarrow> fsys \<Rightarrow> fsys \<Rightarrow> bool" where
  "fs_frame p fs fs' \<longleftrightarrow>
     fs_denied fs' = fs_denied fs \<and> (\<forall>q. q \<noteq> p \<longrightarrow> fs_files fs' q = fs_files fs q)"

lemma fs_frame_refl [simp]: "fs_frame p fs fs"
  by (simp add: fs_frame_def)

lemma fs_frame_trans [trans]: "fs_frame p a b \<Longrightarrow> fs_frame p b c \<Longrightarrow> fs_frame p a c"
  by (simp add: fs_frame_def)

section \<open>FileUtils\<close>

definition is_exists_file :: "fsys \<Rightarrow> string \<Rightarrow> bool" where
  "is_exists_file fs name \<longleftrightarrow> fs_files fs name \<noteq> None"

definition get_file_size :: "fsys \<Rightarrow> string \<Rightarrow> int" where
  "get_file_size fs name =
     (case fs_files fs name of None \<Rightarrow> - 1 | Some c \<Rightarrow> to_i32 (int (length c)))"

text \<open>The overload that never replaces a file; a negative length is a huge \<open>size_t\<close>.\<close>

definition fu_write_new :: "fsys \<Rightarrow> byte list \<Rightarrow> int \<Rightarrow> string \<Rightarrow> (int \<times> fsys) option" where
  "fu_write_new fs buff len name =
     (if is_exists_file fs name then Some (- 1, fs)
      else case fopen_write fs name of
        None \<Rightarrow> Some (- 2, fs)
      | Some fs \<Rightarrow> do {
          require (0 \<le> len);
          bs \<leftarrow> load buff 0 (nat len);
          Some (to_i32 len, fs\<lparr>fs_files := (fs_files fs)(name \<mapsto> bs)\<rparr>)
        })"

text \<open>
  The loop of the other overload: each \<open>fwrite\<close> takes at most the next number of \<open>quota\<close> bytes,
  and everything once the list is used up; the loop ends with the first call that takes nothing.
\<close>

fun write_loop :: "nat list \<Rightarrow> nat \<Rightarrow> nat \<Rightarrow> nat" where
  "write_loop [] n len = n"
| "write_loop (a # quota) n len =
     (let ret = min a (n - len) in if ret = 0 then len else write_loop quota n (len + ret))"

definition fu_write ::
  "nat list \<Rightarrow> fsys \<Rightarrow> byte list \<Rightarrow> int \<Rightarrow> string \<Rightarrow> bool \<Rightarrow> (int \<times> fsys) option" where
  "fu_write quota fs buff len name cover =
     (if is_exists_file fs name \<and> \<not> cover then Some (- 1, fs)
      else case fopen_write fs name of
        None \<Rightarrow> Some (- 2, fs)
      | Some fs \<Rightarrow> do {
          require (0 \<le> len);
          bs \<leftarrow> load buff 0 (nat len);
          let k = write_loop quota (nat len) 0;
          Some (int k, fs\<lparr>fs_files := (fs_files fs)(name \<mapsto> take k bs)\<rparr>)
        })"

text \<open>
  The three readers return the code and, where they allocate, the bytes read.  \<open>new char[n]\<close> with
  a negative \<open>n\<close> throws.  The overload with an offset tests \<open>fseek\<close> against \<open>-2\<close>, which it never
  returns: a negative offset leaves the position at the start.
\<close>

definition fu_read :: "fsys \<Rightarrow> string \<Rightarrow> (int \<times> byte list option) option" where
  "fu_read fs name =
     (if \<not> is_exists_file fs name then Some (- 1, None)
      else case fopen_read fs name of
        None \<Rightarrow> Some (- 2, None)
      | Some c \<Rightarrow> do {
          let file_size = get_file_size fs name;
          require (0 \<le> file_size);
          let got = take (nat file_size) c;
          Some (int (length got), Some got)
        })"

definition fu_read_reserve :: "fsys \<Rightarrow> string \<Rightarrow> int \<Rightarrow> (int \<times> byte list option) option" where
  "fu_read_reserve fs name reserve_size =
     (if \<not> is_exists_file fs name then Some (- 1, None)
      else case fopen_read fs name of
        None \<Rightarrow> Some (- 2, None)
      | Some c \<Rightarrow> do {
          let file_size = get_file_size fs name;
          require (0 \<le> file_size + reserve_size \<and> 0 \<le> reserve_size);
          require (0 \<le> file_size);
          let got = take (nat file_size) c;
          Some (int (length got), Some got)
        })"

definition fu_read_at :: "fsys \<Rightarrow> int \<Rightarrow> string \<Rightarrow> (int \<times> byte list option) option" where
  "fu_read_at fs offset name =
     (if \<not> is_exists_file fs name then Some (- 1, None)
      else case fopen_read fs name of
        None \<Rightarrow> Some (- 2, None)
      | Some c \<Rightarrow> do {
          let pos = (if offset < 0 then 0 else nat offset);
          let file_size = get_file_size fs name;
          require (0 \<le> file_size);
          let got = take (nat file_size) (drop pos c);
          Some (int (length got), Some got)
        })"

section \<open>FileMap: a window on a file\<close>

definition DEFAULT_BUFFER_LENGTH :: int where
  "DEFAULT_BUFFER_LENGTH = 1024 * 1024 * 20"

record file_map =
  fm_path :: string
  fm_data :: "byte list"
  fm_offset :: int
  fm_buffer_length :: int
  fm_length :: int
  fm_file_size :: int
  fm_pos :: nat

text \<open>
  For a file of \<open>DEFAULT_BUFFER_LENGTH\<close> bytes or more \<open>length_\<close> is read before it is ever set;
  for a missing file the buffer length is \<open>-1\<close>.  Both are faults, and so is \<open>fread\<close> on the null
  \<open>FILE\<close> of a file that cannot be opened.
\<close>

definition FileMap_new :: "fsys \<Rightarrow> string \<Rightarrow> file_map option" where
  "FileMap_new fs file = do {
     let file_size = get_file_size fs file;
     require (0 \<le> file_size);
     require (file_size < DEFAULT_BUFFER_LENGTH);
     c \<leftarrow> fopen_read fs file;
     let got = take (nat file_size) c;
     Some \<lparr>fm_path = file, fm_data = got, fm_offset = 0, fm_buffer_length = file_size,
           fm_length = int (length got), fm_file_size = file_size, fm_pos = length got\<rparr>
   }"

text \<open>
  The result is a pointer into \<open>data_\<close>, as an index, or \<open>None\<close> for null.  \<open>fseek\<close> to a negative
  offset fails and leaves the position where it was.
\<close>

definition MapFileContent ::
  "fsys \<Rightarrow> int \<Rightarrow> int \<Rightarrow> file_map \<Rightarrow> (file_map \<times> nat option) option" where
  "MapFileContent fs offset len fm =
     (if fm_file_size fm < offset then Some (fm, None)
      else do {
        hit \<leftarrow> (if fm_offset fm \<le> offset
               then map_option (\<lambda>e. e < fm_length fm + fm_offset fm) (add_i32 offset len)
               else Some False);
        if hit then Some (fm, Some (nat (offset - fm_offset fm)))
        else do {
          let l = fm_buffer_length fm;
          let l = (if fm_file_size fm < l + offset then fm_file_size fm - offset else l);
          c \<leftarrow> fs_files fs (fm_path fm);
          let pos = (if offset < 0 then fm_pos fm else nat offset);
          let got = take (nat l) (drop pos c);
          Some (fm\<lparr>fm_offset := offset, fm_length := int (length got),
                   fm_data := got @ drop (length got) (fm_data fm), fm_pos := pos + length got\<rparr>,
                Some 0)
        }
      })"

text \<open>The memory a returned pointer gives access to.\<close>

definition fm_mem :: "file_map \<Rightarrow> nat option \<Rightarrow> byte list option" where
  "fm_mem fm ptr = (case ptr of None \<Rightarrow> None | Some p \<Rightarrow> Some (drop p (fm_data fm)))"

section \<open>WriteFileMap: a buffered writer\<close>

definition BUFFER_LENGTH :: int where
  "BUFFER_LENGTH = 1024 * 1024 * 4"

text \<open>\<open>wf_path\<close> is \<open>None\<close> when \<open>fp_\<close> is null; \<open>wf_buffer\<close> is the filled part of \<open>buffer_\<close>.\<close>

record write_file_map =
  wf_path :: "string option"
  wf_offset :: int
  wf_length :: int
  wf_capacity :: int
  wf_buffer :: "byte list"

definition WriteFileMap_new :: "fsys \<Rightarrow> string \<Rightarrow> fsys \<times> write_file_map" where
  "WriteFileMap_new fs file =
     (let w = \<lparr>wf_path = None, wf_offset = 0, wf_length = 0, wf_capacity = BUFFER_LENGTH,
               wf_buffer = []\<rparr>
      in case fopen_write fs file of
           None \<Rightarrow> (fs, w)
         | Some fs \<Rightarrow> (fs, w\<lparr>wf_path := Some file\<rparr>))"

definition WriteFileMap_Flush :: "fsys \<Rightarrow> write_file_map \<Rightarrow> (fsys \<times> write_file_map) option" where
  "WriteFileMap_Flush fs w = do {
     p \<leftarrow> wf_path w;
     c \<leftarrow> fs_files fs p;
     let fs = fs\<lparr>fs_files := (fs_files fs)(p \<mapsto> c @ wf_buffer w)\<rparr>;
     Some (fs, w\<lparr>wf_offset := to_i32 (wf_offset w + wf_length w), wf_length := 0,
                 wf_buffer := []\<rparr>)
   }"

text \<open>\<open>dat\<close> is the memory from the source pointer on, \<open>None\<close> for a null pointer.\<close>

definition AppendData ::
  "fsys \<Rightarrow> byte list option \<Rightarrow> int \<Rightarrow> write_file_map \<Rightarrow> (fsys \<times> write_file_map) option" where
  "AppendData fs dat len w = do {
     (fs, w) \<leftarrow> (if wf_capacity w - wf_length w \<le> len then WriteFileMap_Flush fs w else Some (fs, w));
     require (0 \<le> len);
     d \<leftarrow> dat;
     bs \<leftarrow> load d 0 (nat len);
     require (wf_length w + len \<le> wf_capacity w);
     Some (fs, w\<lparr>wf_buffer := wf_buffer w @ bs, wf_length := wf_length w + len\<rparr>)
   }"

definition WriteFileMap_delete :: "fsys \<Rightarrow> write_file_map \<Rightarrow> fsys option" where
  "WriteFileMap_delete fs w = map_option fst (WriteFileMap_Flush fs w)"

text \<open>\<open>MapToFile\<close> is a stub in the source: it returns null.\<close>

definition MapToFile :: "int \<Rightarrow> int \<Rightarrow> write_file_map \<Rightarrow> nat option" where
  "MapToFile offset len w = None"

lemmas file_defs = fopen_read_def fopen_write_def is_exists_file_def get_file_size_def

section \<open>What a FileMap shows\<close>

definition fm_ok :: "fsys \<Rightarrow> string \<Rightarrow> byte list \<Rightarrow> file_map \<Rightarrow> bool" where
  "fm_ok fs p N fm \<longleftrightarrow>
     fm_path fm = p \<and> fs_files fs p = Some N \<and> int (length N) < DEFAULT_BUFFER_LENGTH \<and>
     fm_file_size fm = int (length N) \<and> fm_buffer_length fm = int (length N) \<and>
     length (fm_data fm) = length N \<and> 0 \<le> fm_offset fm \<and> 0 \<le> fm_length fm \<and>
     fm_offset fm + fm_length fm \<le> int (length N) \<and>
     take (nat (fm_length fm)) (fm_data fm) =
       take (nat (fm_length fm)) (drop (nat (fm_offset fm)) N)"

lemma get_file_size_small:
  "fs_files fs p = Some N \<Longrightarrow> int (length N) < 2 ^ 31 \<Longrightarrow> get_file_size fs p = int (length N)"
  by (simp add: get_file_size_def to_i32_ok i32_ok_def)

lemma fu_read_at_ok:
  assumes "fs_files fs f = Some D" and "\<not> fs_denied fs f" and "int (length D) < 2 ^ 31"
  shows "\<exists>r. fu_read_at fs (int n) f = Some (r, Some (drop n D))"
proof -
  have "get_file_size fs f = int (length D)" using assms(1,3) by (rule get_file_size_small)
  then show ?thesis
    using assms(1,2) by (simp add: fu_read_at_def is_exists_file_def fopen_read_def)
qed

lemma FileMap_new_ok:
  assumes "fs_files fs p = Some N" and "\<not> fs_denied fs p"
    and "int (length N) < DEFAULT_BUFFER_LENGTH"
  shows "\<exists>fm. FileMap_new fs p = Some fm \<and> fm_ok fs p N fm"
proof -
  have "get_file_size fs p = int (length N)"
    using assms by (intro get_file_size_small) (simp_all add: DEFAULT_BUFFER_LENGTH_def)
  then show ?thesis
    using assms by (simp add: FileMap_new_def Let_def fopen_read_def fm_ok_def)
qed

lemma fm_ok_frame: "fm_ok fs p N fm \<Longrightarrow> fs_frame q fs fs' \<Longrightarrow> p \<noteq> q \<Longrightarrow> fm_ok fs' p N fm"
  by (simp add: fm_ok_def fs_frame_def)

text \<open>
  A mapping at an offset inside the file never fails.  The first \<open>n\<close> bytes behind the pointer are
  readable, and they agree with the file as far as the file goes; behind the end of the file there
  are stale bytes.  The count may exceed the mapped length only where the mapping reaches the end.
\<close>

definition fm_shows :: "byte list \<Rightarrow> nat \<Rightarrow> nat \<Rightarrow> byte list \<Rightarrow> bool" where
  "fm_shows N off n m \<longleftrightarrow>
     (\<exists>bs. load m 0 n = Some bs \<and> length bs = n \<and> take (length N - off) bs = take n (drop off N))"

lemma fm_shows_inside:
  "fm_shows N off n m \<Longrightarrow> off + n \<le> length N \<Longrightarrow> load m 0 n = Some (take n (drop off N))"
  by (auto simp: fm_shows_def)

lemma MapFileContent_ok:
  assumes ok: "fm_ok fs p N fm" and off: "off \<le> length N" and len: "int len \<le> 2 ^ 30"
  shows "\<exists>fm' q m. MapFileContent fs (int off) (int len) fm = Some (fm', q) \<and> fm_ok fs p N fm' \<and>
           fm_mem fm' q = Some m \<and>
           (\<forall>n \<le> length N. n \<le> len \<or> length N \<le> off + len \<longrightarrow> fm_shows N off n m)"
proof -
  have e: "add_i32 (int off) (int len) = Some (int off + int len)"
    using ok off len by (simp add: add_i32_def i32_ok_def fm_ok_def DEFAULT_BUFFER_LENGTH_def)
  show ?thesis
  proof (cases "fm_offset fm \<le> int off \<and> int off + int len < fm_length fm + fm_offset fm")
    case True
    define d where "d = off - nat (fm_offset fm)"
    have o: "nat (fm_offset fm) \<le> off" "nat (int off - fm_offset fm) = d"
        "off = nat (fm_offset fm) + d" "0 \<le> fm_offset fm" "0 \<le> fm_length fm"
      using True ok by (auto simp: fm_ok_def d_def)
    have dl: "d + len < nat (fm_length fm)" "nat (fm_length fm) + nat (fm_offset fm) \<le> length N"
        "length (fm_data fm) = length N"
      using True o ok by (auto simp: fm_ok_def)
    have map: "MapFileContent fs (int off) (int len) fm = Some (fm, Some d)"
      using True e o off ok by (simp add: MapFileContent_def fm_ok_def)
    have "fm_shows N off n (drop d (fm_data fm))" if "n \<le> len \<or> length N \<le> off + len" for n
    proof -
      have "n \<le> len" using that dl o by linarith
      have "take n (drop d (fm_data fm)) = take n (drop d (take (nat (fm_length fm)) (fm_data fm)))"
        using \<open>n \<le> len\<close> dl by (simp add: drop_take)
      also have "\<dots> = take n (drop d (take (nat (fm_length fm)) (drop (nat (fm_offset fm)) N)))"
        using ok by (simp add: fm_ok_def)
      also have "\<dots> = take n (drop off N)"
        using \<open>n \<le> len\<close> dl o by (simp add: drop_take add.commute)
      finally have "take n (drop d (fm_data fm)) = take n (drop off N)" .
      moreover have "n \<le> length N - d" "n \<le> length N - off" using \<open>n \<le> len\<close> dl o by linarith+
      ultimately show ?thesis
        using dl(3) by (simp add: fm_shows_def load_def)
    qed
    with map ok show ?thesis by (auto simp: fm_mem_def)
  next
    case False
    define fm' where "fm' = fm\<lparr>fm_offset := int off, fm_length := int (length N - off),
      fm_data := drop off N @ drop (length N - off) (fm_data fm), fm_pos := length N\<rparr>"
    have map: "MapFileContent fs (int off) (int len) fm = Some (fm', Some 0)"
      using False e off ok
      by (auto simp: MapFileContent_def fm_ok_def fm'_def Let_def nat_diff_distrib)
    have "fm_ok fs p N fm'" using ok off by (simp add: fm_ok_def fm'_def)
    moreover have "fm_shows N off n (fm_data fm')" if "n \<le> length N" for n
    proof (cases "n \<le> length N - off")
      case True
      then show ?thesis
        using that ok off by (auto simp: fm_shows_def load_def fm'_def fm_ok_def)
    next
      case False
      then show ?thesis
        using that ok off by (auto simp: fm_shows_def load_def fm'_def fm_ok_def)
    qed
    ultimately show ?thesis using map by (auto simp: fm_mem_def)
  qed
qed

section \<open>What a writer has written\<close>

text \<open>\<open>wf_holds\<close>: the bytes on disk followed by the buffered ones are \<open>out\<close>.\<close>

definition wf_holds :: "fsys \<Rightarrow> string \<Rightarrow> byte list \<Rightarrow> write_file_map \<Rightarrow> bool" where
  "wf_holds fs p out w \<longleftrightarrow>
     wf_path w = Some p \<and> wf_capacity w = BUFFER_LENGTH \<and>
     wf_length w = int (length (wf_buffer w)) \<and> wf_length w \<le> BUFFER_LENGTH \<and>
     (\<exists>c. fs_files fs p = Some c \<and> c @ wf_buffer w = out)"

lemma WriteFileMap_new_ok:
  assumes "\<not> fs_denied fs p"
  shows "\<exists>fs' w. WriteFileMap_new fs p = (fs', w) \<and> wf_holds fs' p [] w \<and> fs_frame p fs fs'"
  using assms by (simp add: WriteFileMap_new_def fopen_write_def wf_holds_def fs_frame_def
      BUFFER_LENGTH_def Let_def)

lemma Flush_ok:
  assumes "wf_holds fs p out w"
  shows "\<exists>fs' w'. WriteFileMap_Flush fs w = Some (fs', w') \<and> wf_holds fs' p out w' \<and>
           fs_frame p fs fs' \<and> wf_length w' = 0 \<and> fs_files fs' p = Some out"
  using assms by (auto simp: wf_holds_def WriteFileMap_Flush_def fs_frame_def BUFFER_LENGTH_def)

lemma AppendData_ok:
  assumes w: "wf_holds fs p out w" and d: "load d 0 n = Some bs" and n: "int n \<le> BUFFER_LENGTH"
  shows "\<exists>fs' w'. AppendData fs (Some d) (int n) w = Some (fs', w') \<and>
           wf_holds fs' p (out @ bs) w' \<and> fs_frame p fs fs'"
proof (cases "wf_capacity w - wf_length w \<le> int n")
  case True
  from Flush_ok [OF w] obtain fs1 w1 where f: "WriteFileMap_Flush fs w = Some (fs1, w1)"
    "wf_holds fs1 p out w1" "fs_frame p fs fs1" "wf_length w1 = 0" by blast
  moreover have "length bs = n" using d by (rule load_length)
  ultimately show ?thesis
    using True d n by (auto simp: AppendData_def wf_holds_def)
next
  case False
  moreover have "length bs = n" using d by (rule load_length)
  ultimately show ?thesis using w d by (auto simp: AppendData_def wf_holds_def)
qed

lemma AppendData_bytes:
  assumes "wf_holds fs p out w" and "int (length bs) \<le> BUFFER_LENGTH" and "n = int (length bs)"
  shows "\<exists>fs' w'. AppendData fs (Some bs) n w = Some (fs', w') \<and>
           wf_holds fs' p (out @ bs) w' \<and> fs_frame p fs fs'"
  using AppendData_ok [OF assms(1), of bs "length bs" bs] assms(2,3) by (simp add: load_def)

lemma WriteFileMap_delete_ok:
  assumes "wf_holds fs p out w"
  shows "\<exists>fs'. WriteFileMap_delete fs w = Some fs' \<and> fs_files fs' p = Some out \<and> fs_frame p fs fs'"
  using Flush_ok [OF assms] by (auto simp: WriteFileMap_delete_def)

text \<open>More than the capacity in one call overruns \<open>buffer_\<close>, whatever the writer holds.\<close>

lemma AppendData_too_long:
  assumes "wf_holds fs p out w" and "BUFFER_LENGTH < n"
  shows "AppendData fs d n w = None"
proof -
  from Flush_ok [OF assms(1)] obtain fs1 w1 where f: "WriteFileMap_Flush fs w = Some (fs1, w1)"
    "wf_holds fs1 p out w1" "wf_length w1 = 0" by blast
  have "wf_capacity w - wf_length w \<le> n" using assms by (auto simp: wf_holds_def)
  with f assms show ?thesis
    by (cases d) (auto simp: AppendData_def wf_holds_def require_def bind_eq_None_conv
        split: bind_splits)
qed

lemma AppendData_negative:
  assumes "wf_holds fs p out w" and "n < 0"
  shows "AppendData fs d n w = None"
  using assms Flush_ok [OF assms(1)] by (auto simp: AppendData_def require_def)

section \<open>Copying from a window to a writer\<close>

text \<open>
  \<open>file_tool.cpp\<close> and both branches of \<open>PatchFile\<close> copy a run of a mapped file in blocks, the rest
  last.  The state is the file system, the reader, the writer and the running offset.
\<close>

type_synonym copier = "fsys \<times> file_map \<times> write_file_map \<times> int"

definition copy_step :: "int \<Rightarrow> copier \<Rightarrow> copier option" where
  "copy_step n st = (case st of (fs, reader, writer, offset) \<Rightarrow> do {
     (reader, q) \<leftarrow> MapFileContent fs offset n reader;
     (fs, writer) \<leftarrow> AppendData fs (fm_mem reader q) n writer;
     Some (fs, reader, writer, offset + n)
   })"

primrec copy_blocks :: "nat \<Rightarrow> int \<Rightarrow> copier \<Rightarrow> copier option" where
  "copy_blocks 0 blk st = Some st"
| "copy_blocks (Suc k) blk st = do { st \<leftarrow> copy_step blk st; copy_blocks k blk st }"

definition copy_run :: "int \<Rightarrow> int \<Rightarrow> copier \<Rightarrow> copier option" where
  "copy_run blk len st = do {
     st \<leftarrow> copy_blocks (nat (c_div len blk)) blk st;
     let last = c_mod len blk;
     if 0 < last then copy_step last st else Some st
   }"

definition COPY_LENGTH :: int where
  "COPY_LENGTH = 4096"

definition copy_part_of_file ::
  "fsys \<Rightarrow> string \<Rightarrow> int \<Rightarrow> int \<Rightarrow> string \<Rightarrow> fsys option" where
  "copy_part_of_file fs src offset len dst =
     (let file_size = get_file_size fs src
      in if file_size < offset then Some fs
      else do {
        e \<leftarrow> add_i32 len offset;
        let len = (if file_size < e then file_size - offset else len);
        reader \<leftarrow> FileMap_new fs src;
        let (fs, writer) = WriteFileMap_new fs dst;
        (fs, reader, writer, offset) \<leftarrow> copy_run COPY_LENGTH len (fs, reader, writer, offset);
        WriteFileMap_delete fs writer
      })"

definition file_tool_do_command :: "fsys \<Rightarrow> string list \<Rightarrow> fsys option" where
  "file_tool_do_command fs argv =
     (if length argv < 6 then Some fs
      else do {
        offset \<leftarrow> atoi (argv ! 3);
        len \<leftarrow> atoi (argv ! 4);
        copy_part_of_file fs (argv ! 2) offset len (argv ! 5)
      })"

definition copying ::
  "string \<Rightarrow> byte list \<Rightarrow> string \<Rightarrow> fsys \<Rightarrow> byte list \<Rightarrow> nat \<Rightarrow> copier \<Rightarrow> bool" where
  "copying p N q fs0 out off st \<longleftrightarrow> (case st of (fs, reader, writer, offset) \<Rightarrow>
     fm_ok fs p N reader \<and> wf_holds fs q out writer \<and> fs_frame q fs0 fs \<and> offset = int off)"

lemma copy_step_ok:
  assumes st: "copying p N q fs0 out off st" and pq: "p \<noteq> q" and n: "off + n \<le> length N"
    and small: "int n \<le> BUFFER_LENGTH"
  shows "\<exists>st'. copy_step (int n) st = Some st' \<and>
           copying p N q fs0 (out @ take n (drop off N)) (off + n) st'"
proof -
  obtain fs r w where e: "st = (fs, r, w, int off)" and r: "fm_ok fs p N r"
    and w: "wf_holds fs q out w" and f: "fs_frame q fs0 fs"
    using st by (auto simp: copying_def split: prod.splits)
  from MapFileContent_ok [OF r, of off n] n small
  obtain r' pt m where map: "MapFileContent fs (int off) (int n) r = Some (r', pt)"
    and r': "fm_ok fs p N r'" and m: "fm_mem r' pt = Some m" and sh: "fm_shows N off n m"
    by (auto simp: BUFFER_LENGTH_def)
  from AppendData_ok [OF w fm_shows_inside [OF sh n] small]
  obtain fs' w' where app: "AppendData fs (Some m) (int n) w = Some (fs', w')"
    "wf_holds fs' q (out @ take n (drop off N)) w'" "fs_frame q fs fs'" by blast
  then show ?thesis
    using map m fm_ok_frame [OF r' app(3) pq] fs_frame_trans [OF f app(3)]
    by (simp add: copy_step_def e copying_def)
qed

lemma copy_blocks_ok:
  assumes "copying p N q fs0 out off st" and "p \<noteq> q" and "off + k * b \<le> length N"
    and "int b \<le> BUFFER_LENGTH"
  shows "\<exists>st'. copy_blocks k (int b) st = Some st' \<and>
           copying p N q fs0 (out @ take (k * b) (drop off N)) (off + k * b) st'"
  using assms
proof (induction k arbitrary: st out off)
  case 0
  then show ?case by simp
next
  case (Suc k)
  then have "off + b \<le> length N" by simp
  from copy_step_ok [OF Suc.prems(1,2) this Suc.prems(4)] obtain st1 where
    s: "copy_step (int b) st = Some st1"
    and c: "copying p N q fs0 (out @ take b (drop off N)) (off + b) st1" by blast
  from Suc.IH [OF c Suc.prems(2)] Suc.prems(3,4) obtain st2 where
    "copy_blocks k (int b) st1 = Some st2"
    "copying p N q fs0 ((out @ take b (drop off N)) @ take (k * b) (drop (off + b) N))
       (off + b + k * b) st2"
    by (auto simp: add.assoc)
  with s show ?case by (simp add: take_add add.commute [of b off] add.assoc)
qed

lemma copy_run_ok:
  assumes "copying p N q fs0 out off st" and "p \<noteq> q" and "off + len \<le> length N"
    and "0 < b" and "int b \<le> BUFFER_LENGTH"
  shows "\<exists>st'. copy_run (int b) (int len) st = Some st' \<and>
           copying p N q fs0 (out @ take len (drop off N)) (off + len) st'"
proof -
  let ?k = "len div b" and ?l = "len mod b"
  have len: "len = ?k * b + ?l" by simp
  have k: "off + ?k * b \<le> length N" using assms(3) len by linarith
  from copy_blocks_ok [OF assms(1,2) k assms(5)] obtain st1 where
    s1: "copy_blocks ?k (int b) st = Some st1"
    and c1: "copying p N q fs0 (out @ take (?k * b) (drop off N)) (off + ?k * b) st1" by blast
  have l: "off + ?k * b + ?l \<le> length N" using assms(3) by (simp add: add.assoc)
  have "?l < b" using assms(4) by simp
  then have "int ?l \<le> BUFFER_LENGTH" using assms(5) by linarith
  from copy_step_ok [OF c1 assms(2) l this] obtain st2 where
    s2: "copy_step (int ?l) st1 = Some st2"
    and c2: "copying p N q fs0 ((out @ take (?k * b) (drop off N)) @
       take ?l (drop (off + ?k * b) N)) (off + ?k * b + ?l) st2" by blast
  have e: "(out @ take (?k * b) (drop off N)) @ take ?l (drop (off + ?k * b) N)
      = out @ take len (drop off N)"
    using take_add [of "?k * b" ?l "drop off N"] by (simp add: add.commute)
  have n: "c_div (int len) (int b) = int ?k" "c_mod (int len) (int b) = int ?l"
    using assms(4) by (simp_all add: zdiv_int zmod_int)
  show ?thesis
  proof (cases "?l = 0")
    case True
    then have "len div b * b = len" using len by linarith
    then show ?thesis using s1 c1 True by (simp add: copy_run_def n)
  next
    case False
    then show ?thesis using s1 s2 c2 e by (simp add: copy_run_def n add.commute [of off len])
  qed
qed

lemma copying_start:
  assumes "fm_ok fs p N r" and "\<not> fs_denied fs q" and "p \<noteq> q"
    and "WriteFileMap_new fs q = (fs', w)"
  shows "copying p N q fs [] off (fs', r, w, int off)"
  using WriteFileMap_new_ok [OF assms(2)] fm_ok_frame [OF assms(1), of q fs'] assms
  by (simp add: copying_def)

lemma copy_part_of_file_ok:
  assumes "fs_files fs src = Some c" and "\<not> fs_denied fs src" and "\<not> fs_denied fs dst"
    and "src \<noteq> dst" and "int (length c) < DEFAULT_BUFFER_LENGTH" and "off \<le> length c"
    and "len < 2 ^ 30"
  shows "\<exists>fs'. copy_part_of_file fs src (int off) (int len) dst = Some fs' \<and>
           fs_files fs' dst = Some (take len (drop off c)) \<and> fs_frame dst fs fs'"
proof -
  have size: "get_file_size fs src = int (length c)"
    using assms by (intro get_file_size_small) (simp_all add: DEFAULT_BUFFER_LENGTH_def)
  from FileMap_new_ok [OF assms(1,2,5)] obtain r where
    r: "FileMap_new fs src = Some r" "fm_ok fs src c r" by blast
  obtain fs1 w where w: "WriteFileMap_new fs dst = (fs1, w)" by fastforce
  note c0 = copying_start [OF r(2) assms(3,4) w, of off]
  define l where "l = min len (length c - off)"
  have l: "(if int (length c) < int len + int off then int (length c) - int off else int len) = int l"
    and inside: "off + l \<le> length c" and t: "take l (drop off c) = take len (drop off c)"
    using assms(6) by (auto simp: l_def min_def)
  have b: "COPY_LENGTH = int 4096" "int 4096 \<le> BUFFER_LENGTH"
    by (simp_all add: COPY_LENGTH_def BUFFER_LENGTH_def)
  from copy_run_ok [OF c0 assms(4) inside _ b(2)] obtain st where
    run: "copy_run COPY_LENGTH (int l) (fs1, r, w, int off) = Some st"
    and st: "copying src c dst fs ([] @ take l (drop off c)) (off + l) st" by (auto simp: b(1))
  obtain fs2 r2 w2 o2 where e: "st = (fs2, r2, w2, o2)" by (cases st)
  from st have w2: "wf_holds fs2 dst (take len (drop off c)) w2" and f: "fs_frame dst fs fs2"
    by (auto simp: copying_def e t)
  from WriteFileMap_delete_ok [OF w2] obtain fs3 where
    "WriteFileMap_delete fs2 w2 = Some fs3" "fs_files fs3 dst = Some (take len (drop off c))"
    "fs_frame dst fs2 fs3" by blast
  moreover have "add_i32 (int len) (int off) = Some (int len + int off)"
    using assms by (simp add: add_i32_def i32_ok_def DEFAULT_BUFFER_LENGTH_def)
  ultimately show ?thesis
    using assms(6) size r w run l fs_frame_trans [OF f]
    by (simp add: copy_part_of_file_def e)
qed

end
