(* ===== verification/RsyncCore.thy ===== *)
theory RsyncCore
  imports Checksum FileIO
begin

text \<open>
  \<open>librsync/rsync_core.cpp\<close>: the signature of an old file, the scan of a new file against it, the
  delta file and the patch, and the command \<open>rdiff\<close> that runs them.

  \<open>CHUNK_SIZE\<close> is the argument \<open>cs\<close>; the digest is the argument \<open>md4\<close>.  The file system argument of
  the scan does not change; the writers of the other operations thread it.
\<close>

definition CHUNK_SIZE :: int where
  "CHUNK_SIZE = 1024 * 20 * 1"

definition SIG_MAGIC :: u32 where
  "SIG_MAGIC = 0x1234567"

definition DELTA_MAGIC :: u32 where
  "DELTA_MAGIC = 0x1234568"

definition WRITE_LENGTH_OF_OLD_FILE :: int where
  "WRITE_LENGTH_OF_OLD_FILE = 4096"

record chunk_info =
  ci_weak_sum :: u32
  ci_from :: bool
  ci_offset :: int
  ci_length :: int
  ci_strong_sum :: "byte list"

text \<open>\<open>from_\<close> true: literal bytes of the new file; false: a chunk of the old file.\<close>

record offset_node =
  on_from :: bool
  on_offset :: int
  on_length :: int

definition OffsetNode :: "bool \<Rightarrow> int \<Rightarrow> int \<Rightarrow> offset_node" where
  "OffsetNode from offset len = \<lparr>on_from = from, on_offset = offset, on_length = len\<rparr>"

section \<open>Signatures\<close>

text \<open>One turn of the loop of \<open>GenerateMetaList\<close>; the branch for the last, shorter chunk is dead.\<close>

definition meta_step ::
  "(byte list \<Rightarrow> byte list) \<Rightarrow> int \<Rightarrow> fsys \<Rightarrow> int \<Rightarrow> file_map \<times> checksum3 \<Rightarrow>
   ((file_map \<times> checksum3) \<times> chunk_info) option" where
  "meta_step md4 cs fs i st = (case st of (fm, summer) \<Rightarrow> do {
     (fm, q) \<leftarrow> MapFileContent fs (i * cs) cs fm;
     buf \<leftarrow> fm_mem fm q;
     (strong, summer) \<leftarrow> Checksum3_StrongSum md4 (Some buf) cs summer;
     weak \<leftarrow> Checksum3_Sum1 0 buf cs;
     Some ((fm, summer), \<lparr>ci_weak_sum = weak, ci_from = True, ci_offset = i * cs, ci_length = cs,
                          ci_strong_sum = strong\<rparr>)
   })"

fun meta_loop ::
  "(byte list \<Rightarrow> byte list) \<Rightarrow> int \<Rightarrow> fsys \<Rightarrow> nat \<Rightarrow> int \<Rightarrow> file_map \<times> checksum3 \<Rightarrow>
   chunk_info list option" where
  "meta_loop md4 cs fs 0 i st = Some []"
| "meta_loop md4 cs fs (Suc k) i st = do {
     (st, c) \<leftarrow> meta_step md4 cs fs i st;
     rest \<leftarrow> meta_loop md4 cs fs k (i + 1) st;
     Some (c # rest)
   }"

definition GenerateMetaList ::
  "(byte list \<Rightarrow> byte list) \<Rightarrow> int \<Rightarrow> fsys \<Rightarrow> string \<Rightarrow> chunk_info list option" where
  "GenerateMetaList md4 cs fs old_file = do {
     let src_size = get_file_size fs old_file;
     let count = c_div src_size cs;
     fm \<leftarrow> FileMap_new fs old_file;
     meta_loop md4 cs fs (nat count) 0 (fm, Checksum3_new)
   }"

text \<open>A writer and its file system; \<open>put\<close> is \<open>AppendData\<close> of a local variable.\<close>

definition put :: "byte list \<Rightarrow> fsys \<times> write_file_map \<Rightarrow> (fsys \<times> write_file_map) option" where
  "put bs st = AppendData (fst st) (Some bs) (int (length bs)) (snd st)"

definition sig_record :: "chunk_info \<Rightarrow> fsys \<times> write_file_map \<Rightarrow> (fsys \<times> write_file_map) option" where
  "sig_record c st = do {
     st \<leftarrow> put [if ci_from c then 0xff else 0x00] st;
     st \<leftarrow> put (be32 (ci_weak_sum c)) st;
     st \<leftarrow> put (wr_i32 (ci_offset c)) st;
     st \<leftarrow> put (wr_i32 (ci_length c)) st;
     put (ci_strong_sum c) st
   }"

definition GenerateSigFile ::
  "(byte list \<Rightarrow> byte list) \<Rightarrow> int \<Rightarrow> fsys \<Rightarrow> string \<Rightarrow> string \<Rightarrow> (int \<times> fsys) option" where
  "GenerateSigFile md4 cs fs old_file sig_file = do {
     sig_list \<leftarrow> GenerateMetaList md4 cs fs old_file;
     let st = WriteFileMap_new fs sig_file;
     st \<leftarrow> put (be32 SIG_MAGIC) st;
     st \<leftarrow> put (wr_i32 cs) st;
     st \<leftarrow> put (be32 (of_nat (length sig_list))) st;
     (fs, writer) \<leftarrow> foldM sig_record sig_list st;
     fs \<leftarrow> WriteFileMap_delete fs writer;
     Some (0, fs)
   }"

text \<open>
  \<open>new string(buf, 0, 32)\<close> makes a string of all the characters up to the next zero byte and keeps
  32 of them.
\<close>

definition c_string :: "byte list \<Rightarrow> nat \<Rightarrow> byte list option" where
  "c_string m p = (if 0 \<in> set (drop p m) then Some (takeWhile (\<lambda>b. b \<noteq> 0) (drop p m)) else None)"

definition parse_chunk :: "byte list \<Rightarrow> nat \<Rightarrow> chunk_info option" where
  "parse_chunk m p = do {
     from \<leftarrow> peek m p;
     weak \<leftarrow> load m (p + 1) 4;
     off \<leftarrow> load m (p + 5) 4;
     len \<leftarrow> load m (p + 9) 4;
     s \<leftarrow> c_string m (p + 13);
     Some \<lparr>ci_weak_sum = rd32 weak, ci_from = (from \<noteq> 0x00), ci_offset = rd_i32 off,
           ci_length = rd_i32 len, ci_strong_sum = take 32 s\<rparr>
   }"

fun parse_chunks :: "byte list \<Rightarrow> nat \<Rightarrow> nat \<Rightarrow> chunk_info list option" where
  "parse_chunks m 0 p = Some []"
| "parse_chunks m (Suc k) p = do {
     c \<leftarrow> parse_chunk m p;
     cs \<leftarrow> parse_chunks m k (p + 45);
     Some (c # cs)
   }"

text \<open>The inner \<open>None\<close> is the null list of a wrong magic number.\<close>

definition ParseMetaList :: "byte list \<Rightarrow> chunk_info list option option" where
  "ParseMetaList m = do {
     magic \<leftarrow> load m 0 4;
     if rd32 magic \<noteq> SIG_MAGIC then Some None
     else do {
       chunk_size \<leftarrow> load m 4 4;
       list_size \<leftarrow> load m 8 4;
       cs \<leftarrow> parse_chunks m (nat (rd_i32 list_size)) 12;
       Some (Some cs)
     }
   }"

section \<open>The scan\<close>

text \<open>
  The two tables: \<open>map\<close>, a filter on the weak sum modulo 4096, and \<open>sum_offset\<close>, from a weak sum to
  the last chunk that has it.  The table holds pointers into the list: here, positions in it.
\<close>

record sum_table =
  st_map :: "nat \<Rightarrow> u32"
  st_sum_offset :: "u32 \<rightharpoonup> nat"

fun fill_table :: "chunk_info list \<Rightarrow> nat \<Rightarrow> sum_table \<Rightarrow> sum_table" where
  "fill_table [] i t = t"
| "fill_table (c # cs) i t =
     (let t = t\<lparr>st_map := (st_map t)(unat (ci_weak_sum c mod 4096) := 1)\<rparr>;
          t = t\<lparr>st_sum_offset := (st_sum_offset t)(ci_weak_sum c \<mapsto> i)\<rparr>
      in fill_table cs (i + 1) t)"

definition new_table :: "chunk_info list \<Rightarrow> sum_table" where
  "new_table meta = fill_table meta 0 \<lparr>st_map = (\<lambda>_. 0), st_sum_offset = Map.empty\<rparr>"

record scan_state =
  sc_summer :: checksum3
  sc_meta :: "chunk_info list"
  sc_fm :: file_map
  sc_buf :: "nat option"
  sc_curr :: int
  sc_offset :: int
  sc_nodes :: "offset_node list"

text \<open>
  The code between the two \<open>// judge\<close> comments and their end: look the sum up, compare the strong
  sums of the window at \<open>pos\<close> and of the chunk found, and record the nodes.  \<open>buf\<close> is moved to the
  window whenever the strong sum is computed.
\<close>

definition scan_judge ::
  "(byte list \<Rightarrow> byte list) \<Rightarrow> int \<Rightarrow> fsys \<Rightarrow> sum_table \<Rightarrow> int \<Rightarrow> u32 \<Rightarrow> scan_state \<Rightarrow>
   (bool \<times> scan_state) option" where
  "scan_judge md4 cs fs t pos sum1 s =
     (if st_map t (unat (sum1 mod 4096)) \<noteq> 1 then Some (False, s)
      else case st_sum_offset t sum1 of
        None \<Rightarrow> Some (False, s)
      | Some k \<Rightarrow> do {
          (fm, q) \<leftarrow> MapFileContent fs pos cs (sc_fm s);
          (strong, summer) \<leftarrow> Checksum3_StrongSum md4 (fm_mem fm q) cs (sc_summer s);
          let s = s\<lparr>sc_fm := fm, sc_buf := q, sc_summer := summer\<rparr>;
          require (k < length (sc_meta s));
          let c = sc_meta s ! k;
          if strong = ci_strong_sum c then do {
            let nodes = (if sc_offset s \<noteq> pos
                         then sc_nodes s @ [OffsetNode True (sc_offset s) (pos - sc_offset s)]
                         else sc_nodes s);
            Some (True, s\<lparr>sc_meta := (sc_meta s)[k := c\<lparr>ci_from := False\<rparr>],
                          sc_nodes := nodes @ [OffsetNode False (ci_offset c) cs],
                          sc_offset := pos + cs\<rparr>)
          }
          else Some (False, s)
        })"

text \<open>The inner loop; \<open>k\<close> turns are left and \<open>i\<close> is the loop variable.  A hit leaves the loop before
  \<open>++curr\<close>.\<close>

fun scan_inner ::
  "(byte list \<Rightarrow> byte list) \<Rightarrow> int \<Rightarrow> fsys \<Rightarrow> sum_table \<Rightarrow> nat \<Rightarrow> nat \<Rightarrow> scan_state \<Rightarrow>
   scan_state option" where
  "scan_inner md4 cs fs t 0 i s = Some s"
| "scan_inner md4 cs fs t (Suc k) i s = do {
     buf \<leftarrow> fm_mem (sc_fm s) (sc_buf s);
     b \<leftarrow> peek buf i;
     summer \<leftarrow> Checksum3_Update 0 b (sc_summer s);
     let s = s\<lparr>sc_summer := summer\<rparr>;
     (hit, s) \<leftarrow> scan_judge md4 cs fs t (sc_curr s - cs + 1) (ck3_tmp_sum summer) s;
     if hit then Some s
     else scan_inner md4 cs fs t k (i + 1) (s\<lparr>sc_curr := sc_curr s + 1\<rparr>)
   }"

text \<open>One turn of the outer loop that does not break at once.\<close>

definition scan_turn ::
  "(byte list \<Rightarrow> byte list) \<Rightarrow> int \<Rightarrow> fsys \<Rightarrow> sum_table \<Rightarrow> int \<Rightarrow> scan_state \<Rightarrow> scan_state option"
  where
  "scan_turn md4 cs fs t dst_size s = do {
     (fm, q) \<leftarrow> MapFileContent fs (sc_curr s) cs (sc_fm s);
     buf \<leftarrow> fm_mem fm q;
     summer \<leftarrow> Checksum3_Init 0 buf cs (sc_summer s);
     let s = s\<lparr>sc_fm := fm, sc_buf := q, sc_summer := summer, sc_curr := sc_curr s + cs\<rparr>;
     (hit, s) \<leftarrow> scan_judge md4 cs fs t (sc_curr s - cs) (ck3_tmp_sum summer) s;
     if hit then Some s
     else do {
       let map_length = dst_size - sc_curr s;
       let map_length = (if cs < map_length then cs else map_length);
       (fm, q) \<leftarrow> MapFileContent fs (sc_curr s) map_length (sc_fm s);
       scan_inner md4 cs fs t (nat cs) 0 (s\<lparr>sc_fm := fm, sc_buf := q\<rparr>)
     }
   }"

partial_function (option) scan_loop ::
  "(byte list \<Rightarrow> byte list) \<Rightarrow> int \<Rightarrow> fsys \<Rightarrow> sum_table \<Rightarrow> int \<Rightarrow> scan_state \<Rightarrow> scan_state option"
  where
  "scan_loop md4 cs fs t dst_size s =
     (if dst_size < sc_curr s + cs then Some s
      else do {
        s \<leftarrow> scan_turn md4 cs fs t dst_size s;
        scan_loop md4 cs fs t dst_size s
      })"

declare scan_loop.simps [code]

text \<open>The result is the list of nodes and the chunk list, whose \<open>from_\<close> marks the scan has cleared.\<close>

definition ScanNewFile ::
  "(byte list \<Rightarrow> byte list) \<Rightarrow> int \<Rightarrow> fsys \<Rightarrow> chunk_info list option \<Rightarrow> string \<Rightarrow>
   (offset_node list \<times> chunk_info list) option" where
  "ScanNewFile md4 cs fs meta new_file = do {
     meta \<leftarrow> meta;
     let t = new_table meta;
     let dst_size = get_file_size fs new_file;
     fm \<leftarrow> FileMap_new fs new_file;
     s \<leftarrow> scan_loop md4 cs fs t dst_size
            \<lparr>sc_summer = Checksum3_new, sc_meta = meta, sc_fm = fm, sc_buf = None, sc_curr = 0,
             sc_offset = 0, sc_nodes = []\<rparr>;
     let nodes = (if sc_offset s < dst_size
                  then sc_nodes s @ [OffsetNode True (sc_offset s) (dst_size - sc_offset s)]
                  else sc_nodes s);
     Some (nodes, sc_meta s)
   }"

section \<open>The delta file\<close>

text \<open>One node of the list, written with the bytes of the new file behind \<open>reader\<close>.\<close>

definition delta_record ::
  "offset_node \<Rightarrow> file_map \<times> fsys \<times> write_file_map \<Rightarrow> (file_map \<times> fsys \<times> write_file_map) option" where
  "delta_record n st = (case st of (reader, st) \<Rightarrow>
     if on_from n then do {
       st \<leftarrow> put [0x00] st;
       (fs, writer) \<leftarrow> put (wr_i32 (on_length n)) st;
       (reader, q) \<leftarrow> MapFileContent fs (on_offset n) (on_length n) reader;
       st \<leftarrow> AppendData fs (fm_mem reader q) (on_length n) writer;
       Some (reader, st)
     } else do {
       st \<leftarrow> put [0xff] st;
       st \<leftarrow> put (wr_i32 (on_offset n)) st;
       st \<leftarrow> put (wr_i32 (on_length n)) st;
       Some (reader, st)
     })"

text \<open>
  The return value is \<open>None\<close> where the function ends without one.  \<open>tail\<close> is the memory behind the
  bytes read from the signature file.
\<close>

definition GenerateDeltaFile ::
  "(byte list \<Rightarrow> byte list) \<Rightarrow> int \<Rightarrow> byte list \<Rightarrow> fsys \<Rightarrow> string \<Rightarrow> string \<Rightarrow> string \<Rightarrow>
   (int option \<times> fsys) option" where
  "GenerateDeltaFile md4 cs tail fs new_file sig_file delta_file = do {
     (ret, sig_buf) \<leftarrow> fu_read_at fs 0 sig_file;
     (case sig_buf of
        None \<Rightarrow> Some (Some (- 1), fs)
      | Some buf \<Rightarrow> do {
          sig_list \<leftarrow> ParseMetaList (buf @ tail);
          (offset_list, sig_list) \<leftarrow> ScanNewFile md4 cs fs sig_list new_file;
          let new_file_size = get_file_size fs new_file;
          if new_file_size < cs then Some (Some 0, fs)
          else do {
            reader \<leftarrow> FileMap_new fs new_file;
            let st = WriteFileMap_new fs delta_file;
            st \<leftarrow> put (be32 DELTA_MAGIC) st;
            st \<leftarrow> put (be32 (of_nat (length offset_list))) st;
            (reader, fs, writer) \<leftarrow> foldM delta_record offset_list (reader, st);
            fs \<leftarrow> WriteFileMap_delete fs writer;
            Some (None, fs)
          }
        })
   }"

section \<open>The patch\<close>

text \<open>A field of the delta file: map it, step over it, read it.\<close>

definition take_field :: "fsys \<Rightarrow> nat \<Rightarrow> file_map \<times> int \<Rightarrow> (byte list \<times> file_map \<times> int) option" where
  "take_field fs n d = (case d of (delta, offset) \<Rightarrow> do {
     (delta, q) \<leftarrow> MapFileContent fs offset (int n) delta;
     m \<leftarrow> fm_mem delta q;
     bs \<leftarrow> load m 0 n;
     Some (bs, delta, offset + int n)
   })"

record patch_state =
  ps_fs :: fsys
  ps_old :: file_map
  ps_delta :: "file_map \<times> int"
  ps_writer :: write_file_map

text \<open>One turn of the loop; the first component is false when the record has neither mark.\<close>

definition patch_step :: "patch_state \<Rightarrow> (bool \<times> patch_state) option" where
  "patch_step s = do {
     (mark, d) \<leftarrow> take_field (ps_fs s) 1 (ps_delta s);
     if mark = [0xff] then do {
       (o4, d) \<leftarrow> take_field (ps_fs s) 4 d;
       (l4, d) \<leftarrow> take_field (ps_fs s) 4 d;
       (fs, old, writer, _) \<leftarrow>
          copy_run WRITE_LENGTH_OF_OLD_FILE (rd_i32 l4) (ps_fs s, ps_old s, ps_writer s, rd_i32 o4);
       Some (True, s\<lparr>ps_fs := fs, ps_old := old, ps_writer := writer, ps_delta := d\<rparr>)
     } else if mark = [0x00] then do {
       (l4, delta, offset) \<leftarrow> take_field (ps_fs s) 4 d;
       (fs, delta, writer, offset) \<leftarrow>
          copy_run WRITE_LENGTH_OF_OLD_FILE (rd_i32 l4) (ps_fs s, delta, ps_writer s, offset);
       Some (True, s\<lparr>ps_fs := fs, ps_writer := writer, ps_delta := (delta, offset)\<rparr>)
     } else Some (False, s\<lparr>ps_delta := d\<rparr>)
   }"

fun patch_loop :: "nat \<Rightarrow> patch_state \<Rightarrow> (bool \<times> patch_state) option" where
  "patch_loop 0 s = Some (True, s)"
| "patch_loop (Suc k) s = do {
     (ok, s) \<leftarrow> patch_step s;
     if ok then patch_loop k s else Some (False, s)
   }"

definition PatchFile :: "fsys \<Rightarrow> string \<Rightarrow> string \<Rightarrow> string \<Rightarrow> (int option \<times> fsys) option" where
  "PatchFile fs old_file delta_file result_file = do {
     delta \<leftarrow> FileMap_new fs delta_file;
     (magic, d) \<leftarrow> take_field fs 4 (delta, 0);
     if rd32 magic \<noteq> DELTA_MAGIC then Some (Some (- 1), fs)
     else do {
       (count, d) \<leftarrow> take_field fs 4 d;
       old \<leftarrow> FileMap_new fs old_file;
       let (fs, writer) = WriteFileMap_new fs result_file;
       (ok, s) \<leftarrow> patch_loop (nat (rd_i32 count))
                    \<lparr>ps_fs = fs, ps_old = old, ps_delta = d, ps_writer = writer\<rparr>;
       fs \<leftarrow> WriteFileMap_delete (ps_fs s) (ps_writer s);
       Some (if ok then None else Some (- 1), fs)
     }
   }"

text \<open>\<open>rdiff\<close>: the result is the exit code; the codes of the three calls are dropped.\<close>

definition rdiff_main ::
  "(byte list \<Rightarrow> byte list) \<Rightarrow> int \<Rightarrow> byte list \<Rightarrow> fsys \<Rightarrow> string list \<Rightarrow> (int \<times> fsys) option" where
  "rdiff_main md4 cs tail fs argv =
     (if length argv < 3 then Some (- 1, fs)
      else do {
        (_, fs) \<leftarrow> GenerateSigFile md4 cs fs (argv ! 1) (argv ! 2);
        (_, fs) \<leftarrow> (if 5 \<le> length argv
                   then GenerateDeltaFile md4 cs tail fs (argv ! 3) (argv ! 2) (argv ! 4)
                   else Some (None, fs));
        (_, fs) \<leftarrow> (if length argv = 6 then PatchFile fs (argv ! 1) (argv ! 4) (argv ! 5)
                   else Some (None, fs));
        Some (0, fs)
      })"

section \<open>Writing records\<close>

definition writing :: "string \<Rightarrow> fsys \<Rightarrow> byte list \<Rightarrow> fsys \<times> write_file_map \<Rightarrow> bool" where
  "writing q fs0 out st \<longleftrightarrow> wf_holds (fst st) q out (snd st) \<and> fs_frame q fs0 (fst st)"

lemma put_ok:
  assumes "writing q fs0 out st" and "int (length bs) \<le> BUFFER_LENGTH"
  obtains st' where "put bs st = Some st'" and "writing q fs0 (out @ bs) st'"
proof -
  from assms(1) have w: "wf_holds (fst st) q out (snd st)" and f: "fs_frame q fs0 (fst st)"
    by (simp_all add: writing_def)
  from AppendData_bytes [OF w assms(2) refl] obtain fs' w' where
    "AppendData (fst st) (Some bs) (int (length bs)) (snd st) = Some (fs', w')"
    "wf_holds fs' q (out @ bs) w'" "fs_frame q (fst st) fs'" by blast
  then show ?thesis
    using that [of "(fs', w')"] fs_frame_trans [OF f] by (simp add: put_def writing_def)
qed

lemma writing_start:
  "\<not> fs_denied fs q \<Longrightarrow> writing q fs [] (WriteFileMap_new fs q)"
  using WriteFileMap_new_ok [of fs q] by (auto simp: writing_def)

lemma writing_end:
  assumes "writing q fs0 out (fs, w)"
  obtains fs' where "WriteFileMap_delete fs w = Some fs'" and "fs_files fs' q = Some out"
    and "fs_frame q fs0 fs'"
proof -
  from assms have w: "wf_holds fs q out w" and f: "fs_frame q fs0 fs"
    by (simp_all add: writing_def)
  from WriteFileMap_delete_ok [OF w] obtain fs' where
    "WriteFileMap_delete fs w = Some fs'" "fs_files fs' q = Some out" "fs_frame q fs fs'" by blast
  with that fs_frame_trans [OF f] show ?thesis by blast
qed

lemma puts_ok:
  assumes "writing q fs0 out st" and "\<forall>bs \<in> set bss. int (length bs) \<le> BUFFER_LENGTH"
  obtains st' where "foldM put bss st = Some st'" and "writing q fs0 (out @ concat bss) st'"
  using assms
proof (induction bss arbitrary: out st thesis)
  case Nil
  then show ?case by simp
next
  case (Cons bs bss)
  obtain s1 where s1: "put bs st = Some s1" "writing q fs0 (out @ bs) s1"
    using put_ok [OF Cons.prems(2), of bs] Cons.prems(3) by auto
  obtain s2 where "foldM put bss s1 = Some s2" "writing q fs0 ((out @ bs) @ concat bss) s2"
    using Cons.IH [OF _ s1(2)] Cons.prems(3) by auto
  with s1(1) show ?case by (intro Cons.prems(1)) simp_all
qed

section \<open>The signature of a file\<close>

definition chunk :: "nat \<Rightarrow> byte list \<Rightarrow> nat \<Rightarrow> byte list" where
  "chunk C old k = take C (drop (k * C) old)"

definition weak3 :: "byte list \<Rightarrow> u32" where
  "weak3 w = ck3_pack (ck3_s1 0 w) (ck3_s2 0 w)"

definition meta_of :: "(byte list \<Rightarrow> byte list) \<Rightarrow> nat \<Rightarrow> byte list \<Rightarrow> nat \<Rightarrow> chunk_info" where
  "meta_of md4 C old k =
     \<lparr>ci_weak_sum = weak3 (chunk C old k), ci_from = True, ci_offset = int (k * C),
      ci_length = int C, ci_strong_sum = hex_string (md4 (chunk C old k))\<rparr>"

definition meta_list :: "(byte list \<Rightarrow> byte list) \<Rightarrow> nat \<Rightarrow> byte list \<Rightarrow> chunk_info list" where
  "meta_list md4 C old = map (meta_of md4 C old) [0..<length old div C]"

lemma chunk_inside: "k < length old div C \<Longrightarrow> k * C + C \<le> length old"
proof -
  assume "k < length old div C"
  then have "Suc k * C \<le> (length old div C) * C" by (intro mult_le_mono1) simp
  also have "\<dots> \<le> length old" by simp
  finally show ?thesis by simp
qed

lemma length_chunk: "k < length old div C \<Longrightarrow> length (chunk C old k) = C"
  using chunk_inside [of k old C] by (simp add: chunk_def)

lemma Checksum3_Sum1_load:
  "load m 0 (nat n) = Some w \<Longrightarrow> Checksum3_Sum1 0 m n = Some (weak3 w)"
  by (simp add: Checksum3_Sum1_def weak3_def ck3_quads_bytes ck3_bytes_eq)

lemma meta_step_ok:
  assumes fm: "fm_ok fs p old fm" and k: "k < length old div C" and C: "int C \<le> 2 ^ 30"
  shows "\<exists>fm'. meta_step md4 (int C) fs (int k) (fm, s) = Some ((fm', s), meta_of md4 C old k) \<and>
           fm_ok fs p old fm'"
proof -
  note inside = chunk_inside [OF k]
  from MapFileContent_ok [OF fm, of "k * C" C] inside C obtain fm' q m where
    map: "MapFileContent fs (int k * int C) (int C) fm = Some (fm', q)" "fm_ok fs p old fm'"
      "fm_mem fm' q = Some m" and sh: "fm_shows old (k * C) C m"
    by auto
  have l: "load m 0 C = Some (chunk C old k)"
    using fm_shows_inside [OF sh inside] by (simp add: chunk_def)
  show ?thesis
    using map l Checksum3_StrongSum_data [of "int C" m "chunk C old k" md4 s]
      Checksum3_Sum1_load [of m "int C" "chunk C old k"]
    by (simp add: meta_step_def meta_of_def)
qed

lemma meta_loop_ok:
  assumes "fm_ok fs p old fm" and "i + n = length old div C" and "int C \<le> 2 ^ 30"
  shows "meta_loop md4 (int C) fs n (int i) (fm, s) = Some (map (meta_of md4 C old) [i..<i + n])"
  using assms
proof (induction n arbitrary: i fm)
  case 0
  then show ?case by simp
next
  case (Suc n)
  from meta_step_ok [OF Suc.prems(1) _ Suc.prems(3), of i md4 s] Suc.prems(2) obtain fm' where
    "meta_step md4 (int C) fs (int i) (fm, s) = Some ((fm', s), meta_of md4 C old i)"
    and fm': "fm_ok fs p old fm'" by auto
  moreover have "[i..<i + Suc n] = i # [Suc i..<Suc i + n]" by (simp add: upt_conv_Cons)
  moreover have "meta_loop md4 (int C) fs n (int i + 1) (fm', s) =
      Some (map (meta_of md4 C old) [Suc i..<Suc i + n])"
    using Suc.IH [OF fm', of "Suc i"] Suc.prems(2,3)
    by (simp only: of_nat_Suc add_Suc add_Suc_right add.commute [of 1])
  ultimately show ?case by (simp del: upt_Suc)
qed

definition file_ok :: "fsys \<Rightarrow> string \<Rightarrow> byte list \<Rightarrow> bool" where
  "file_ok fs p N \<longleftrightarrow>
     fs_files fs p = Some N \<and> \<not> fs_denied fs p \<and> int (length N) < DEFAULT_BUFFER_LENGTH"

lemma file_ok_size: "file_ok fs p N \<Longrightarrow> get_file_size fs p = int (length N)"
  by (intro get_file_size_small) (simp_all add: file_ok_def DEFAULT_BUFFER_LENGTH_def)

lemma file_ok_open: "file_ok fs p N \<Longrightarrow> \<exists>fm. FileMap_new fs p = Some fm \<and> fm_ok fs p N fm"
  by (simp add: file_ok_def FileMap_new_ok)

lemma file_ok_frame: "file_ok fs p N \<Longrightarrow> fs_frame q fs fs' \<Longrightarrow> p \<noteq> q \<Longrightarrow> file_ok fs' p N"
  by (simp add: file_ok_def fs_frame_def)

lemma GenerateMetaList_ok:
  assumes f: "file_ok fs p old" and C: "0 < C" "int C \<le> 2 ^ 30"
  shows "GenerateMetaList md4 (int C) fs p = Some (meta_list md4 C old)"
proof -
  from file_ok_open [OF f] obtain fm where fm: "FileMap_new fs p = Some fm" "fm_ok fs p old fm"
    by blast
  have "c_div (get_file_size fs p) (int C) = int (length old div C)"
    using C by (simp add: file_ok_size [OF f] zdiv_int)
  then show ?thesis
    using fm meta_loop_ok [OF fm(2), of 0 "length old div C" C md4 Checksum3_new] C(2)
    by (simp add: GenerateMetaList_def meta_list_def)
qed

section \<open>The signature file\<close>

definition chunk_bytes :: "chunk_info \<Rightarrow> byte list" where
  "chunk_bytes c = [if ci_from c then 0xff else 0x00] @ be32 (ci_weak_sum c) @
     wr_i32 (ci_offset c) @ wr_i32 (ci_length c) @ ci_strong_sum c"

definition sig_bytes :: "int \<Rightarrow> chunk_info list \<Rightarrow> byte list" where
  "sig_bytes cs meta = be32 SIG_MAGIC @ wr_i32 cs @ be32 (of_nat (length meta)) @
     concat (map chunk_bytes meta)"

lemma sig_record_ok:
  assumes "writing q fs0 out st" and "length (ci_strong_sum c) = 32"
  obtains st' where "sig_record c st = Some st'" and "writing q fs0 (out @ chunk_bytes c) st'"
proof -
  define h where "h = [[if ci_from c then 0xff else 0x00], be32 (ci_weak_sum c),
      wr_i32 (ci_offset c), wr_i32 (ci_length c), ci_strong_sum c]"
  have "sig_record c st = foldM put h st" by (simp add: sig_record_def h_def foldM_fun)
  moreover have "chunk_bytes c = concat h" by (simp add: chunk_bytes_def h_def)
  moreover have "\<forall>bs \<in> set h. int (length bs) \<le> BUFFER_LENGTH"
    by (simp add: h_def BUFFER_LENGTH_def assms(2))
  ultimately show ?thesis using puts_ok [OF assms(1)] that by metis
qed

lemma sig_records_ok:
  assumes "writing q fs0 out st" and "\<forall>c \<in> set meta. length (ci_strong_sum c) = 32"
  obtains st' where "foldM sig_record meta st = Some st'"
    and "writing q fs0 (out @ concat (map chunk_bytes meta)) st'"
  using assms
proof (induction meta arbitrary: out st thesis)
  case Nil
  then show ?case by simp
next
  case (Cons c meta)
  from sig_record_ok [OF Cons.prems(2), of c] Cons.prems(3) obtain s1 where
    s1: "sig_record c st = Some s1" "writing q fs0 (out @ chunk_bytes c) s1" by auto
  from Cons.IH [OF _ s1(2)] Cons.prems(3) obtain s2 where
    "foldM sig_record meta s1 = Some s2"
    "writing q fs0 ((out @ chunk_bytes c) @ concat (map chunk_bytes meta)) s2" by auto
  with s1(1) show ?case by (intro Cons.prems(1)) simp_all
qed

lemma meta_list_strong:
  "\<forall>m. length (md4 m) = 16 \<Longrightarrow> c \<in> set (meta_list md4 C old) \<Longrightarrow> length (ci_strong_sum c) = 32"
  by (auto simp: meta_list_def meta_of_def length_hex_string)

lemma GenerateSigFile_ok:
  assumes f: "file_ok fs p old" and C: "0 < C" "int C \<le> 2 ^ 30"
    and md4: "\<forall>m. length (md4 m) = 16" and q: "\<not> fs_denied fs q"
  shows "\<exists>fs'. GenerateSigFile md4 (int C) fs p q = Some (0, fs') \<and>
           fs_files fs' q = Some (sig_bytes (int C) (meta_list md4 C old)) \<and> fs_frame q fs fs'"
proof -
  let ?l = "meta_list md4 C old"
  let ?h = "[be32 SIG_MAGIC, wr_i32 (int C), be32 (of_nat (length ?l))]"
  obtain s3 where 3: "foldM put ?h (WriteFileMap_new fs q) = Some s3"
    "writing q fs ([] @ concat ?h) s3"
    by (rule puts_ok [OF writing_start [OF q], of ?h]) (simp_all add: BUFFER_LENGTH_def)
  obtain s4 where 4: "foldM sig_record ?l s3 = Some s4"
    "writing q fs (([] @ concat ?h) @ concat (map chunk_bytes ?l)) s4"
    using sig_records_ok [OF 3(2)] meta_list_strong [OF md4] by blast
  obtain fs4 w4 where s4: "s4 = (fs4, w4)" by (cases s4)
  from 4(2) obtain fs5 where "WriteFileMap_delete fs4 w4 = Some fs5"
    "fs_files fs5 q = Some (sig_bytes (int C) ?l)" "fs_frame q fs fs5"
    by (auto simp: s4 sig_bytes_def elim!: writing_end)
  then show ?thesis
    using GenerateMetaList_ok [OF f C] 3(1) 4(1)
    by (cases s3) (auto simp: GenerateSigFile_def Let_def s4 foldM_fun bind_eq_Some_conv)
qed

text \<open>Parsing it again.\<close>

definition chunk_wf :: "chunk_info \<Rightarrow> bool" where
  "chunk_wf c \<longleftrightarrow> i32_ok (ci_offset c) \<and> i32_ok (ci_length c) \<and>
     length (ci_strong_sum c) = 32 \<and> 0 \<notin> set (ci_strong_sum c)"

lemma c_string_take:
  assumes "drop p m = s @ rest" and "0 \<notin> set s" and "0 \<in> set rest"
  shows "\<exists>r. c_string m p = Some r \<and> take (length s) r = s"
proof -
  have "takeWhile (\<lambda>b. b \<noteq> 0) (s @ rest) = s @ takeWhile (\<lambda>b. b \<noteq> 0) rest"
    using assms(2) by (intro takeWhile_append2) auto
  then show ?thesis using assms by (simp add: c_string_def)
qed

lemma parse_chunk_bytes:
  assumes wf: "chunk_wf c" and m: "drop p m = chunk_bytes c @ rest" and z: "0 \<in> set rest"
  shows "parse_chunk m p = Some c"
proof -
  let ?h = "[if ci_from c then 0xff else 0x00 :: byte]"
  have p: "p < length m" using m by (metis append_is_Nil_conv chunk_bytes_def drop_all leI not_Cons_self2 append_Cons)
  have m': "m = take p m @ ?h @ be32 (ci_weak_sum c) @ wr_i32 (ci_offset c) @ wr_i32 (ci_length c) @
      ci_strong_sum c @ rest"
    using m append_take_drop_id [of p m] by (simp add: chunk_bytes_def)
  define pre where "pre = take p m"
  have pre: "length pre = p" using p by (simp add: pre_def)
  have mm: "m = pre @ ?h @ be32 (ci_weak_sum c) @ wr_i32 (ci_offset c) @ wr_i32 (ci_length c) @
      ci_strong_sum c @ rest"
    using m' by (simp add: pre_def)
  have d: "drop (p + 13) m = ci_strong_sum c @ rest" unfolding mm by (simp add: pre [symmetric])
  from c_string_take [OF d] wf z obtain r where
    "c_string m (p + 13) = Some r" "take 32 r = ci_strong_sum c" by (auto simp: chunk_wf_def)
  moreover have "peek m p = Some (if ci_from c then 0xff else 0x00)"
    unfolding mm by (simp add: peek_def nth_append pre)
  moreover have "load m (p + 1) 4 = Some (be32 (ci_weak_sum c))"
    unfolding mm by (simp add: load_def pre [symmetric])
  moreover have "load m (p + 5) 4 = Some (wr_i32 (ci_offset c))"
    unfolding mm by (simp add: load_def pre [symmetric])
  moreover have "load m (p + 9) 4 = Some (wr_i32 (ci_length c))"
    unfolding mm by (simp add: load_def pre [symmetric])
  ultimately show ?thesis
    using wf by (simp add: parse_chunk_def chunk_wf_def)
qed

lemma parse_chunks_bytes:
  assumes "\<forall>c \<in> set cs. chunk_wf c" and "drop p m = concat (map chunk_bytes cs) @ rest"
    and "cs \<noteq> [] \<Longrightarrow> 0 \<in> set rest"
  shows "parse_chunks m (length cs) p = Some cs"
  using assms
proof (induction cs arbitrary: p)
  case Nil
  then show ?case by simp
next
  case (Cons c cs)
  let ?rest = "concat (map chunk_bytes cs) @ rest"
  have "length (chunk_bytes c) = 45"
    using Cons.prems(1) by (simp add: chunk_bytes_def chunk_wf_def)
  moreover have m: "drop p m = chunk_bytes c @ ?rest" using Cons.prems(2) by simp
  ultimately have "drop (p + 45) m = ?rest"
    by (metis add.commute append_eq_conv_conj drop_drop)
  then have "parse_chunks m (length cs) (p + 45) = Some cs"
    using Cons.IH Cons.prems(1,3) by simp
  moreover have "parse_chunk m p = Some c"
    using parse_chunk_bytes [OF _ m] Cons.prems by simp
  ultimately show ?case by simp
qed

lemma ParseMetaList_sig_bytes:
  assumes "\<forall>c \<in> set meta. chunk_wf c" and "length meta < 2 ^ 31"
    and "meta \<noteq> [] \<Longrightarrow> 0 \<in> set tail"
  shows "ParseMetaList (sig_bytes cs meta @ tail) = Some (Some meta)"
proof -
  let ?m = "sig_bytes cs meta @ tail"
  have n: "rd_i32 (be32 (of_nat (length meta))) = int (length meta)"
  proof -
    have "be32 (of_nat (length meta)) = wr_i32 (int (length meta))"
      by (simp add: wr_i32_def u32_of_def)
    moreover have "i32_ok (int (length meta))" using assms(2) by (simp add: i32_ok_def)
    ultimately show ?thesis by simp
  qed
  have "drop 12 ?m = concat (map chunk_bytes meta) @ tail" by (simp add: sig_bytes_def)
  from parse_chunks_bytes [OF assms(1) this assms(3)]
  have "parse_chunks ?m (length meta) 12 = Some meta" .
  moreover have "load ?m 0 4 = Some (be32 SIG_MAGIC)" "load ?m 4 4 = Some (wr_i32 cs)"
    "load ?m 8 4 = Some (be32 (of_nat (length meta)))"
    by (simp_all add: load_def sig_bytes_def)
  ultimately show ?thesis by (simp add: ParseMetaList_def n)
qed

end
