(* ===== verification/RsyncScan.thy ===== *)
theory RsyncScan
  imports RsyncCore
begin

text \<open>
  Correctness of \<open>ScanNewFile\<close>.  The scan returns, and the nodes it returns spell the new file out:
  the literal bytes and the referenced chunks, in order, are the new file, followed by at most one
  chunk length of other bytes when the last reference reaches past the end of the file.

  The rolling sum has no part in this: a reference is only made when the strong sums agree, so the
  two hypotheses are about the chunks.  \<open>no_collision\<close>: a run of bytes with the digest of a chunk,
  where it lies in the new file, agrees with the chunk.  \<open>no_overlap\<close>: no two chunks occur in the
  new file overlapping in exactly one byte; the scan loses a byte there.
\<close>

section \<open>What a list of nodes spells out\<close>

definition node_bytes :: "byte list \<Rightarrow> byte list \<Rightarrow> offset_node \<Rightarrow> byte list" where
  "node_bytes old N n =
     (if on_from n then take (nat (on_length n)) (drop (nat (on_offset n)) N)
      else take (nat (on_length n)) (drop (nat (on_offset n)) old))"

definition spell :: "byte list \<Rightarrow> byte list \<Rightarrow> offset_node list \<Rightarrow> byte list" where
  "spell old N nodes = concat (map (node_bytes old N) nodes)"

definition node_ok :: "byte list \<Rightarrow> byte list \<Rightarrow> offset_node \<Rightarrow> bool" where
  "node_ok old N n \<longleftrightarrow> 0 \<le> on_offset n \<and> 0 \<le> on_length n \<and>
     on_offset n + on_length n \<le> int (length (if on_from n then N else old))"

definition node_size :: "offset_node \<Rightarrow> int" where
  "node_size n = (if on_from n then 5 + on_length n else 9)"

definition nodes_size :: "offset_node list \<Rightarrow> int" where
  "nodes_size ns = (\<Sum>n\<leftarrow>ns. node_size n)"

lemma spell_append [simp]: "spell old N (xs @ ys) = spell old N xs @ spell old N ys"
  by (simp add: spell_def)

lemma spell_Nil [simp]: "spell old N [] = []"
  by (simp add: spell_def)

lemma spell_Cons: "spell old N (n # ns) = node_bytes old N n @ spell old N ns"
  by (simp add: spell_def)

lemma nodes_size_append [simp]: "nodes_size (xs @ ys) = nodes_size xs + nodes_size ys"
  by (simp add: nodes_size_def)

text \<open>The nodes spell out the new file up to \<open>off\<close>; the last reference may reach behind its end.\<close>

definition covers :: "nat \<Rightarrow> byte list \<Rightarrow> byte list \<Rightarrow> offset_node list \<Rightarrow> nat \<Rightarrow> bool" where
  "covers C old N nodes off \<longleftrightarrow>
     (\<forall>n \<in> set nodes. node_ok old N n) \<and> length (spell old N nodes) = off \<and>
     take (length N) (spell old N nodes) = take off N \<and> off \<le> length N + C"

definition agrees :: "byte list \<Rightarrow> nat \<Rightarrow> byte list \<Rightarrow> bool" where
  "agrees N p w \<longleftrightarrow> take (length N - p) w = take (length w) (drop p N)"

lemma covers_start [simp]: "covers C old N [] 0"
  by (simp add: covers_def)

lemma covers_literal:
  assumes "covers C old N nodes off" and "off \<le> p" and "p \<le> length N"
  shows "covers C old N (nodes @ [OffsetNode True (int off) (int p - int off)]) p"
proof -
  have "spell old N nodes = take off N" using assms by (auto simp: covers_def)
  moreover have "nat (int p - int off) = p - off" by simp
  ultimately show ?thesis
    using assms take_drop_split [of off p N]
    by (auto simp: covers_def spell_Cons node_bytes_def OffsetNode_def node_ok_def)
qed

lemma covers_chunk:
  assumes c: "covers C old N nodes p" and p: "p \<le> length N" and k: "k < length old div C"
    and a: "agrees N p (chunk C old k)"
  shows "covers C old N (nodes @ [OffsetNode False (int (k * C)) (int C)]) (p + C)"
proof -
  have s: "spell old N nodes = take p N" using c p by (auto simp: covers_def)
  have "nat (int k * int C) = k * C" by (simp add: nat_mult_distrib)
  then have b: "node_bytes old N (OffsetNode False (int (k * C)) (int C)) = chunk C old k"
    by (simp add: node_bytes_def OffsetNode_def chunk_def)
  have ok: "node_ok old N (OffsetNode False (int (k * C)) (int C))"
  proof -
    have "int (k * C + C) \<le> int (length old)" using chunk_inside [OF k] by linarith
    then show ?thesis by (simp add: node_ok_def OffsetNode_def)
  qed
  have "take (length N) (take p N @ chunk C old k) = take p N @ take (length N - p) (chunk C old k)"
    using p by (simp add: min_absorb2)
  also have "\<dots> = take p N @ take C (drop p N)"
    using a length_chunk [OF k] by (simp add: agrees_def)
  also have "\<dots> = take (p + C) N" by (simp add: take_add)
  finally show ?thesis
    using c p s b ok length_chunk [OF k] by (auto simp: covers_def spell_Cons)
qed

text \<open>How long the records of the nodes are: every literal but the last is followed by a chunk.\<close>

definition compact :: "nat \<Rightarrow> offset_node list \<Rightarrow> nat \<Rightarrow> int \<Rightarrow> bool" where
  "compact C nodes off e \<longleftrightarrow> nodes_size nodes \<le> 14 * int (off div C) + int off + e"

lemma compact_start [simp]: "compact C [] 0 0"
  by (simp add: compact_def nodes_size_def)

lemma compact_literal:
  assumes "compact C nodes off 0" and "off \<le> p"
  shows "compact C (nodes @ [OffsetNode True (int off) (int p - int off)]) p 5"
proof -
  have "int (off div C) \<le> int (p div C)" using assms(2) by (simp add: div_le_mono)
  then show ?thesis
    using assms by (simp add: compact_def nodes_size_def node_size_def OffsetNode_def)
qed

lemma compact_chunk:
  "0 < C \<Longrightarrow> compact C nodes p e \<Longrightarrow> e \<le> 5 \<Longrightarrow>
   compact C (nodes @ [OffsetNode False o' (int C)]) (p + C) 0"
  by (simp add: compact_def nodes_size_def node_size_def OffsetNode_def div_add_self2)

section \<open>The hypotheses on the chunks\<close>

definition no_collision ::
  "(byte list \<Rightarrow> byte list) \<Rightarrow> nat \<Rightarrow> byte list \<Rightarrow> byte list \<Rightarrow> bool" where
  "no_collision md4 C old N \<longleftrightarrow>
     (\<forall>k < length old div C. \<forall>p \<le> length N. \<forall>w. length w = C \<longrightarrow> agrees N p w \<longrightarrow>
        md4 w = md4 (chunk C old k) \<longrightarrow> agrees N p (chunk C old k))"

definition occurs :: "nat \<Rightarrow> byte list \<Rightarrow> byte list \<Rightarrow> nat \<Rightarrow> bool" where
  "occurs C old N p \<longleftrightarrow>
     p + C \<le> length N \<and> (\<exists>k < length old div C. take C (drop p N) = chunk C old k)"

definition no_overlap :: "nat \<Rightarrow> byte list \<Rightarrow> byte list \<Rightarrow> bool" where
  "no_overlap C old N \<longleftrightarrow>
     (\<forall>p \<le> length N. occurs C old N p \<longrightarrow> \<not> occurs C old N (p + C - 1))"

lemma agrees_inside:
  "length w = C \<Longrightarrow> p + C \<le> length N \<Longrightarrow> agrees N p w \<longleftrightarrow> w = take C (drop p N)"
  by (simp add: agrees_def)

lemma agrees_occurs:
  "k < length old div C \<Longrightarrow> p + C \<le> length N \<Longrightarrow> agrees N p (chunk C old k) \<Longrightarrow> occurs C old N p"
  by (auto simp: occurs_def agrees_inside length_chunk)

section \<open>Judging one window\<close>

text \<open>
  The chunk list during the scan: only \<open>from_\<close> changes, and the table refers to it by position.
\<close>

definition metas_ok ::
  "(byte list \<Rightarrow> byte list) \<Rightarrow> nat \<Rightarrow> byte list \<Rightarrow> chunk_info list \<Rightarrow> bool" where
  "metas_ok md4 C old meta \<longleftrightarrow>
     length meta = length old div C \<and>
     (\<forall>k < length old div C. ci_offset (meta ! k) = int (k * C) \<and>
        ci_strong_sum (meta ! k) = hex_string (md4 (chunk C old k)))"

definition table_ok :: "nat \<Rightarrow> sum_table \<Rightarrow> bool" where
  "table_ok n t \<longleftrightarrow> (\<forall>s k. st_sum_offset t s = Some k \<longrightarrow> k < n)"

lemma metas_ok_meta_list: "metas_ok md4 C old (meta_list md4 C old)"
  by (simp add: metas_ok_def meta_list_def meta_of_def)

lemma fill_table_bound:
  "\<forall>s k. st_sum_offset t s = Some k \<longrightarrow> k < i + length cs \<Longrightarrow>
   st_sum_offset (fill_table cs i t) s = Some k \<Longrightarrow> k < i + length cs"
proof (induction cs i t rule: fill_table.induct)
  case (1 i t)
  then show ?case by simp
next
  case (2 c cs i t)
  show ?case
    using 2(1) [OF refl refl] 2(2,3) by (fastforce simp: Let_def split: if_splits)
qed

lemma new_table_ok: "table_ok (length meta) (new_table meta)"
  using fill_table_bound [of "\<lparr>st_map = (\<lambda>_. 0), st_sum_offset = Map.empty\<rparr>" 0 meta]
  by (auto simp: table_ok_def new_table_def)

definition scan_inv ::
  "(byte list \<Rightarrow> byte list) \<Rightarrow> nat \<Rightarrow> byte list \<Rightarrow> byte list \<Rightarrow> fsys \<Rightarrow> string \<Rightarrow> scan_state \<Rightarrow> nat \<Rightarrow>
   bool" where
  "scan_inv md4 C old N fs p s off \<longleftrightarrow>
     fm_ok fs p N (sc_fm s) \<and> metas_ok md4 C old (sc_meta s) \<and> sc_offset s = int off \<and>
     covers C old N (sc_nodes s) off \<and> compact C (sc_nodes s) off 0"

definition readable :: "nat \<Rightarrow> scan_state \<Rightarrow> bool" where
  "readable C s \<longleftrightarrow> (\<exists>m. fm_mem (sc_fm s) (sc_buf s) = Some m \<and> C \<le> length m)"

lemma metas_ok_mark:
  "metas_ok md4 C old meta \<Longrightarrow> metas_ok md4 C old (meta[k := (meta ! k)\<lparr>ci_from := b\<rparr>])"
  by (cases "k < length meta") (auto simp: metas_ok_def nth_list_update)

lemma scan_judge_ok:
  assumes inv: "scan_inv md4 C old N fs p s off" and t: "table_ok (length old div C) t"
    and col: "no_collision md4 C old N" and md4: "\<forall>m. length (md4 m) = 16"
    and C: "0 < C" "C \<le> length N" and C30: "int C \<le> 2 ^ 30" and pos: "pos \<le> length N"
  shows "\<exists>hit s'. scan_judge md4 (int C) fs t (int pos) sum1 s = Some (hit, s') \<and>
      sc_summer s' = sc_summer s \<and> sc_curr s' = sc_curr s \<and>
      (if hit then (off \<le> pos \<longrightarrow> scan_inv md4 C old N fs p s' (pos + C)) \<and>
                   sc_offset s' = int (pos + C) \<and>
                   (\<exists>k < length old div C. agrees N pos (chunk C old k))
       else scan_inv md4 C old N fs p s' off \<and> (readable C s \<longrightarrow> readable C s'))"
proof (cases "st_map t (unat (sum1 mod 4096)) = 1 \<and> st_sum_offset t sum1 \<noteq> None")
  case False
  then show ?thesis using inv by (auto simp: scan_judge_def)
next
  case True
  then obtain k where k: "st_sum_offset t sum1 = Some k" by auto
  with t have kn: "k < length old div C" by (auto simp: table_ok_def)
  from inv have fm: "fm_ok fs p N (sc_fm s)" and me: "metas_ok md4 C old (sc_meta s)"
    and off: "sc_offset s = int off" and cov: "covers C old N (sc_nodes s) off"
    and com: "compact C (sc_nodes s) off 0"
    by (simp_all add: scan_inv_def)
  from MapFileContent_ok [OF fm pos C30] C obtain fm' q m where
    map: "MapFileContent fs (int pos) (int C) (sc_fm s) = Some (fm', q)" and fm': "fm_ok fs p N fm'"
      and m: "fm_mem fm' q = Some m" and sh: "fm_shows N pos C m" by auto
  from sh obtain w where w: "load m 0 C = Some w" "length w = C" "agrees N pos w"
    by (auto simp: fm_shows_def agrees_def)
  have st: "Checksum3_StrongSum md4 (fm_mem fm' q) (int C) (sc_summer s) =
      Some (hex_string (md4 w), sc_summer s)"
    using Checksum3_StrongSum_data [of "int C" m w md4] w(1) m by simp
  have len: "C \<le> length m" using w(1) by (auto simp: load_def split: if_splits)
  let ?c = "sc_meta s ! k"
  have c: "k < length (sc_meta s)" "ci_offset ?c = int (k * C)"
    "ci_strong_sum ?c = hex_string (md4 (chunk C old k))"
    using me kn by (auto simp: metas_ok_def)
  show ?thesis
  proof (cases "hex_string (md4 w) = ci_strong_sum ?c")
    case False
    define s' where "s' = s\<lparr>sc_fm := fm', sc_buf := q, sc_summer := sc_summer s\<rparr>"
    have "scan_judge md4 (int C) fs t (int pos) sum1 s = Some (False, s')"
      using True False k map st c(1) by (simp add: scan_judge_def s'_def)
    moreover have "scan_inv md4 C old N fs p s' off" and "readable C s'"
      and "sc_summer s' = sc_summer s" and "sc_curr s' = sc_curr s"
      using fm' me off cov com m len by (simp_all add: scan_inv_def readable_def s'_def)
    ultimately show ?thesis by (intro exI [of _ False] exI [of _ s']) simp
  next
    case hit: True
    then have "md4 w = md4 (chunk C old k)"
      using hex_string_inj [of "md4 w" "md4 (chunk C old k)"] md4 c(3) by simp
    then have ag: "agrees N pos (chunk C old k)"
      using col kn pos w(2,3) unfolding no_collision_def by blast
    define nodes where "nodes = (if sc_offset s \<noteq> int pos
       then sc_nodes s @ [OffsetNode True (sc_offset s) (int pos - sc_offset s)] else sc_nodes s)"
    have cov': "covers C old N (nodes @ [OffsetNode False (ci_offset ?c) (int C)]) (pos + C)" if "off \<le> pos"
    proof -
      have "covers C old N nodes pos"
        using covers_literal [OF cov that pos] cov off by (auto simp: nodes_def)
      from covers_chunk [OF this pos kn ag] show ?thesis by (simp add: c(2))
    qed
    have com': "compact C (nodes @ [OffsetNode False (ci_offset ?c) (int C)]) (pos + C) 0"
      if "off \<le> pos"
    proof -
      have "compact C nodes pos 5"
        using compact_literal [OF com that] com off by (auto simp: nodes_def compact_def)
      from compact_chunk [OF C(1) this] show ?thesis by simp
    qed
    define s' where "s' = s\<lparr>sc_fm := fm', sc_buf := q, sc_summer := sc_summer s,
        sc_meta := (sc_meta s)[k := ?c\<lparr>ci_from := False\<rparr>],
        sc_nodes := nodes @ [OffsetNode False (ci_offset ?c) (int C)],
        sc_offset := int pos + int C\<rparr>"
    have "scan_judge md4 (int C) fs t (int pos) sum1 s = Some (True, s')"
      using True hit k map st c(1) by (simp add: scan_judge_def s'_def nodes_def Let_def)
    moreover have "off \<le> pos \<longrightarrow> scan_inv md4 C old N fs p s' (pos + C)"
      using fm' metas_ok_mark [OF me, of k False] cov' com' by (simp add: scan_inv_def s'_def)
    moreover have "sc_offset s' = int (pos + C)" and "sc_summer s' = sc_summer s"
      and "sc_curr s' = sc_curr s" by (simp_all add: s'_def)
    ultimately show ?thesis using kn ag by (intro exI [of _ True] exI [of _ s']) auto
  qed
qed

section \<open>The loops\<close>

text \<open>The state in which the inner loop is left by a hit.\<close>

definition just_hit :: "nat \<Rightarrow> byte list \<Rightarrow> byte list \<Rightarrow> nat \<Rightarrow> nat \<Rightarrow> bool" where
  "just_hit C old N c off \<longleftrightarrow> off = c + 1 \<and> C \<le> off \<and> off - C \<le> length N \<and>
     (\<exists>k < length old div C. agrees N (off - C) (chunk C old k))"

definition scan_hyps ::
  "(byte list \<Rightarrow> byte list) \<Rightarrow> nat \<Rightarrow> byte list \<Rightarrow> byte list \<Rightarrow> sum_table \<Rightarrow> bool" where
  "scan_hyps md4 C old N t \<longleftrightarrow>
     table_ok (length old div C) t \<and> no_collision md4 C old N \<and> (\<forall>m. length (md4 m) = 16) \<and>
     0 < C \<and> C < 4194312 \<and> C \<le> length N"

lemma scan_inner_ok:
  assumes "scan_inv md4 C old N fs p s off" and "ck3_live 0 C (sc_summer s)" and "readable C s"
    and "sc_curr s = int c" and "i + k = C" and "C \<le> c" and "c + k \<le> length N + C"
    and "off + C \<le> c + 1" and hyps: "scan_hyps md4 C old N t"
  shows "\<exists>s' off' c'. scan_inner md4 (int C) fs t k i s = Some s' \<and>
      scan_inv md4 C old N fs p s' off' \<and> ck3_live 0 C (sc_summer s') \<and> sc_curr s' = int c' \<and>
      c \<le> c' \<and> (off' + C \<le> c' + 1 \<and> c' = c + k \<or> just_hit C old N c' off')"
  using assms(1-8)
proof (induction k arbitrary: i s c)
  case 0
  then show ?case by auto
next
  case (Suc k)
  from hyps have t: "table_ok (length old div C) t" and col: "no_collision md4 C old N"
    and md4: "\<forall>m. length (md4 m) = 16" and C: "0 < C" "C \<le> length N"
    and C30: "int C \<le> 2 ^ 30" by (simp_all add: scan_hyps_def)
  from Suc.prems(3) obtain m where m: "fm_mem (sc_fm s) (sc_buf s) = Some m" "C \<le> length m"
    by (auto simp: readable_def)
  have pk: "peek m i = Some (m ! i)" using m(2) Suc.prems(5) by (simp add: peek_def)
  from checksum3.update_law [OF Suc.prems(2), of "m ! i"] obtain sm where
    sm: "Checksum3_Update 0 (m ! i) (sc_summer s) = Some sm" "ck3_live 0 C sm" by blast
  define s1 where "s1 = s\<lparr>sc_summer := sm\<rparr>"
  have s1: "scan_inv md4 C old N fs p s1 off" "readable C s1" "sc_curr s1 = int c"
    using Suc.prems by (simp_all add: s1_def scan_inv_def readable_def)
  define pos where "pos = c + 1 - C"
  have pos: "int c - int C + 1 = int pos" "pos \<le> length N" "off \<le> pos" "pos + C = c + 1"
    using Suc.prems(6-8) by (auto simp: pos_def)
  from scan_judge_ok [OF s1(1) t col md4 C C30 pos(2), of "ck3_tmp_sum sm"] obtain hit s2 where
    j: "scan_judge md4 (int C) fs t (int pos) (ck3_tmp_sum sm) s1 = Some (hit, s2)"
      "sc_summer s2 = sm" "sc_curr s2 = int c"
    and yes: "hit \<Longrightarrow> scan_inv md4 C old N fs p s2 (pos + C)"
      "hit \<Longrightarrow> \<exists>k < length old div C. agrees N pos (chunk C old k)"
    and no: "\<not> hit \<Longrightarrow> scan_inv md4 C old N fs p s2 off" "\<not> hit \<Longrightarrow> readable C s2"
    using s1(2,3) pos(3) by (auto simp: s1_def split: if_splits)
  have step: "scan_inner md4 (int C) fs t (Suc k) i s =
      (if hit then Some s2 else scan_inner md4 (int C) fs t k (i + 1) (s2\<lparr>sc_curr := int c + 1\<rparr>))"
    using m(1) pk sm(1) j Suc.prems(4) pos(1) by (simp add: s1_def)
  show ?case
  proof (cases hit)
    case True
    then have "just_hit C old N c (pos + C)"
      using yes(2) pos by (auto simp: just_hit_def pos_def)
    then show ?thesis
      using True step yes(1) j sm(2)
      by (intro exI [of _ s2] exI [of _ "pos + C"] exI [of _ c]) simp
  next
    case False
    define s3 where "s3 = s2\<lparr>sc_curr := int (c + 1)\<rparr>"
    have "scan_inv md4 C old N fs p s3 off" "ck3_live 0 C (sc_summer s3)" "readable C s3"
        "sc_curr s3 = int (c + 1)"
      using no False j(2) sm(2) by (simp_all add: s3_def scan_inv_def readable_def)
    from Suc.IH [OF this, of "i + 1"] Suc.prems(5-8) obtain s' off' c' where
      "scan_inner md4 (int C) fs t k (i + 1) s3 = Some s'" "scan_inv md4 C old N fs p s' off'"
      "ck3_live 0 C (sc_summer s')" "sc_curr s' = int c'" "c + 1 \<le> c'"
      "off' + C \<le> c' + 1 \<and> c' = c + 1 + k \<or> just_hit C old N c' off'"
      by auto
    moreover have "s3 = s2\<lparr>sc_curr := int c + 1\<rparr>" by (simp add: s3_def add.commute)
    ultimately show ?thesis
      using False step
      by (intro exI [of _ s'] exI [of _ off'] exI [of _ c']) (auto simp: add.commute)
  qed
qed

text \<open>At the head of the outer loop.\<close>

definition scan_head ::
  "(byte list \<Rightarrow> byte list) \<Rightarrow> nat \<Rightarrow> byte list \<Rightarrow> byte list \<Rightarrow> fsys \<Rightarrow> string \<Rightarrow> scan_state \<Rightarrow> nat \<Rightarrow>
   bool" where
  "scan_head md4 C old N fs p s c \<longleftrightarrow>
     (\<exists>off. scan_inv md4 C old N fs p s off \<and> ck3_ready C (sc_summer s) \<and> sc_curr s = int c \<and>
       (off \<le> c \<or> just_hit C old N c off))"

lemma just_hit_no_overlap:
  assumes "just_hit C old N c off" and "no_overlap C old N" and "0 < C" and "c + C \<le> length N"
  shows "\<not> occurs C old N c"
proof -
  from assms have "occurs C old N (off - C)" and "off - C \<le> length N" and "off - C + C - 1 = c"
    by (auto simp: just_hit_def intro: agrees_occurs)
  with assms(2) show ?thesis unfolding no_overlap_def by metis
qed

lemma scan_turn_ok:
  assumes head: "scan_head md4 C old N fs p s c" and inside: "c + C \<le> length N"
    and hyps: "scan_hyps md4 C old N t" and ov: "no_overlap C old N"
  shows "\<exists>s' c'. scan_turn md4 (int C) fs t (int (length N)) s = Some s' \<and>
           scan_head md4 C old N fs p s' c' \<and> c + C \<le> c'"
proof -
  from hyps have t: "table_ok (length old div C) t" and col: "no_collision md4 C old N"
    and md4: "\<forall>m. length (md4 m) = 16" and C: "0 < C" "C \<le> length N"
    and C30: "int C \<le> 2 ^ 30" and C0: "0 < C" by (simp_all add: scan_hyps_def)
  from head obtain off where inv: "scan_inv md4 C old N fs p s off" and
    ready: "ck3_ready C (sc_summer s)" and cc: "sc_curr s = int c"
    and off: "off \<le> c \<or> just_hit C old N c off" by (auto simp: scan_head_def)
  from inv have fm: "fm_ok fs p N (sc_fm s)" by (simp add: scan_inv_def)
  from MapFileContent_ok [OF fm _ C30, of c] inside C obtain fm1 q1 m1 where
    map1: "MapFileContent fs (int c) (int C) (sc_fm s) = Some (fm1, q1)" "fm_ok fs p N fm1"
      "fm_mem fm1 q1 = Some m1" and sh: "fm_shows N c C m1" by auto
  have l: "load m1 0 C = Some (take C (drop c N))" using fm_shows_inside [OF sh inside] .
  then have m1: "C \<le> length m1" by (auto simp: load_def split: if_splits)
  from checksum3.init_law [OF ready C0 l] obtain sm where
    sm: "Checksum3_Init 0 m1 (int C) (sc_summer s) = Some sm" "ck3_live 0 C sm" by blast
  define s1 where "s1 = s\<lparr>sc_fm := fm1, sc_buf := q1, sc_summer := sm, sc_curr := int (c + C)\<rparr>"
  have inv1: "scan_inv md4 C old N fs p s1 off" "readable C s1"
    using inv map1 m1 by (simp_all add: s1_def scan_inv_def readable_def)
  have "c \<le> length N" using inside by simp
  from scan_judge_ok [OF inv1(1) t col md4 C C30 this, of "ck3_tmp_sum sm"] obtain hit s2 where
    j: "scan_judge md4 (int C) fs t (int c) (ck3_tmp_sum sm) s1 = Some (hit, s2)"
      "sc_summer s2 = sm" "sc_curr s2 = int (c + C)"
    and yes: "hit \<Longrightarrow> off \<le> c \<longrightarrow> scan_inv md4 C old N fs p s2 (c + C)"
      "hit \<Longrightarrow> \<exists>k < length old div C. agrees N c (chunk C old k)"
    and no: "\<not> hit \<Longrightarrow> scan_inv md4 C old N fs p s2 off"
    using inv1(2) by (auto simp: s1_def split: if_splits)
  define ml where "ml = min C (length N - (c + C))"
  have ml: "(if int C < int (length N) - int (c + C) then int C
      else int (length N) - int (c + C)) = int ml"
    using inside by (auto simp: ml_def)
  have step: "scan_turn md4 (int C) fs t (int (length N)) s =
      (if hit then Some s2 else do {
         (fm, q) \<leftarrow> MapFileContent fs (int (c + C)) (int ml) (sc_fm s2);
         scan_inner md4 (int C) fs t C 0 (s2\<lparr>sc_fm := fm, sc_buf := q\<rparr>) })"
    using map1 sm(1) j cc ml
    by (cases "2 * int C < int (length N) - int c") (simp_all add: scan_turn_def s1_def Let_def)
  show ?thesis
  proof (cases hit)
    case True
    with yes(2) inside have "occurs C old N c" by (auto intro: agrees_occurs)
    then have "\<not> just_hit C old N c off"
      using ov just_hit_no_overlap C0 inside by blast
    with off yes(1) True have "scan_inv md4 C old N fs p s2 (c + C)" by simp
    then show ?thesis
      using True step j sm(2) checksum3.live_ready
      by (intro exI [of _ s2] exI [of _ "c + C"]) (auto simp: scan_head_def)
  next
    case False
    from no [OF False] have fm2: "fm_ok fs p N (sc_fm s2)" by (simp add: scan_inv_def)
    have "int ml \<le> 2 ^ 30" using C30 by (simp add: ml_def min_def)
    from MapFileContent_ok [OF fm2 inside this] C obtain fm3 q3 m3 where
      map3: "MapFileContent fs (int (c + C)) (int ml) (sc_fm s2) = Some (fm3, q3)"
        "fm_ok fs p N fm3" "fm_mem fm3 q3 = Some m3" and "fm_shows N (c + C) C m3"
      by (auto simp: ml_def min_def split: if_splits)
    then have m3: "C \<le> length m3" by (auto simp: fm_shows_def load_def split: if_splits)
    define s3 where "s3 = s2\<lparr>sc_fm := fm3, sc_buf := q3\<rparr>"
    have s3: "scan_inv md4 C old N fs p s3 off" "ck3_live 0 C (sc_summer s3)" "readable C s3"
        "sc_curr s3 = int (c + C)"
      using no False map3 m3 j sm(2) by (simp_all add: s3_def scan_inv_def readable_def)
    have "off + C \<le> c + C + 1" using off by (auto simp: just_hit_def)
    from scan_inner_ok [OF s3 _ _ _ this hyps, of 0 C] inside obtain s4 off4 c4 where
      "scan_inner md4 (int C) fs t C 0 s3 = Some s4" "scan_inv md4 C old N fs p s4 off4"
      "ck3_live 0 C (sc_summer s4)" "sc_curr s4 = int c4" "c + C \<le> c4"
      "off4 + C \<le> c4 + 1 \<and> c4 = c + C + C \<or> just_hit C old N c4 off4" by auto
    then show ?thesis
      using False step map3 C0 checksum3.live_ready
      by (intro exI [of _ s4] exI [of _ c4]) (auto simp: scan_head_def s3_def)
  qed
qed

lemma scan_loop_ok:
  assumes "scan_head md4 C old N fs p s c" and "scan_hyps md4 C old N t" and "no_overlap C old N"
  shows "\<exists>s' c'. scan_loop md4 (int C) fs t (int (length N)) s = Some s' \<and>
           scan_head md4 C old N fs p s' c'"
  using assms(1)
proof (induction "length N - c" arbitrary: s c rule: less_induct)
  case less
  from less.prems have cc: "sc_curr s = int c" by (auto simp: scan_head_def)
  show ?case
  proof (cases "c + C \<le> length N")
    case False
    then show ?thesis using less.prems cc by (subst scan_loop.simps) auto
  next
    case True
    from scan_turn_ok [OF less.prems True assms(2,3)] obtain s1 c1 where
      s1: "scan_turn md4 (int C) fs t (int (length N)) s = Some s1"
        "scan_head md4 C old N fs p s1 c1" "c + C \<le> c1" by blast
    have "0 < C" using assms(2) by (simp add: scan_hyps_def)
    then have "length N - c1 < length N - c" using True s1(3) by linarith
    from less.hyps [OF this s1(2)] s1(1) show ?thesis
      using True cc by (subst scan_loop.simps) auto
  qed
qed

lemma ScanNewFile_ok:
  assumes f: "file_ok fs p N" and C: "0 < C" "C \<le> length N" "C < 4194312"
    and col: "no_collision md4 C old N" and md4: "\<forall>m. length (md4 m) = 16"
    and ov: "no_overlap C old N"
  shows "\<exists>nodes meta off. ScanNewFile md4 (int C) fs (Some (meta_list md4 C old)) p = Some (nodes, meta) \<and>
           covers C old N nodes off \<and> compact C nodes off 5 \<and> length N \<le> off"
proof -
  let ?t = "new_table (meta_list md4 C old)"
  have hyps: "scan_hyps md4 C old N ?t"
    using new_table_ok [of "meta_list md4 C old"] C col md4 by (simp add: scan_hyps_def meta_list_def)
  from file_ok_open [OF f] obtain fm where fm: "FileMap_new fs p = Some fm" "fm_ok fs p N fm" by blast
  define s0 where "s0 = \<lparr>sc_summer = Checksum3_new, sc_meta = meta_list md4 C old, sc_fm = fm,
      sc_buf = None, sc_curr = 0, sc_offset = 0, sc_nodes = []\<rparr>"
  have "scan_head md4 C old N fs p s0 0"
    using fm(2) metas_ok_meta_list Checksum3_new_ready [OF C(3)]
    by (auto simp: scan_head_def scan_inv_def s0_def)
  from scan_loop_ok [OF this hyps ov] obtain s c where
    s: "scan_loop md4 (int C) fs ?t (int (length N)) s0 = Some s" "scan_head md4 C old N fs p s c"
    by blast
  from s(2) obtain off where off: "sc_offset s = int off" "covers C old N (sc_nodes s) off"
    "compact C (sc_nodes s) off 0" by (auto simp: scan_head_def scan_inv_def)
  define nodes where "nodes = (if off < length N
    then sc_nodes s @ [OffsetNode True (int off) (int (length N) - int off)] else sc_nodes s)"
  have "ScanNewFile md4 (int C) fs (Some (meta_list md4 C old)) p = Some (nodes, sc_meta s)"
    using file_ok_size [OF f] fm(1) s(1) off(1)
    by (simp add: ScanNewFile_def s0_def nodes_def)
  moreover have "covers C old N nodes (max off (length N))"
    using covers_literal [OF off(2), of "length N"] off(2) by (auto simp: nodes_def max_def)
  moreover have "compact C nodes (max off (length N)) 5"
    using compact_literal [OF off(3), of "length N"] off(3)
    by (auto simp: nodes_def max_def compact_def)
  ultimately show ?thesis by (metis max.cobounded2)
qed

end
