(* ===== verification/RsyncPatch.thy ===== *)
theory RsyncPatch
  imports RsyncScan
begin

text \<open>
  The delta file and the patch.  \<open>GenerateDeltaFile\<close> writes \<open>delta_bytes\<close> of the nodes the scan
  found, \<open>PatchFile\<close> on such a file writes what the nodes spell out, and both refuse what is not in
  their format.  The last section composes the three steps of \<open>rdiff\<close>.
\<close>

section \<open>Writing a delta\<close>

definition node_record :: "byte list \<Rightarrow> offset_node \<Rightarrow> byte list" where
  "node_record N n =
     (if on_from n
      then [0x00] @ wr_i32 (on_length n) @ take (nat (on_length n)) (drop (nat (on_offset n)) N)
      else [0xff] @ wr_i32 (on_offset n) @ wr_i32 (on_length n))"

definition delta_bytes :: "byte list \<Rightarrow> offset_node list \<Rightarrow> byte list" where
  "delta_bytes N nodes = be32 DELTA_MAGIC @ be32 (of_nat (length nodes)) @
     concat (map (node_record N) nodes)"

lemma length_node_record: "node_ok old N n \<Longrightarrow> int (length (node_record N n)) = node_size n"
  by (auto simp: node_record_def node_size_def node_ok_def min_def split: if_splits)

lemma length_node_records:
  "\<forall>n \<in> set ns. node_ok old N n \<Longrightarrow> int (length (concat (map (node_record N) ns))) = nodes_size ns"
  using length_node_record [of old N] by (induction ns) (simp_all add: nodes_size_def)

lemma length_delta_bytes:
  "\<forall>n \<in> set ns. node_ok old N n \<Longrightarrow> int (length (delta_bytes N ns)) = 8 + nodes_size ns"
  using length_node_records [of ns old N] by (simp add: delta_bytes_def)

lemma delta_record_ok:
  assumes w: "writing q fs0 out (fs, wr)" and r: "fm_ok fs p N reader" and pq: "p \<noteq> q"
    and n: "node_ok old N n" and small: "on_from n \<Longrightarrow> on_length n \<le> BUFFER_LENGTH"
  shows "\<exists>reader' fs' wr'. delta_record n (reader, fs, wr) = Some (reader', fs', wr') \<and>
           writing q fs0 (out @ node_record N n) (fs', wr') \<and> fm_ok fs' p N reader'"
proof (cases "on_from n")
  case False
  let ?h = "[[0xff], wr_i32 (on_offset n), wr_i32 (on_length n)]"
  obtain st where st: "foldM put ?h (fs, wr) = Some st" "writing q fs0 (out @ concat ?h) st"
    by (rule puts_ok [OF w, of ?h]) (simp_all add: BUFFER_LENGTH_def)
  have "fs_frame q fs (fst st)"
    using st(2) w by (simp add: writing_def fs_frame_def)
  with st show ?thesis
    using False fm_ok_frame [OF r _ pq]
    by (cases st) (auto simp: delta_record_def node_record_def foldM_fun bind_eq_Some_conv)
next
  case True
  define l off where "l = nat (on_length n)" and "off = nat (on_offset n)"
  have lo: "on_length n = int l" "on_offset n = int off" "off + l \<le> length N"
    using n True by (auto simp: node_ok_def l_def off_def)
  have lb: "int l \<le> BUFFER_LENGTH" using small True lo by simp
  let ?h = "[[0x00], wr_i32 (on_length n)]"
  obtain st where st: "foldM put ?h (fs, wr) = Some st" "writing q fs0 (out @ concat ?h) st"
    by (rule puts_ok [OF w, of ?h]) (simp_all add: BUFFER_LENGTH_def)
  obtain fs1 w1 where e: "st = (fs1, w1)" by (cases st)
  have f1: "fs_frame q fs0 fs1" "wf_holds fs1 q (out @ concat ?h) w1"
    using st(2) by (simp_all add: writing_def e)
  have r1: "fm_ok fs1 p N reader"
    using fm_ok_frame [OF r _ pq] f1 w by (auto simp: writing_def fs_frame_def)
  from MapFileContent_ok [OF r1, of off l] lo(3) lb obtain r2 pt m where
    map: "MapFileContent fs1 (int off) (int l) reader = Some (r2, pt)" and r2: "fm_ok fs1 p N r2"
    and m: "fm_mem r2 pt = Some m" and sh: "fm_shows N off l m" by (auto simp: BUFFER_LENGTH_def)
  from AppendData_ok [OF f1(2) fm_shows_inside [OF sh lo(3)] lb] obtain fs2 w2 where
    app: "AppendData fs1 (Some m) (int l) w1 = Some (fs2, w2)"
      "wf_holds fs2 q ((out @ concat ?h) @ take l (drop off N)) w2" and f2: "fs_frame q fs1 fs2" by blast
  have "writing q fs0 (out @ node_record N n) (fs2, w2)"
    using app(2) fs_frame_trans [OF f1(1) f2] True
    by (simp add: writing_def node_record_def l_def off_def)
  then show ?thesis
    using True st(1) e map m app(1) lo fm_ok_frame [OF r2 f2 pq]
    by (auto simp: delta_record_def foldM_fun bind_eq_Some_conv)
qed

lemma delta_records_ok:
  assumes "writing q fs0 out (fs, wr)" and "fm_ok fs p N reader" and "p \<noteq> q"
    and "\<forall>n \<in> set ns. node_ok old N n" and "int (length N) \<le> BUFFER_LENGTH"
  shows "\<exists>reader' fs' wr'. foldM delta_record ns (reader, fs, wr) = Some (reader', fs', wr') \<and>
           writing q fs0 (out @ concat (map (node_record N) ns)) (fs', wr')"
  using assms
proof (induction ns arbitrary: out fs wr reader)
  case Nil
  then show ?case by simp
next
  case (Cons n ns)
  have "on_from n \<Longrightarrow> on_length n \<le> BUFFER_LENGTH"
    using Cons.prems(4,5) by (auto simp: node_ok_def)
  then obtain reader1 fs1 wr1 where 1: "delta_record n (reader, fs, wr) = Some (reader1, fs1, wr1)"
    and w1: "writing q fs0 (out @ node_record N n) (fs1, wr1)" and r1: "fm_ok fs1 p N reader1"
    using delta_record_ok [OF Cons.prems(1-3), of old n] Cons.prems(4) by auto
  from Cons.IH [OF w1 r1 Cons.prems(3)] Cons.prems(4,5) obtain reader2 fs2 wr2 where
    "foldM delta_record ns (reader1, fs1, wr1) = Some (reader2, fs2, wr2)"
    "writing q fs0 ((out @ node_record N n) @ concat (map (node_record N) ns)) (fs2, wr2)" by auto
  with 1 show ?case by simp
qed

lemma file_ok_read_at:
  "file_ok fs p N \<Longrightarrow> fu_read_at fs 0 p = Some (int (length N), Some N)"
  using file_ok_size [of fs p N]
  by (auto simp: fu_read_at_def file_ok_def is_exists_file_def fopen_read_def Let_def)

lemma hex_string_nonzero: "0 \<notin> set (hex_string m)"
proof -
  have "0 \<notin> set (hex2 b)" for b
    using hex_digit_nonzero nibble_bounds [of b] by (fastforce simp: hex2_def)
  then show ?thesis by (auto simp: hex_string_def)
qed

lemma meta_list_wf:
  assumes "\<forall>m. length (md4 m) = 16" and "length old < 2 ^ 30" and "C \<le> length old \<or> C < 2 ^ 30"
    and "c \<in> set (meta_list md4 C old)"
  shows "chunk_wf c"
proof -
  from assms(4) obtain k where k: "k < length old div C" and c: "c = meta_of md4 C old k"
    by (auto simp: meta_list_def)
  have "k * C \<le> length old" using chunk_inside [OF k] by simp
  then have "k * C < 2 ^ 30" "C < 2 ^ 30" using assms(2,3) by (auto intro: le_less_trans)
  then have "int (k * C) < int (2 ^ 30)" "int C < int (2 ^ 30)" by (simp_all only: of_nat_less_iff)
  then show ?thesis
    using assms(1) hex_string_nonzero
    by (simp add: c meta_of_def chunk_wf_def i32_ok_def length_hex_string del: of_nat_mult)
qed

text \<open>The signature list that the delta step reads back is the list of the old file.\<close>

lemma ParseMetaList_meta_list:
  assumes md4: "\<forall>m. length (md4 m) = 16" and old: "int (length old) < DEFAULT_BUFFER_LENGTH"
    and C: "C < 4194312" and tail: "0 \<in> set tail"
  shows "ParseMetaList (sig_bytes (int C) (meta_list md4 C old) @ tail) =
           Some (Some (meta_list md4 C old))"
proof (rule ParseMetaList_sig_bytes)
  have o: "length old < 2 ^ 30" using old by (simp add: DEFAULT_BUFFER_LENGTH_def)
  then show "\<forall>c \<in> set (meta_list md4 C old). chunk_wf c"
    using meta_list_wf [OF md4 o, of C] C by simp
  have "length old div C < 2 ^ 30" using o by (rule le_less_trans [OF div_le_dividend])
  then show "length (meta_list md4 C old) < 2 ^ 31" by (simp add: meta_list_def)
qed (use tail in simp)

lemma GenerateDeltaFile_ok:
  assumes new: "file_ok fs pn N" and sig: "file_ok fs ps (sig_bytes (int C) (meta_list md4 C old))"
    and old: "int (length old) < DEFAULT_BUFFER_LENGTH"
    and C: "C \<le> length N" "C < 4194312" and N: "int (length N) \<le> BUFFER_LENGTH"
    and md4: "\<forall>m. length (md4 m) = 16" and tail: "0 \<in> set tail"
    and q: "\<not> fs_denied fs pd" "pn \<noteq> pd"
    and scan: "ScanNewFile md4 (int C) fs (Some (meta_list md4 C old)) pn = Some (nodes, meta)"
    and nodes: "\<forall>n \<in> set nodes. node_ok old N n"
  shows "\<exists>fs'. GenerateDeltaFile md4 (int C) tail fs pn ps pd = Some (None, fs') \<and>
           fs_files fs' pd = Some (delta_bytes N nodes) \<and> fs_frame pd fs fs'"
proof -
  from file_ok_open [OF new] obtain reader where
    r: "FileMap_new fs pn = Some reader" "fm_ok fs pn N reader" by blast
  let ?h = "[be32 DELTA_MAGIC, be32 (of_nat (length nodes))]"
  obtain st where st: "foldM put ?h (WriteFileMap_new fs pd) = Some st"
    "writing pd fs ([] @ concat ?h) st"
    by (rule puts_ok [OF writing_start [OF q(1)], of ?h]) (simp_all add: BUFFER_LENGTH_def)
  obtain fs1 w1 where e: "st = (fs1, w1)" by (cases st)
  have r1: "fm_ok fs1 pn N reader"
    using fm_ok_frame [OF r(2) _ q(2)] st(2) by (simp add: writing_def e)
  from delta_records_ok [OF st(2) [unfolded e] r1 q(2) nodes N]
  obtain reader2 fs2 w2 where
    d: "foldM delta_record nodes (reader, fs1, w1) = Some (reader2, fs2, w2)"
      "writing pd fs (([] @ concat ?h) @ concat (map (node_record N) nodes)) (fs2, w2)" by blast
  from d(2) obtain fs3 where w: "WriteFileMap_delete fs2 w2 = Some fs3"
    "fs_files fs3 pd = Some (delta_bytes N nodes)" "fs_frame pd fs fs3"
    by (auto simp: delta_bytes_def elim!: writing_end)
  have "GenerateDeltaFile md4 (int C) tail fs pn ps pd = Some (None, fs3)"
    using file_ok_read_at [OF sig] ParseMetaList_meta_list [OF md4 old C(2) tail] scan r(1) st(1) e
      d(1) w(1) file_ok_size [OF new] C(1)
    by (auto simp: GenerateDeltaFile_def foldM_fun bind_eq_Some_conv)
  with w show ?thesis by blast
qed

section \<open>Reading a delta\<close>

lemma take_field_ok:
  assumes "fm_ok fs p D delta" and "off + n \<le> length D" and "int n \<le> 2 ^ 30"
  shows "\<exists>delta'. take_field fs n (delta, int off) = Some (take n (drop off D), delta', int (off + n)) \<and>
           fm_ok fs p D delta'"
proof -
  from MapFileContent_ok [OF assms(1), of off n] assms(2,3) obtain d' q m where
    "MapFileContent fs (int off) (int n) delta = Some (d', q)" "fm_ok fs p D d'"
    "fm_mem d' q = Some m" and sh: "fm_shows D off n m" by auto
  moreover have "load m 0 n = Some (take n (drop off D))" using fm_shows_inside [OF sh assms(2)] .
  ultimately show ?thesis by (simp add: take_field_def)
qed

definition patching ::
  "string \<Rightarrow> byte list \<Rightarrow> string \<Rightarrow> byte list \<Rightarrow> string \<Rightarrow> fsys \<Rightarrow> byte list \<Rightarrow> nat \<Rightarrow> patch_state \<Rightarrow> bool"
  where
  "patching po old pd D q fs0 out off s \<longleftrightarrow>
     fm_ok (ps_fs s) po old (ps_old s) \<and> fm_ok (ps_fs s) pd D (fst (ps_delta s)) \<and>
     snd (ps_delta s) = int off \<and> wf_holds (ps_fs s) q out (ps_writer s) \<and> fs_frame q fs0 (ps_fs s)"

lemma patch_step_ok:
  assumes st: "patching po old pd D q fs0 out off s" and "po \<noteq> q" and "pd \<noteq> q"
    and n: "node_ok old N n" and rec: "drop off D = node_record N n @ rest"
    and bounds: "int (length old) < 2 ^ 30" "int (length N) < 2 ^ 30"
  shows "\<exists>s'. patch_step s = Some (True, s') \<and>
           patching po old pd D q fs0 (out @ node_bytes old N n) (off + length (node_record N n)) s'"
proof -
  from st have old: "fm_ok (ps_fs s) po old (ps_old s)"
    and delta: "fm_ok (ps_fs s) pd D (fst (ps_delta s))" and off: "snd (ps_delta s) = int off"
    and w: "wf_holds (ps_fs s) q out (ps_writer s)" and fr: "fs_frame q fs0 (ps_fs s)"
    by (simp_all add: patching_def)
  have d0: "ps_delta s = (fst (ps_delta s), int off)" using off by (simp add: prod_eq_iff)
  have dd: "drop (off + k) D = drop k (node_record N n @ rest)" for k
    by (metis add.commute drop_drop rec)
  have len: "length D - off = length (node_record N n) + length rest"
    using arg_cong [OF rec, of length] by simp
  have b4096: "WRITE_LENGTH_OF_OLD_FILE = int 4096" "int 4096 \<le> BUFFER_LENGTH"
    by (simp_all add: WRITE_LENGTH_OF_OLD_FILE_def BUFFER_LENGTH_def)
  define l o' where "l = nat (on_length n)" and "o' = nat (on_offset n)"
  have lo: "on_length n = int l" "on_offset n = int o'"
    using n by (auto simp: node_ok_def l_def o'_def)
  have ok: "i32_ok (int l)" "i32_ok (int o')"
    using n bounds lo by (auto simp: node_ok_def i32_ok_def split: if_splits)
  have "off + 1 \<le> length D" using len by (auto simp: node_record_def split: if_splits)
  from take_field_ok [OF delta this] obtain d1 where
    1: "take_field (ps_fs s) 1 (ps_delta s) = Some (take 1 (drop off D), d1, int (off + 1))"
    and d1: "fm_ok (ps_fs s) pd D d1" using d0 by auto
  show ?thesis
  proof (cases "on_from n")
    case False
    have "off + 1 + 4 \<le> length D" "off + 5 + 4 \<le> length D"
      using len False by (auto simp: node_record_def)
    note le = this
    from take_field_ok [OF d1 le(1)] obtain d2 where
      2: "take_field (ps_fs s) 4 (d1, int (off + 1)) = Some (take 4 (drop (off + 1) D), d2, int (off + 5))"
      and d2: "fm_ok (ps_fs s) pd D d2" by (auto simp: add.assoc)
    from take_field_ok [OF d2 le(2)] obtain d3 where
      3: "take_field (ps_fs s) 4 (d2, int (off + 5)) = Some (take 4 (drop (off + 5) D), d3, int (off + 9))"
      and d3: "fm_ok (ps_fs s) pd D d3" by (auto simp: add.assoc)
    have f: "take 1 (drop off D) = [0xff]" "take 4 (drop (off + 1) D) = wr_i32 (int o')"
        "take 4 (drop (off + 5) D) = wr_i32 (int l)"
      using False lo by (simp_all only: dd rec) (simp_all add: node_record_def)
    have inside: "o' + l \<le> length old" using n False lo by (simp add: node_ok_def)
    have "copying po old q (ps_fs s) out o' (ps_fs s, ps_old s, ps_writer s, int o')"
      using old w by (simp add: copying_def)
    from copy_run_ok [OF this assms(2) inside _ b4096(2)] obtain fs4 old4 w4 o4 where
      4: "copy_run WRITE_LENGTH_OF_OLD_FILE (int l) (ps_fs s, ps_old s, ps_writer s, int o') =
        Some (fs4, old4, w4, o4)"
      and c4: "copying po old q (ps_fs s) (out @ take l (drop o' old)) (o' + l) (fs4, old4, w4, o4)"
      by (auto simp: b4096(1))
    from c4 have fr4: "fs_frame q (ps_fs s) fs4" by (simp add: copying_def)
    define s' where "s' = s\<lparr>ps_fs := fs4, ps_old := old4, ps_writer := w4, ps_delta := (d3, int (off + 9))\<rparr>"
    have "patch_step s = Some (True, s')"
      using 1 2 3 4 f ok by (simp add: patch_step_def s'_def)
    moreover have "patching po old pd D q fs0 (out @ node_bytes old N n)
        (off + length (node_record N n)) s'"
      using c4 fm_ok_frame [OF d3 fr4 assms(3)] fs_frame_trans [OF fr fr4] False lo
      by (simp add: patching_def copying_def s'_def node_bytes_def node_record_def)
    ultimately show ?thesis by blast
  next
    case True
    have inN: "o' + l \<le> length N" using n True lo by (simp add: node_ok_def)
    have le: "off + 1 + 4 \<le> length D" "off + 5 + l \<le> length D"
      using len True lo inN by (auto simp: node_record_def)
    from take_field_ok [OF d1 le(1)] obtain d2 where
      2: "take_field (ps_fs s) 4 (d1, int (off + 1)) = Some (take 4 (drop (off + 1) D), d2, int (off + 5))"
      and d2: "fm_ok (ps_fs s) pd D d2" by (auto simp: add.assoc)
    have f: "take 1 (drop off D) = [0x00]" "take 4 (drop (off + 1) D) = wr_i32 (int l)"
        "take l (drop (off + 5) D) = take l (drop o' N)"
      using True lo inN by (simp_all only: dd rec) (simp_all add: node_record_def)
    have "copying pd D q (ps_fs s) out (off + 5) (ps_fs s, d2, ps_writer s, int (off + 5))"
      using d2 w by (simp add: copying_def)
    from copy_run_ok [OF this assms(3) le(2) _ b4096(2)] obtain fs4 d4 w4 o4 where
      4: "copy_run WRITE_LENGTH_OF_OLD_FILE (int l) (ps_fs s, d2, ps_writer s, int (off + 5)) =
        Some (fs4, d4, w4, o4)"
      and c4: "copying pd D q (ps_fs s) (out @ take l (drop (off + 5) D)) (off + 5 + l) (fs4, d4, w4, o4)"
      by (auto simp: b4096(1))
    from c4 have fr4: "fs_frame q (ps_fs s) fs4" by (simp add: copying_def)
    define s' where "s' = s\<lparr>ps_fs := fs4, ps_writer := w4, ps_delta := (d4, o4)\<rparr>"
    have "patch_step s = Some (True, s')"
      using 1 2 4 f(1,2) ok by (simp add: patch_step_def s'_def)
    moreover have "patching po old pd D q fs0 (out @ node_bytes old N n)
        (off + length (node_record N n)) s'"
      using c4 fm_ok_frame [OF old fr4 assms(2)] fs_frame_trans [OF fr fr4] True lo f(3) le_diff_conv2 [of o' "length N" l] inN
      by (simp add: patching_def copying_def s'_def node_bytes_def node_record_def min_absorb2)
    ultimately show ?thesis by blast
  qed
qed

lemma patch_loop_prefix:
  assumes "patching po old pd D q fs0 out off s" and "po \<noteq> q" and "pd \<noteq> q"
    and "\<forall>n \<in> set ns. node_ok old N n" and "drop off D = concat (map (node_record N) ns) @ rest"
    and "int (length old) < 2 ^ 30" and "int (length N) < 2 ^ 30"
  shows "\<exists>s' off'. patch_loop (length ns + k) s = patch_loop k s' \<and> drop off' D = rest \<and>
           patching po old pd D q fs0 (out @ spell old N ns) off' s'"
  using assms
proof (induction ns arbitrary: out off s)
  case Nil
  then show ?case by auto
next
  case (Cons n ns)
  let ?rest = "concat (map (node_record N) ns) @ rest"
  have rec: "drop off D = node_record N n @ ?rest" using Cons.prems(5) by simp
  from patch_step_ok [OF Cons.prems(1-3) _ rec Cons.prems(6,7)] Cons.prems(4) obtain s1 where
    s1: "patch_step s = Some (True, s1)"
      "patching po old pd D q fs0 (out @ node_bytes old N n) (off + length (node_record N n)) s1"
    by auto
  have "drop (off + length (node_record N n)) D = ?rest"
    using rec by (metis add.commute append_eq_conv_conj drop_drop)
  from Cons.IH [OF s1(2) Cons.prems(2,3) _ this Cons.prems(6,7)] Cons.prems(4) obtain s2 off2 where
    "patch_loop (length ns + k) s1 = patch_loop k s2" "drop off2 D = rest"
    "patching po old pd D q fs0 ((out @ node_bytes old N n) @ spell old N ns) off2 s2" by auto
  with s1(1) show ?case by (auto simp: spell_Cons)
qed

lemma patch_loop_ok:
  assumes "patching po old pd D q fs0 out off s" and "po \<noteq> q" and "pd \<noteq> q"
    and "\<forall>n \<in> set ns. node_ok old N n" and "drop off D = concat (map (node_record N) ns)"
    and "int (length old) < 2 ^ 30" and "int (length N) < 2 ^ 30"
  shows "\<exists>s' off'. patch_loop (length ns) s = Some (True, s') \<and>
           patching po old pd D q fs0 (out @ spell old N ns) off' s'"
  using patch_loop_prefix [OF assms(1-4), of "[]" 0] assms(5-7) by auto

lemma patch_step_malformed:
  assumes st: "patching po old pd D q fs0 out off s" and m: "drop off D = m # rest"
    and "m \<noteq> 0xff" and "m \<noteq> 0x00"
  shows "\<exists>s'. patch_step s = Some (False, s') \<and> ps_fs s' = ps_fs s \<and> ps_writer s' = ps_writer s"
proof -
  have "off + 1 \<le> length D" using arg_cong [OF m, of length] by simp
  with take_field_ok [of "ps_fs s" pd D "fst (ps_delta s)" off 1] st obtain d1 where
    "take_field (ps_fs s) 1 (ps_delta s) = Some (take 1 (drop off D), d1, int (off + 1))"
    by (cases "ps_delta s") (auto simp: patching_def)
  with assms(2-4) show ?thesis by (simp add: patch_step_def)
qed

text \<open>What \<open>PatchFile\<close> does before its loop.\<close>

lemma PatchFile_loop:
  assumes old: "file_ok fs po old" and delta: "file_ok fs pd D"
    and D: "D = be32 DELTA_MAGIC @ wr_i32 (int n) @ recs" and n: "n < 2 ^ 31"
    and q: "\<not> fs_denied fs q" "po \<noteq> q" "pd \<noteq> q"
  obtains s where "patching po old pd D q fs [] 8 s" and "PatchFile fs po pd q = do {
      (ok, s) \<leftarrow> patch_loop n s;
      fs \<leftarrow> WriteFileMap_delete (ps_fs s) (ps_writer s);
      Some (if ok then None else Some (- 1), fs) }"
proof -
  have lenD: "0 + 4 \<le> length D" "4 + 4 \<le> length D" by (simp_all add: D)
  from file_ok_open [OF delta] obtain d where d: "FileMap_new fs pd = Some d" "fm_ok fs pd D d"
    by blast
  from take_field_ok [OF d(2) lenD(1)] obtain d1 where
    1: "take_field fs 4 (d, 0) = Some (take 4 D, d1, 4)" and d1: "fm_ok fs pd D d1" by auto
  from take_field_ok [OF d1 lenD(2)] obtain d2 where
    2: "take_field fs 4 (d1, 4) = Some (take 4 (drop 4 D), d2, 8)" and d2: "fm_ok fs pd D d2" by auto
  from file_ok_open [OF old] obtain o1 where o1: "FileMap_new fs po = Some o1" "fm_ok fs po old o1"
    by blast
  obtain fs1 w where w: "WriteFileMap_new fs q = (fs1, w)" by fastforce
  have w1: "wf_holds fs1 q [] w" "fs_frame q fs fs1"
    using WriteFileMap_new_ok [OF q(1)] w by auto
  have f: "take 4 D = be32 DELTA_MAGIC" "take 4 (drop 4 D) = wr_i32 (int n)" by (simp_all add: D)
  have "i32_ok (int n)" using n by (simp add: i32_ok_def)
  then have cnt: "nat (rd_i32 (wr_i32 (int n))) = n" by simp
  let ?s = "\<lparr>ps_fs = fs1, ps_old = o1, ps_delta = (d2, 8), ps_writer = w\<rparr>"
  have "patching po old pd D q fs [] 8 ?s"
    using w1 fm_ok_frame [OF o1(2) w1(2) q(2)] fm_ok_frame [OF d2 w1(2) q(3)]
    by (simp add: patching_def)
  then show ?thesis
    by (rule that) (use d(1) 1 2 o1(1) w in \<open>simp add: PatchFile_def f cnt\<close>)
qed

lemma patching_end:
  assumes "patching po old pd D q fs0 out off s"
  obtains fs' where "WriteFileMap_delete (ps_fs s) (ps_writer s) = Some fs'"
    and "fs_files fs' q = Some out" and "fs_frame q fs0 fs'"
  using assms writing_end [of q fs0 out "ps_fs s" "ps_writer s"]
  by (auto simp: patching_def writing_def)

lemma delta_bytes_wr:
  "delta_bytes N nodes = be32 DELTA_MAGIC @ wr_i32 (int (length nodes)) @
     concat (map (node_record N) nodes)"
  by (simp add: delta_bytes_def wr_i32_def u32_of_def)

lemma PatchFile_ok:
  assumes old: "file_ok fs po old" and delta: "file_ok fs pd (delta_bytes N nodes)"
    and nodes: "\<forall>n \<in> set nodes. node_ok old N n" and count: "length nodes < 2 ^ 31"
    and N: "int (length N) < 2 ^ 30" and q: "\<not> fs_denied fs q" "po \<noteq> q" "pd \<noteq> q"
  shows "\<exists>fs'. PatchFile fs po pd q = Some (None, fs') \<and>
           fs_files fs' q = Some (spell old N nodes) \<and> fs_frame q fs fs'"
proof -
  from PatchFile_loop [OF old delta delta_bytes_wr count q] obtain s where
    s: "patching po old pd (delta_bytes N nodes) q fs [] 8 s" and run: "PatchFile fs po pd q = do {
      (ok, s) \<leftarrow> patch_loop (length nodes) s;
      fs \<leftarrow> WriteFileMap_delete (ps_fs s) (ps_writer s);
      Some (if ok then None else Some (- 1), fs) }" .
  have "int (length old) < 2 ^ 30" using old by (simp add: file_ok_def DEFAULT_BUFFER_LENGTH_def)
  with patch_loop_ok [OF s q(2,3) nodes _ _ N] obtain s2 off2 where
    s2: "patch_loop (length nodes) s = Some (True, s2)"
      "patching po old pd (delta_bytes N nodes) q fs ([] @ spell old N nodes) off2 s2"
    by (auto simp: delta_bytes_def)
  from patching_end [OF s2(2)] s2(1) run show ?thesis by fastforce
qed

lemma PatchFile_malformed:
  assumes old: "file_ok fs po old" and delta: "file_ok fs pd D"
    and D: "D = be32 DELTA_MAGIC @ wr_i32 (int n) @ concat (map (node_record N) nodes) @ m # rest"
    and m: "m \<noteq> 0xff" "m \<noteq> 0x00" and count: "length nodes < n" "n < 2 ^ 31"
    and nodes: "\<forall>n \<in> set nodes. node_ok old N n"
    and N: "int (length N) < 2 ^ 30" and q: "\<not> fs_denied fs q" "po \<noteq> q" "pd \<noteq> q"
  shows "\<exists>fs'. PatchFile fs po pd q = Some (Some (- 1), fs') \<and>
           fs_files fs' q = Some (spell old N nodes) \<and> fs_frame q fs fs'"
proof -
  from PatchFile_loop [OF old delta D count(2) q] obtain s where
    s: "patching po old pd D q fs [] 8 s" and run: "PatchFile fs po pd q = do {
      (ok, s) \<leftarrow> patch_loop n s;
      fs \<leftarrow> WriteFileMap_delete (ps_fs s) (ps_writer s);
      Some (if ok then None else Some (- 1), fs) }" .
  have o30: "int (length old) < 2 ^ 30" using old by (simp add: file_ok_def DEFAULT_BUFFER_LENGTH_def)
  obtain k where k: "n = length nodes + Suc k" using count(1) less_iff_Suc_add by auto
  have "drop 8 D = concat (map (node_record N) nodes) @ m # rest" by (simp add: D)
  from patch_loop_prefix [OF s q(2,3) nodes this o30 N, of "Suc k"] obtain s2 off2 where
    s2: "patch_loop n s = patch_loop (Suc k) s2" "drop off2 D = m # rest"
      "patching po old pd D q fs ([] @ spell old N nodes) off2 s2" by (auto simp: k)
  from patch_step_malformed [OF s2(3,2) m] obtain s3 where
    "patch_step s2 = Some (False, s3)" "ps_fs s3 = ps_fs s2" "ps_writer s3 = ps_writer s2" by blast
  with patching_end [OF s2(3)] s2(1) run show ?thesis by fastforce
qed

lemma PatchFile_magic:
  assumes "file_ok fs pd D" and "4 \<le> length D" and "rd32 (take 4 D) \<noteq> DELTA_MAGIC"
  shows "PatchFile fs po pd q = Some (Some (- 1), fs)"
proof -
  from file_ok_open [OF assms(1)] obtain d where d: "FileMap_new fs pd = Some d" "fm_ok fs pd D d"
    by blast
  from take_field_ok [OF d(2), of 0 4] assms(2) obtain d1 where
    "take_field fs 4 (d, 0) = Some (take 4 D, d1, 4)" by auto
  with d assms(3) show ?thesis by (simp add: PatchFile_def)
qed

section \<open>The three steps of rdiff\<close>

text \<open>The sizes and paths under which the three steps run without leaving the buffers.\<close>

definition rdiff_setting ::
  "nat \<Rightarrow> fsys \<Rightarrow> string \<Rightarrow> byte list \<Rightarrow> string \<Rightarrow> string \<Rightarrow> byte list \<Rightarrow> string \<Rightarrow> string \<Rightarrow> bool" where
  "rdiff_setting C fs po old ps pn N pd pr \<longleftrightarrow>
     file_ok fs po old \<and> file_ok fs pn N \<and>
     \<not> fs_denied fs ps \<and> \<not> fs_denied fs pd \<and> \<not> fs_denied fs pr \<and>
     distinct [po, ps, pn, pd, pr] \<and>
     0 < C \<and> C < 4194312 \<and> C \<le> length N \<and> int (length N) \<le> BUFFER_LENGTH \<and>
     12 + 45 * int (length old div C) < DEFAULT_BUFFER_LENGTH \<and>
     13 + 14 * int ((length N + C) div C) + int (length N + C) < DEFAULT_BUFFER_LENGTH"

lemma length_sig_bytes:
  assumes "\<forall>c \<in> set meta. length (ci_strong_sum c) = 32"
  shows "length (sig_bytes cs meta) = 12 + 45 * length meta"
proof -
  have "length (concat (map chunk_bytes meta)) = 45 * length meta"
    using assms by (induction meta) (simp_all add: chunk_bytes_def)
  then show ?thesis by (simp add: sig_bytes_def)
qed

lemma length_nodes_size:
  "\<forall>n \<in> set ns. node_ok old N n \<Longrightarrow> int (length ns) \<le> nodes_size ns"
proof (induction ns)
  case Nil
  then show ?case by (simp add: nodes_size_def)
next
  case (Cons n ns)
  then have "1 \<le> node_size n" by (auto simp: node_size_def node_ok_def)
  with Cons show ?case by (simp add: nodes_size_def)
qed

lemma file_ok_written:
  "fs_files fs' q = Some c \<Longrightarrow> fs_frame q fs fs' \<Longrightarrow> \<not> fs_denied fs q \<Longrightarrow>
   int (length c) < DEFAULT_BUFFER_LENGTH \<Longrightarrow> file_ok fs' q c"
  by (simp add: file_ok_def fs_frame_def)

lemma rdiff_run:
  assumes set: "rdiff_setting C fs po old ps pn N pd pr"
    and md4: "\<forall>m. length (md4 m) = 16" and tail: "0 \<in> set tail"
    and scan: "\<And>fs'. file_ok fs' pn N \<Longrightarrow> \<exists>meta.
          ScanNewFile md4 (int C) fs' (Some (meta_list md4 C old)) pn = Some (nodes fs', meta) \<and>
          (\<forall>n \<in> set (nodes fs'). node_ok old N n) \<and>
          8 + nodes_size (nodes fs') < DEFAULT_BUFFER_LENGTH"
  shows "\<exists>fs1 fs'. rdiff_main md4 (int C) tail fs [prog, po, ps, pn, pd, pr] = Some (0, fs') \<and>
           file_ok fs1 pn N \<and>
           fs_files fs' pd = Some (delta_bytes N (nodes fs1)) \<and>
           fs_files fs' pr = Some (spell old N (nodes fs1))"
proof -
  from set have old: "file_ok fs po old" and new: "file_ok fs pn N" and d: "distinct [po, ps, pn, pd, pr]"
    and den: "\<not> fs_denied fs ps" "\<not> fs_denied fs pd" "\<not> fs_denied fs pr"
    and C: "0 < C" "C < 4194312" "C \<le> length N" and N: "int (length N) \<le> BUFFER_LENGTH"
    and s: "12 + 45 * int (length old div C) < DEFAULT_BUFFER_LENGTH"
    by (auto simp: rdiff_setting_def)
  let ?sig = "sig_bytes (int C) (meta_list md4 C old)"
  have C30: "int C \<le> 2 ^ 30" using C(2) by simp
  have ob: "int (length old) < DEFAULT_BUFFER_LENGTH" using old by (simp add: file_ok_def)
  from GenerateSigFile_ok [OF old C(1) C30 md4 den(1)] obtain fs1 where
    1: "GenerateSigFile md4 (int C) fs po ps = Some (0, fs1)" "fs_files fs1 ps = Some ?sig"
      "fs_frame ps fs fs1" by blast
  have "length ?sig = 12 + 45 * (length old div C)"
    using length_sig_bytes [of "meta_list md4 C old"] meta_list_strong [OF md4]
    by (simp add: meta_list_def)
  then have "int (length ?sig) < DEFAULT_BUFFER_LENGTH" using s by simp
  with 1 den have f1: "file_ok fs1 ps ?sig" "file_ok fs1 pn N" "file_ok fs1 po old"
    using file_ok_frame [OF new 1(3)] file_ok_frame [OF old 1(3)] d file_ok_written by auto
  have den1: "\<not> fs_denied fs1 pd" "\<not> fs_denied fs1 pr" using den 1(3) by (simp_all add: fs_frame_def)
  let ?ns = "nodes fs1"
  from scan [OF f1(2)] obtain meta where
    sc: "ScanNewFile md4 (int C) fs1 (Some (meta_list md4 C old)) pn = Some (?ns, meta)"
      "\<forall>n \<in> set ?ns. node_ok old N n" "8 + nodes_size ?ns < DEFAULT_BUFFER_LENGTH" by blast
  from GenerateDeltaFile_ok [OF f1(2,1) ob C(3,2) N md4 tail den1(1) _ sc(1,2)] d obtain fs2 where
    2: "GenerateDeltaFile md4 (int C) tail fs1 pn ps pd = Some (None, fs2)"
      "fs_files fs2 pd = Some (delta_bytes N ?ns)" "fs_frame pd fs1 fs2" by auto
  have "int (length (delta_bytes N ?ns)) < DEFAULT_BUFFER_LENGTH"
    using length_delta_bytes [OF sc(2)] sc(3) by simp
  with 2 den1 have f2: "file_ok fs2 pd (delta_bytes N ?ns)" "file_ok fs2 po old"
    using file_ok_frame [OF f1(3) 2(3)] d file_ok_written by auto
  have den2: "\<not> fs_denied fs2 pr" using den1 2(3) by (simp add: fs_frame_def)
  have "int (length ?ns) < 2 ^ 30"
    using length_nodes_size [OF sc(2)] sc(3) by (simp add: DEFAULT_BUFFER_LENGTH_def)
  then have cnt: "length ?ns < 2 ^ 31" by simp
  have N30: "int (length N) < 2 ^ 30" using N by (simp add: BUFFER_LENGTH_def)
  from PatchFile_ok [OF f2(2,1) sc(2) cnt N30 den2] d obtain fs3 where
    3: "PatchFile fs2 po pd pr = Some (None, fs3)" "fs_files fs3 pr = Some (spell old N ?ns)"
      "fs_frame pr fs2 fs3" by auto
  have "fs_files fs3 pd = Some (delta_bytes N ?ns)"
    using 3(3) 2(2) d by (simp add: fs_frame_def)
  then show ?thesis
    using 1(1) 2(1) 3(1,2) f1(2) by (intro exI [of _ fs1] exI [of _ fs3]) (simp add: rdiff_main_def)
qed

lemma rdiff_prefix:
  assumes set: "rdiff_setting C fs po old ps pn N pd pr"
    and md4: "\<forall>m. length (md4 m) = 16" and tail: "0 \<in> set tail"
    and col: "no_collision md4 C old N" and ov: "no_overlap C old N"
  shows "\<exists>fs' junk. rdiff_main md4 (int C) tail fs [prog, po, ps, pn, pd, pr] = Some (0, fs') \<and>
           fs_files fs' pr = Some (N @ junk) \<and> length junk \<le> C"
proof -
  let ?P = "\<lambda>fs' ns. \<exists>meta off.
      ScanNewFile md4 (int C) fs' (Some (meta_list md4 C old)) pn = Some (ns, meta) \<and>
      covers C old N ns off \<and> compact C ns off 5 \<and> length N \<le> off"
  define nodes where "nodes fs' = (SOME ns. ?P fs' ns)" for fs'
  from set have C: "0 < C" "C \<le> length N" "C < 4194312"
    and dl: "13 + 14 * int ((length N + C) div C) + int (length N + C) < DEFAULT_BUFFER_LENGTH"
    by (auto simp: rdiff_setting_def)
  have P: "?P fs' (nodes fs')" if "file_ok fs' pn N" for fs'
    unfolding nodes_def using ScanNewFile_ok [OF that C col md4 ov] by (rule someI_ex)
  have "\<exists>meta. ScanNewFile md4 (int C) fs' (Some (meta_list md4 C old)) pn = Some (nodes fs', meta) \<and>
          (\<forall>n \<in> set (nodes fs'). node_ok old N n) \<and>
          8 + nodes_size (nodes fs') < DEFAULT_BUFFER_LENGTH" if "file_ok fs' pn N" for fs'
  proof -
    from P [OF that] obtain meta off where
      s: "ScanNewFile md4 (int C) fs' (Some (meta_list md4 C old)) pn = Some (nodes fs', meta)"
        "covers C old N (nodes fs') off" "compact C (nodes fs') off 5" by blast
    have "off \<le> length N + C" using s(2) by (simp add: covers_def)
    then have "int (off div C) \<le> int ((length N + C) div C)" "int off \<le> int (length N + C)"
      by (simp_all only: of_nat_le_iff div_le_mono)
    with s(3) dl have "8 + nodes_size (nodes fs') < DEFAULT_BUFFER_LENGTH"
      unfolding compact_def by linarith
    with s show ?thesis by (auto simp: covers_def)
  qed
  from rdiff_run [OF set md4 tail this] obtain fs1 fs' where
    r: "rdiff_main md4 (int C) tail fs [prog, po, ps, pn, pd, pr] = Some (0, fs')"
      "file_ok fs1 pn N" "fs_files fs' pr = Some (spell old N (nodes fs1))" by blast
  from P [OF r(2)] obtain off where "covers C old N (nodes fs1) off" "length N \<le> off" by blast
  then have t: "take (length N) (spell old N (nodes fs1)) = N"
    and l: "length (spell old N (nodes fs1)) \<le> length N + C" by (auto simp: covers_def)
  have "spell old N (nodes fs1) = N @ drop (length N) (spell old N (nodes fs1))"
    using append_take_drop_id [of "length N" "spell old N (nodes fs1)"] unfolding t by simp
  moreover have "length (drop (length N) (spell old N (nodes fs1))) \<le> C" using l by simp
  ultimately show ?thesis using r(1,3) by metis
qed

end
