(* ===== verification/RsyncAligned.thy ===== *)
theory RsyncAligned
  imports RsyncPatch
begin

text \<open>
  What the scan finds: on a new file that is a sequence of chunks of the old one, in any order and
  number, the scan hits at the head of every window, so the delta has no literal bytes and the
  result of the patch is exactly the new file.  This needs the rolling sum's \<open>Init\<close> and the two
  tables to be right; the only hypothesis on the chunks is that equal weak sums mean equal chunks.
\<close>

definition weak_distinct :: "nat \<Rightarrow> byte list \<Rightarrow> bool" where
  "weak_distinct C old \<longleftrightarrow>
     (\<forall>i < length old div C. \<forall>j < length old div C.
        weak3 (chunk C old i) = weak3 (chunk C old j) \<longrightarrow> chunk C old i = chunk C old j)"

section \<open>The tables\<close>

lemma fill_table_map: "st_map t i = 1 \<Longrightarrow> st_map (fill_table cs j t) i = 1"
  by (induction cs j t rule: fill_table.induct) (simp_all add: Let_def)

lemma fill_table_finds:
  "c \<in> set cs \<or> (\<exists>k < j. st_sum_offset t (ci_weak_sum c) = Some k \<and> P k) \<Longrightarrow>
   \<forall>i < length cs. ci_weak_sum (cs ! i) = ci_weak_sum c \<longrightarrow> P (j + i) \<Longrightarrow>
   \<exists>k < j + length cs. st_sum_offset (fill_table cs j t) (ci_weak_sum c) = Some k \<and> P k"
proof (induction cs j t rule: fill_table.induct)
  case (1 j t)
  then show ?case by simp
next
  case (2 x cs j t)
  let ?t = "t\<lparr>st_map := (st_map t)(unat (ci_weak_sum x mod 4096) := 1),
    st_sum_offset := (st_sum_offset t)(ci_weak_sum x \<mapsto> j)\<rparr>"
  have P: "\<forall>i < length cs. ci_weak_sum (cs ! i) = ci_weak_sum c \<longrightarrow> P (j + 1 + i)"
    using 2(3) by fastforce
  have "P j" if "ci_weak_sum x = ci_weak_sum c" using 2(3) that by fastforce
  then have "c \<in> set cs \<or> (\<exists>k < j + 1. st_sum_offset ?t (ci_weak_sum c) = Some k \<and> P k)"
    using 2(2) by (auto simp: less_Suc_eq)
  from 2(1) [OF refl refl] this P show ?case by (simp add: Let_def)
qed

lemma fill_table_flag: "c \<in> set cs \<Longrightarrow> st_map (fill_table cs j t) (unat (ci_weak_sum c mod 4096)) = 1"
  by (induction cs j t rule: fill_table.induct) (auto simp: Let_def intro: fill_table_map)

lemma new_table_finds:
  assumes "k < length old div C"
  shows "\<exists>k' < length old div C.
           st_sum_offset (new_table (meta_list md4 C old)) (weak3 (chunk C old k)) = Some k' \<and>
           weak3 (chunk C old k') = weak3 (chunk C old k)"
    and "st_map (new_table (meta_list md4 C old)) (unat (weak3 (chunk C old k) mod 4096)) = 1"
proof -
  let ?m = "meta_list md4 C old"
  have c: "meta_of md4 C old k \<in> set ?m" using assms by (simp add: meta_list_def)
  from fill_table_flag [OF c] show "st_map (new_table ?m) (unat (weak3 (chunk C old k) mod 4096)) = 1"
    by (simp add: new_table_def meta_of_def)
  from fill_table_finds [of "meta_of md4 C old k" ?m 0 _
      "\<lambda>k'. weak3 (chunk C old k') = weak3 (chunk C old k)"] c
  show "\<exists>k' < length old div C. st_sum_offset (new_table ?m) (weak3 (chunk C old k)) = Some k' \<and>
          weak3 (chunk C old k') = weak3 (chunk C old k)"
    by (simp add: new_table_def meta_of_def meta_list_def)
qed

section \<open>The scan\<close>

definition reference :: "nat \<Rightarrow> nat \<Rightarrow> offset_node" where
  "reference C k = OffsetNode False (int (k * C)) (int C)"

definition aligned_at ::
  "(byte list \<Rightarrow> byte list) \<Rightarrow> nat \<Rightarrow> byte list \<Rightarrow> byte list \<Rightarrow> fsys \<Rightarrow> string \<Rightarrow> scan_state \<Rightarrow> nat \<Rightarrow>
   nat list \<Rightarrow> bool" where
  "aligned_at md4 C old N fs p s c ks \<longleftrightarrow>
     fm_ok fs p N (sc_fm s) \<and> metas_ok md4 C old (sc_meta s) \<and> ck3_ready C (sc_summer s) \<and>
     sc_curr s = int c \<and> sc_offset s = int c \<and> sc_nodes s = map (reference C) ks"

lemma scan_turn_aligned:
  assumes at: "aligned_at md4 C old N fs p s c ks" and C: "0 < C" "int C \<le> 2 ^ 30"
    and inside: "c + C \<le> length N" and k: "k < length old div C" "take C (drop c N) = chunk C old k"
    and w: "weak_distinct C old"
  shows "\<exists>s' k'. scan_turn md4 (int C) fs (new_table (meta_list md4 C old)) n s = Some s' \<and>
           k' < length old div C \<and> chunk C old k' = chunk C old k \<and>
           aligned_at md4 C old N fs p s' (c + C) (ks @ [k'])"
proof -
  let ?t = "new_table (meta_list md4 C old)"
  from at have fm: "fm_ok fs p N (sc_fm s)" and me: "metas_ok md4 C old (sc_meta s)"
    and ready: "ck3_ready C (sc_summer s)" and s: "sc_curr s = int c" "sc_offset s = int c"
      "sc_nodes s = map (reference C) ks"
    by (simp_all add: aligned_at_def)
  from MapFileContent_ok [OF fm, of c C] inside C obtain fm1 q1 m1 where
    map1: "MapFileContent fs (int c) (int C) (sc_fm s) = Some (fm1, q1)" and fm1: "fm_ok fs p N fm1"
    and mem1: "fm_mem fm1 q1 = Some m1" and sh1: "fm_shows N c C m1" by auto
  have l1: "load m1 0 C = Some (chunk C old k)" using fm_shows_inside [OF sh1 inside] k(2) by simp
  from checksum3.init_law [OF ready C(1) l1] obtain sm where
    sm: "Checksum3_Init 0 m1 (int C) (sc_summer s) = Some sm" "ck3_live 0 C sm"
      "ck3_window sm = chunk C old k" by blast
  have tmp: "ck3_tmp_sum sm = weak3 (chunk C old k)"
    using sm(2,3) by (simp add: ck3_live_def ck3_window_def weak3_def)
  from new_table_finds(1) [OF k(1), of md4] obtain k' where
    k': "k' < length old div C" "st_sum_offset ?t (weak3 (chunk C old k)) = Some k'"
      "weak3 (chunk C old k') = weak3 (chunk C old k)" by blast
  with w k(1) have eq: "chunk C old k' = chunk C old k" by (auto simp: weak_distinct_def)
  note flag = new_table_finds(2) [OF k(1), of md4]
  from MapFileContent_ok [OF fm1, of c C] inside C obtain fm2 q2 m2 where
    map2: "MapFileContent fs (int c) (int C) fm1 = Some (fm2, q2)" and fm2: "fm_ok fs p N fm2"
    and mem2: "fm_mem fm2 q2 = Some m2" and sh2: "fm_shows N c C m2" by auto
  have l2: "load m2 0 C = Some (chunk C old k)" using fm_shows_inside [OF sh2 inside] k(2) by simp
  have st: "Checksum3_StrongSum md4 (Some m2) (int C) sm = Some (hex_string (md4 (chunk C old k)), sm)"
    using Checksum3_StrongSum_data [of "int C" m2 "chunk C old k" md4 sm] l2 by simp
  let ?c = "sc_meta s ! k'"
  have c: "k' < length (sc_meta s)" "ci_offset ?c = int (k' * C)"
    "ci_strong_sum ?c = hex_string (md4 (chunk C old k))"
    using me k'(1) eq by (auto simp: metas_ok_def)
  define s' where "s' = s\<lparr>sc_fm := fm2, sc_buf := q2, sc_summer := sm, sc_curr := int c + int C,
    sc_meta := (sc_meta s)[k' := ?c\<lparr>ci_from := False\<rparr>],
    sc_nodes := sc_nodes s @ [OffsetNode False (ci_offset ?c) (int C)], sc_offset := int c + int C\<rparr>"
  have "scan_turn md4 (int C) fs ?t n s = Some s'"
    using map1 mem1 sm(1) tmp flag k'(2) map2 mem2 st c s(1,2)
    by (simp add: scan_turn_def scan_judge_def Let_def s'_def)
  moreover have "aligned_at md4 C old N fs p s' (c + C) (ks @ [k'])"
    using fm2 metas_ok_mark [OF me, of k' False] checksum3.live_ready [OF sm(2)] s c(2)
    by (simp add: aligned_at_def s'_def reference_def)
  ultimately show ?thesis using k'(1) eq by blast
qed

lemma scan_loop_aligned:
  assumes "aligned_at md4 C old N fs p s c done" and "0 < C" "int C \<le> 2 ^ 30"
    and "drop c N = concat (map (chunk C old) ks)" and "c \<le> length N"
    and "\<forall>k \<in> set ks. k < length old div C" and "weak_distinct C old"
  shows "\<exists>s' ks'. scan_loop md4 (int C) fs (new_table (meta_list md4 C old)) (int (length N)) s = Some s' \<and>
           aligned_at md4 C old N fs p s' (length N) (done @ ks') \<and> length ks' = length ks \<and>
           (\<forall>k \<in> set ks'. k < length old div C) \<and> map (chunk C old) ks' = map (chunk C old) ks"
  using assms
proof (induction ks arbitrary: s c "done")
  case Nil
  then have "c = length N" by simp
  with Nil show ?case
    by (subst scan_loop.simps) (auto simp: aligned_at_def intro!: exI [of _ "[]"])
next
  case (Cons k ks)
  have k: "k < length old div C" using Cons.prems by simp
  note len = length_chunk [OF k]
  have t: "take C (drop c N) = chunk C old k" and d: "drop (c + C) N = concat (map (chunk C old) ks)"
    using Cons.prems(4) len by (simp_all add: add.commute [of c] flip: drop_drop)
  have inside: "c + C \<le> length N"
    using arg_cong [OF Cons.prems(4), of length] len Cons.prems(5) by simp
  from scan_turn_aligned [OF Cons.prems(1-3) inside k t Cons.prems(7)] obtain s1 k1 where
    1: "scan_turn md4 (int C) fs (new_table (meta_list md4 C old)) (int (length N)) s = Some s1"
      "k1 < length old div C" "chunk C old k1 = chunk C old k"
      "aligned_at md4 C old N fs p s1 (c + C) (done @ [k1])" by blast
  from Cons.IH [OF 1(4) Cons.prems(2,3) d inside _ Cons.prems(7)] Cons.prems(6) obtain s2 ks2 where
    2: "scan_loop md4 (int C) fs (new_table (meta_list md4 C old)) (int (length N)) s1 = Some s2"
      "aligned_at md4 C old N fs p s2 (length N) ((done @ [k1]) @ ks2)" "length ks2 = length ks"
      "\<forall>k \<in> set ks2. k < length old div C" "map (chunk C old) ks2 = map (chunk C old) ks" by auto
  have "scan_loop md4 (int C) fs (new_table (meta_list md4 C old)) (int (length N)) s = Some s2"
    using Cons.prems(1) inside 1(1) 2(1)
    by (subst scan_loop.simps) (simp add: aligned_at_def)
  with 1 2 show ?case by (intro exI [of _ s2] exI [of _ "k1 # ks2"]) simp
qed

lemma references_ok:
  assumes "\<forall>k \<in> set ks. k < length old div C"
  shows "\<forall>n \<in> set (map (reference C) ks). node_ok old N n"
    and "spell old N (map (reference C) ks) = concat (map (chunk C old) ks)"
    and "nodes_size (map (reference C) ks) = 9 * int (length ks)"
proof -
  have "node_ok old N (reference C k)" "node_bytes old N (reference C k) = chunk C old k"
    if "k < length old div C" for k
  proof -
    have "int (k * C + C) \<le> int (length old)" using chunk_inside [OF that] by linarith
    then show "node_ok old N (reference C k)" by (simp add: node_ok_def reference_def OffsetNode_def)
    have "nat (int k * int C) = k * C" by (simp add: nat_mult_distrib)
    then show "node_bytes old N (reference C k) = chunk C old k"
      by (simp add: node_bytes_def reference_def OffsetNode_def chunk_def)
  qed
  with assms show "\<forall>n \<in> set (map (reference C) ks). node_ok old N n"
    and "spell old N (map (reference C) ks) = concat (map (chunk C old) ks)"
    by (auto simp: spell_def comp_def intro!: arg_cong [of _ _ concat])
  show "nodes_size (map (reference C) ks) = 9 * int (length ks)"
    by (induction ks) (simp_all add: nodes_size_def node_size_def reference_def OffsetNode_def)
qed

lemma ScanNewFile_aligned:
  assumes f: "file_ok fs p (concat (map (chunk C old) ks))" and C: "0 < C" "C < 4194312"
    and ks: "\<forall>k \<in> set ks. k < length old div C" and w: "weak_distinct C old"
  shows "\<exists>ks' meta. ScanNewFile md4 (int C) fs (Some (meta_list md4 C old)) p =
             Some (map (reference C) ks', meta) \<and> length ks' = length ks \<and>
           (\<forall>k \<in> set ks'. k < length old div C) \<and> map (chunk C old) ks' = map (chunk C old) ks"
proof -
  let ?N = "concat (map (chunk C old) ks)"
  from file_ok_open [OF f] obtain fm where fm: "FileMap_new fs p = Some fm" "fm_ok fs p ?N fm" by blast
  define s0 where "s0 = \<lparr>sc_summer = Checksum3_new, sc_meta = meta_list md4 C old, sc_fm = fm,
      sc_buf = None, sc_curr = 0, sc_offset = 0, sc_nodes = []\<rparr>"
  have "aligned_at md4 C old ?N fs p s0 0 []"
    using fm(2) metas_ok_meta_list Checksum3_new_ready [OF C(2)] by (simp add: aligned_at_def s0_def)
  from scan_loop_aligned [OF this C(1) _ _ _ ks w] C(2) obtain s ks' where
    s: "scan_loop md4 (int C) fs (new_table (meta_list md4 C old)) (int (length ?N)) s0 = Some s"
      "aligned_at md4 C old ?N fs p s (length ?N) ks'" "length ks' = length ks"
      "\<forall>k \<in> set ks'. k < length old div C" "map (chunk C old) ks' = map (chunk C old) ks" by auto
  then show ?thesis
    using file_ok_size [OF f] fm(1)
    by (auto simp: ScanNewFile_def s0_def aligned_at_def simp del: length_concat)
qed

lemma rdiff_aligned:
  assumes set: "rdiff_setting C fs po old ps pn (concat (map (chunk C old) ks)) pd pr"
    and ks: "\<forall>k \<in> set ks. k < length old div C" and w: "weak_distinct C old"
    and md4: "\<forall>m. length (md4 m) = 16" and tail: "0 \<in> set tail"
  shows "\<exists>fs' d. rdiff_main md4 (int C) tail fs [prog, po, ps, pn, pd, pr] = Some (0, fs') \<and>
           fs_files fs' pr = Some (concat (map (chunk C old) ks)) \<and>
           fs_files fs' pd = Some d \<and> length d = 8 + 9 * length ks"
proof -
  let ?N = "concat (map (chunk C old) ks)"
  let ?P = "\<lambda>fs' ks'. \<exists>meta. ScanNewFile md4 (int C) fs' (Some (meta_list md4 C old)) pn =
             Some (map (reference C) ks', meta) \<and> length ks' = length ks \<and>
           (\<forall>k \<in> set ks'. k < length old div C) \<and> map (chunk C old) ks' = map (chunk C old) ks"
  define kk where "kk fs' = (SOME ks'. ?P fs' ks')" for fs'
  from set have C: "0 < C" "C < 4194312"
    and dl: "13 + 14 * int ((length ?N + C) div C) + int (length ?N + C) < DEFAULT_BUFFER_LENGTH"
    by (auto simp: rdiff_setting_def)
  have P: "?P fs' (kk fs')" if "file_ok fs' pn ?N" for fs'
    unfolding kk_def using ScanNewFile_aligned [OF that C ks w] by (rule someI_ex)
  have "length ?N = length ks * C"
    using ks by (induction ks) (simp_all add: length_chunk)
  then have "int (length ks) \<le> int ((length ?N + C) div C)" using C(1) by simp
  with dl have size: "8 + 9 * int (length ks) < DEFAULT_BUFFER_LENGTH"
    by linarith
  have "\<exists>meta. ScanNewFile md4 (int C) fs' (Some (meta_list md4 C old)) pn =
            Some (map (reference C) (kk fs'), meta) \<and>
          (\<forall>n \<in> set (map (reference C) (kk fs')). node_ok old ?N n) \<and>
          8 + nodes_size (map (reference C) (kk fs')) < DEFAULT_BUFFER_LENGTH"
    if "file_ok fs' pn ?N" for fs'
    using P [OF that] references_ok(1) [of "kk fs'" old C ?N]
      references_ok(3) [of "kk fs'" old C] size by auto
  from rdiff_run [OF set md4 tail this] obtain fs1 fs' where
    r: "rdiff_main md4 (int C) tail fs [prog, po, ps, pn, pd, pr] = Some (0, fs')"
      "file_ok fs1 pn ?N" "fs_files fs' pd = Some (delta_bytes ?N (map (reference C) (kk fs1)))"
      "fs_files fs' pr = Some (spell old ?N (map (reference C) (kk fs1)))" by blast
  from P [OF r(2)] have k1: "length (kk fs1) = length ks" "\<forall>k \<in> set (kk fs1). k < length old div C"
    "map (chunk C old) (kk fs1) = map (chunk C old) ks" by blast+
  have "spell old ?N (map (reference C) (kk fs1)) = ?N"
    using references_ok(2) [OF k1(2), of ?N] k1(3) by simp
  moreover have "int (length (delta_bytes ?N (map (reference C) (kk fs1)))) = 8 + 9 * int (length ks)"
    using length_delta_bytes [OF references_ok(1) [OF k1(2)], of ?N]
      references_ok(3) [of "kk fs1" old C] k1(1,2) by simp
  ultimately show ?thesis using r(1,3,4) by fastforce
qed

end
