(* ===== verification/NetData.thy ===== *)
theory NetData
  imports Prelude
begin

text \<open>
  The data structures of \<open>single_fs/depends/net\<close>: the \<open>Package\<close> cursor over a byte block, \<open>Packet\<close>
  and its copy, the doubly linked \<open>SimpleList\<close> and the id generator \<open>Channel\<close> with the two threads
  that may call it at once.
\<close>

section \<open>Package\<close>

text \<open>
  \<open>pk_mem\<close> is the block given to \<open>set_data\<close>, \<open>pk_pos\<close> the distance of \<open>pointer_\<close> from its start.
  The integers are stored through a cast pointer, in the byte order of the machine: little endian.
  \<open>left_length_ >= sizeof(int32_t)\<close> compares as unsigned, so a negative length passes.
\<close>

record package =
  pk_mem :: "byte list"
  pk_pos :: nat
  pk_length :: int
  pk_left :: int

definition Package_new :: package where
  "Package_new = \<lparr>pk_mem = [], pk_pos = 0, pk_length = 0, pk_left = 0\<rparr>"

definition Package_set_data :: "byte list \<Rightarrow> int \<Rightarrow> package \<Rightarrow> package" where
  "Package_set_data m len p = p\<lparr>pk_mem := m, pk_length := len, pk_left := len, pk_pos := 0\<rparr>"

definition le32 :: "u32 \<Rightarrow> byte list" where
  "le32 w = rev (be32 w)"

definition rdle32 :: "byte list \<Rightarrow> u32" where
  "rdle32 bs = rd32 (rev bs)"

definition room4 :: "package \<Rightarrow> bool" where
  "room4 p \<longleftrightarrow> 4 \<le> pk_left p \<or> pk_left p < 0"

definition Package_GetUint32_t :: "package \<Rightarrow> (u32 \<times> package) option" where
  "Package_GetUint32_t p =
     (if room4 p then do {
        bs \<leftarrow> load (pk_mem p) (pk_pos p) 4;
        Some (rdle32 bs, p\<lparr>pk_pos := pk_pos p + 4, pk_left := pk_left p - 4\<rparr>)
      } else Some (0, p))"

definition Package_SetUint32_t :: "u32 \<Rightarrow> package \<Rightarrow> (u32 \<times> package) option" where
  "Package_SetUint32_t w p =
     (if room4 p then do {
        m \<leftarrow> store (pk_mem p) (pk_pos p) (le32 w);
        Some (w, p\<lparr>pk_mem := m, pk_pos := pk_pos p + 4, pk_left := pk_left p - 4\<rparr>)
      } else Some (0, p))"

definition Package_GetInt32_t :: "package \<Rightarrow> (int \<times> package) option" where
  "Package_GetInt32_t p =
     (if room4 p then do {
        bs \<leftarrow> load (pk_mem p) (pk_pos p) 4;
        Some (sint (rdle32 bs), p\<lparr>pk_pos := pk_pos p + 4, pk_left := pk_left p - 4\<rparr>)
      } else Some (0, p))"

definition Package_SetInt32_t :: "int \<Rightarrow> package \<Rightarrow> (int \<times> package) option" where
  "Package_SetInt32_t i p =
     (if room4 p then do {
        m \<leftarrow> store (pk_mem p) (pk_pos p) (le32 (u32_of i));
        Some (i, p\<lparr>pk_mem := m, pk_pos := pk_pos p + 4, pk_left := pk_left p - 4\<rparr>)
      } else Some (0, p))"

text \<open>A negative length takes nothing and makes \<open>left_length_\<close> larger.\<close>

definition Package_GetString :: "int \<Rightarrow> package \<Rightarrow> (byte list option \<times> package) option" where
  "Package_GetString len p =
     (if pk_left p < len then Some (None, p)
      else do {
        bs \<leftarrow> load (pk_mem p) (pk_pos p) (nat len);
        Some (Some bs, p\<lparr>pk_pos := pk_pos p + nat len, pk_left := pk_left p - len\<rparr>)
      })"

definition Package_SetString :: "byte list \<Rightarrow> int \<Rightarrow> package \<Rightarrow> package option" where
  "Package_SetString str len p =
     (if pk_left p < len then Some p
      else do {
        require (0 \<le> len);
        bs \<leftarrow> load str 0 (nat len);
        m \<leftarrow> store (pk_mem p) (pk_pos p) bs;
        Some (p\<lparr>pk_mem := m, pk_pos := pk_pos p + nat len, pk_left := pk_left p - len\<rparr>)
      })"

text \<open>\<open>SetString(const string&)\<close>, \<open>SetChar\<close> and \<open>GetChar\<close> are stubs.\<close>

definition Package_SetString_str :: "byte list \<Rightarrow> package \<Rightarrow> package" where
  "Package_SetString_str str p = p"

definition Package_GetChar :: "package \<Rightarrow> byte" where
  "Package_GetChar p = 48"

definition Package_SetChar :: "byte \<Rightarrow> package \<Rightarrow> package" where
  "Package_SetChar c p = p"

text \<open>Writing a list of fields and reading a list of the same shape.\<close>

datatype field = FInt int | FUint u32 | FStr "byte list"

fun put_field :: "field \<Rightarrow> package \<Rightarrow> package option" where
  "put_field (FInt i) p = map_option snd (Package_SetInt32_t i p)"
| "put_field (FUint w) p = map_option snd (Package_SetUint32_t w p)"
| "put_field (FStr s) p = Package_SetString s (int (length s)) p"

fun get_field :: "field \<Rightarrow> package \<Rightarrow> (field \<times> package) option" where
  "get_field (FInt _) p = map_option (map_prod FInt id) (Package_GetInt32_t p)"
| "get_field (FUint _) p = map_option (map_prod FUint id) (Package_GetUint32_t p)"
| "get_field (FStr s) p =
     (case Package_GetString (int (length s)) p of
        Some (Some bs, p) \<Rightarrow> Some (FStr bs, p)
      | _ \<Rightarrow> None)"

fun get_fields :: "field list \<Rightarrow> package \<Rightarrow> (field list \<times> package) option" where
  "get_fields [] p = Some ([], p)"
| "get_fields (f # fs) p = do {
     (g, p) \<leftarrow> get_field f p;
     (gs, p) \<leftarrow> get_fields fs p;
     Some (g # gs, p)
   }"

fun field_bytes :: "field \<Rightarrow> byte list" where
  "field_bytes (FInt i) = le32 (u32_of i)"
| "field_bytes (FUint w) = le32 w"
| "field_bytes (FStr s) = s"

fun field_ok :: "field \<Rightarrow> bool" where
  "field_ok (FInt i) = i32_ok i"
| "field_ok _ = True"

lemma length_le32 [simp]: "length (le32 w) = 4"
  by (simp add: le32_def)

lemma rdle32_le32 [simp]: "rdle32 (le32 w) = w"
  by (simp add: rdle32_def le32_def)

text \<open>
  The package holds \<open>bs\<close> before its cursor and \<open>n\<close> free bytes behind it; the block is \<open>k\<close> bytes longer
  than the package knows.
\<close>

definition pk_written_in :: "nat \<Rightarrow> byte list \<Rightarrow> nat \<Rightarrow> package \<Rightarrow> bool" where
  "pk_written_in k bs n p \<longleftrightarrow>
     pk_pos p = length bs \<and> take (length bs) (pk_mem p) = bs \<and> pk_left p = int n \<and>
     length (pk_mem p) = length bs + n + k"

abbreviation pk_written :: "byte list \<Rightarrow> nat \<Rightarrow> package \<Rightarrow> bool" where
  "pk_written \<equiv> pk_written_in 0"

lemma store_written:
  assumes "take (length bs) m = bs" and "length m = length bs + length xs + n"
  shows "\<exists>m'. store m (length bs) xs = Some m' \<and> take (length bs + length xs) m' = bs @ xs \<and>
           length m' = length bs + length xs + n"
  using assms by (simp add: store_def)

lemma put_field_ok:
  assumes "pk_written_in k bs (length (field_bytes f) + n) p"
  shows "\<exists>p'. put_field f p = Some p' \<and> pk_written_in k (bs @ field_bytes f) n p'"
proof -
  let ?xs = "field_bytes f"
  from store_written [of bs "pk_mem p" ?xs "n + k"] assms obtain m where
    m: "store (pk_mem p) (length bs) ?xs = Some m" "take (length bs + length ?xs) m = bs @ ?xs"
      "length m = length bs + length ?xs + (n + k)"
    by (auto simp: pk_written_in_def add.assoc)
  show ?thesis
    by (cases f)
      (use assms m in \<open>simp_all add: pk_written_in_def Package_SetInt32_t_def Package_SetUint32_t_def
         Package_SetString_def room4_def load_def\<close>)
qed

lemma put_fields_ok:
  assumes "pk_written_in k bs (length (concat (map field_bytes fs)) + n) p"
  shows "\<exists>p'. foldM put_field fs p = Some p' \<and> pk_written_in k (bs @ concat (map field_bytes fs)) n p'"
  using assms
proof (induction fs arbitrary: bs p)
  case Nil
  then show ?case by simp
next
  case (Cons f fs)
  from put_field_ok [of k bs f "length (concat (map field_bytes fs)) + n" p] Cons.prems obtain p1 where
    "put_field f p = Some p1"
    "pk_written_in k (bs @ field_bytes f) (length (concat (map field_bytes fs)) + n) p1"
    by (auto simp: add.assoc)
  with Cons.IH [OF this(2)] show ?case by simp
qed

lemma load_le32 [simp]: "load (bs @ le32 w @ rest) (length bs) 4 = Some (le32 w)"
  using load_append [of bs "le32 w" rest] by simp

lemma get_field_ok:
  assumes "field_ok f" and "pk_mem p = bs @ field_bytes f @ rest" and "pk_pos p = length bs"
    and "pk_left p = int (length (field_bytes f) + n)"
  shows "get_field f p =
    Some (f, p\<lparr>pk_pos := length (bs @ field_bytes f), pk_left := int n\<rparr>)"
  by (cases f)
    (use assms in \<open>simp_all add: Package_GetInt32_t_def Package_GetUint32_t_def
       Package_GetString_def room4_def load_append\<close>)

lemma get_fields_ok:
  assumes "\<forall>f \<in> set fs. field_ok f" and "pk_mem p = bs @ concat (map field_bytes fs) @ rest"
    and "pk_pos p = length bs" and "pk_left p = int (length (concat (map field_bytes fs)) + n)"
  shows "\<exists>p'. get_fields fs p = Some (fs, p') \<and> pk_left p' = int n"
  using assms
proof (induction fs arbitrary: bs p)
  case Nil
  then show ?case by simp
next
  case (Cons f fs)
  let ?r = "concat (map field_bytes fs)"
  have g: "get_field f p =
      Some (f, p\<lparr>pk_pos := length (bs @ field_bytes f), pk_left := int (length ?r + n)\<rparr>)"
    using Cons.prems by (intro get_field_ok [where rest = "?r @ rest"]) (simp_all add: add.assoc)
  from Cons.IH [of "p\<lparr>pk_pos := length (bs @ field_bytes f), pk_left := int (length ?r + n)\<rparr>"
      "bs @ field_bytes f"] Cons.prems g
  show ?case by auto
qed

section \<open>Packet\<close>

text \<open>
  \<open>None\<close> in a field is a member the constructor did not set; reading it is a fault.  \<open>head_data_\<close>
  and \<open>data_\<close> are the allocations behind the pointers, empty for null.
\<close>

record 'e packet =
  pt_head :: "byte list option"
  pt_head_length :: "u32 option"
  pt_data :: "byte list option"
  pt_data_length :: "u32 option"
  pt_channel :: u32
  pt_end_point :: "'e option"

definition Packet_new :: "u32 \<Rightarrow> 'e packet" where
  "Packet_new max_id = \<lparr>pt_head = Some [], pt_head_length = Some 0, pt_data = Some [],
     pt_data_length = Some 0, pt_channel = max_id, pt_end_point = None\<rparr>"

definition Packet_new_channel :: "u32 \<Rightarrow> 'e packet" where
  "Packet_new_channel channel_id = \<lparr>pt_head = None, pt_head_length = None, pt_data = None,
     pt_data_length = None, pt_channel = channel_id, pt_end_point = None\<rparr>"

definition Packet_delete :: "'e packet \<Rightarrow> unit option" where
  "Packet_delete p = do { _ \<leftarrow> pt_data p; _ \<leftarrow> pt_head p; Some () }"

definition Packet_set_head :: "byte list \<Rightarrow> u32 \<Rightarrow> 'e packet \<Rightarrow> 'e packet" where
  "Packet_set_head head_data head_length p =
     p\<lparr>pt_head := Some head_data, pt_head_length := Some head_length\<rparr>"

definition Packet_set_packet :: "byte list \<Rightarrow> u32 \<Rightarrow> 'e packet \<Rightarrow> 'e packet" where
  "Packet_set_packet dat data_length p =
     p\<lparr>pt_data := Some dat, pt_data_length := Some data_length\<rparr>"

definition Packet_GetCopy :: "u32 \<Rightarrow> 'e packet \<Rightarrow> 'e packet option" where
  "Packet_GetCopy max_id p = do {
     hl \<leftarrow> pt_head_length p;
     h \<leftarrow> pt_head p;
     head_data \<leftarrow> load h 0 (unat hl);
     dl \<leftarrow> pt_data_length p;
     d \<leftarrow> pt_data p;
     dat \<leftarrow> load d 0 (unat dl);
     let q = Packet_new max_id;
     let q = Packet_set_head head_data hl q;
     let q = Packet_set_packet dat dl q;
     let q = q\<lparr>pt_channel := pt_channel p\<rparr>;
     e \<leftarrow> pt_end_point p;
     Some (q\<lparr>pt_end_point := Some e\<rparr>)
   }"

text \<open>What a well-formed packet carries, and that a copy carries the same.\<close>

definition packet_holds :: "byte list \<Rightarrow> byte list \<Rightarrow> 'e packet \<Rightarrow> bool" where
  "packet_holds h d p \<longleftrightarrow>
     (\<exists>hs ds. pt_head p = Some (h @ hs) \<and> pt_data p = Some (d @ ds) \<and>
        pt_head_length p = Some (of_nat (length h)) \<and> pt_data_length p = Some (of_nat (length d))) \<and>
     length h < 2 ^ 32 \<and> length d < 2 ^ 32"

lemma unat_of_nat_u32: "n < 2 ^ 32 \<Longrightarrow> unat (of_nat n :: u32) = n"
  by (simp add: unsigned_of_nat take_bit_nat_eq_self)

lemma Packet_GetCopy_holds:
  assumes "packet_holds h d p" and "pt_end_point p = Some e"
  shows "\<exists>q. Packet_GetCopy c p = Some q \<and> packet_holds h d q \<and> pt_end_point q = Some e \<and>
           pt_channel q = pt_channel p"
  using assms
  by (auto simp: Packet_GetCopy_def packet_holds_def Packet_set_head_def Packet_set_packet_def
      load_def unat_of_nat_u32 Let_def)

section \<open>SimpleList\<close>

text \<open>
  The nodes live in a heap; the sentinels \<open>head_\<close> and \<open>tail_\<close> are members of the list object.  A
  node that was deleted is not in the heap, and touching it is a fault.
\<close>

datatype sl_addr = Head | Tail | Cell nat

record 'a sl_node =
  nd_next :: "sl_addr option"
  nd_pre :: "sl_addr option"
  nd_data :: "'a option"

record 'a simple_list =
  sl_heap :: "sl_addr \<rightharpoonup> 'a sl_node"
  sl_fresh :: nat

definition nd_empty :: "'a sl_node" where
  "nd_empty = \<lparr>nd_next = None, nd_pre = None, nd_data = None\<rparr>"

definition SimpleList_new :: "'a simple_list" where
  "SimpleList_new = \<lparr>sl_heap = [Head \<mapsto> nd_empty, Tail \<mapsto> nd_empty], sl_fresh = 0\<rparr>"

definition sl_next :: "'a simple_list \<Rightarrow> sl_addr \<Rightarrow> sl_addr option" where
  "sl_next l a = sl_heap l a \<bind> nd_next"

definition sl_pre :: "'a simple_list \<Rightarrow> sl_addr \<Rightarrow> sl_addr option" where
  "sl_pre l a = sl_heap l a \<bind> nd_pre"

definition set_next :: "sl_addr \<Rightarrow> sl_addr \<Rightarrow> 'a simple_list \<Rightarrow> 'a simple_list option" where
  "set_next a b l = do {
     n \<leftarrow> sl_heap l a;
     Some (l\<lparr>sl_heap := (sl_heap l)(a \<mapsto> n\<lparr>nd_next := Some b\<rparr>)\<rparr>)
   }"

definition set_pre :: "sl_addr \<Rightarrow> sl_addr \<Rightarrow> 'a simple_list \<Rightarrow> 'a simple_list option" where
  "set_pre a b l = do {
     n \<leftarrow> sl_heap l a;
     Some (l\<lparr>sl_heap := (sl_heap l)(a \<mapsto> n\<lparr>nd_pre := Some b\<rparr>)\<rparr>)
   }"

definition sl_alloc :: "'a \<Rightarrow> 'a simple_list \<Rightarrow> sl_addr \<times> 'a simple_list" where
  "sl_alloc t l = (Cell (sl_fresh l),
     l\<lparr>sl_heap := (sl_heap l)(Cell (sl_fresh l) \<mapsto> nd_empty\<lparr>nd_data := Some t\<rparr>),
       sl_fresh := sl_fresh l + 1\<rparr>)"

definition sl_delete :: "sl_addr \<Rightarrow> 'a simple_list \<Rightarrow> 'a simple_list option" where
  "sl_delete a l = do {
     _ \<leftarrow> sl_heap l a;
     Some (l\<lparr>sl_heap := (sl_heap l)(a := None)\<rparr>)
   }"

definition push_back :: "'a \<Rightarrow> 'a simple_list \<Rightarrow> (sl_addr \<times> 'a simple_list) option" where
  "push_back t l = do {
     let (node, l) = sl_alloc t l;
     if sl_next l Head = None \<or> sl_next l Head = Some Tail then do {
       l \<leftarrow> set_next Head node l;
       l \<leftarrow> set_pre Tail node l;
       l \<leftarrow> set_next node Tail l;
       l \<leftarrow> set_pre node Head l;
       Some (node, l)
     } else do {
       q \<leftarrow> sl_pre l Tail;
       l \<leftarrow> set_pre node q l;
       l \<leftarrow> set_next node Tail l;
       l \<leftarrow> set_pre Tail node l;
       q \<leftarrow> sl_pre l node;
       l \<leftarrow> set_next q node l;
       Some (node, l)
     }
   }"

definition remove_node :: "sl_addr \<Rightarrow> 'a simple_list \<Rightarrow> 'a simple_list option" where
  "remove_node node l =
     (if node = Head \<or> node = Tail then Some l
      else do {
        n \<leftarrow> sl_next l node;
        q \<leftarrow> sl_pre l node;
        l \<leftarrow> set_pre n q l;
        q \<leftarrow> sl_pre l node;
        n \<leftarrow> sl_next l node;
        l \<leftarrow> set_next q n l;
        sl_delete node l
      })"

text \<open>The loop of \<open>HandleEveryNode\<close>; the action gets the node and the rest of the program state.\<close>

partial_function (option) each_node ::
  "(sl_addr \<Rightarrow> 'a simple_list \<Rightarrow> 's \<Rightarrow> ('a simple_list \<times> 's) option) \<Rightarrow> sl_addr \<Rightarrow> 'a simple_list \<Rightarrow>
   's \<Rightarrow> ('a simple_list \<times> 's) option" where
  "each_node action node l s =
     (if node = Tail then Some (l, s)
      else do {
        tmp \<leftarrow> sl_next l node;
        (l, s) \<leftarrow> action node l s;
        each_node action tmp l s
      })"

declare each_node.simps [code]

definition HandleEveryNode ::
  "(sl_addr \<Rightarrow> 'a simple_list \<Rightarrow> 's \<Rightarrow> ('a simple_list \<times> 's) option) \<Rightarrow> 'a simple_list \<Rightarrow> 's \<Rightarrow>
   ('a simple_list \<times> 's) option" where
  "HandleEveryNode action l s =
     (case sl_next l Head of
        None \<Rightarrow> Some (l, s)
      | Some n \<Rightarrow> if n = Tail then Some (l, s) else each_node action n l s)"

text \<open>\<open>IteratorDel\<close> of the destructor.\<close>

definition sl_del_action :: "sl_addr \<Rightarrow> 'a simple_list \<Rightarrow> unit \<Rightarrow> ('a simple_list \<times> unit) option" where
  "sl_del_action node l s = do {
     n \<leftarrow> sl_next l node;
     q \<leftarrow> sl_pre l node;
     l \<leftarrow> set_pre n q l;
     q \<leftarrow> sl_pre l node;
     n \<leftarrow> sl_next l node;
     l \<leftarrow> set_next q n l;
     l \<leftarrow> sl_delete node l;
     Some (l, ())
   }"

definition SimpleList_delete :: "'a simple_list \<Rightarrow> 'a simple_list option" where
  "SimpleList_delete l = map_option fst (HandleEveryNode sl_del_action l ())"

section \<open>SimpleList holds a list\<close>

fun linked :: "'a simple_list \<Rightarrow> sl_addr \<Rightarrow> sl_addr list \<Rightarrow> bool" where
  "linked l a [] \<longleftrightarrow> sl_next l a = Some Tail \<and> sl_pre l Tail = Some a"
| "linked l a (b # bs) \<longleftrightarrow> sl_next l a = Some b \<and> sl_pre l b = Some a \<and> linked l b bs"

definition sl_cells :: "'a simple_list \<Rightarrow> sl_addr list \<Rightarrow> bool" where
  "sl_cells l as \<longleftrightarrow>
     distinct as \<and> (\<forall>a \<in> set as. \<exists>k < sl_fresh l. a = Cell k) \<and>
     (\<forall>a. sl_heap l a \<noteq> None \<longleftrightarrow> a \<in> {Head, Tail} \<union> set as) \<and>
     (if as = [] \<and> sl_next l Head = None then True else linked l Head as)"

definition sl_items :: "'a simple_list \<Rightarrow> sl_addr list \<Rightarrow> 'a option list" where
  "sl_items l as = map (\<lambda>a. sl_heap l a \<bind> nd_data) as"

definition sl_holds :: "'a simple_list \<Rightarrow> sl_addr list \<Rightarrow> 'a list \<Rightarrow> bool" where
  "sl_holds l as xs \<longleftrightarrow> sl_cells l as \<and> sl_items l as = map Some xs"

lemma set_next_simps:
  assumes "set_next a b l = Some l'"
  shows "sl_next l' = (sl_next l)(a \<mapsto> b)" and "sl_pre l' = sl_pre l" and "sl_fresh l' = sl_fresh l"
    and "sl_heap l' c \<noteq> None \<longleftrightarrow> sl_heap l c \<noteq> None"
    and "(sl_heap l' c \<bind> nd_data) = (sl_heap l c \<bind> nd_data)"
  using assms by (auto simp: set_next_def sl_next_def sl_pre_def bind_eq_Some_conv fun_eq_iff
      split: if_splits)

lemma set_pre_simps:
  assumes "set_pre a b l = Some l'"
  shows "sl_pre l' = (sl_pre l)(a \<mapsto> b)" and "sl_next l' = sl_next l" and "sl_fresh l' = sl_fresh l"
    and "sl_heap l' c \<noteq> None \<longleftrightarrow> sl_heap l c \<noteq> None"
    and "(sl_heap l' c \<bind> nd_data) = (sl_heap l c \<bind> nd_data)"
  using assms by (auto simp: set_pre_def sl_next_def sl_pre_def bind_eq_Some_conv fun_eq_iff
      split: if_splits)

lemma set_next_Some: "sl_heap l a \<noteq> None \<Longrightarrow> \<exists>l'. set_next a b l = Some l'"
  by (auto simp: set_next_def)

lemma set_pre_Some: "sl_heap l a \<noteq> None \<Longrightarrow> \<exists>l'. set_pre a b l = Some l'"
  by (auto simp: set_pre_def)

lemma linked_cong:
  assumes "\<forall>c \<in> insert a (set bs). sl_next l' c = sl_next l c"
    and "\<forall>c \<in> insert Tail (set bs). sl_pre l' c = sl_pre l c"
  shows "linked l' a bs \<longleftrightarrow> linked l a bs"
  using assms by (induction bs arbitrary: a) auto

lemma linked_push:
  assumes "linked l a bs" and "distinct (a # bs)" and "Tail \<notin> set (a # bs)" and "n \<notin> set (a # bs)"
    and "n \<noteq> Tail" and "sl_next l' = (sl_next l)(n \<mapsto> Tail, last (a # bs) \<mapsto> n)"
    and "sl_pre l' = (sl_pre l)(n \<mapsto> last (a # bs), Tail \<mapsto> n)"
  shows "linked l' a (bs @ [n])"
  using assms
proof (induction bs arbitrary: a)
  case Nil
  then show ?case by auto
next
  case (Cons b bs)
  have "linked l' b (bs @ [n])" using Cons by (intro Cons.IH) auto
  moreover have "a \<noteq> last (b # bs)" using Cons.prems(2) last_in_set [of "b # bs"] by auto
  ultimately show ?case using Cons.prems by (auto split: if_splits)
qed

lemma linked_remove:
  assumes "linked l a (ys @ n # zs)" and "distinct (a # ys @ n # zs)" and "Tail \<notin> set (a # ys @ n # zs)"
    and "\<forall>c. c \<noteq> n \<longrightarrow> sl_next l' c = ((sl_next l)(last (a # ys) \<mapsto> hd (zs @ [Tail]))) c"
    and "\<forall>c. c \<noteq> n \<longrightarrow> sl_pre l' c = ((sl_pre l)(hd (zs @ [Tail]) \<mapsto> last (a # ys))) c"
  shows "linked l' a (ys @ zs)"
  using assms
proof (induction ys arbitrary: a)
  case Nil
  show ?case
  proof (cases zs)
    case (Cons z zs')
    have "linked l' z zs' \<longleftrightarrow> linked l z zs'"
      using Nil Cons by (intro linked_cong) auto
    then show ?thesis using Nil Cons by auto
  qed (use Nil in auto)
next
  case (Cons b ys)
  have "linked l' b (ys @ zs)" using Cons by (intro Cons.IH) auto
  moreover have "a \<noteq> last (b # ys)" "a \<noteq> n" "b \<noteq> n" "b \<noteq> hd (zs @ [Tail])"
    using Cons.prems(2,3) last_in_set [of "b # ys"] hd_in_set [of "zs @ [Tail]"] by auto
  ultimately show ?case using Cons.prems by auto
qed

lemma linked_ends:
  "linked l a (ys @ n # zs) \<Longrightarrow>
     sl_next l n = Some (hd (zs @ [Tail])) \<and> sl_pre l n = Some (last (a # ys))"
  by (induction ys arbitrary: a) (cases zs; auto)+

lemma linked_tail: "linked l a bs \<Longrightarrow> sl_pre l Tail = Some (last (a # bs))"
  by (induction bs arbitrary: a) auto

lemma sl_holds_new: "sl_holds SimpleList_new [] []"
  by (auto simp: sl_holds_def sl_cells_def sl_items_def SimpleList_new_def sl_next_def nd_empty_def)

lemma push_back_ok:
  assumes h: "sl_holds l as xs"
  shows "\<exists>l'. push_back t l = Some (Cell (sl_fresh l), l') \<and>
           sl_holds l' (as @ [Cell (sl_fresh l)]) (xs @ [t]) \<and> sl_fresh l' = sl_fresh l + 1"
proof -
  define n where "n = Cell (sl_fresh l)"
  define l0 where "l0 = snd (sl_alloc t l)"
  have cells: "sl_cells l as" and items: "sl_items l as = map Some xs" using h by (simp_all add: sl_holds_def)
  have alloc: "sl_alloc t l = (n, l0)" by (simp add: l0_def sl_alloc_def n_def)
  have n: "n \<notin> set as" "n \<noteq> Tail" "n \<noteq> Head" "sl_heap l n = None"
    using cells by (auto simp: sl_cells_def n_def)
  have l0: "sl_heap l0 = (sl_heap l)(n \<mapsto> nd_empty\<lparr>nd_data := Some t\<rparr>)" "sl_fresh l0 = sl_fresh l + 1"
    by (simp_all add: l0_def sl_alloc_def n_def)
  have dom: "\<And>a. sl_heap l0 a \<noteq> None \<longleftrightarrow> a \<in> {Head, Tail, n} \<union> set as"
    using cells n by (auto simp: l0 sl_cells_def)
  have nx: "sl_next l0 c = sl_next l c" "sl_pre l0 c = sl_pre l c" if "c \<noteq> n" for c
    using that by (simp_all add: sl_next_def sl_pre_def l0)
  have dat: "(sl_heap l0 c \<bind> nd_data) = (if c = n then Some t else sl_heap l c \<bind> nd_data)" for c
    by (simp add: l0)
  define q where "q = last (Head # as)"
  have H: "Head \<notin> set as" "Tail \<notin> set as" using cells by (auto simp: sl_cells_def)
  have qh: "q = Head \<or> q \<in> set as" by (auto simp: q_def)
  have first: "sl_next l0 Head = None \<or> sl_next l0 Head = Some Tail \<longleftrightarrow> as = []"
    using cells H nx [of Head] n by (cases as) (auto simp: sl_cells_def split: if_splits)
  have "\<exists>l'. push_back t l = Some (n, l') \<and> sl_fresh l' = sl_fresh l0 \<and>
      (\<forall>a. sl_heap l' a \<noteq> None \<longleftrightarrow> sl_heap l0 a \<noteq> None) \<and>
      (\<forall>c. (sl_heap l' c \<bind> nd_data) = (sl_heap l0 c \<bind> nd_data)) \<and>
      sl_next l' = (sl_next l0)(n \<mapsto> Tail, q \<mapsto> n) \<and> sl_pre l' = (sl_pre l0)(n \<mapsto> q, Tail \<mapsto> n)"
  proof (cases "as = []")
    case True
    then have q: "q = Head" by (simp add: q_def)
    obtain l1 where 1: "set_next Head n l0 = Some l1" using set_next_Some [of l0 Head n] dom by auto
    note s1 = set_next_simps [OF 1]
    obtain l2 where 2: "set_pre Tail n l1 = Some l2" using set_pre_Some [of l1 Tail n] dom s1(4) by blast
    note s2 = set_pre_simps [OF 2]
    obtain l3 where 3: "set_next n Tail l2 = Some l3"
      using set_next_Some [of l2 n Tail] dom s1(4) s2(4) by blast
    note s3 = set_next_simps [OF 3]
    obtain l4 where 4: "set_pre n Head l3 = Some l4"
      using set_pre_Some [of l3 n Head] dom s1(4) s2(4) s3(4) by blast
    note s4 = set_pre_simps [OF 4]
    have "push_back t l = Some (n, l4)"
      using first True 1 2 3 4 by (simp add: push_back_def alloc)
    then show ?thesis
      using s1 s2 s3 s4 n by (intro exI [of _ l4]) (auto simp: q fun_upd_twist)
  next
    case False
    have lk: "linked l Head as" using cells False by (auto simp: sl_cells_def)
    have pt: "sl_pre l0 Tail = Some q" using linked_tail [OF lk] nx [of Tail] n by (simp add: q_def)
    obtain l1 where 1: "set_pre n q l0 = Some l1" using set_pre_Some [of l0 n q] dom by auto
    note s1 = set_pre_simps [OF 1]
    obtain l2 where 2: "set_next n Tail l1 = Some l2" using set_next_Some [of l1 n Tail] dom s1(4) by blast
    note s2 = set_next_simps [OF 2]
    obtain l3 where 3: "set_pre Tail n l2 = Some l3"
      using set_pre_Some [of l2 Tail n] dom s1(4) s2(4) by blast
    note s3 = set_pre_simps [OF 3]
    obtain l4 where 4: "set_next q n l3 = Some l4"
      using set_next_Some [of l3 q n] dom s1(4) s2(4) s3(4) qh by blast
    note s4 = set_next_simps [OF 4]
    have "sl_pre l3 n = Some q" using s1(1) s2(2) s3(1) n by simp
    moreover obtain f where "sl_next l0 Head = Some f" "f \<noteq> Tail" using first False by auto
    ultimately have "push_back t l = Some (n, l4)"
      using 1 2 3 4 pt by (simp add: push_back_def alloc)
    then show ?thesis
      using s1 s2 s3 s4 n by (intro exI [of _ l4]) auto
  qed
  then obtain l' where l': "push_back t l = Some (n, l')" "sl_fresh l' = sl_fresh l0"
    and dom': "\<And>a. sl_heap l' a \<noteq> None \<longleftrightarrow> sl_heap l0 a \<noteq> None"
    and dat': "\<And>c. (sl_heap l' c \<bind> nd_data) = (sl_heap l0 c \<bind> nd_data)"
    and nx': "sl_next l' = (sl_next l0)(n \<mapsto> Tail, q \<mapsto> n)" "sl_pre l' = (sl_pre l0)(n \<mapsto> q, Tail \<mapsto> n)"
    by blast
  have "linked l' Head (as @ [n])"
  proof (cases "as = []")
    case True
    then show ?thesis using nx' n by (auto simp: q_def)
  next
    case False
    then have "linked l Head as" using cells by (auto simp: sl_cells_def)
    moreover have "sl_next l' = (sl_next l)(n \<mapsto> Tail, last (Head # as) \<mapsto> n)"
      "sl_pre l' = (sl_pre l)(n \<mapsto> last (Head # as), Tail \<mapsto> n)"
      using nx' nx by (auto simp: fun_eq_iff q_def)
    ultimately show ?thesis using cells H n by (intro linked_push) (auto simp: sl_cells_def)
  qed
  moreover have "map (\<lambda>a. sl_heap l' a \<bind> nd_data) as = map Some xs"
  proof -
    have "map (\<lambda>a. sl_heap l' a \<bind> nd_data) as = sl_items l as"
      using dat dat' n(1) by (auto simp: sl_items_def intro!: map_cong)
    with items show ?thesis by simp
  qed
  moreover have "(sl_heap l' n \<bind> nd_data) = Some t" using dat dat' by simp
  ultimately have "sl_holds l' (as @ [n]) (xs @ [t])"
    using cells n dom dom' l'(2) l0(2)
    by (auto simp: sl_holds_def sl_cells_def sl_items_def n_def less_Suc_eq)
  then show ?thesis using l' l0(2) by (simp add: n_def)
qed

lemma remove_node_ok:
  assumes h: "sl_holds l (as @ n # bs) (xs @ x # ys)" and len: "length as = length xs"
  shows "\<exists>l'. remove_node n l = Some l' \<and> sl_holds l' (as @ bs) (xs @ ys) \<and>
           sl_fresh l' = sl_fresh l \<and> sl_heap l' n = None \<and> sl_next l n = Some (hd (bs @ [Tail]))"
proof -
  let ?as = "as @ n # bs"
  have cells: "sl_cells l ?as" and items: "sl_items l ?as = map Some (xs @ x # ys)"
    using h by (simp_all add: sl_holds_def)
  have H: "Head \<notin> set ?as" "Tail \<notin> set ?as" "distinct ?as" and lk: "linked l Head ?as"
    using cells by (auto simp: sl_cells_def)
  have dom: "\<And>a. sl_heap l a \<noteq> None \<longleftrightarrow> a \<in> {Head, Tail} \<union> set ?as" using cells by (auto simp: sl_cells_def)
  define nx where "nx = hd (bs @ [Tail])"
  define q where "q = last (Head # as)"
  have ends: "sl_next l n = Some nx" "sl_pre l n = Some q"
    using linked_ends [OF lk] by (simp_all add: nx_def q_def)
  have nxd: "nx = Tail \<or> nx \<in> set bs" "q = Head \<or> q \<in> set as" by (cases bs; simp add: nx_def) (simp add: q_def)
  then have nn: "nx \<noteq> n" "q \<noteq> n" "n \<noteq> Head" "n \<noteq> Tail" using H by auto
  obtain l1 where 1: "set_pre nx q l = Some l1" using set_pre_Some [of l nx q] dom nxd by auto
  note s1 = set_pre_simps [OF 1]
  obtain l2 where 2: "set_next q nx l1 = Some l2"
    using set_next_Some [of l1 q nx] dom nxd s1(4) by auto
  note s2 = set_next_simps [OF 2]
  define l3 where "l3 = l2\<lparr>sl_heap := (sl_heap l2)(n := None)\<rparr>"
  have "sl_heap l2 n \<noteq> None" using dom s1(4) s2(4) by auto
  then have "sl_delete n l2 = Some l3" by (auto simp: sl_delete_def l3_def)
  moreover have "sl_pre l1 n = Some q" "sl_next l1 n = Some nx" using s1 ends nn by simp_all
  ultimately have rem: "remove_node n l = Some l3"
    using 1 2 ends nn by (simp add: remove_node_def)
  have p3: "sl_next l3 c = sl_next l2 c" "sl_pre l3 c = sl_pre l2 c"
      "(sl_heap l3 c \<bind> nd_data) = (sl_heap l c \<bind> nd_data)" if "c \<noteq> n" for c
    using that s1(5) s2(5) by (simp_all add: l3_def sl_next_def sl_pre_def)
  have "linked l3 Head (as @ bs)"
    by (rule linked_remove [OF lk]) (use H p3 s1 s2 in \<open>auto simp: nx_def q_def\<close>)
  moreover have "sl_items l3 (as @ bs) = map Some (xs @ ys)"
  proof -
    have "sl_items l3 (as @ bs) = sl_items l (as @ bs)"
      using H(3) by (auto simp: sl_items_def intro!: p3(3))
    moreover have "sl_items l as = map Some xs" "sl_items l bs = map Some ys"
      using items len by (auto simp: sl_items_def append_eq_append_conv)
    moreover have "sl_items l (as @ bs) = sl_items l as @ sl_items l bs" by (simp add: sl_items_def)
    ultimately show ?thesis by simp
  qed
  moreover have "\<And>a. sl_heap l3 a \<noteq> None \<longleftrightarrow> a \<in> {Head, Tail} \<union> set (as @ bs)"
    using dom s1(4) s2(4) nn H(3) by (auto simp: l3_def)
  moreover have "sl_fresh l3 = sl_fresh l" using s1(3) s2(3) by (simp add: l3_def)
  ultimately have "sl_holds l3 (as @ bs) (xs @ ys)"
    using cells H(3) by (auto simp: sl_holds_def sl_cells_def)
  then show ?thesis using rem \<open>sl_fresh l3 = sl_fresh l\<close> ends by (auto simp: l3_def nx_def)
qed

text \<open>
  A traversal visits the items in order, if the action leaves the list alone.  The destructor, whose
  action unlinks and frees the node it is called on, leaves only the sentinels.
\<close>

lemma each_node_visits:
  assumes "linked l a as" and "Tail \<notin> set (a # as)"
    and act: "\<And>b s. b \<in> set (a # as) \<Longrightarrow> action b l s = Some (l, f b s)"
  shows "each_node action a l s = Some (l, fold f (a # as) s)"
  using assms
proof (induction as arbitrary: a s)
  case Nil
  then show ?case
    by (subst each_node.simps, simp) (subst each_node.simps, simp)
next
  case (Cons b as)
  have "each_node action b l (f a s) = Some (l, fold f (b # as) (f a s))"
    using Cons by (intro Cons.IH) auto
  then show ?case using Cons.prems by (subst each_node.simps) auto
qed

lemma HandleEveryNode_visits:
  assumes h: "sl_holds l as xs" and act: "\<And>b s. b \<in> set as \<Longrightarrow> action b l s = Some (l, f b s)"
  shows "HandleEveryNode action l s = Some (l, fold f as s)"
proof (cases as)
  case Nil
  then have "sl_next l Head = None \<or> sl_next l Head = Some Tail"
    using h by (auto simp: sl_holds_def sl_cells_def split: if_splits)
  with Nil show ?thesis by (auto simp: HandleEveryNode_def)
next
  case (Cons a bs)
  have T: "Tail \<notin> set as" and lk: "linked l Head as"
    using h Cons by (auto simp: sl_holds_def sl_cells_def)
  then have "each_node action a l s = Some (l, fold f (a # bs) s)"
    using Cons act by (intro each_node_visits) auto
  with Cons T lk show ?thesis by (auto simp: HandleEveryNode_def)
qed

lemma sl_del_action_eq:
  "node \<noteq> Head \<Longrightarrow> node \<noteq> Tail \<Longrightarrow>
     sl_del_action node l s = map_option (\<lambda>l. (l, ())) (remove_node node l)"
  by (auto simp: sl_del_action_def remove_node_def map_option_bind comp_def split: bind_splits)

lemma each_node_deletes:
  "sl_holds l (a # as) xs \<Longrightarrow> \<exists>l'. each_node sl_del_action a l () = Some (l', ()) \<and> sl_holds l' [] []"
proof (induction as arbitrary: a l xs)
  case Nil
  then obtain x where xs: "xs = [x]" by (auto simp: sl_holds_def sl_items_def)
  from remove_node_ok [of l "[]" a "[]" "[]" x "[]"] Nil xs obtain l' where
    l': "remove_node a l = Some l'" "sl_holds l' [] []" "sl_next l a = Some Tail" by auto
  have "a \<noteq> Head" "a \<noteq> Tail" using Nil by (auto simp: sl_holds_def sl_cells_def)
  then show ?case
    using l' by (subst each_node.simps, simp add: sl_del_action_eq) (subst each_node.simps, simp)
next
  case (Cons b as)
  then obtain x ys where xs: "xs = x # ys" by (cases xs) (auto simp: sl_holds_def sl_items_def)
  from remove_node_ok [of l "[]" a "b # as" "[]" x ys] Cons.prems xs obtain l' where
    l': "remove_node a l = Some l'" "sl_holds l' (b # as) ys" "sl_next l a = Some b" by auto
  have "a \<noteq> Head" "a \<noteq> Tail" using Cons.prems by (auto simp: sl_holds_def sl_cells_def)
  then show ?case
    using l' Cons.IH [OF l'(2)] by (subst each_node.simps) (auto simp: sl_del_action_eq)
qed

lemma SimpleList_delete_ok:
  assumes "sl_holds l as xs"
  shows "\<exists>l'. SimpleList_delete l = Some l' \<and> (\<forall>a. sl_heap l' a \<noteq> None \<longleftrightarrow> a = Head \<or> a = Tail)"
proof (cases as)
  case Nil
  then have "sl_next l Head = None \<or> sl_next l Head = Some Tail"
    using assms by (auto simp: sl_holds_def sl_cells_def split: if_splits)
  with Nil assms show ?thesis
    by (auto simp: SimpleList_delete_def HandleEveryNode_def sl_holds_def sl_cells_def)
next
  case (Cons a bs)
  from each_node_deletes [of l a bs xs] assms Cons obtain l' where
    "each_node sl_del_action a l () = Some (l', ())" "sl_holds l' [] []" by auto
  moreover have "sl_next l Head = Some a" "a \<noteq> Tail"
    using assms Cons by (auto simp: sl_holds_def sl_cells_def)
  ultimately show ?thesis
    by (auto simp: SimpleList_delete_def HandleEveryNode_def sl_holds_def sl_cells_def)
qed

section \<open>Channel\<close>

text \<open>
  \<open>GenerateNewId\<close> increments the counter under the lock and reads it again after the unlock.  A
  thread is before the increment, between increment and read, or done with the id it returned.
\<close>

record channel =
  ch_max_id :: u32

definition Channel_new :: channel where
  "Channel_new = \<lparr>ch_max_id = 0\<rparr>"

definition Channel_max_id :: "channel \<Rightarrow> u32" where
  "Channel_max_id c = ch_max_id c"

definition Channel_ChannelNum :: "channel \<Rightarrow> u32" where
  "Channel_ChannelNum c = ch_max_id c + 1"

text \<open>Called by one thread only.\<close>

definition GenerateNewId :: "channel \<Rightarrow> u32 \<times> channel" where
  "GenerateNewId c = (let c = c\<lparr>ch_max_id := ch_max_id c + 1\<rparr> in (ch_max_id c, c))"

datatype ch_pc = Calling | Unlocked | Returned u32

inductive ch_step :: "channel \<times> (nat \<Rightarrow> ch_pc) \<Rightarrow> channel \<times> (nat \<Rightarrow> ch_pc) \<Rightarrow> bool" where
  increment: "pc t = Calling \<Longrightarrow>
    ch_step (c, pc) (c\<lparr>ch_max_id := ch_max_id c + 1\<rparr>, pc(t := Unlocked))"
| read_back: "pc t = Unlocked \<Longrightarrow> ch_step (c, pc) (c, pc(t := Returned (ch_max_id c)))"

inductive_cases ch_stepE: "ch_step s s'"

inductive ch_run :: "channel \<times> (nat \<Rightarrow> ch_pc) \<Rightarrow> channel \<times> (nat \<Rightarrow> ch_pc) \<Rightarrow> bool" where
  ch_refl: "ch_run s s"
| ch_trans: "ch_run s s' \<Longrightarrow> ch_step s' s'' \<Longrightarrow> ch_run s s''"

text \<open>\<open>n\<close> calls by one thread return \<open>n\<close> different ids.\<close>

fun generate_ids :: "nat \<Rightarrow> channel \<Rightarrow> u32 list \<times> channel" where
  "generate_ids 0 c = ([], c)"
| "generate_ids (Suc n) c =
     (let (i, c) = GenerateNewId c; (is, c) = generate_ids n c in (i # is, c))"

lemma generate_ids_eq:
  "generate_ids n c =
     (map (\<lambda>i. ch_max_id c + of_nat (Suc i)) [0..<n], c\<lparr>ch_max_id := ch_max_id c + of_nat n\<rparr>)"
proof (induction n arbitrary: c)
  case (Suc n)
  have "[0..<Suc n] = 0 # map Suc [0..<n]" by (simp add: upt_conv_Cons map_Suc_upt del: upt_Suc)
  with Suc show ?case by (simp add: GenerateNewId_def Let_def comp_def algebra_simps del: upt_Suc)
qed simp

lemma generate_ids_distinct:
  assumes "n < 2 ^ 32"
  shows "distinct (fst (generate_ids n c))"
proof -
  have "inj_on (\<lambda>i. ch_max_id c + of_nat (Suc i)) {0..<n}"
  proof (rule inj_onI)
    fix i j
    assume "i \<in> {0..<n}" "j \<in> {0..<n}" "ch_max_id c + of_nat (Suc i) = ch_max_id c + of_nat (Suc j)"
    then have "(of_nat (Suc i) :: u32) = of_nat (Suc j)" and "i < n" "j < n" by auto
    moreover from this(2,3) assms have "Suc i < 2 ^ 32" "Suc j < 2 ^ 32" by linarith+
    ultimately show "i = j" using unat_of_nat_u32 by (metis nat.inject)
  qed
  then show ?thesis by (simp add: generate_ids_eq distinct_map)
qed

text \<open>Two threads that both increment before either reads get the same id.\<close>

lemma ch_race:
  "\<exists>c pc. ch_run (Channel_new, \<lambda>_. Calling) (c, pc) \<and> pc 0 = Returned 2 \<and> pc 1 = Returned 2"
proof -
  let ?c1 = "Channel_new\<lparr>ch_max_id := 1\<rparr>" and ?c2 = "Channel_new\<lparr>ch_max_id := 2\<rparr>"
  let ?p0 = "\<lambda>_ :: nat. Calling"
  let ?p1 = "?p0(0 := Unlocked)" and ?p2 = "?p0(0 := Unlocked, 1 := Unlocked)"
  let ?p3 = "?p2(0 := Returned 2)" and ?p4 = "?p2(0 := Returned 2, 1 := Returned 2)"
  have "ch_step (Channel_new, ?p0) (?c1, ?p1)"
    using increment [of ?p0 0 Channel_new] by (simp add: Channel_new_def)
  moreover have "ch_step (?c1, ?p1) (?c2, ?p2)"
    using increment [of ?p1 1 ?c1] by (simp add: Channel_new_def)
  moreover have "ch_step (?c2, ?p2) (?c2, ?p3)" using read_back [of ?p2 0 ?c2] by simp
  moreover have "ch_step (?c2, ?p3) (?c2, ?p4)" using read_back [of ?p3 1 ?c2] by simp
  ultimately have "ch_run (Channel_new, ?p0) (?c2, ?p4)" by (meson ch_refl ch_trans)
  then show ?thesis by (intro exI [of _ ?c2] exI [of _ ?p4]) simp
qed

end
