(* ===== verification/TaskQueue.thy ===== *)
theory TaskQueue
  imports Prelude
begin

text \<open>
  The two task queues.  \<open>single_fs/depends/net/task_queue.h\<close> is a bounded queue shared between
  threads: the body of each critical section is a function, the retry loop of the timed \<open>Pop\<close> runs
  against an environment that changes the queue between its turns, and a step relation interleaves
  the critical sections of any number of producers and consumers.
  \<open>http_server.1.0.0/src/task_queue.cpp\<close> keeps a size of its own beside a \<open>std::queue\<close>.
\<close>

section \<open>The bounded queue\<close>

record 'a task_queue =
  tq_data :: "'a list"
  tq_limit :: u32

definition TaskQueue_new :: "u32 \<Rightarrow> 'a task_queue" where
  "TaskQueue_new limit = \<lparr>tq_data = [], tq_limit = limit\<rparr>"

definition TaskQueue_default :: "'a task_queue" where
  "TaskQueue_default = TaskQueue_new 10"

definition TaskQueue_Empty :: "'a task_queue \<Rightarrow> bool" where
  "TaskQueue_Empty q \<longleftrightarrow> length (tq_data q) = 0"

text \<open>The size of a queue is the number of its nodes.\<close>

instantiation task_queue_ext :: (type, type) size
begin

definition size_task_queue_ext :: "('a, 'b) task_queue_ext \<Rightarrow> nat" where
  "size_task_queue_ext q = length (tq_data q)"

instance ..

end

text \<open>What \<open>Push\<close> and \<open>Pop\<close> do while they hold the lock.\<close>

definition try_push :: "'a \<Rightarrow> 'a task_queue \<Rightarrow> bool \<times> 'a task_queue" where
  "try_push node q =
     (if length (tq_data q) < unat (tq_limit q) then (True, q\<lparr>tq_data := tq_data q @ [node]\<rparr>)
      else (False, q))"

definition try_pop :: "'a task_queue \<Rightarrow> 'a option \<times> 'a task_queue" where
  "try_pop q =
     (if \<not> TaskQueue_Empty q then (Some (hd (tq_data q)), q\<lparr>tq_data := tl (tq_data q)\<rparr>)
      else (None, q))"

text \<open>
  \<open>Pop(timeout)\<close>: before turn \<open>i\<close> the other threads change the queue by \<open>env i\<close>.  The result \<open>None\<close>
  is the null pointer \<open>(T)0\<close>.
\<close>

function TaskQueue_Pop_timeout ::
  "int \<Rightarrow> int \<Rightarrow> (nat \<Rightarrow> 'a task_queue \<Rightarrow> 'a task_queue) \<Rightarrow> nat \<Rightarrow> 'a task_queue \<Rightarrow>
   'a option \<times> 'a task_queue" where
  "TaskQueue_Pop_timeout timeout time_cost env i q =
     (let (r, q) = try_pop (env i q)
      in if r \<noteq> None then (r, q)
         else if timeout \<le> time_cost + 10 then (None, q)
         else TaskQueue_Pop_timeout timeout (time_cost + 10) env (i + 1) q)"
  by pat_completeness auto
termination
  by (relation "measure (\<lambda>(timeout, time_cost, _). nat (timeout - time_cost))") auto

declare TaskQueue_Pop_timeout.simps [simp del]

text \<open>\<open>Pop()\<close> and \<open>Push\<close> try again until they succeed: with no change by others they may not return.\<close>

partial_function (option) TaskQueue_Pop ::
  "(nat \<Rightarrow> 'a task_queue \<Rightarrow> 'a task_queue) \<Rightarrow> nat \<Rightarrow> 'a task_queue \<Rightarrow> ('a \<times> 'a task_queue) option" where
  "TaskQueue_Pop env i q =
     (case try_pop (env i q) of
        (Some x, q) \<Rightarrow> Some (x, q)
      | (None, q) \<Rightarrow> TaskQueue_Pop env (i + 1) q)"

partial_function (option) TaskQueue_Push ::
  "(nat \<Rightarrow> 'a task_queue \<Rightarrow> 'a task_queue) \<Rightarrow> nat \<Rightarrow> 'a \<Rightarrow> 'a task_queue \<Rightarrow> 'a task_queue option" where
  "TaskQueue_Push env i node q =
     (let r = try_push node (env i q)
      in if fst r then Some (snd r) else TaskQueue_Push env (i + 1) node (snd r))"

lemma try_pop_Cons: "tq_data q = x # xs \<Longrightarrow> try_pop q = (Some x, q\<lparr>tq_data := xs\<rparr>)"
  by (simp add: try_pop_def TaskQueue_Empty_def)

lemma try_pop_Nil: "tq_data q = [] \<Longrightarrow> try_pop q = (None, q)"
  by (simp add: try_pop_def TaskQueue_Empty_def)

lemma size_new [simp]: "size (TaskQueue_new limit) = 0"
  by (simp add: size_task_queue_ext_def TaskQueue_new_def)

lemma Empty_size: "TaskQueue_Empty q \<longleftrightarrow> size q = 0"
  by (simp add: TaskQueue_Empty_def size_task_queue_ext_def)

lemma size_push: "try_push x q = (True, q') \<Longrightarrow> size q' = Suc (size q)"
  by (auto simp: try_push_def size_task_queue_ext_def split: if_splits)

lemma size_pop: "try_pop q = (Some x, q') \<Longrightarrow> size q = Suc (size q')"
  by (cases "tq_data q") (auto simp: try_pop_def TaskQueue_Empty_def size_task_queue_ext_def)

lemma try_pop_cases:
  obtains x xs where "tq_data q = x # xs" "try_pop q = (Some x, q\<lparr>tq_data := xs\<rparr>)"
  | "tq_data q = []" "try_pop q = (None, q)"
  by (cases "tq_data q") (auto simp: try_pop_Cons try_pop_Nil)

text \<open>A timed \<open>Pop\<close> returns null only after it has found the queue empty at every turn.\<close>

lemma Pop_timeout_null:
  assumes "TaskQueue_Pop_timeout timeout c env i q = (None, q')"
  shows "tq_data q' = [] \<and> tq_data (env i q) = []"
  using assms
proof (induction timeout c env i q rule: TaskQueue_Pop_timeout.induct)
  case (1 timeout c env i q)
  show ?case
  proof (cases rule: try_pop_cases [of "env i q"])
    case (1 x xs)
    with "1.prems" show ?thesis by (simp add: TaskQueue_Pop_timeout.simps [of timeout c])
  next
    case 2
    with "1.prems" "1.IH" [of "(None, env i q)" None "env i q"] show ?thesis
      by (simp add: TaskQueue_Pop_timeout.simps [of timeout c] split: if_splits)
  qed
qed

text \<open>On a queue nobody fills it returns null.\<close>

lemma Pop_timeout_empty:
  "tq_data q = [] \<Longrightarrow> TaskQueue_Pop_timeout timeout c (\<lambda>_ q. q) i q = (None, q)"
proof (induction timeout c "\<lambda>(_ :: nat) (q :: 'a task_queue). q" i q rule: TaskQueue_Pop_timeout.induct)
  case (1 timeout c i q)
  then show ?case by (simp add: TaskQueue_Pop_timeout.simps [of timeout c] try_pop_Nil)
qed

lemma Pop_timeout_full:
  "tq_data q = x # xs \<Longrightarrow> TaskQueue_Pop_timeout timeout c (\<lambda>_ q. q) i q = (Some x, q\<lparr>tq_data := xs\<rparr>)"
  by (simp add: TaskQueue_Pop_timeout.simps try_pop_Cons)

section \<open>Producers and consumers\<close>

text \<open>\<open>ts_pushed\<close> and \<open>ts_popped\<close> are what has gone in and come out so far.\<close>

record 'a tq_system =
  ts_queue :: "'a task_queue"
  ts_pushed :: "'a list"
  ts_popped :: "'a list"

inductive tq_step :: "'a tq_system \<Rightarrow> 'a tq_system \<Rightarrow> bool" where
  pushes: "try_push x (ts_queue s) = (True, q) \<Longrightarrow>
    tq_step s (s\<lparr>ts_queue := q, ts_pushed := ts_pushed s @ [x]\<rparr>)"
| waits_full: "try_push x (ts_queue s) = (False, q) \<Longrightarrow> tq_step s (s\<lparr>ts_queue := q\<rparr>)"
| pops: "try_pop (ts_queue s) = (Some x, q) \<Longrightarrow>
    tq_step s (s\<lparr>ts_queue := q, ts_popped := ts_popped s @ [x]\<rparr>)"
| waits_empty: "try_pop (ts_queue s) = (None, q) \<Longrightarrow> tq_step s (s\<lparr>ts_queue := q\<rparr>)"

inductive_cases tq_stepE: "tq_step s s'"

inductive tq_reach :: "u32 \<Rightarrow> 'a tq_system \<Rightarrow> bool" for limit where
  tq_start: "tq_reach limit \<lparr>ts_queue = TaskQueue_new limit, ts_pushed = [], ts_popped = []\<rparr>"
| tq_next: "tq_reach limit s \<Longrightarrow> tq_step s s' \<Longrightarrow> tq_reach limit s'"

definition tq_inv :: "u32 \<Rightarrow> 'a tq_system \<Rightarrow> bool" where
  "tq_inv limit s \<longleftrightarrow>
     ts_pushed s = ts_popped s @ tq_data (ts_queue s) \<and>
     length (tq_data (ts_queue s)) \<le> unat limit \<and> tq_limit (ts_queue s) = limit"

lemma tq_step_inv:
  assumes "tq_step s s'" and "tq_inv limit s"
  shows "tq_inv limit s'"
  using assms
proof (cases rule: tq_step.cases)
  case (pops x q)
  with assms(2) show ?thesis by (cases rule: try_pop_cases [of "ts_queue s"]) (auto simp: tq_inv_def)
next
  case (waits_empty q)
  with assms(2) show ?thesis by (cases rule: try_pop_cases [of "ts_queue s"]) (auto simp: tq_inv_def)
qed (auto simp: tq_inv_def try_push_def split: if_splits)

lemma tq_reach_inv: "tq_reach limit s \<Longrightarrow> tq_inv limit s"
proof (induction rule: tq_reach.induct)
  case tq_start
  then show ?case by (simp add: tq_inv_def TaskQueue_new_def)
next
  case (tq_next s s')
  then show ?case by (blast intro: tq_step_inv)
qed

section \<open>The queue of the first http server\<close>

datatype io_type = In | Out | Other

record 'd task_node =
  tn_data :: "'d option"
  tn_length :: int
  tn_fd :: int
  tn_type :: io_type

record 'd http_queue =
  hq_queue :: "'d task_node list"
  hq_size :: int

definition HttpQueue_new :: "'d http_queue" where
  "HttpQueue_new = \<lparr>hq_queue = [], hq_size = 0\<rparr>"

text \<open>
  The decrement stands after the \<open>return\<close> and is never reached.  \<open>front\<close> and \<open>pop\<close> of an empty
  \<open>std::queue\<close> are faults.
\<close>

definition HttpQueue_Pop_front :: "'d http_queue \<Rightarrow> ('d task_node option \<times> 'd http_queue) option" where
  "HttpQueue_Pop_front q =
     (if 0 < hq_size q
      then (case hq_queue q of
          [] \<Rightarrow> None
        | node # rest \<Rightarrow> Some (Some node, q\<lparr>hq_queue := rest\<rparr>))
      else Some (None, q))"

definition HttpQueue_Push_back :: "'d task_node \<Rightarrow> 'd http_queue \<Rightarrow> 'd http_queue" where
  "HttpQueue_Push_back node q = q\<lparr>hq_queue := hq_queue q @ [node], hq_size := hq_size q + 1\<rparr>"

definition HttpQueue_size :: "'d http_queue \<Rightarrow> int" where
  "HttpQueue_size q = hq_size q"

text \<open>As many pops as pushes work, in order; one more is a fault instead of \<open>false\<close>.\<close>

fun http_pops :: "nat \<Rightarrow> 'd http_queue \<Rightarrow> ('d task_node option list \<times> 'd http_queue) option" where
  "http_pops 0 q = Some ([], q)"
| "http_pops (Suc n) q = do {
     (x, q) \<leftarrow> HttpQueue_Pop_front q;
     (xs, q) \<leftarrow> http_pops n q;
     Some (x # xs, q)
   }"

lemma http_pushes:
  "fold HttpQueue_Push_back ns q =
     q\<lparr>hq_queue := hq_queue q @ ns, hq_size := hq_size q + int (length ns)\<rparr>"
  by (induction ns arbitrary: q) (simp_all add: HttpQueue_Push_back_def)

lemma http_pops_ok:
  "0 < hq_size q \<Longrightarrow> hq_queue q = ns @ rest \<Longrightarrow>
     http_pops (length ns) q = Some (map Some ns, q\<lparr>hq_queue := rest\<rparr>)"
  by (induction ns arbitrary: q) (simp_all add: HttpQueue_Pop_front_def)

lemma http_pop_drained:
  "0 < hq_size q \<Longrightarrow> hq_queue q = [] \<Longrightarrow> HttpQueue_Pop_front q = None"
  by (simp add: HttpQueue_Pop_front_def)

end
