(* ===== verification/StreamSocket.thy ===== *)
theory StreamSocket
  imports NetData TaskQueue
begin

text \<open>
  \<open>StreamSocketContext\<close> in its two versions, \<open>depends/net\<close> (version 0) and \<open>depends/net.v1\<close>
  (version 1): the bytes a packet becomes on the wire, the send loop, and the code that cuts the
  incoming bytes into packets.

  The kernel's side of a socket is an argument: for \<open>send\<close> a list of how much each call accepts, for
  \<open>recv\<close> the pieces in which the bytes arrive.  The locale \<open>framing\<close> is the contract between the two
  ends: frames that can be parsed back and that no proper prefix of a frame looks complete.
\<close>

section \<open>Framing\<close>

locale framing =
  fixes enc :: "'p \<Rightarrow> byte list"
    and ok :: "'p \<Rightarrow> bool"
    and parse :: "byte list \<Rightarrow> ('p \<times> byte list) option"
  assumes parse_enc: "ok p \<Longrightarrow> parse (enc p @ r) = Some (p, r)"
    and parse_short: "ok p \<Longrightarrow> enc p = s @ t \<Longrightarrow> t \<noteq> [] \<Longrightarrow> parse s = None"
begin

definition incomplete :: "byte list \<Rightarrow> bool" where
  "incomplete r \<longleftrightarrow> (\<exists>p t. ok p \<and> enc p = r @ t \<and> t \<noteq> [])"

lemma incomplete_parse: "incomplete r \<Longrightarrow> parse r = None"
  unfolding incomplete_def using parse_short by blast

lemma enc_inject: "ok p \<Longrightarrow> ok q \<Longrightarrow> enc p @ r = enc q @ s \<Longrightarrow> p = q \<and> r = s"
  by (metis parse_enc option.inject prod.inject)

text \<open>Every beginning of a stream of frames is some frames and the beginning of another.\<close>

lemma stream_prefix:
  assumes "s @ u = concat (map enc ps) @ r0" and "\<forall>p \<in> set ps. ok p" and "incomplete r0"
  shows "\<exists>qs r. s = concat (map enc qs) @ r \<and> (\<forall>q \<in> set qs. ok q) \<and> incomplete r"
  using assms
proof (induction ps arbitrary: s)
  case Nil
  from Nil(3) obtain p t where "ok p" "enc p = r0 @ t" "t \<noteq> []" by (auto simp: incomplete_def)
  with Nil(1) have "incomplete s" unfolding incomplete_def
    by (intro exI [of _ p] exI [of _ "u @ t"]) auto
  then show ?case by (intro exI [of _ "[]"] exI [of _ s]) simp
next
  case (Cons p ps)
  from Cons.prems(1) have "s @ u = enc p @ (concat (map enc ps) @ r0)" by simp
  then obtain v where "s = enc p @ v \<and> v @ u = concat (map enc ps) @ r0 \<or>
      s @ v = enc p \<and> u = v @ (concat (map enc ps) @ r0)"
    unfolding append_eq_append_conv2 by blast
  then have "s = enc p @ v \<and> v @ u = concat (map enc ps) @ r0 \<or>
      s = enc p @ [] \<and> [] @ u = concat (map enc ps) @ r0 \<or> enc p = s @ v \<and> v \<noteq> []"
    by (cases "v = []") auto
  then obtain v where
    "s = enc p @ v \<and> v @ u = concat (map enc ps) @ r0 \<or> enc p = s @ v \<and> v \<noteq> []" by blast
  then show ?case
  proof
    assume v: "s = enc p @ v \<and> v @ u = concat (map enc ps) @ r0"
    with Cons.IH [of v] Cons.prems(2,3) obtain qs r where
      "v = concat (map enc qs) @ r" "\<forall>q \<in> set qs. ok q" "incomplete r" by auto
    with v Cons.prems(2) show ?thesis by (intro exI [of _ "p # qs"] exI [of _ r]) simp
  next
    assume "enc p = s @ v \<and> v \<noteq> []"
    with Cons.prems(2) have "incomplete s" by (auto simp: incomplete_def)
    then show ?thesis by (intro exI [of _ "[]"] exI [of _ s]) simp
  qed
qed

text \<open>A stream has only one reading.\<close>

lemma unique_reading:
  assumes "concat (map enc ps) @ x = concat (map enc qs) @ r" and "\<forall>p \<in> set ps. ok p"
    and "\<forall>q \<in> set qs. ok q" and "incomplete r"
  shows "\<exists>qs'. qs = ps @ qs' \<and> x = concat (map enc qs') @ r"
  using assms
proof (induction ps arbitrary: qs)
  case Nil
  then show ?case by simp
next
  case (Cons p ps)
  show ?case
  proof (cases qs)
    case Nil
    with Cons.prems have "parse r = Some (p, concat (map enc ps) @ x)"
      using parse_enc [of p "concat (map enc ps) @ x"] by auto
    with incomplete_parse [OF Cons.prems(4)] show ?thesis by simp
  next
    case (Cons q qs1)
    with Cons.prems enc_inject [of p q] have "p = q"
      and "concat (map enc ps) @ x = concat (map enc qs1) @ r" by auto
    with Cons.IH [of qs1] Cons.prems Cons show ?thesis by auto
  qed
qed

end

section \<open>Sending\<close>

text \<open>
  \<open>sched\<close> says what each \<open>send\<close> does: \<open>None\<close> is an error, \<open>Some k\<close> accepts at most \<open>k\<close> bytes; after
  its end everything offered is accepted.  The result are the bytes put on the wire and the rest of
  the schedule.
\<close>

function stream_Send :: "nat option list \<Rightarrow> byte list \<Rightarrow> nat \<Rightarrow> byte list \<times> nat option list" where
  "stream_Send sched dat sent =
     (if length dat \<le> sent then ([], sched)
      else
        let send_buf = (if 4096 < length dat - sent then 4096 else length dat - sent)
        in case sched of
             [] \<Rightarrow> (let (out, sch) = stream_Send [] dat (sent + send_buf)
                    in (take send_buf (drop sent dat) @ out, sch))
           | None # sch \<Rightarrow> stream_Send sch dat sent
           | Some k # sch \<Rightarrow>
               (let ret = min k send_buf; (out, sch) = stream_Send sch dat (sent + ret)
                in (take ret (drop sent dat) @ out, sch)))"
  by pat_completeness auto
termination
  by (relation "measure (\<lambda>(sch, dat, sent). length sch + (length dat - sent))") auto

declare stream_Send.simps [simp del]

lemma stream_Send_all: "sent \<le> length dat \<Longrightarrow> fst (stream_Send sched dat sent) = drop sent dat"
proof (induction sched dat sent rule: stream_Send.induct)
  case (1 sched dat sent)
  let ?b = "if 4096 < length dat - sent then 4096 else length dat - sent"
  have td: "take r (drop sent dat) @ drop (sent + r) dat = drop sent dat" for r
    by (metis add.commute append_take_drop_id drop_drop)
  show ?case
  proof (cases "length dat \<le> sent")
    case True
    then show ?thesis by (simp add: stream_Send.simps)
  next
    case False
    show ?thesis
    proof (cases sched)
      case Nil
      have "fst (stream_Send [] dat (sent + ?b)) = drop (sent + ?b) dat"
        using "1.IH"(1) [OF False refl Nil] False by auto
      then show ?thesis
        using False Nil td [of ?b] by (subst stream_Send.simps) (simp add: split_def Let_def)
    next
      case (Cons a sch)
      show ?thesis
      proof (cases a)
        case None
        then show ?thesis
          using False Cons "1.IH"(2) [OF False refl Cons None] "1.prems"
          by (subst stream_Send.simps) simp
      next
        case (Some k)
        have "fst (stream_Send sch dat (sent + min k ?b)) = drop (sent + min k ?b) dat"
          using "1.IH"(3) [OF False refl Cons Some refl] False by auto
        then show ?thesis
          using False Cons Some td [of "min k ?b"]
          by (subst stream_Send.simps) (simp add: split_def Let_def)
      qed
    qed
  qed
qed

text \<open>Several \<open>Send\<close> calls in a row.\<close>

fun stream_Sends :: "nat option list \<Rightarrow> byte list list \<Rightarrow> byte list \<times> nat option list" where
  "stream_Sends sched [] = ([], sched)"
| "stream_Sends sched (d # ds) =
     (let (out, sched) = stream_Send sched d 0; (outs, sched) = stream_Sends sched ds
      in (out @ outs, sched))"

lemma stream_Sends_all: "fst (stream_Sends sched ds) = concat ds"
proof (induction ds arbitrary: sched)
  case (Cons d ds)
  then show ?case using stream_Send_all [of 0 d sched] by (simp add: split_def Let_def)
qed simp

section \<open>Receiving\<close>

text \<open>
  The bytes arrive in pieces; one \<open>recv\<close> takes at most \<open>n\<close> bytes of the first piece.  An empty piece,
  or the end of the list, is a call that returns nothing.
\<close>

fun sock_recv :: "nat \<Rightarrow> byte list list \<Rightarrow> byte list \<times> byte list list" where
  "sock_recv n [] = ([], [])"
| "sock_recv n (s # ss) = (take n s, if length s \<le> n then ss else drop n s # ss)"

section \<open>Version 0\<close>

text \<open>The frame: code 1, the length of the rest, channel, head with its length, data with its length.\<close>

definition wire0 :: "u32 \<times> byte list \<times> byte list \<Rightarrow> byte list" where
  "wire0 = (\<lambda>(c, h, d). be32 1 @ be32 (of_nat (12 + length h + length d)) @ be32 c @
     be32 (of_nat (length h)) @ h @ be32 (of_nat (length d)) @ d)"

text \<open>
  \<open>HandleOutput\<close> sends what \<open>Pop(1000)\<close> returned; the result is the code, the bytes on the wire and
  the rest of the schedule.  The packet is deleted at the end, which faults if its pointers were
  never set.
\<close>

definition stream0_HandleOutput ::
  "nat option list \<Rightarrow> 'e packet option \<Rightarrow> (int \<times> byte list \<times> nat option list) option" where
  "stream0_HandleOutput sched popped =
     (case popped of
        None \<Rightarrow> Some (- 1, [], sched)
      | Some p \<Rightarrow> do {
          hl \<leftarrow> pt_head_length p;
          dl \<leftarrow> pt_data_length p;
          let whole_length = 4 + 4 + hl + 4 + dl;
          h \<leftarrow> pt_head p;
          head_data \<leftarrow> load h 0 (unat hl);
          d \<leftarrow> pt_data p;
          dat \<leftarrow> load d 0 (unat dl);
          let (out, sched) = stream_Sends sched
            [be32 1, be32 whole_length, be32 (pt_channel p), be32 hl, head_data, be32 dl, dat];
          Packet_delete p;
          Some (0, out, sched)
        })"

text \<open>\<open>Recv\<close> gives up after later than 1000000 microseconds without a byte: the result \<open>None\<close>.\<close>

function stream0_Recv ::
  "nat \<Rightarrow> byte list \<Rightarrow> nat \<Rightarrow> byte list list \<Rightarrow> byte list option \<times> byte list list" where
  "stream0_Recv len got time segs =
     (let (bs, segs) = sock_recv (len - length got) segs
      in if bs = [] then
           (if length got = len then (Some got, segs)
            else if 1000000 < time + 10 then (None, segs)
            else stream0_Recv len got (time + 10) segs)
         else if length (got @ bs) = len then (Some (got @ bs), segs)
         else stream0_Recv len (got @ bs) 0 segs)"
  by pat_completeness auto
termination
proof (relation "measures [\<lambda>(len, got, time, segs). len - length got,
    \<lambda>(len, got, time, segs). 1000010 - time]", goal_cases)
  case (3 len got time segs x bs segs')
  then show ?case
    by (cases segs) (auto simp: min_def neq_Nil_conv split: if_splits)
qed auto

declare stream0_Recv.simps [simp del]

text \<open>
  \<open>ParseHeader\<close>: code and total length.  A first \<open>recv\<close> of one to three bytes leaves the rest of the
  word indeterminate, a fault.
\<close>

definition stream0_ParseHeader :: "byte list list \<Rightarrow> (int \<times> u32 \<times> byte list list) option" where
  "stream0_ParseHeader segs = do {
     let (bs, segs) = sock_recv 4 segs;
     if bs = [] then Some (- 1, 0, segs)
     else do {
       require (length bs = 4);
       if rd32 bs \<noteq> 1 then Some (- 2, 0, segs)
       else (case stream0_Recv 4 [] 0 segs of
           (None, segs) \<Rightarrow> Some (- 3, 0, segs)
         | (Some len, segs) \<Rightarrow> Some (0, rd32 len, segs))
     }
   }"

record stream0 =
  s0_buf :: "byte list"
  s0_buf_length :: int
  s0_need_ack :: bool
  s0_replied :: bool

definition stream0_new :: "byte list \<Rightarrow> stream0" where
  "stream0_new mem = \<lparr>s0_buf = mem, s0_buf_length = 111, s0_need_ack = False, s0_replied = False\<rparr>"

text \<open>\<open>fresh n\<close> is the content of a new allocation of \<open>n\<close> bytes.\<close>

definition ReallocBuffer :: "(nat \<Rightarrow> byte list) \<Rightarrow> int \<Rightarrow> int \<Rightarrow> stream0 \<Rightarrow> stream0 option" where
  "ReallocBuffer fresh new_length cp_length s = do {
     require (0 \<le> new_length \<and> 0 \<le> cp_length);
     bs \<leftarrow> load (s0_buf s) 0 (nat cp_length);
     buf \<leftarrow> store (fresh (nat new_length)) 0 bs;
     Some (s\<lparr>s0_buf := buf, s0_buf_length := new_length\<rparr>)
   }"

definition AdjustBuffer :: "(nat \<Rightarrow> byte list) \<Rightarrow> int \<Rightarrow> stream0 \<Rightarrow> stream0 option" where
  "AdjustBuffer fresh received_length s =
     (if s0_buf_length s div 2 \<le> received_length \<and> s0_buf_length s < 1024 * 1024 * 10
      then ReallocBuffer fresh (2 * s0_buf_length s) received_length s
      else if received_length < s0_buf_length s div 3 \<and> 111 < s0_buf_length s
      then ReallocBuffer fresh (s0_buf_length s div 2) received_length s
      else Some s)"

text \<open>
  The loop that fills the buffer ends only when a \<open>recv\<close> finds nothing and exactly \<open>total\<close> bytes
  have come; in any other case it goes on for ever.
\<close>

partial_function (option) stream0_fill ::
  "nat \<Rightarrow> nat \<Rightarrow> byte list \<Rightarrow> byte list list \<Rightarrow> (byte list \<times> byte list list) option" where
  "stream0_fill total_len received buf segs =
     (let (bs, segs) = sock_recv (length buf - received) segs
      in if bs = [] then
           (if received = total_len then Some (buf, segs) else stream0_fill total_len received buf segs)
         else do {
           buf \<leftarrow> store buf received bs;
           stream0_fill total_len (received + length bs) buf segs
         })"

text \<open>
  \<open>HandleInput\<close>, in the order of the code: the header, the size of the buffer, the loop, and taking
  the buffer apart.  \<open>max_id\<close> is the current channel id; the channel id of the frame is read and
  dropped.  With \<open>need_ack_\<close> the packet is also given to the waiting caller.
\<close>

definition stream0_fit :: "(nat \<Rightarrow> byte list) \<Rightarrow> u32 \<Rightarrow> stream0 \<Rightarrow> stream0 option" where
  "stream0_fit fresh total_len s =
     (let cap = s0_buf_length s
      in if cap < int (unat total_len) then ReallocBuffer fresh (sint (total_len + 10)) 0 s
         else if int (unat total_len) < cap div 3 \<and> 111 < unat total_len
         then ReallocBuffer fresh (cap div 2) 0 s
         else Some s)"

definition stream0_unpack ::
  "(nat \<Rightarrow> byte list) \<Rightarrow> u32 \<Rightarrow> 'e \<Rightarrow> byte list \<Rightarrow> 'e packet option" where
  "stream0_unpack fresh max_id ep buf = do {
     c4 \<leftarrow> load buf 0 4;
     h4 \<leftarrow> load buf 4 4;
     let head_length = unat (rd32 h4);
     head_data \<leftarrow> load buf 8 head_length;
     d4 \<leftarrow> load buf (8 + head_length) 4;
     let data_length = rd32 d4;
     bs \<leftarrow> load buf (12 + head_length) (unat data_length);
     dat \<leftarrow> store (fresh (unat (data_length + 5))) 0 bs;
     let packet = Packet_set_packet dat data_length
           (Packet_set_head head_data (rd32 h4) (Packet_new max_id));
     Some (packet\<lparr>pt_end_point := Some ep\<rparr>)
   }"

definition stream0_HandleInput ::
  "(nat \<Rightarrow> byte list) \<Rightarrow> u32 \<Rightarrow> 'e \<Rightarrow> byte list list \<Rightarrow> stream0 \<Rightarrow>
   (int \<times> 'e packet option \<times> byte list list \<times> stream0) option" where
  "stream0_HandleInput fresh max_id ep segs s = do {
     (ret, total_len, segs) \<leftarrow> stream0_ParseHeader segs;
     if ret < 0 then Some (ret, None, segs, s)
     else do {
       s \<leftarrow> stream0_fit fresh total_len s;
       (buf, segs) \<leftarrow> stream0_fill (unat total_len) 0 (s0_buf s) segs;
       packet \<leftarrow> stream0_unpack fresh max_id ep buf;
       Some (0, Some packet, segs,
             s\<lparr>s0_buf := buf, s0_replied := s0_replied s \<or> s0_need_ack s\<rparr>)
     }
   }"

lemma stream0_HandleOutput_wire:
  assumes "packet_holds h d p"
  shows "\<exists>sch. stream0_HandleOutput sched (Some p) = Some (0, wire0 (pt_channel p, h, d), sch)"
proof -
  from assms obtain hs ds where p: "pt_head p = Some (h @ hs)" "pt_data p = Some (d @ ds)"
      "pt_head_length p = Some (of_nat (length h))" "pt_data_length p = Some (of_nat (length d))"
    and l: "length h < 2 ^ 32" "length d < 2 ^ 32" by (auto simp: packet_holds_def)
  define parts where "parts = [be32 1, be32 (12 + of_nat (length h) + of_nat (length d)),
      be32 (pt_channel p), be32 (of_nat (length h)), h, be32 (of_nat (length d)), d]"
  obtain sch where "stream_Sends sched parts = (concat parts, sch)"
    using stream_Sends_all [of sched parts] by (metis prod.collapse)
  moreover have "concat parts = wire0 (pt_channel p, h, d)" by (simp add: parts_def wire0_def)
  ultimately show ?thesis
    using p l by (simp add: stream0_HandleOutput_def load_def unat_of_nat_u32 Packet_delete_def parts_def)
qed

text \<open>Filling from pieces \<open>ps\<close>, none of them empty, with the gap at \<open>[] # later\<close>.\<close>

lemma sock_recv_pieces:
  assumes "\<forall>s \<in> set ps. s \<noteq> []" and "ps \<noteq> []" and "0 < n"
  shows "\<exists>bs ps'. sock_recv n (ps @ later) = (bs, ps' @ later) \<and> bs \<noteq> [] \<and> length bs \<le> n \<and>
           concat ps = bs @ concat ps' \<and> (\<forall>s \<in> set ps'. s \<noteq> [])"
proof -
  obtain s ss where ps: "ps = s # ss" using assms(2) by (cases ps) auto
  show ?thesis
  proof (cases "length s \<le> n")
    case True
    then show ?thesis using assms ps by (intro exI [of _ s] exI [of _ ss]) simp
  next
    case False
    then show ?thesis
      using assms ps by (intro exI [of _ "take n s"] exI [of _ "drop n s # ss"]) auto
  qed
qed

lemma stream0_Recv_ok:
  assumes "\<forall>s \<in> set ps. s \<noteq> []" and "concat ps = xs @ ys" and "length got + length xs = n" and "xs \<noteq> []"
  shows "\<exists>ps'. stream0_Recv n got time (ps @ later) = (Some (got @ xs), ps' @ later) \<and> concat ps' = ys \<and>
           (\<forall>s \<in> set ps'. s \<noteq> [])"
  using assms
proof (induction "length xs" arbitrary: xs got time ps rule: less_induct)
  case less
  have "ps \<noteq> []" "0 < n - length got" using less.prems by auto
  from sock_recv_pieces [OF less.prems(1) this] obtain bs ps' where
    r: "sock_recv (n - length got) (ps @ later) = (bs, ps' @ later)" "bs \<noteq> []" "length bs \<le> n - length got"
      "concat ps = bs @ concat ps'" "\<forall>s \<in> set ps'. s \<noteq> []" by blast
  have "length bs \<le> length xs" using r(3) less.prems(3) by linarith
  moreover have "xs @ ys = bs @ concat ps'" using r(4) less.prems(2) by simp
  ultimately obtain zs where zs: "xs = bs @ zs" "concat ps' = zs @ ys"
    by (auto simp: append_eq_append_conv2)
  show ?case
  proof (cases "zs = []")
    case True
    then show ?thesis
      using r zs less.prems(3) by (subst stream0_Recv.simps) (simp add: zs)
  next
    case False
    have "length zs < length xs" using zs r(2) by simp
    from less.hyps [OF this r(5) zs(2), of "got @ bs" 0] False zs less.prems(3) obtain ps2 where
      "stream0_Recv n (got @ bs) 0 (ps' @ later) = (Some ((got @ bs) @ zs), ps2 @ later)"
      "concat ps2 = ys" "\<forall>s \<in> set ps2. s \<noteq> []" by auto
    then show ?thesis
      using r False zs less.prems(3) by (subst stream0_Recv.simps) (auto simp: zs)
  qed
qed

lemma stream0_fill_ok:
  assumes "\<forall>s \<in> set ps. s \<noteq> []" and "concat ps = xs" and "r + length xs = n" and "n \<le> length buf"
  shows "stream0_fill n r buf (ps @ [] # later) = Some (take r buf @ xs @ drop n buf, later)"
  using assms
proof (induction "length xs" arbitrary: xs r buf ps rule: less_induct)
  case less
  show ?case
  proof (cases "xs = []")
    case True
    then have "ps = []" using less.prems(1,2) by (cases ps) auto
    then show ?thesis using True less.prems by (subst stream0_fill.simps) simp
  next
    case False
    then have "ps \<noteq> []" "0 < length xs" using less.prems(2) by auto
    moreover from this(2) have "0 < length buf - r" using less.prems(3,4) by linarith
    ultimately have this: "ps \<noteq> []" "0 < length buf - r" by simp_all
    from sock_recv_pieces [OF less.prems(1) this, of "[] # later"] obtain bs ps' where
      r: "sock_recv (length buf - r) (ps @ [] # later) = (bs, ps' @ [] # later)" "bs \<noteq> []"
        "length bs \<le> length buf - r" "concat ps = bs @ concat ps'" "\<forall>s \<in> set ps'. s \<noteq> []" by blast
    have xs: "xs = bs @ concat ps'" using r(4) less.prems(2) by simp
    define buf' where "buf' = take r buf @ bs @ drop (r + length bs) buf"
    have st: "store buf r bs = Some buf'" using r(3) less.prems(3,4) xs by (simp add: store_def buf'_def)
    have "length (concat ps') < length xs" using xs r(2) by simp
    from less.hyps [OF this r(5) refl, of "r + length bs" buf'] less.prems(3,4) xs
    have "stream0_fill n (r + length bs) buf' (ps' @ [] # later) =
        Some (take (r + length bs) buf' @ concat ps' @ drop n buf', later)"
      by (simp add: buf'_def)
    moreover have "take (r + length bs) buf' = take r buf @ bs" "drop n buf' = drop n buf"
      using less.prems(3,4) xs by (simp_all add: buf'_def)
    ultimately show ?thesis
      using r st xs by (subst stream0_fill.simps) simp
  qed
qed

text \<open>The loop can only return with exactly \<open>total_length\<close> bytes.\<close>

lemma stream0_fill_exact:
  assumes "stream0_fill n r buf segs = Some y"
  shows "r \<le> n"
proof (rule stream0_fill.raw_induct [OF _ assms])
  fix fill n r buf segs y
  assume 1: "\<And>n r buf segs y. fill n r buf segs = Some y \<Longrightarrow> r \<le> n"
    "(let (bs, segs) = sock_recv (length buf - r) segs
      in if bs = [] then (if r = n then Some (buf, segs) else fill n r buf segs)
         else do { buf \<leftarrow> store buf r bs; fill n (r + length bs) buf segs }) = Some y"
  obtain bs segs' where s: "sock_recv (length buf - r) segs = (bs, segs')" by fastforce
  show "r \<le> n"
  proof (cases "bs = []")
    case True
    with 1 s show ?thesis by (auto split: if_splits)
  next
    case False
    with 1(2) s obtain buf' where "fill n (r + length bs) buf' segs' = Some y"
      by (auto simp: bind_eq_Some_conv)
    with 1(1) show ?thesis by fastforce
  qed
qed

lemma stream0_fill_overrun:
  assumes "n < r + length s" and "s \<noteq> []" and "r + length s \<le> length buf"
  shows "stream0_fill n r buf (s # segs) = None"
proof -
  have "sock_recv (length buf - r) (s # segs) = (s, segs)" using assms by simp
  moreover have "stream0_fill n (r + length s) buf' segs = None" for buf'
    using stream0_fill_exact [of n "r + length s" buf' segs] assms(1)
    by (cases "stream0_fill n (r + length s) buf' segs") auto
  ultimately show ?thesis
    using assms by (subst stream0_fill.simps) (simp split: bind_splits)
qed

definition ok0 :: "u32 \<times> byte list \<times> byte list \<Rightarrow> bool" where
  "ok0 = (\<lambda>(c, h, d). 22 + length h + length d < 2 ^ 31)"

definition stream0_ok :: "stream0 \<Rightarrow> bool" where
  "stream0_ok s \<longleftrightarrow> 0 \<le> s0_buf_length s \<and> length (s0_buf s) = nat (s0_buf_length s)"

lemma stream0_fit_ok:
  assumes s: "stream0_ok s" and fresh: "\<And>n. length (fresh n) = n"
    and n: "unat w = n" "n + 10 < 2 ^ 31"
  shows "\<exists>s'. stream0_fit fresh w s = Some s' \<and> stream0_ok s' \<and> n \<le> length (s0_buf s')"
proof -
  have "w = of_nat n" using n(1) [symmetric] by simp
  then have "w + 10 = u32_of (int (n + 10))" by (simp add: u32_of_def)
  moreover have "i32_ok (int (n + 10))" using n(2) by (simp add: i32_ok_def)
  ultimately have w: "sint (w + 10) = int (n + 10)" by simp
  have re: "ReallocBuffer fresh (int k) 0 s = Some (s\<lparr>s0_buf := fresh k, s0_buf_length := int k\<rparr>)" for k
    by (simp add: ReallocBuffer_def load_def store_def)
  define cap where "cap = s0_buf_length s"
  consider "cap < int n" | "\<not> cap < int n" "int n < cap div 3" "111 < n"
    | "\<not> cap < int n" "\<not> (int n < cap div 3 \<and> 111 < n)" by blast
  then show ?thesis
  proof cases
    case 1
    then show ?thesis
      using re [of "n + 10"] fresh by (simp add: stream0_fit_def n(1) w cap_def stream0_ok_def)
  next
    case 2
    have "cap div 2 = int (nat (cap div 2))" "n \<le> nat (cap div 2)" using 2 by linarith+
    then show ?thesis
      using 2 re [of "nat (cap div 2)"] fresh
      by (simp add: stream0_fit_def Let_def n(1) cap_def stream0_ok_def)
  next
    case 3
    then show ?thesis
      using s by (auto simp: stream0_fit_def n(1) cap_def stream0_ok_def)
  qed
qed

definition body0 :: "u32 \<times> byte list \<times> byte list \<Rightarrow> byte list" where
  "body0 = (\<lambda>(c, h, d). be32 c @ be32 (of_nat (length h)) @ h @ be32 (of_nat (length d)) @ d)"

text \<open>The packet handed to \<open>OnReceived\<close>: behind the data there are five bytes that nobody wrote.\<close>

definition stream0_packet :: "(nat \<Rightarrow> byte list) \<Rightarrow> u32 \<Rightarrow> 'e \<Rightarrow> byte list \<Rightarrow> byte list \<Rightarrow> 'e packet" where
  "stream0_packet fresh max_id ep h d =
     (Packet_set_packet (d @ drop (length d) (fresh (length d + 5))) (of_nat (length d))
       (Packet_set_head h (of_nat (length h)) (Packet_new max_id)))\<lparr>pt_end_point := Some ep\<rparr>"

lemma stream0_packet_holds:
  assumes "ok0 (c, h, d)"
  shows "packet_holds h d (stream0_packet fresh max_id ep h d) \<and>
    pt_channel (stream0_packet fresh max_id ep h d) = max_id \<and>
    pt_end_point (stream0_packet fresh max_id ep h d) = Some ep"
  using assms
  by (simp add: stream0_packet_def packet_holds_def Packet_set_packet_def Packet_set_head_def Packet_new_def ok0_def)

lemma stream0_unpack_ok:
  assumes fresh: "\<And>n. length (fresh n) = n" and ok: "ok0 (c, h, d)"
  shows "stream0_unpack fresh max_id ep (body0 (c, h, d) @ rest) = Some (stream0_packet fresh max_id ep h d)"
proof -
  let ?buf = "body0 (c, h, d) @ rest"
  have n: "22 + length h + length d < 2 ^ 31" using ok by (simp add: ok0_def)
  have u: "unat (of_nat (length h) :: u32) = length h" "unat (of_nat (length d) :: u32) = length d"
    using n by (simp_all add: unat_of_nat_u32)
  have u5: "unat (of_nat (length d) + 5 :: u32) = length d + 5"
  proof -
    have "(of_nat (length d) + 5 :: u32) = of_nat (length d + 5)" by simp
    also have "unat (\<dots> :: u32) = length d + 5" using n by (intro unat_of_nat_u32) simp
    finally show ?thesis .
  qed
  have l: "load ?buf 0 4 = Some (be32 c)" "load ?buf 4 4 = Some (be32 (of_nat (length h)))"
      "load ?buf 8 (length h) = Some h" "load ?buf (8 + length h) 4 = Some (be32 (of_nat (length d)))"
      "load ?buf (12 + length h) (length d) = Some d"
    by (simp_all add: load_def body0_def)
  have st: "store (fresh (length d + 5)) 0 d = Some (d @ drop (length d) (fresh (length d + 5)))"
    using fresh by (simp add: store_def)
  show ?thesis using l st u u5 n by (simp add: stream0_unpack_def Let_def stream0_packet_def)
qed

lemma wire0_body: "wire0 (c, h, d) = be32 1 @ be32 (of_nat (length (body0 (c, h, d)))) @ body0 (c, h, d)"
  by (simp add: wire0_def body0_def add.assoc)

lemma stream0_ParseHeader_ok:
  assumes ps: "\<forall>x \<in> set (x1 # ps). x \<noteq> []" "concat (x1 # ps) = be32 1 @ be32 w @ ys" "4 \<le> length x1"
  shows "\<exists>ps'. stream0_ParseHeader (x1 # ps @ later) = Some (0, w, ps' @ later) \<and> concat ps' = ys \<and>
           (\<forall>x \<in> set ps'. x \<noteq> [])"
proof -
  have t4: "take 4 x1 = be32 1"
  proof -
    have "take 4 (concat (x1 # ps)) = be32 1" unfolding ps(2) by simp
    with ps(3) show ?thesis by simp
  qed
  define ps1 where "ps1 = (if length x1 \<le> 4 then ps else drop 4 x1 # ps)"
  have r1: "sock_recv 4 (x1 # ps @ later) = (be32 1, ps1 @ later)" using t4 by (simp add: ps1_def)
  have ps1: "\<forall>x \<in> set ps1. x \<noteq> []" "concat ps1 = be32 w @ ys"
  proof -
    show "\<forall>x \<in> set ps1. x \<noteq> []" using ps(1) by (auto simp: ps1_def)
    have "be32 1 @ concat ps1 = concat (x1 # ps)"
      using append_take_drop_id [of 4 x1] t4 ps(3) by (auto simp: ps1_def)
    with ps(2) show "concat ps1 = be32 w @ ys" by simp
  qed
  from stream0_Recv_ok [OF ps1, of "[]" 4 0 later] obtain ps2 where
    "stream0_Recv 4 [] 0 (ps1 @ later) = (Some (be32 w), ps2 @ later)"
    "concat ps2 = ys" "\<forall>x \<in> set ps2. x \<noteq> []" by auto
  with r1 show ?thesis by (auto simp: stream0_ParseHeader_def)
qed

lemma stream0_fit_flags:
  "stream0_fit fresh w s = Some s' \<Longrightarrow> s0_need_ack s' = s0_need_ack s \<and> s0_replied s' = s0_replied s"
  by (auto simp: stream0_fit_def ReallocBuffer_def Let_def bind_eq_Some_conv split: if_splits)

lemma stream0_HandleInput_packet:
  assumes s: "stream0_ok s" and fresh: "\<And>n. length (fresh n) = n" and ok: "ok0 (c, h, d)"
    and ps: "\<forall>x \<in> set (x1 # ps). x \<noteq> []" "concat (x1 # ps) = wire0 (c, h, d)" "4 \<le> length x1"
  shows "\<exists>s'. stream0_HandleInput fresh max_id ep (x1 # ps @ [] # later) s =
             Some (0, Some (stream0_packet fresh max_id ep h d), later, s') \<and>
           stream0_ok s' \<and> s0_replied s' = (s0_replied s \<or> s0_need_ack s)"
proof -
  let ?b = "body0 (c, h, d)"
  define w :: u32 where "w = of_nat (length ?b)"
  have n: "length ?b + 10 < 2 ^ 31" using ok by (simp add: ok0_def body0_def)
  have uw: "unat w = length ?b" using n unfolding w_def by (intro unat_of_nat_u32) simp
  have "concat (x1 # ps) = be32 1 @ be32 w @ ?b" unfolding ps(2) w_def by (rule wire0_body)
  from stream0_ParseHeader_ok [OF ps(1) this ps(3), of "[] # later"] obtain ps2 where
    head: "stream0_ParseHeader (x1 # ps @ [] # later) = Some (0, w, ps2 @ [] # later)"
    and ps2: "concat ps2 = ?b" "\<forall>x \<in> set ps2. x \<noteq> []" by blast
  from stream0_fit_ok [OF s fresh uw n] obtain s1 where
    fit: "stream0_fit fresh w s = Some s1" "stream0_ok s1" "length ?b \<le> length (s0_buf s1)" by blast
  from stream0_fill_ok [OF ps2(2,1) _ fit(3), of 0 later]
  have fill: "stream0_fill (length ?b) 0 (s0_buf s1) (ps2 @ [] # later) =
      Some (?b @ drop (length ?b) (s0_buf s1), later)" by simp
  define s2 where "s2 = s1\<lparr>s0_buf := ?b @ drop (length ?b) (s0_buf s1),
      s0_replied := s0_replied s1 \<or> s0_need_ack s1\<rparr>"
  have "stream0_HandleInput fresh max_id ep (x1 # ps @ [] # later) s = 
      Some (0, Some (stream0_packet fresh max_id ep h d), later, s2)"
    using head fit(1) fill stream0_unpack_ok [OF fresh ok, of max_id ep] by (simp add: stream0_HandleInput_def uw s2_def)
  moreover have "stream0_ok s2" using fit(2,3) by (simp add: s2_def stream0_ok_def)
  moreover have "s0_replied s2 = (s0_replied s \<or> s0_need_ack s)"
    using stream0_fit_flags [OF fit(1)] by (simp add: s2_def)
  ultimately show ?thesis by blast
qed

lemma stream0_HandleInput_ok:
  assumes "stream0_ok s" and "\<And>n. length (fresh n) = n" and "ok0 (c, h, d)"
    and "\<forall>x \<in> set (x1 # ps). x \<noteq> []" and "concat (x1 # ps) = wire0 (c, h, d)" and "4 \<le> length x1"
  shows "\<exists>p s'. stream0_HandleInput fresh max_id ep (x1 # ps @ [] # later) s = Some (0, Some p, later, s') \<and>
           packet_holds h d p \<and> pt_channel p = max_id \<and> pt_end_point p = Some ep \<and> stream0_ok s'"
proof -
  from stream0_HandleInput_packet [OF assms, of max_id ep later] obtain s' where
    "stream0_HandleInput fresh max_id ep (x1 # ps @ [] # later) s =
      Some (0, Some (stream0_packet fresh max_id ep h d), later, s')" "stream0_ok s'" by blast
  with stream0_packet_holds [OF assms(3), of fresh max_id ep] show ?thesis by blast
qed

text \<open>
  Two frames without a pause between them: once a \<open>recv\<close> has taken bytes of the second frame the
  loop of the first one never ends.
\<close>

lemma stream0_HandleInput_glued:
  assumes s: "stream0_ok s" and fresh: "\<And>n. length (fresh n) = n" and ok: "ok0 (c, h, d)"
    and x: "extra \<noteq> []" "length (wire0 (c, h, d)) + length extra \<le> 8 + length (s0_buf s)"
    and keep: "\<not> (int (length (body0 (c, h, d))) < s0_buf_length s div 3 \<and> 111 < length (body0 (c, h, d)))"
  shows "stream0_HandleInput fresh max_id ep [wire0 (c, h, d) @ extra] s = None"
proof -
  let ?b = "body0 (c, h, d)"
  define w :: u32 where "w = of_nat (length ?b)"
  have n: "length ?b + 10 < 2 ^ 31" using ok by (simp add: ok0_def body0_def)
  have uw: "unat w = length ?b" using n unfolding w_def by (intro unat_of_nat_u32) simp
  have W: "wire0 (c, h, d) @ extra = be32 1 @ be32 w @ ?b @ extra" by (simp add: wire0_body w_def)
  have head: "stream0_ParseHeader [wire0 (c, h, d) @ extra] = Some (0, w, [?b @ extra])"
    unfolding W using x(1)
    by (simp add: stream0_ParseHeader_def) (subst stream0_Recv.simps, simp)
  have len: "length (?b @ extra) \<le> length (s0_buf s)" using x(2) by (simp add: wire0_body)
  have fit: "stream0_fit fresh w s = Some s"
    using s keep len by (auto simp: stream0_fit_def Let_def uw stream0_ok_def)
  have "stream0_fill (length ?b) 0 (s0_buf s) [?b @ extra] = None"
    using x(1) len by (intro stream0_fill_overrun) auto
  with head fit show ?thesis by (simp add: stream0_HandleInput_def uw)
qed

section \<open>Version 1\<close>

text \<open>The frame has no channel: code 1, the length of the rest, head and data with their lengths.\<close>

type_synonym wire_packet = "byte list \<times> byte list"

definition wire1 :: "wire_packet \<Rightarrow> byte list" where
  "wire1 = (\<lambda>(h, d). be32 1 @ wr_i32 (int (8 + length h + length d)) @ wr_i32 (int (length h)) @ h @
     wr_i32 (int (length d)) @ d)"

text \<open>
  \<open>HandleOutput\<close> sends every packet of the queue, until \<open>Pop\<close> finds it empty, and returns -1.  The
  sums are of \<open>int32_t\<close> and unsigned lengths, cut to 32 bits.
\<close>

fun stream1_HandleOutput ::
  "nat option list \<Rightarrow> 'e packet list \<Rightarrow> (int \<times> byte list \<times> nat option list) option" where
  "stream1_HandleOutput sched [] = Some (- 1, [], sched)"
| "stream1_HandleOutput sched (p # ps) = do {
     hl \<leftarrow> pt_head_length p;
     dl \<leftarrow> pt_data_length p;
     let whole_length = 4 + hl + 4 + dl;
     h \<leftarrow> pt_head p;
     head_data \<leftarrow> load h 0 (unat hl);
     d \<leftarrow> pt_data p;
     dat \<leftarrow> load d 0 (unat dl);
     let (out, sched) = stream_Sends sched
       [be32 1, be32 whole_length, be32 hl, head_data, be32 dl, dat];
     Packet_delete p;
     (ret, outs, sched) \<leftarrow> stream1_HandleOutput sched ps;
     Some (ret, out @ outs, sched)
   }"

text \<open>
  The receive buffer, how much of it is filled, and the packets handed to \<open>OnReceived\<close>.  Its size,
  \<open>recv_buffer_length_\<close>, is the length of the list.
\<close>

record stream1 =
  s1_buf :: "byte list"
  s1_offset :: int
  s1_received :: "wire_packet list"
  s1_need_ack :: bool
  s1_replied :: bool

definition stream1_new :: "byte list \<Rightarrow> stream1" where
  "stream1_new mem = \<lparr>s1_buf = mem, s1_offset = 0, s1_received = [], s1_need_ack = False,
     s1_replied = False\<rparr>"

definition DEFAULT_BUFFER_SIZE :: nat where
  "DEFAULT_BUFFER_SIZE = 1024 * 1024 * 4"

text \<open>
  One packet of \<open>Chunking\<close>: the lengths are signed, a negative one makes \<open>new\<close> or \<open>memmove\<close> fault.
\<close>

definition chunk_one :: "int \<Rightarrow> stream1 \<Rightarrow> stream1 option" where
  "chunk_one total_length s = do {
     let buf = s1_buf s;
     h4 \<leftarrow> load buf 8 4;
     let head_length = rd_i32 h4;
     require (0 \<le> head_length);
     head_data \<leftarrow> load buf 12 (nat head_length);
     d4 \<leftarrow> load buf (12 + nat head_length) 4;
     let data_length = rd_i32 d4;
     require (0 \<le> data_length);
     dat \<leftarrow> load buf (16 + nat head_length) (nat data_length);
     require (0 \<le> total_length + 8 \<and> 0 \<le> s1_offset s - total_length - 8);
     rest \<leftarrow> load buf (nat (total_length + 8)) (nat (s1_offset s - total_length - 8));
     buf \<leftarrow> store buf 0 rest;
     Some (s\<lparr>s1_buf := buf, s1_offset := s1_offset s - total_length - 8,
             s1_received := s1_received s @ [(head_data, dat)],
             s1_replied := s1_replied s \<or> s1_need_ack s\<rparr>)
   }"

text \<open>\<open>Chunking\<close> calls itself after each packet; a length of -8 makes that endless.\<close>

partial_function (option) Chunking :: "stream1 \<Rightarrow> stream1 option" where
  "Chunking s =
     (if s1_offset s < 8 then Some s
      else do {
        c4 \<leftarrow> load (s1_buf s) 0 4;
        if rd_i32 c4 \<noteq> 1 then Some (s\<lparr>s1_offset := 0\<rparr>)
        else do {
          t4 \<leftarrow> load (s1_buf s) 4 4;
          let total_length = rd_i32 t4;
          if int (length (s1_buf s)) \<le> total_length then Some (s\<lparr>s1_offset := 0\<rparr>)
          else if s1_offset s - 8 < total_length then Some s
          else do {
            s \<leftarrow> chunk_one total_length s;
            Chunking s
          }
        }
      })"

declare Chunking.simps [code]

text \<open>
  What \<open>recv\<close> meets: bytes, an interrupted call, the end of the connection, another error.  After the
  last event the call would block.
\<close>

datatype sock_event = Arrived "byte list" | Interrupted | Closed | OtherError

text \<open>
  \<open>HandleInputImpl\<close>.  A return value of 0, at the end of the connection or when the buffer is full,
  deletes the object: the result \<open>None\<close> inside.  Any other error is tried again.
\<close>

function HandleInputImpl :: "sock_event list \<Rightarrow> stream1 \<Rightarrow> stream1 option option" where
  "HandleInputImpl evs s =
     (case evs of
        [] \<Rightarrow> Some (Some s)
      | Interrupted # evs \<Rightarrow> HandleInputImpl evs s
      | OtherError # evs \<Rightarrow> HandleInputImpl evs s
      | Closed # evs \<Rightarrow> Some None
      | Arrived bs # evs \<Rightarrow>
          (let n = nat (int (length (s1_buf s)) - s1_offset s)
           in if n = 0 \<or> bs = [] then Some None
              else do {
                buf \<leftarrow> store (s1_buf s) (nat (s1_offset s)) (take n bs);
                s \<leftarrow> Chunking (s\<lparr>s1_buf := buf, s1_offset := s1_offset s + int (length (take n bs))\<rparr>);
                if length bs \<le> n then HandleInputImpl evs s
                else HandleInputImpl (Arrived (drop n bs) # evs) s
              }))"
  by pat_completeness auto
termination
  by (relation "measure (\<lambda>(evs, s). \<Sum>e\<leftarrow>evs. case e of Arrived bs \<Rightarrow> 1 + length bs | _ \<Rightarrow> 1)")
    (auto simp: neq_Nil_conv)

declare HandleInputImpl.simps [simp del]

section \<open>Version 1 is a framing\<close>

definition ok1 :: "nat \<Rightarrow> wire_packet \<Rightarrow> bool" where
  "ok1 L = (\<lambda>(h, d). 16 + length h + length d \<le> L \<and> L < 2 ^ 31)"

text \<open>The reference parser: one frame off the front, none if a field is cut short.\<close>

definition parse1 :: "byte list \<Rightarrow> (wire_packet \<times> byte list) option" where
  "parse1 s = do {
     c4 \<leftarrow> load s 0 4;
     t4 \<leftarrow> load s 4 4;
     h4 \<leftarrow> load s 8 4;
     let hl = nat (rd_i32 h4);
     h \<leftarrow> load s 12 hl;
     d4 \<leftarrow> load s (12 + hl) 4;
     let dl = nat (rd_i32 d4);
     d \<leftarrow> load s (16 + hl) dl;
     Some ((h, d), drop (16 + hl + dl) s)
   }"

lemma wire1_loads:
  fixes h d r :: "byte list"
  defines "s \<equiv> wire1 (h, d) @ r"
  shows "load s 0 4 = Some (be32 1)" "load s 4 4 = Some (wr_i32 (int (8 + length h + length d)))"
    "load s 8 4 = Some (wr_i32 (int (length h)))" "load s 12 (length h) = Some h"
    "load s (12 + length h) 4 = Some (wr_i32 (int (length d)))" "load s (16 + length h) (length d) = Some d"
    "drop (16 + length h + length d) s = r"
  by (simp_all add: s_def wire1_def load_def)

lemma length_wire1: "length (wire1 (h, d)) = 16 + length h + length d"
  by (simp add: wire1_def)

lemma load_prefix: "load s p n = Some x \<Longrightarrow> load (s @ t) p n = Some x"
  by (auto simp: load_def split: if_splits)

lemma parse1_prefix: "parse1 s = Some (p, r) \<Longrightarrow> parse1 (s @ t) = Some (p, r @ t)"
proof -
  assume a: "parse1 s = Some (p, r)"
  obtain h d where p: "p = (h, d)" by (cases p)
  from a p obtain c4 t4 h4 d4 where l: "load s 0 4 = Some c4" "load s 4 4 = Some t4" "load s 8 4 = Some h4"
    "load s 12 (nat (rd_i32 h4)) = Some h" "load s (12 + nat (rd_i32 h4)) 4 = Some d4"
    "load s (16 + nat (rd_i32 h4)) (nat (rd_i32 d4)) = Some d"
    "r = drop (16 + nat (rd_i32 h4) + nat (rd_i32 d4)) s"
    unfolding parse1_def Let_def by (auto simp only: bind_eq_Some_conv option.inject prod.inject)
  have "16 + nat (rd_i32 h4) + nat (rd_i32 d4) \<le> length s" using l(6) by (simp add: load_def split: if_splits)
  then show ?thesis using l(1-6) [THEN load_prefix, of t] l(7) by (simp add: parse1_def p)
qed

lemma parse1_wire1:
  assumes "ok1 L p"
  shows "parse1 (wire1 p @ r) = Some (p, r)"
proof -
  obtain h d where p: "p = (h, d)" by (cases p)
  have "i32_ok (int (length h))" "i32_ok (int (length d))"
    using assms by (auto simp: p ok1_def i32_ok_def)
  then show ?thesis using wire1_loads [of h d r] by (simp add: p parse1_def)
qed

interpretation v1: framing wire1 "ok1 L" parse1 for L
proof unfold_locales
  fix p r
  assume "ok1 L p"
  then show "parse1 (wire1 p @ r) = Some (p, r)" using parse1_wire1 by blast
next
  fix p s t
  assume p: "ok1 L p" and st: "wire1 p = s @ t" "t \<noteq> []"
  show "parse1 s = None"
  proof (rule ccontr)
    assume "parse1 s \<noteq> None"
    then obtain q r where "parse1 s = Some (q, r)" by auto
    from parse1_prefix [OF this, of t] st have "parse1 (wire1 p) = Some (q, r @ t)" by simp
    moreover have "parse1 (wire1 p) = Some (p, [])" using parse1_wire1 [of L p "[]"] p by simp
    ultimately show False using st(2) by simp
  qed
qed

lemma stream1_HandleOutput_wire:
  assumes "\<forall>i < length ps. packet_holds (fst (ws ! i)) (snd (ws ! i)) (ps ! i)" and "length ws = length ps"
  shows "\<exists>sch. stream1_HandleOutput sched ps = Some (- 1, concat (map wire1 ws), sch)"
  using assms
proof (induction ps arbitrary: ws sched)
  case Nil
  then show ?case by simp
next
  case (Cons p ps)
  then obtain h d ws' where ws: "ws = (h, d) # ws'" by (cases ws) auto
  have "packet_holds h d p" using Cons.prems(1) ws by force
  then obtain hs ds where p: "pt_head p = Some (h @ hs)" "pt_data p = Some (d @ ds)"
      "pt_head_length p = Some (of_nat (length h))" "pt_data_length p = Some (of_nat (length d))"
    and l: "length h < 2 ^ 32" "length d < 2 ^ 32" by (auto simp: packet_holds_def)
  define parts where "parts = [be32 1, be32 (8 + of_nat (length h) + of_nat (length d)),
      be32 (of_nat (length h)), h, be32 (of_nat (length d)), d]"
  obtain sch where sch: "stream_Sends sched parts = (concat parts, sch)"
    using stream_Sends_all [of sched parts] by (metis prod.collapse)
  have c: "concat parts = wire1 (h, d)" by (simp add: parts_def wire1_def wr_i32_def u32_of_def)
  have "\<forall>i < length ps. packet_holds (fst (ws' ! i)) (snd (ws' ! i)) (ps ! i)" "length ws' = length ps"
    using Cons.prems ws by force+
  from Cons.IH [OF this, of sch] obtain sch' where
    "stream1_HandleOutput sch ps = Some (- 1, concat (map wire1 ws'), sch')" by blast
  then show ?case
    using p l sch c ws by (simp add: load_def unat_of_nat_u32 Packet_delete_def parts_def)
qed

section \<open>Version 1 delivers what was sent\<close>

definition stream1_ok :: "nat \<Rightarrow> stream1 \<Rightarrow> bool" where
  "stream1_ok L s \<longleftrightarrow> length (s1_buf s) = L \<and> 0 \<le> s1_offset s \<and> s1_offset s \<le> int L"

definition pending :: "stream1 \<Rightarrow> byte list" where
  "pending s = take (nat (s1_offset s)) (s1_buf s)"

lemma length_pending: "stream1_ok L s \<Longrightarrow> length (pending s) = nat (s1_offset s)"
  unfolding pending_def stream1_ok_def length_take by linarith

lemma Chunking_stop:
  assumes s: "stream1_ok L s" and r: "v1.incomplete L (pending s)"
  shows "Chunking s = Some s"
proof (cases "s1_offset s < 8")
  case True
  then show ?thesis by (subst Chunking.simps) simp
next
  case False
  from r obtain h d t where w: "wire1 (h, d) = pending s @ t" "t \<noteq> []"
    and ok: "ok1 L (h, d)" unfolding v1.incomplete_def by auto
  have lp: "length (pending s) = nat (s1_offset s)" by (rule length_pending [OF s])
  have "wire1 (h, d) @ drop (nat (s1_offset s)) (s1_buf s) @ [] = pending s @ t @ drop (nat (s1_offset s)) (s1_buf s)"
    using w by simp
  have b8: "take 8 (s1_buf s) = take 8 (wire1 (h, d))"
    using False w(1) lp by (simp add: pending_def)
  have l: "load (s1_buf s) 0 4 = Some (be32 1)"
    "load (s1_buf s) 4 4 = Some (wr_i32 (int (8 + length h + length d)))"
  proof -
    have "8 \<le> length (s1_buf s)" using False s by (simp add: stream1_ok_def)
    moreover have "take 4 (take 8 (s1_buf s)) = be32 1" "drop 4 (take 8 (s1_buf s)) = wr_i32 (int (8 + length h + length d))"
      unfolding b8 by (simp_all add: wire1_def)
    ultimately show "load (s1_buf s) 0 4 = Some (be32 1)"
      "load (s1_buf s) 4 4 = Some (wr_i32 (int (8 + length h + length d)))"
      by (simp_all add: load_def drop_take)
  qed
  have "length (pending s) < 16 + length h + length d"
    using arg_cong [OF w(1), of length] w(2) by (simp add: length_wire1)
  then have "s1_offset s - 8 < 8 + int (length h) + int (length d)" using lp False by linarith
  moreover have "i32_ok (8 + int (length h) + int (length d))" "8 + length h + length d < L"
    using ok by (auto simp: ok1_def i32_ok_def)
  moreover have "rd_i32 (be32 1) = 1" by (simp add: rd_i32_def)
  ultimately show ?thesis
    using False l s by (subst Chunking.simps) (simp add: stream1_ok_def)
qed

lemma Chunking_step:
  assumes s: "stream1_ok L s" and p: "pending s = wire1 (h, d) @ r" and ok: "ok1 L (h, d)"
  shows "\<exists>s'. Chunking s = Chunking s' \<and> stream1_ok L s' \<and> pending s' = r \<and>
           s1_received s' = s1_received s @ [(h, d)]"
proof -
  let ?n = "16 + length h + length d"
  define rest where "rest = drop (nat (s1_offset s)) (s1_buf s)"
  have buf: "s1_buf s = wire1 (h, d) @ r @ rest"
    unfolding rest_def append_assoc [symmetric] p [symmetric] by (simp add: pending_def)
  have off: "nat (s1_offset s) = ?n + length r"
    using arg_cong [OF p, of length] length_pending [OF s] by (simp add: length_wire1)
  have o: "s1_offset s = int (?n + length r)" using off s by (simp add: stream1_ok_def)
  note l = wire1_loads [of h d "r @ rest", folded buf]
  have i: "i32_ok (int (length h))" "i32_ok (int (length d))" "i32_ok (int (8 + length h + length d))"
    using ok by (auto simp: ok1_def i32_ok_def)
  have lr: "load (s1_buf s) ?n (length r) = Some r"
    unfolding buf using load_append [of "wire1 (h, d)" r rest] by (simp add: length_wire1)
  define buf' where "buf' = r @ drop (length r) (s1_buf s)"
  have st: "store (s1_buf s) 0 r = Some buf'" by (simp add: store_def buf'_def buf)
  define s' where "s' = s\<lparr>s1_buf := buf', s1_offset := int (length r),
      s1_received := s1_received s @ [(h, d)], s1_replied := s1_replied s \<or> s1_need_ack s\<rparr>"
  have "nat (int (8 + length h + length d) + 8) = ?n"
    "nat (s1_offset s - int (8 + length h + length d) - 8) = length r" using o by simp_all
  then have one: "chunk_one (int (8 + length h + length d)) s = Some s'"
    using l i lr st o by (simp add: chunk_one_def s'_def del: of_nat_add)
  have "rd_i32 (be32 1) = 1" by (simp add: rd_i32_def)
  moreover have "8 + length h + length d < length (s1_buf s)"
    using ok s by (auto simp: ok1_def stream1_ok_def)
  ultimately have "Chunking s = Chunking s'"
    using l(1,2) i(3) one o by (subst Chunking.simps) (simp del: of_nat_add)
  moreover have "length r \<le> L" using s off unfolding stream1_ok_def by linarith
  then have "stream1_ok L s'" using s by (simp add: s'_def stream1_ok_def buf'_def)
  moreover have "pending s' = r" by (simp add: s'_def pending_def buf'_def)
  ultimately show ?thesis by (auto simp: s'_def)
qed

lemma Chunking_all:
  assumes "stream1_ok L s" and "pending s = concat (map wire1 qs) @ r"
    and "\<forall>q \<in> set qs. ok1 L q" and "v1.incomplete L r"
  shows "\<exists>s'. Chunking s = Some s' \<and> stream1_ok L s' \<and> pending s' = r \<and>
           s1_received s' = s1_received s @ qs"
  using assms
proof (induction qs arbitrary: s)
  case Nil
  then show ?case using Chunking_stop by auto
next
  case (Cons q qs)
  obtain h d where q: "q = (h, d)" by (cases q)
  from Chunking_step [OF Cons.prems(1), of h d "concat (map wire1 qs) @ r"] Cons.prems q obtain s1 where
    s1: "Chunking s = Chunking s1" "stream1_ok L s1" "pending s1 = concat (map wire1 qs) @ r"
      "s1_received s1 = s1_received s @ [(h, d)]" by auto
  from Cons.IH [OF s1(2,3)] Cons.prems(3,4) s1(1,4) q show ?case by auto
qed

text \<open>
  The invariant of the receive loop: what has arrived so far is the packets delivered and the
  pending bytes, which are the beginning of a frame.
\<close>

definition stream1_inv :: "nat \<Rightarrow> byte list \<Rightarrow> stream1 \<Rightarrow> bool" where
  "stream1_inv L arrived s \<longleftrightarrow>
     stream1_ok L s \<and> arrived = concat (map wire1 (s1_received s)) @ pending s \<and>
     (\<forall>q \<in> set (s1_received s). ok1 L q) \<and> v1.incomplete L (pending s)"

lemma incomplete_room:
  assumes "stream1_inv L a s"
  shows "s1_offset s < int L"
proof -
  from assms obtain h d t where w: "wire1 (h, d) = pending s @ t" "t \<noteq> []" "ok1 L (h, d)"
    unfolding stream1_inv_def v1.incomplete_def by auto
  have "length (pending s) < L"
    using arg_cong [OF w(1), of length] w(2,3) by (cases t) (auto simp: ok1_def length_wire1)
  then show ?thesis using assms by (auto simp: stream1_inv_def stream1_ok_def pending_def)
qed

lemma stream1_receive:
  assumes inv: "stream1_inv L a s" and all: "(a @ bs) @ u = concat (map wire1 ps) @ r0"
    and ps: "\<forall>p \<in> set ps. ok1 L p" and r0: "v1.incomplete L r0"
    and bs: "int (length bs) \<le> int L - s1_offset s"
  shows "\<exists>buf s'. store (s1_buf s) (nat (s1_offset s)) bs = Some buf \<and>
           Chunking (s\<lparr>s1_buf := buf, s1_offset := s1_offset s + int (length bs)\<rparr>) = Some s' \<and>
           stream1_inv L (a @ bs) s'"
proof -
  from inv have s: "stream1_ok L s" and a: "a = concat (map wire1 (s1_received s)) @ pending s"
    and rec: "\<forall>q \<in> set (s1_received s). ok1 L q" by (simp_all add: stream1_inv_def)
  from v1.stream_prefix [OF all ps r0] obtain qs r where
    qs: "a @ bs = concat (map wire1 qs) @ r" "\<forall>q \<in> set qs. ok1 L q" "v1.incomplete L r"
    by blast
  from qs(1) a have "concat (map wire1 (s1_received s)) @ (pending s @ bs) = concat (map wire1 qs) @ r"
    by simp
  from v1.unique_reading [OF this rec qs(2,3)] obtain qs' where
    q': "qs = s1_received s @ qs'" "pending s @ bs = concat (map wire1 qs') @ r" by blast
  define buf where "buf = take (nat (s1_offset s)) (s1_buf s) @ bs @
      drop (nat (s1_offset s) + length bs) (s1_buf s)"
  define s1 where "s1 = s\<lparr>s1_buf := buf, s1_offset := s1_offset s + int (length bs)\<rparr>"
  have st: "store (s1_buf s) (nat (s1_offset s)) bs = Some buf"
  proof -
    have "nat (s1_offset s) + length bs \<le> length (s1_buf s)" using s bs unfolding stream1_ok_def by linarith
    then show ?thesis by (simp add: store_def buf_def)
  qed
  have "nat (s1_offset s) + length bs \<le> L" using s bs unfolding stream1_ok_def by linarith
  then have "stream1_ok L s1" using s bs by (simp add: s1_def buf_def stream1_ok_def)
  moreover have "pending s1 = pending s @ bs"
    using s bs by (simp add: s1_def buf_def pending_def stream1_ok_def nat_add_distrib)
  ultimately obtain s' where "Chunking s1 = Some s'" "stream1_ok L s'" "pending s' = r"
      "s1_received s' = s1_received s @ qs'"
    using Chunking_all [of L s1 qs' r] q' qs(2,3) by (auto simp: s1_def)
  moreover from this have "stream1_inv L (a @ bs) s'" using qs q' by (simp add: stream1_inv_def)
  ultimately show ?thesis using st by (auto simp: s1_def)
qed

definition arrivals :: "sock_event list \<Rightarrow> byte list" where
  "arrivals evs = concat (map (\<lambda>e. case e of Arrived bs \<Rightarrow> bs | _ \<Rightarrow> []) evs)"

lemma append_take_drop_assoc: "take n xs @ drop n xs @ ys = xs @ ys"
  by (simp flip: append_assoc)

lemma HandleInputImpl_inv:
  assumes "stream1_inv L a s" and "a @ arrivals evs = concat (map wire1 ps) @ r0"
    and "\<forall>p \<in> set ps. ok1 L p" and "v1.incomplete L r0"
    and "Closed \<notin> set evs" and "Arrived [] \<notin> set evs"
  shows "\<exists>s'. HandleInputImpl evs s = Some (Some s') \<and>
           stream1_inv L (concat (map wire1 ps) @ r0) s'"
  using assms(1,2,5,6)
proof (induction evs s arbitrary: a rule: HandleInputImpl.induct)
  case (1 evs s)
  show ?case
  proof (cases evs)
    case Nil
    then show ?thesis using "1.prems" by (subst HandleInputImpl.simps) (simp add: arrivals_def)
  next
    case (Cons e es)
    show ?thesis
    proof (cases e)
      case Interrupted
      with "1.IH"(3) [OF Cons Interrupted, of a] "1.prems" Cons show ?thesis
        by (subst HandleInputImpl.simps) (simp add: arrivals_def)
    next
      case OtherError
      with "1.IH"(4) [OF Cons OtherError, of a] "1.prems" Cons show ?thesis
        by (subst HandleInputImpl.simps) (simp add: arrivals_def)
    next
      case Closed
      with "1.prems" Cons show ?thesis by simp
    next
      case (Arrived bs)
      have s: "stream1_ok L s" using "1.prems"(1) by (simp add: stream1_inv_def)
      define n where "n = nat (int (length (s1_buf s)) - s1_offset s)"
      have n: "0 < n" "int n = int L - s1_offset s"
        using incomplete_room [OF "1.prems"(1)] s by (auto simp: n_def stream1_ok_def)
      have bs: "bs \<noteq> []" using "1.prems"(4) Cons Arrived by auto
      let ?t = "take n bs"
      have "int (length ?t) \<le> int L - s1_offset s" using n by simp
      moreover have "(a @ ?t) @ (drop n bs @ arrivals es) = concat (map wire1 ps) @ r0"
        using "1.prems"(2) Cons Arrived by (simp add: arrivals_def append_take_drop_assoc)
      ultimately obtain buf s' where r: "store (s1_buf s) (nat (s1_offset s)) ?t = Some buf"
          "Chunking (s\<lparr>s1_buf := buf, s1_offset := s1_offset s + int (length ?t)\<rparr>) = Some s'"
          "stream1_inv L (a @ ?t) s'"
        using stream1_receive [OF "1.prems"(1) _ assms(3,4), of ?t] by blast
      show ?thesis
      proof (cases "length bs \<le> n")
        case True
        have "\<exists>s''. HandleInputImpl es s' = Some (Some s'') \<and> stream1_inv L (concat (map wire1 ps) @ r0) s''"
          by (rule "1.IH"(1) [OF Cons Arrived n_def _ r(1,2) True r(3)])
            (use n bs "1.prems" Cons Arrived True in \<open>auto simp: arrivals_def\<close>)
        then show ?thesis
          using Cons Arrived r n(1) bs True by (subst HandleInputImpl.simps) (simp add: n_def [symmetric])
      next
        case False
        have "\<exists>s''. HandleInputImpl (Arrived (drop n bs) # es) s' = Some (Some s'') \<and>
            stream1_inv L (concat (map wire1 ps) @ r0) s''"
          by (rule "1.IH"(2) [OF Cons Arrived n_def _ r(1,2) False r(3)])
            (use n bs "1.prems" Cons Arrived False in \<open>auto simp: arrivals_def append_take_drop_assoc\<close>)
        then show ?thesis
          using Cons Arrived r n(1) bs False by (subst HandleInputImpl.simps) (simp add: n_def [symmetric])
      qed
    qed
  qed
qed

lemma v1_incomplete_Nil: "16 \<le> L \<Longrightarrow> L < 2 ^ 31 \<Longrightarrow> v1.incomplete L []"
  unfolding v1.incomplete_def
  by (intro exI [of _ "([], [])"] exI [of _ "wire1 ([], [])"]) (simp add: ok1_def wire1_def)

lemma stream1_delivers:
  assumes L: "16 \<le> length mem" "length mem < 2 ^ 31" and ps: "\<forall>p \<in> set ps. ok1 (length mem) p"
    and evs: "arrivals evs = concat (map wire1 ps)" "Closed \<notin> set evs" "Arrived [] \<notin> set evs"
  shows "\<exists>s'. HandleInputImpl evs (stream1_new mem) = Some (Some s') \<and> s1_received s' = ps \<and>
           s1_offset s' = 0"
proof -
  let ?L = "length mem"
  have i: "v1.incomplete ?L []" using v1_incomplete_Nil L by simp
  have "stream1_inv ?L [] (stream1_new mem)"
    using i by (simp add: stream1_inv_def stream1_ok_def stream1_new_def pending_def)
  with HandleInputImpl_inv [of ?L "[]" "stream1_new mem" evs ps "[]"] i ps L evs obtain s' where
    s': "HandleInputImpl evs (stream1_new mem) = Some (Some s')" "stream1_inv ?L (concat (map wire1 ps)) s'"
    by auto
  from s'(2) have "concat (map wire1 ps) @ [] = concat (map wire1 (s1_received s')) @ pending s'"
    and rec: "\<forall>q \<in> set (s1_received s'). ok1 ?L q" and "v1.incomplete ?L (pending s')"
    and ok: "stream1_ok ?L s'"
    by (simp_all add: stream1_inv_def)
  from v1.unique_reading [OF this(1) _ rec this(3)] ps L obtain qs where
    "s1_received s' = ps @ qs" "[] = concat (map wire1 qs) @ pending s'" by auto
  moreover from this(2) have "qs = []" by (cases qs) (auto simp: wire1_def)
  ultimately have "s1_received s' = ps" "pending s' = []" by simp_all
  moreover from this(2) ok have "s1_offset s' = 0"
    by (auto simp: pending_def stream1_ok_def)
  ultimately show ?thesis using s'(1) by blast
qed

end
