(* ===== verification/NetProperties.thy ===== *)
theory NetProperties
  imports NetData TaskQueue StreamSocket "HOL-Library.Code_Target_Numeral"
begin

text \<open>
  What the data structures and the two stream protocols of the network library promise, and the
  inputs on which they break their promise.
\<close>

section \<open>Data structures\<close>

text \<open>
  C17. A sequence of fields written into a block of memory with a \<open>Package\<close> and read back with a
  second \<open>Package\<close> on the same block, asking for fields of the same kinds and string lengths,
  gives the same fields, and both cursors have the rest of the block left.
\<close>

theorem package_roundtrip:
  assumes "\<forall>f \<in> set fs. field_ok f" and "length m = length (concat (map field_bytes fs)) + n"
  shows "\<exists>p q. foldM put_field fs (Package_set_data m (int (length m)) Package_new) = Some p \<and>
           get_fields fs (Package_set_data (pk_mem p) (int (length m)) Package_new) = Some (fs, q) \<and>
           pk_left p = int n \<and> pk_left q = int n"
proof -
  let ?p0 = "Package_set_data m (int (length m)) Package_new" and ?bs = "concat (map field_bytes fs)"
  have "pk_written [] (length ?bs + n) ?p0"
    using assms(2) by (simp add: pk_written_in_def Package_set_data_def)
  from put_fields_ok [OF this] obtain p where
    p: "foldM put_field fs ?p0 = Some p" "pk_written ([] @ ?bs) n p" by blast
  let ?q0 = "Package_set_data (pk_mem p) (int (length m)) Package_new"
  have "pk_mem p = [] @ ?bs @ drop (length ?bs) (pk_mem p)"
    using p(2) append_take_drop_id [of "length ?bs" "pk_mem p"] by (simp add: pk_written_in_def)
  with get_fields_ok [of fs ?q0 "[]" "drop (length ?bs) (pk_mem p)" n] assms obtain q where
    "get_fields fs ?q0 = Some (fs, q)" "pk_left q = int n"
    by (auto simp: Package_set_data_def)
  with p show ?thesis by (auto simp: pk_written_in_def)
qed

lemma package_roundtrip_witness:
  "\<exists>p q. foldM put_field [FInt (- 2), FStr [104, 105], FUint 7]
       (Package_set_data (replicate 11 0) (int (length (replicate 11 (0 :: byte)))) Package_new) = Some p \<and>
     get_fields [FInt (- 2), FStr [104, 105], FUint 7]
       (Package_set_data (pk_mem p) (int (length (replicate 11 (0 :: byte)))) Package_new) =
         Some ([FInt (- 2), FStr [104, 105], FUint 7], q) \<and>
     pk_left p = int 1 \<and> pk_left q = int 1"
  by (rule package_roundtrip) (simp_all add: i32_ok_def)

text \<open>
  C18. \<open>SimpleList\<close> implements a list of items in insertion order: a new object holds the empty list,
  \<open>push_back\<close> adds at the end, \<open>remove_node\<close> takes out the node's item and frees the node, and the
  destructor frees every node that is left.
\<close>

theorem simple_list_is_list:
  "sl_holds SimpleList_new [] [] \<and>
   (\<forall>l as xs t. sl_holds l as xs \<longrightarrow>
      (\<exists>a l'. push_back t l = Some (a, l') \<and> sl_holds l' (as @ [a]) (xs @ [t]))) \<and>
   (\<forall>l as n bs xs x ys. sl_holds l (as @ n # bs) (xs @ x # ys) \<and> length as = length xs \<longrightarrow>
      (\<exists>l'. remove_node n l = Some l' \<and> sl_holds l' (as @ bs) (xs @ ys) \<and> sl_heap l' n = None)) \<and>
   (\<forall>l as xs. sl_holds l as xs \<longrightarrow>
      (\<exists>l'. SimpleList_delete l = Some l' \<and> (\<forall>a. sl_heap l' a \<noteq> None \<longleftrightarrow> a = Head \<or> a = Tail)))"
  using sl_holds_new push_back_ok remove_node_ok SimpleList_delete_ok by metis

lemma simple_list_is_list_witness:
  "\<exists>a l. push_back (5 :: nat) SimpleList_new = Some (a, l) \<and> sl_holds l [a] [5] \<and>
     (\<exists>l'. remove_node a l = Some l' \<and> sl_holds l' [] [] \<and> sl_heap l' a = None)"
proof -
  note P = simple_list_is_list [where 'a = nat]
  obtain a l where 1: "push_back 5 SimpleList_new = Some (a, l)" "sl_holds l [a] [5 :: nat]"
    using P by (metis append_Nil)
  moreover have "\<exists>l'. remove_node a l = Some l' \<and> sl_holds l' [] [] \<and> sl_heap l' a = None"
    using P [THEN conjunct2, THEN conjunct2, THEN conjunct1, rule_format, of l "[]" a "[]" "[]" 5 "[]"] 1(2)
    by simp
  ultimately show ?thesis by blast
qed

text \<open>
  C19. A thread that calls \<open>GenerateNewId\<close> by itself gets pairwise different ids for fewer than
  \<open>2 ^ 32\<close> calls, but the id is read after the lock has been released: two threads that run at once
  can both be given the id 2.
\<close>

theorem channel_ids:
  "(\<forall>n c. n < 2 ^ 32 \<longrightarrow> distinct (fst (generate_ids n c))) \<and>
   (\<exists>c pc. ch_run (Channel_new, \<lambda>_. Calling) (c, pc) \<and> pc 0 = Returned 2 \<and> pc 1 = Returned 2)"
  using generate_ids_distinct ch_race by blast

lemma channel_ids_witness: "distinct (fst (generate_ids 3 Channel_new))"
  using channel_ids [THEN conjunct1, rule_format, of 3 Channel_new] by simp

section \<open>Queues\<close>

text \<open>
  C20. In every state that any interleaving of the critical sections of producers and consumers of a
  bounded \<open>TaskQueue\<close> reaches, what was pushed is what was popped followed by what is in the queue,
  in order, and the queue is within its limit.
\<close>

theorem task_queue_fifo:
  assumes "tq_reach limit s"
  shows "ts_pushed s = ts_popped s @ tq_data (ts_queue s) \<and> length (tq_data (ts_queue s)) \<le> unat limit"
  using tq_reach_inv [OF assms] by (simp_all add: tq_inv_def)

lemma task_queue_fifo_witness:
  "\<exists>s. tq_reach 1 s \<and> ts_pushed s = [True] \<and> ts_pushed s = ts_popped s @ tq_data (ts_queue s)"
proof -
  define q0 :: "bool task_queue" where "q0 = TaskQueue_new 1"
  define s where "s = \<lparr>ts_queue = q0\<lparr>tq_data := [True]\<rparr>, ts_pushed = [True], ts_popped = []\<rparr>"
  have "try_push True q0 = (True, q0\<lparr>tq_data := [True]\<rparr>)"
    by (simp add: try_push_def q0_def TaskQueue_new_def)
  then have "tq_step \<lparr>ts_queue = q0, ts_pushed = [], ts_popped = []\<rparr> s"
    using tq_step.pushes [of True "\<lparr>ts_queue = q0, ts_pushed = [], ts_popped = []\<rparr>"] by (simp add: s_def)
  then have "tq_reach 1 s" using tq_next [OF tq_start] by (simp add: q0_def)
  then show ?thesis using task_queue_fifo [of 1 s] by (auto simp: s_def)
qed

text \<open>
  The queue of the first http server hands out what was pushed, in order; but \<open>Pop_front\<close> never
  counts down, so once it is drained one more \<open>Pop_front\<close> takes the front of an empty queue (a
  fault) where \<open>false\<close> is meant.
\<close>

theorem http_queue_drained:
  assumes "ns \<noteq> []"
  shows "http_pops (length ns) (fold HttpQueue_Push_back ns HttpQueue_new) =
           Some (map Some ns, \<lparr>hq_queue = [], hq_size = int (length ns)\<rparr>) \<and>
         HttpQueue_Pop_front \<lparr>hq_queue = [], hq_size = int (length ns)\<rparr> = None"
  using assms http_pops_ok [of "fold HttpQueue_Push_back ns HttpQueue_new" ns "[]"]
  by (simp_all add: http_pushes HttpQueue_new_def http_pop_drained)

lemma http_queue_drained_witness:
  "HttpQueue_Pop_front \<lparr>hq_queue = [], hq_size = int (length
     [\<lparr>tn_data = Some (), tn_length = 0, tn_fd = 3, tn_type = In\<rparr>])\<rparr> = None"
  by (rule http_queue_drained [THEN conjunct2]) simp

section \<open>Streams\<close>

text \<open>
  Version 0: a packet sent by \<open>HandleOutput\<close>, whatever the socket accepts at each \<open>send\<close>,
  arrives at \<open>HandleInput\<close> as a packet with the same head and data, for every division of the bytes
  into pieces that is followed by a pause and whose first piece has at least the four bytes of the
  protocol code.  The channel id is the receiver's own, not the one that was sent.
\<close>

theorem stream0_transfers:
  assumes "packet_holds h d pkt" and "ok0 (pt_channel pkt, h, d)"
    and "stream0_ok s" and "\<And>n. length (fresh n) = n"
  shows "\<exists>out sch. stream0_HandleOutput sched (Some pkt) = Some (0, out, sch) \<and>
     (\<forall>x1 ps later. (\<forall>x \<in> set (x1 # ps). x \<noteq> []) \<and> concat (x1 # ps) = out \<and> 4 \<le> length x1 \<longrightarrow>
        (\<exists>p s'. stream0_HandleInput fresh max_id ep (x1 # ps @ [] # later) s = Some (0, Some p, later, s') \<and>
           packet_holds h d p \<and> pt_channel p = max_id \<and> pt_end_point p = Some ep \<and> stream0_ok s'))"
  using stream0_HandleOutput_wire [OF assms(1), of sched] stream0_HandleInput_ok [OF assms(3,4,2)] by metis

definition demo_packet :: "byte list \<Rightarrow> byte list \<Rightarrow> unit packet" where
  "demo_packet h d = Packet_set_packet d (of_nat (length d)) (Packet_set_head h (of_nat (length h)) (Packet_new 0))"

lemma demo_packet_holds: "length h < 2 ^ 32 \<Longrightarrow> length d < 2 ^ 32 \<Longrightarrow> packet_holds h d (demo_packet h d)"
  by (simp add: packet_holds_def demo_packet_def Packet_set_packet_def Packet_set_head_def)

lemma demo_packet_channel: "pt_channel (demo_packet h d) = 0"
  by (simp add: demo_packet_def Packet_set_packet_def Packet_set_head_def Packet_new_def)

lemma stream0_transfers_witness:
  "\<exists>out sch. stream0_HandleOutput [None, Some 3] (Some (demo_packet [1] [2, 3])) = Some (0, out, sch) \<and>
     (\<forall>x1 ps later. (\<forall>x \<in> set (x1 # ps). x \<noteq> []) \<and> concat (x1 # ps) = out \<and> 4 \<le> length x1 \<longrightarrow>
        (\<exists>p s'. stream0_HandleInput (\<lambda>n. replicate n 0) 5 () (x1 # ps @ [] # later)
              (stream0_new (replicate 111 0)) = Some (0, Some p, later, s') \<and>
           packet_holds [1] [2, 3] p \<and> pt_channel p = 5 \<and> pt_end_point p = Some () \<and> stream0_ok s'))"
  by (rule stream0_transfers)
    (simp_all add: demo_packet_holds ok0_def stream0_ok_def stream0_new_def)



text \<open>
  C24. Version 1: the packets that \<open>HandleOutput\<close> takes from its queue are handed to \<open>OnReceived\<close> on
  the other side, all of them and in order, however the stream is cut into pieces, with interrupted
  and failing \<open>recv\<close> calls in between, if each frame fits the receive buffer.
\<close>

theorem stream1_transfers:
  assumes "length ws = length pkts"
    and "\<forall>i < length pkts. packet_holds (fst (ws ! i)) (snd (ws ! i)) (pkts ! i)"
    and "16 \<le> length mem" and "length mem < 2 ^ 31" and "\<forall>w \<in> set ws. ok1 (length mem) w"
  shows "\<exists>out sch. stream1_HandleOutput sched pkts = Some (- 1, out, sch) \<and>
     (\<forall>evs. arrivals evs = out \<and> Closed \<notin> set evs \<and> Arrived [] \<notin> set evs \<longrightarrow>
        (\<exists>s. HandleInputImpl evs (stream1_new mem) = Some (Some s) \<and> s1_received s = ws \<and>
             s1_offset s = 0))"
  using stream1_HandleOutput_wire [OF assms(2,1), of sched] stream1_delivers [OF assms(3-5)] by metis

lemma stream1_transfers_witness:
  "\<exists>out sch. stream1_HandleOutput [Some 2, None] [demo_packet [1] [2, 3], demo_packet [] [4]] =
       Some (- 1, out, sch) \<and>
     (\<forall>evs. arrivals evs = out \<and> Closed \<notin> set evs \<and> Arrived [] \<notin> set evs \<longrightarrow>
        (\<exists>s. HandleInputImpl evs (stream1_new (replicate 32 0)) = Some (Some s) \<and>
             s1_received s = [([1], [2, 3]), ([], [4])] \<and> s1_offset s = 0))"
  by (rule stream1_transfers) (simp_all add: demo_packet_holds ok1_def less_Suc_eq nth_Cons')

text \<open>
  Version 1: a frame whose announced length is below the size of the buffer but leaves no room
  for its eight bytes of header is never completed: when the buffer is full the next \<open>recv\<close> asks for
  no bytes, its result 0 is taken for the end of the connection and the object deletes itself.
\<close>

theorem stream1_full_buffer:
  assumes "length x = length mem" and "16 \<le> length mem" and "length mem < 2 ^ 31"
    and "take 8 x = be32 1 @ wr_i32 (int n)" and "n < length mem" and "length mem < n + 8" and "more_bytes \<noteq> []"
  shows "HandleInputImpl [Arrived x, Arrived more_bytes] (stream1_new mem) = Some None"
proof -
  let ?s = "(stream1_new mem)\<lparr>s1_buf := x, s1_offset := int (length mem)\<rparr>"
  have "i32_ok (int n)" using assms(3,5) by (simp add: i32_ok_def)
  moreover have l: "load x 0 4 = Some (be32 1)" "load x 4 4 = Some (wr_i32 (int n))"
    using assms(1,2) arg_cong [OF assms(4), of "take 4"] arg_cong [OF assms(4), of "drop 4"]
    by (simp_all add: load_def drop_take)
  moreover have "rd_i32 (be32 1) = 1" by (simp add: rd_i32_def)
  ultimately have c: "Chunking ?s = Some ?s"
    using assms(1,2,5,6) by (subst Chunking.simps) simp
  have "HandleInputImpl [Arrived more_bytes] ?s = Some None"
    using assms(1,7) by (subst HandleInputImpl.simps) simp
  moreover have "x \<noteq> []" using assms(1,2) by auto
  ultimately show ?thesis
    using c assms(1,2) by (subst HandleInputImpl.simps) (auto simp: stream1_new_def store_def Let_def)
qed

lemma stream1_full_buffer_witness:
  "HandleInputImpl [Arrived (be32 1 @ wr_i32 (int 12) @ replicate 8 0), Arrived [0]]
     (stream1_new (replicate 16 0)) = Some None"
  by (rule stream1_full_buffer [where n = 12]) simp_all

end
