(* ===== verification/RsyncService.thy ===== *)
theory RsyncService
  imports RsyncScan
begin

text \<open>
  \<open>simple_rsync/rsync_service.cpp\<close>: the chunk list of a file and the two scans of an old file for its
  chunks.  \<open>SUMMER\<close> is \<open>Checksum3\<close> with \<open>CHAR_OFFSET\<close> 5.  \<open>CHUNK_SIZE\<close> and \<open>SCAN_BUFFER_SIZE\<close> are
  the arguments \<open>cs\<close> and \<open>sb\<close>, the digest is \<open>md4\<close>.

  \<open>FileUtils::read\<close> with an offset ignores its length: what it allocates holds the file from the
  offset on, and two more bytes that are never set; reading those is a fault here.
\<close>

definition SERVICE_CHUNK_SIZE :: int where
  "SERVICE_CHUNK_SIZE = 1024 * 2 * 1"

definition SCAN_BUFFER_SIZE :: int where
  "SCAN_BUFFER_SIZE = 1024 * 1024 * 20"

section \<open>The chunk list\<close>

text \<open>\<open>buf\<close> is a pointer into the mapping; it is kept for the last, shorter chunk.\<close>

definition service_meta_step ::
  "(byte list \<Rightarrow> byte list) \<Rightarrow> int \<Rightarrow> fsys \<Rightarrow> int \<Rightarrow> file_map \<times> nat option \<times> checksum3 \<Rightarrow>
   ((file_map \<times> nat option \<times> checksum3) \<times> chunk_info) option" where
  "service_meta_step md4 cs fs i st = (case st of (fm, _, summer) \<Rightarrow> do {
     (fm, buf) \<leftarrow> MapFileContent fs (i * cs) cs fm;
     (strong, summer) \<leftarrow> Checksum3_StrongSum md4 (fm_mem fm buf) cs summer;
     m \<leftarrow> fm_mem fm buf;
     weak \<leftarrow> Checksum3_Sum1 5 m cs;
     Some ((fm, buf, summer), \<lparr>ci_weak_sum = weak, ci_from = True, ci_offset = i * cs, ci_length = cs,
                               ci_strong_sum = strong\<rparr>)
   })"

fun service_meta_loop ::
  "(byte list \<Rightarrow> byte list) \<Rightarrow> int \<Rightarrow> fsys \<Rightarrow> nat \<Rightarrow> int \<Rightarrow> file_map \<times> nat option \<times> checksum3 \<Rightarrow>
   ((file_map \<times> nat option \<times> checksum3) \<times> chunk_info list) option" where
  "service_meta_loop md4 cs fs 0 i st = Some (st, [])"
| "service_meta_loop md4 cs fs (Suc k) i st = do {
     (st, c) \<leftarrow> service_meta_step md4 cs fs i st;
     (st, rest) \<leftarrow> service_meta_loop md4 cs fs k (i + 1) st;
     Some (st, c # rest)
   }"

text \<open>
  The strong sum of the last chunk is taken of the first \<open>last\<close> bytes behind \<open>buf\<close>, which still
  points to the chunk before it, or of the bytes in the summer's queue if there was none.
\<close>

definition service_GenerateMetaList ::
  "(byte list \<Rightarrow> byte list) \<Rightarrow> int \<Rightarrow> fsys \<Rightarrow> string \<Rightarrow> checksum3 \<Rightarrow> (chunk_info list \<times> checksum3) option"
  where
  "service_GenerateMetaList md4 cs fs path summer = do {
     let src_size = get_file_size fs path;
     let count = c_div src_size cs;
     fm \<leftarrow> FileMap_new fs path;
     ((fm, buf, summer), file_meta) \<leftarrow> service_meta_loop md4 cs fs (nat count) 0 (fm, None, summer);
     let last = c_mod src_size cs;
     if 0 < last then do {
       (strong, summer) \<leftarrow> Checksum3_StrongSum md4 (fm_mem fm buf) last summer;
       Some (file_meta @ [\<lparr>ci_weak_sum = 0, ci_from = True, ci_offset = max 0 count * cs,
                           ci_length = last, ci_strong_sum = strong\<rparr>], summer)
     }
     else Some (file_meta, summer)
   }"

definition service_GetChunk :: "fsys \<Rightarrow> string \<Rightarrow> int \<Rightarrow> byte list option option" where
  "service_GetChunk fs path offset = map_option snd (fu_read_at fs offset path)"

section \<open>Judging a window\<close>

text \<open>
  The code the scans share: the weak sum is looked up, behind the filter \<open>map\<close> if \<open>filtered\<close>; the
  strong sum is taken of the memory \<open>win\<close>, or of the summer's queue for a null pointer; a chunk
  found is redirected to \<open>pos\<close> in the old file.
\<close>

definition redirect :: "nat \<Rightarrow> int \<Rightarrow> chunk_info list \<Rightarrow> chunk_info list" where
  "redirect k pos meta = meta[k := (meta ! k)\<lparr>ci_from := False, ci_offset := pos\<rparr>]"

definition service_judge ::
  "(byte list \<Rightarrow> byte list) \<Rightarrow> int \<Rightarrow> bool \<Rightarrow> sum_table \<Rightarrow> byte list option \<Rightarrow> int \<Rightarrow>
   checksum3 \<times> chunk_info list \<Rightarrow> (bool \<times> checksum3 \<times> chunk_info list) option" where
  "service_judge md4 cs filtered t win pos st = (case st of (summer, meta) \<Rightarrow>
     let sum1 = ck3_tmp_sum summer in
     if filtered \<and> st_map t (unat (sum1 mod 4096)) \<noteq> 1 then Some (False, summer, meta)
     else case st_sum_offset t sum1 of
       None \<Rightarrow> Some (False, summer, meta)
     | Some k \<Rightarrow> do {
         (strong, summer) \<leftarrow> Checksum3_StrongSum md4 win cs summer;
         require (k < length meta);
         if strong = ci_strong_sum (meta ! k) then Some (True, summer, redirect k pos meta)
         else Some (False, summer, meta)
       })"

section \<open>ScanFile: every window\<close>

text \<open>The inner loop: \<open>i\<close> is the loop variable, \<open>k\<close> turns are left.\<close>

fun service_bytes ::
  "(byte list \<Rightarrow> byte list) \<Rightarrow> int \<Rightarrow> sum_table \<Rightarrow> byte list \<Rightarrow> nat \<Rightarrow> nat \<Rightarrow>
   checksum3 \<times> chunk_info list \<times> int \<Rightarrow> (checksum3 \<times> chunk_info list \<times> int) option" where
  "service_bytes md4 cs t buf 0 i st = Some st"
| "service_bytes md4 cs t buf (Suc k) i (summer, meta, cur) = do {
     b \<leftarrow> peek buf i;
     summer \<leftarrow> Checksum3_Update 5 b summer;
     let cur = cur + 1;
     (_, summer, meta) \<leftarrow>
        service_judge md4 cs True t (Some (drop (nat (int i - cs + 1)) buf)) (cur - cs) (summer, meta);
     service_bytes md4 cs t buf k (i + 1) (summer, meta, cur)
   }"

text \<open>The outer loop; each turn takes at least one byte off \<open>total_left\<close> as long as \<open>sb\<close> is positive.\<close>

function service_windows ::
  "(byte list \<Rightarrow> byte list) \<Rightarrow> int \<Rightarrow> int \<Rightarrow> fsys \<Rightarrow> string \<Rightarrow> sum_table \<Rightarrow> int \<Rightarrow>
   checksum3 \<times> chunk_info list \<times> int \<Rightarrow> (checksum3 \<times> chunk_info list \<times> int) option" where
  "service_windows md4 cs sb fs dst t total_left st =
     (if total_left \<le> 0 then Some st
      else if sb \<le> 0 then None
      else do {
        let buf_len = (if total_left < sb then total_left else sb);
        let read_len = buf_len + cs;
        (_, buf) \<leftarrow> fu_read_at fs (snd (snd st) - cs) dst;
        buf \<leftarrow> buf;
        st \<leftarrow> service_bytes md4 cs t buf (nat (read_len - cs)) (nat cs) st;
        service_windows md4 cs sb fs dst t (total_left - buf_len) st
      })"
  by pat_completeness auto
termination
  by (relation "measure (\<lambda>(_, _, _, _, _, _, total_left, _). nat total_left)") auto

declare service_windows.simps [simp del]

definition service_ScanFile ::
  "(byte list \<Rightarrow> byte list) \<Rightarrow> int \<Rightarrow> int \<Rightarrow> fsys \<Rightarrow> string \<Rightarrow> chunk_info list \<Rightarrow> chunk_info list option"
  where
  "service_ScanFile md4 cs sb fs dst meta = do {
     let t = new_table meta;
     let dst_size = get_file_size fs dst;
     (_, buf) \<leftarrow> fu_read_at fs 0 dst;
     buf \<leftarrow> buf;
     summer \<leftarrow> Checksum3_Init 5 buf cs Checksum3_new;
     (_, summer, meta) \<leftarrow> service_judge md4 cs False t (Some buf) 0 (summer, meta);
     (_, meta, _) \<leftarrow> service_windows md4 cs sb fs dst t (dst_size - cs) (summer, meta, cs);
     Some meta
   }"

section \<open>ScanFile1: chunk by chunk, then byte by byte\<close>

text \<open>
  The loop the client uses, the same as \<open>ScanNewFile\<close> of \<open>librsync\<close>: after a hit it goes on behind the
  window, after a miss it slides the window over up to \<open>CHUNK_SIZE\<close> bytes of the mapping.  \<open>buf\<close> is
  moved whenever a strong sum is computed.
\<close>

record scan1_state =
  s1c_summer :: checksum3
  s1c_meta :: "chunk_info list"
  s1c_fm :: file_map
  s1c_buf :: "nat option"
  s1c_curr :: int

text \<open>The window is mapped only after its sum has been found in the table.\<close>

definition scan1_judge ::
  "(byte list \<Rightarrow> byte list) \<Rightarrow> int \<Rightarrow> fsys \<Rightarrow> sum_table \<Rightarrow> int \<Rightarrow> scan1_state \<Rightarrow>
   (bool \<times> scan1_state) option" where
  "scan1_judge md4 cs fs t pos s =
     (let sum1 = ck3_tmp_sum (s1c_summer s) in
      if st_map t (unat (sum1 mod 4096)) \<noteq> 1 \<or> st_sum_offset t sum1 = None then Some (False, s)
      else do {
        (fm, buf) \<leftarrow> MapFileContent fs pos cs (s1c_fm s);
        (hit, summer, meta) \<leftarrow>
           service_judge md4 cs True t (fm_mem fm buf) pos (s1c_summer s, s1c_meta s);
        Some (hit, s\<lparr>s1c_fm := fm, s1c_buf := buf, s1c_summer := summer, s1c_meta := meta\<rparr>)
      })"

fun scan1_inner ::
  "(byte list \<Rightarrow> byte list) \<Rightarrow> int \<Rightarrow> fsys \<Rightarrow> sum_table \<Rightarrow> nat \<Rightarrow> nat \<Rightarrow> scan1_state \<Rightarrow>
   scan1_state option" where
  "scan1_inner md4 cs fs t 0 i s = Some s"
| "scan1_inner md4 cs fs t (Suc k) i s = do {
     buf \<leftarrow> fm_mem (s1c_fm s) (s1c_buf s);
     b \<leftarrow> peek buf i;
     summer \<leftarrow> Checksum3_Update 5 b (s1c_summer s);
     (hit, s) \<leftarrow> scan1_judge md4 cs fs t (s1c_curr s - cs + 1) (s\<lparr>s1c_summer := summer\<rparr>);
     if hit then Some s
     else scan1_inner md4 cs fs t k (i + 1) (s\<lparr>s1c_curr := s1c_curr s + 1\<rparr>)
   }"

definition scan1_turn ::
  "(byte list \<Rightarrow> byte list) \<Rightarrow> int \<Rightarrow> fsys \<Rightarrow> sum_table \<Rightarrow> int \<Rightarrow> scan1_state \<Rightarrow> scan1_state option"
  where
  "scan1_turn md4 cs fs t dst_size s = do {
     (fm, buf) \<leftarrow> MapFileContent fs (s1c_curr s) cs (s1c_fm s);
     m \<leftarrow> fm_mem fm buf;
     summer \<leftarrow> Checksum3_Init 5 m cs (s1c_summer s);
     let s = s\<lparr>s1c_fm := fm, s1c_buf := buf, s1c_summer := summer, s1c_curr := s1c_curr s + cs\<rparr>;
     (hit, s) \<leftarrow> scan1_judge md4 cs fs t (s1c_curr s - cs) s;
     if hit then Some s
     else do {
       let map_length = dst_size - s1c_curr s;
       let map_length = (if cs < map_length then cs else map_length);
       (fm, buf) \<leftarrow> MapFileContent fs (s1c_curr s) map_length (s1c_fm s);
       scan1_inner md4 cs fs t (nat cs) 0 (s\<lparr>s1c_fm := fm, s1c_buf := buf\<rparr>)
     }
   }"

partial_function (option) scan1_loop ::
  "(byte list \<Rightarrow> byte list) \<Rightarrow> int \<Rightarrow> fsys \<Rightarrow> sum_table \<Rightarrow> int \<Rightarrow> scan1_state \<Rightarrow> scan1_state option"
  where
  "scan1_loop md4 cs fs t dst_size s =
     (if dst_size < s1c_curr s + cs then Some s
      else do {
        s \<leftarrow> scan1_turn md4 cs fs t dst_size s;
        scan1_loop md4 cs fs t dst_size s
      })"

declare scan1_loop.simps [code]

text \<open>The first \<open>None\<close> is the null list that a failed \<open>GetMeta\<close> gives.\<close>

definition service_ScanFile1 ::
  "(byte list \<Rightarrow> byte list) \<Rightarrow> int \<Rightarrow> fsys \<Rightarrow> string \<Rightarrow> chunk_info list option \<Rightarrow> chunk_info list option"
  where
  "service_ScanFile1 md4 cs fs dst meta = do {
     meta \<leftarrow> meta;
     let t = new_table meta;
     let dst_size = get_file_size fs dst;
     fm \<leftarrow> FileMap_new fs dst;
     s \<leftarrow> scan1_loop md4 cs fs t dst_size
            \<lparr>s1c_summer = Checksum3_new, s1c_meta = meta, s1c_fm = fm, s1c_buf = None, s1c_curr = 0\<rparr>;
     Some (s1c_meta s)
   }"

section \<open>The program scan\<close>

text \<open>\<open>simple_rsync/scan.cpp\<close> rolls the weak sum over a file and reports nothing but the time.\<close>

fun roll_bytes :: "byte list \<Rightarrow> nat \<Rightarrow> nat \<Rightarrow> checksum3 \<Rightarrow> checksum3 option" where
  "roll_bytes buf 0 i summer = Some summer"
| "roll_bytes buf (Suc k) i summer = do {
     b \<leftarrow> peek buf i;
     summer \<leftarrow> Checksum3_Update 5 b summer;
     roll_bytes buf k (i + 1) summer
   }"

function scan_roll ::
  "int \<Rightarrow> fsys \<Rightarrow> int \<Rightarrow> int \<Rightarrow> file_map \<times> checksum3 \<Rightarrow> (file_map \<times> checksum3) option" where
  "scan_roll cs fs total_left cur st =
     (if total_left \<le> 0 then Some st
      else if cs \<le> 0 then None
      else do {
        let buf_len = (if total_left < cs then total_left else cs);
        (fm, buf) \<leftarrow> MapFileContent fs cur buf_len (fst st);
        buf \<leftarrow> fm_mem fm buf;
        summer \<leftarrow> roll_bytes buf (nat buf_len) 0 (snd st);
        scan_roll cs fs (total_left - buf_len) (cur + buf_len) (fm, summer)
      })"
  by pat_completeness auto
termination
  by (relation "measure (\<lambda>(_, _, total_left, _, _). nat total_left)") auto

declare scan_roll.simps [simp del]

definition scan_file :: "int \<Rightarrow> fsys \<Rightarrow> string \<Rightarrow> checksum3 option" where
  "scan_file cs fs file_name = do {
     let dst_size = get_file_size fs file_name;
     fm \<leftarrow> FileMap_new fs file_name;
     (fm, buf) \<leftarrow> MapFileContent fs 0 cs fm;
     buf \<leftarrow> fm_mem fm buf;
     summer \<leftarrow> Checksum3_Init 5 buf cs Checksum3_new;
     (_, summer) \<leftarrow> scan_roll cs fs (dst_size - cs) cs (fm, summer);
     Some summer
   }"

end
