(* ===== verification/ServiceScan.thy ===== *)
theory ServiceScan
  imports RsyncService
begin

text \<open>
  What the scans of \<open>simple_rsync\<close> compute.  \<open>ScanFile\<close>, with its rolling sums, its filter and its
  pieces of the file, is the plain loop over all windows of the old file (\<open>mark_all\<close>).  \<open>ScanFile1\<close>
  returns, and redirects a chunk only to a place whose bytes, as far as the old file goes, belong to a
  window with the strong sum of the chunk (\<open>marked\<close>).
\<close>

section \<open>Windows and tables\<close>

definition window :: "nat \<Rightarrow> byte list \<Rightarrow> nat \<Rightarrow> byte list" where
  "window C D p = take C (drop p D)"

definition weak5 :: "byte list \<Rightarrow> u32" where
  "weak5 w = ck3_pack (ck3_s1 5 w) (ck3_s2 5 w)"

lemma length_window [simp]: "p + C \<le> length D \<Longrightarrow> length (window C D p) = C"
  by (simp add: window_def)

lemma window_slide:
  assumes "p + C < length D" and "0 < C"
  shows "tl (window C D p @ [D ! (p + C)]) = window C D (Suc p)"
proof -
  have "window C D p @ [D ! (p + C)] = take (Suc C) (drop p D)"
    using assms(1) by (simp add: window_def take_Suc_conv_app_nth)
  moreover have "drop p D = D ! p # drop (Suc p) D" using assms by (simp add: Cons_nth_drop_Suc)
  ultimately show ?thesis by (simp add: window_def)
qed

lemma live_sum: "ck3_live 5 L s \<Longrightarrow> ck3_tmp_sum s = weak5 (ck3_window s)"
  by (simp add: ck3_live_def ck3_window_def weak5_def)

text \<open>The filter never hides a chunk, and the table refers to chunks of the list.\<close>

definition table_sound :: "nat \<Rightarrow> sum_table \<Rightarrow> bool" where
  "table_sound n t \<longleftrightarrow>
     (\<forall>s k. st_sum_offset t s = Some k \<longrightarrow> k < n \<and> st_map t (unat (s mod 4096)) = 1)"

lemma fill_table_filter:
  "\<forall>s k. st_sum_offset t s = Some k \<longrightarrow> st_map t (unat (s mod 4096)) = 1 \<Longrightarrow>
   st_sum_offset (fill_table cs i t) s = Some k \<Longrightarrow> st_map (fill_table cs i t) (unat (s mod 4096)) = 1"
proof (induction cs i t rule: fill_table.induct)
  case (1 i t)
  then show ?case by simp
next
  case (2 c cs i t)
  show ?case
    using 2(1) [OF refl refl] 2(2,3) by (auto simp: Let_def split: if_splits)
qed

lemma new_table_sound: "table_sound (length meta) (new_table meta)"
  using new_table_ok [of meta]
    fill_table_filter [of "\<lparr>st_map = (\<lambda>_. 0), st_sum_offset = Map.empty\<rparr>" meta 0]
  by (fastforce simp: table_sound_def table_ok_def new_table_def)

text \<open>The table finds, for a sum, the last chunk of the list that has it.\<close>

lemma fill_table_last:
  "st_sum_offset (fill_table cs i t) s =
     (case find (\<lambda>j. ci_weak_sum (cs ! j) = s) (rev [0..<length cs]) of
        Some j \<Rightarrow> Some (i + j) | None \<Rightarrow> st_sum_offset t s)"
proof (induction cs i t rule: fill_table.induct)
  case (2 c cs i t)
  have "[0..<length (c # cs)] = 0 # map Suc [0..<length cs]" by (simp add: upt_conv_Cons map_Suc_upt del: upt_Suc)
  moreover have "find (\<lambda>j. ci_weak_sum ((c # cs) ! j) = s) (map Suc js @ [0]) =
      (case find (\<lambda>j. ci_weak_sum (cs ! j) = s) js of Some j \<Rightarrow> Some (Suc j)
       | None \<Rightarrow> if ci_weak_sum c = s then Some 0 else None)" for js
    by (induction js) auto
  ultimately show ?case
    using 2 by (auto simp: Let_def rev_map split: option.splits)
qed simp

section \<open>The plain loop\<close>

definition mark ::
  "(byte list \<Rightarrow> byte list) \<Rightarrow> sum_table \<Rightarrow> byte list \<Rightarrow> int \<Rightarrow> chunk_info list \<Rightarrow> chunk_info list" where
  "mark md4 t w pos meta =
     (case st_sum_offset t (weak5 w) of
        None \<Rightarrow> meta
      | Some k \<Rightarrow> if hex_string (md4 w) = ci_strong_sum (meta ! k) then redirect k pos meta else meta)"

definition mark_all ::
  "(byte list \<Rightarrow> byte list) \<Rightarrow> nat \<Rightarrow> sum_table \<Rightarrow> byte list \<Rightarrow> nat list \<Rightarrow> chunk_info list \<Rightarrow> chunk_info list"
  where
  "mark_all md4 C t D ps meta = fold (\<lambda>p. mark md4 t (window C D p) (int p)) ps meta"

lemma length_redirect [simp]: "length (redirect k pos meta) = length meta"
  by (simp add: redirect_def)

lemma redirect_nth:
  "k < length meta \<Longrightarrow> redirect j pos meta ! k =
     (if j = k then (meta ! k)\<lparr>ci_from := False, ci_offset := pos\<rparr> else meta ! k)"
  by (auto simp: redirect_def)

lemma length_mark [simp]: "length (mark md4 t w pos meta) = length meta"
  by (simp add: mark_def split: option.split)

lemma length_mark_all [simp]: "length (mark_all md4 C t D ps meta) = length meta"
  by (induction ps arbitrary: meta) (simp_all add: mark_all_def)

lemma mark_all_simps [simp]:
  "mark_all md4 C t D [] meta = meta"
  "mark_all md4 C t D (p # ps) meta = mark_all md4 C t D ps (mark md4 t (window C D p) (int p) meta)"
  "mark_all md4 C t D (ps @ qs) meta = mark_all md4 C t D qs (mark_all md4 C t D ps meta)"
  by (simp_all add: mark_all_def)

lemma service_judge_mark:
  assumes t: "table_sound (length meta) t" and s: "ck3_live 5 C s" "ck3_window s = w"
    and m: "load m 0 C = Some w"
  shows "\<exists>hit. service_judge md4 (int C) filtered t (Some m) pos (s, meta) =
           Some (hit, s, mark md4 t w pos meta)"
proof -
  have st: "Checksum3_StrongSum md4 (Some m) (int C) s = Some (hex_string (md4 w), s)"
    using Checksum3_StrongSum_data [of "int C" m w md4 s] m by simp
  have sum: "ck3_tmp_sum s = weak5 w" using live_sum s by blast
  show ?thesis
  proof (cases "st_sum_offset t (weak5 w)")
    case None
    then show ?thesis by (intro exI [of _ False]) (simp add: service_judge_def mark_def sum Let_def)
  next
    case (Some k)
    with t have "k < length meta" "st_map t (unat (weak5 w mod 4096)) = 1"
      by (auto simp: table_sound_def)
    with Some st show ?thesis by (auto simp: service_judge_def mark_def sum Let_def)
  qed
qed

section \<open>ScanFile is the plain loop\<close>

lemma service_bytes_marks:
  assumes "ck3_live 5 C s" and "ck3_window s = window C D (b + i - C)" and "table_sound (length meta) t"
    and "C \<le> i" and "b + i + k \<le> length D" and "0 < C"
  shows "\<exists>s'. service_bytes md4 (int C) t (drop b D) k i (s, meta, int (b + i)) =
           Some (s', mark_all md4 C t D [Suc (b + i - C)..<Suc (b + i - C) + k] meta, int (b + i + k)) \<and>
         ck3_live 5 C s' \<and> ck3_window s' = window C D (b + i + k - C)"
  using assms(1-5)
proof (induction k arbitrary: i s meta)
  case 0
  then show ?case by simp
next
  case (Suc k)
  define p where "p = b + i - C"
  have p: "p + C = b + i" "b + (i + 1) - C = Suc p" using Suc.prems(4) by (auto simp: p_def)
  have pk: "peek (drop b D) i = Some (D ! (p + C))"
    using Suc.prems(5) p(1) by (simp add: peek_def)
  from checksum3.update_law [OF Suc.prems(1), of "D ! (p + C)"] obtain s1 where
    s1: "Checksum3_Update 5 (D ! (p + C)) s = Some s1" "ck3_live 5 C s1"
      "ck3_window s1 = tl (ck3_window s @ [D ! (p + C)])" by blast
  have w1: "ck3_window s1 = window C D (Suc p)"
    using s1(3) Suc.prems(2,5) p(1) window_slide [of p C D] assms(6) by (simp add: p_def)
  have "nat (int i - int C + 1) = i + 1 - C" using Suc.prems(4) by linarith
  then have m: "drop (nat (int i - int C + 1)) (drop b D) = drop (Suc p) D"
    using p Suc.prems(4) by (simp add: add.commute)
  have l: "load (drop (Suc p) D) 0 C = Some (window C D (Suc p))"
    using Suc.prems(5) p(1) by (simp add: load_def window_def)
  define meta1 where "meta1 = mark md4 t (window C D (Suc p)) (int (Suc p)) meta"
  obtain hit where j: "service_judge md4 (int C) True t (Some (drop (Suc p) D)) (int (Suc p)) (s1, meta) =
      Some (hit, s1, meta1)"
    using service_judge_mark [OF Suc.prems(3) s1(2) w1 l] unfolding meta1_def by blast
  have pos: "int (b + i) + 1 - int C = int (Suc p)" using p by linarith
  have "service_bytes md4 (int C) t (drop b D) (Suc k) i (s, meta, int (b + i)) =
      service_bytes md4 (int C) t (drop b D) k (i + 1) (s1, meta1, int (b + (i + 1)))"
    by (simp only: service_bytes.simps pk Option.bind.bind_lunit s1(1) Let_def m pos j prod.case)
      (simp add: add.commute)
  moreover have "\<exists>s'. service_bytes md4 (int C) t (drop b D) k (i + 1) (s1, meta1, int (b + (i + 1))) =
      Some (s', mark_all md4 C t D [Suc (b + (i + 1) - C)..<Suc (b + (i + 1) - C) + k] meta1,
            int (b + (i + 1) + k)) \<and>
      ck3_live 5 C s' \<and> ck3_window s' = window C D (b + (i + 1) + k - C)"
    by (rule Suc.IH) (use s1(2) w1 p Suc.prems(3-5) in \<open>simp_all add: meta1_def\<close>)
  moreover have "[Suc p..<Suc p + Suc k] = Suc p # [Suc (Suc p)..<Suc (Suc p) + k]"
    by (simp add: upt_conv_Cons)
  ultimately show ?case
    unfolding p(2) p_def [symmetric] by (simp add: meta1_def add.assoc del: upt_Suc)
qed

lemma service_windows_marks:
  assumes "fs_files fs dst = Some D" and "\<not> fs_denied fs dst" and "int (length D) < 2 ^ 31"
    and "0 < sb" and "0 < C"
    and "ck3_live 5 C s" and "ck3_window s = window C D (c - C)" and "table_sound (length meta) t"
    and "C \<le> c" and "c \<le> length D"
  shows "\<exists>s'. service_windows md4 (int C) sb fs dst t (int (length D) - int c) (s, meta, int c) =
     Some (s', mark_all md4 C t D [Suc (c - C)..<Suc (length D - C)] meta, int (length D))"
  using assms(6-10)
proof (induction "length D - c" arbitrary: c s meta rule: less_induct)
  case less
  show ?case
  proof (cases "c = length D")
    case True
    then show ?thesis by (subst service_windows.simps) simp
  next
    case False
    define n where "n = (if int (length D) - int c < sb then length D - c else nat sb)"
    have n: "(if int (length D) - int c < sb then int (length D) - int c else sb) = int n"
      "0 < n" "c + n \<le> length D"
      using False assms(4) less.prems(5) by (auto simp: n_def)
    define b where "b = c - C"
    have b: "b + C = c" "int c - int C = int b" using less.prems(4) by (auto simp: b_def)
    obtain r where rd: "fu_read_at fs (int b) dst = Some (r, Some (drop b D))"
      using fu_read_at_ok [OF assms(1-3)] by blast
    have "nat (int n + int C - int C) = n" by simp
    obtain s1 where s1: "service_bytes md4 (int C) t (drop b D) n C (s, meta, int c) =
        Some (s1, mark_all md4 C t D [Suc b..<Suc b + n] meta, int (c + n))"
        "ck3_live 5 C s1" "ck3_window s1 = window C D (c + n - C)"
      using service_bytes_marks [of C s D b C meta t n md4] less.prems(1-3) n(3) b assms(5)
      by (auto simp: b_def [symmetric] simp del: upt_Suc)
    define meta1 where "meta1 = mark_all md4 C t D [Suc b..<Suc b + n] meta"
    have "length D - (c + n) < length D - c" using n(2,3) by linarith
    from less.hyps [OF this, of s1 meta1] s1(2,3) less.prems(3,4) n(3)
    obtain s2 where s2: "service_windows md4 (int C) sb fs dst t (int (length D) - int (c + n))
          (s1, meta1, int (c + n)) =
        Some (s2, mark_all md4 C t D [Suc (c + n - C)..<Suc (length D - C)] meta1, int (length D))"
      by (auto simp: meta1_def)
    have "service_windows md4 (int C) sb fs dst t (int (length D) - int c) (s, meta, int c) =
        service_windows md4 (int C) sb fs dst t (int (length D) - int (c + n)) (s1, meta1, int (c + n))"
      using False less.prems(5) assms(4) rd s1(1) b(2)
      by (subst service_windows.simps) (simp add: n(1) Let_def meta1_def diff_diff_add)
    moreover have e: "Suc (c + n - C) = Suc b + n" "Suc (length D - C) = (Suc b + n) + (length D - (c + n))"
      using b(1) n(3) by linarith+
    have "[Suc b..<Suc (length D - C)] = [Suc b..<Suc b + n] @ [Suc (c + n - C)..<Suc (length D - C)]"
      unfolding e by (simp only: upt_add_eq_append [OF le_add1] append_assoc)
    ultimately show ?thesis using s2 by (simp add: meta1_def b_def [symmetric])
  qed
qed

lemma ScanFile_marks:
  assumes f: "fs_files fs dst = Some D" "\<not> fs_denied fs dst" "int (length D) < 2 ^ 31"
    and sb: "0 < sb" and C: "0 < C" "C < 4194312" "C \<le> length D"
  shows "service_ScanFile md4 (int C) sb fs dst meta =
           Some (mark_all md4 C (new_table meta) D [0..<Suc (length D - C)] meta)"
proof -
  let ?t = "new_table meta"
  have size: "get_file_size fs dst = int (length D)" using f(1,3) by (rule get_file_size_small)
  obtain r where rd: "fu_read_at fs 0 dst = Some (r, Some D)"
    using fu_read_at_ok [OF f, of 0] by auto
  have l: "load D 0 C = Some (window C D 0)" using C(3) by (simp add: load_def window_def)
  from checksum3.init_law [OF Checksum3_new_ready [OF C(2)] C(1) l] obtain s where
    s: "Checksum3_Init 5 D (int C) Checksum3_new = Some s" "ck3_live 5 C s" "ck3_window s = window C D 0"
    by blast
  define meta1 where "meta1 = mark md4 ?t (window C D 0) 0 meta"
  obtain hit where j: "service_judge md4 (int C) False ?t (Some D) 0 (s, meta) = Some (hit, s, meta1)"
    using service_judge_mark [OF new_table_sound s(2,3) l] unfolding meta1_def by blast
  obtain s2 where "service_windows md4 (int C) sb fs dst ?t (int (length D) - int C) (s, meta1, int C) =
      Some (s2, mark_all md4 C ?t D [Suc 0..<Suc (length D - C)] meta1, int (length D))"
    using service_windows_marks [OF f sb C(1) s(2), of C meta1 ?t md4] s(3) C(3) new_table_sound [of meta]
    by (auto simp: meta1_def simp del: upt_Suc)
  then have "service_ScanFile md4 (int C) sb fs dst meta =
      Some (mark_all md4 C ?t D [Suc 0..<Suc (length D - C)] meta1)"
    using size rd s(1) j by (simp add: service_ScanFile_def Let_def)
  moreover have "[0..<Suc (length D - C)] = 0 # [Suc 0..<Suc (length D - C)]" by (simp add: upt_conv_Cons)
  ultimately show ?thesis by (simp add: meta1_def del: upt_Suc)
qed

section \<open>Chunks that were redirected\<close>

text \<open>
  \<open>marked\<close>: each chunk is as it was, or is redirected to a place in the old file whose bytes, as far
  as the file goes, begin a window with the strong sum of the chunk.
\<close>

definition marked ::
  "(byte list \<Rightarrow> byte list) \<Rightarrow> nat \<Rightarrow> byte list \<Rightarrow> chunk_info list \<Rightarrow> chunk_info list \<Rightarrow> bool" where
  "marked md4 C D meta R \<longleftrightarrow> length R = length meta \<and>
     (\<forall>k < length meta. R ! k = meta ! k \<or>
        (\<exists>p w. R ! k = (meta ! k)\<lparr>ci_from := False, ci_offset := int p\<rparr> \<and> p \<le> length D \<and>
           length w = C \<and> agrees D p w \<and> hex_string (md4 w) = ci_strong_sum (meta ! k)))"

lemma marked_refl [simp]: "marked md4 C D meta meta"
  by (simp add: marked_def)

lemma marked_strong:
  "marked md4 C D meta R \<Longrightarrow> k < length meta \<Longrightarrow> ci_strong_sum (R ! k) = ci_strong_sum (meta ! k)"
  by (auto simp: marked_def)

lemma marked_redirect:
  assumes R: "marked md4 C D meta R" and k: "k < length meta" and p: "p \<le> length D"
    and w: "length w = C" "agrees D p w" "hex_string (md4 w) = ci_strong_sum (R ! k)"
  shows "marked md4 C D meta (redirect k (int p) R)"
  unfolding marked_def
proof (intro conjI allI impI)
  show "length (redirect k (int p) R) = length meta" using R by (simp add: marked_def)
  fix j
  assume j: "j < length meta"
  show "redirect k (int p) R ! j = meta ! j \<or>
      (\<exists>p' w. redirect k (int p) R ! j = (meta ! j)\<lparr>ci_from := False, ci_offset := int p'\<rparr> \<and>
         p' \<le> length D \<and> length w = C \<and> agrees D p' w \<and> hex_string (md4 w) = ci_strong_sum (meta ! j))"
  proof (cases "j = k")
    case False
    then have "redirect k (int p) R ! j = R ! j" by (simp add: redirect_def)
    with R j show ?thesis by (simp add: marked_def)
  next
    case True
    have "redirect k (int p) R ! k = (meta ! k)\<lparr>ci_from := False, ci_offset := int p\<rparr>"
      using R k by (auto simp: marked_def redirect_def)
    moreover have "hex_string (md4 w) = ci_strong_sum (meta ! k)" using w(3) marked_strong [OF R k] by simp
    ultimately show ?thesis using True p w(1,2) by blast
  qed
qed

lemma marked_mark:
  assumes "marked md4 C D meta R" and "table_sound (length meta) t" and "p + C \<le> length D"
  shows "marked md4 C D meta (mark md4 t (window C D p) (int p) R)"
proof -
  have "agrees D p (window C D p)" using assms(3) by (simp add: agrees_inside window_def)
  then show ?thesis
    using assms marked_redirect [OF assms(1), of _ p "window C D p"]
    by (auto simp: mark_def table_sound_def split: option.split)
qed

lemma marked_mark_all:
  assumes "marked md4 C D meta R" and "table_sound (length meta) t" and "\<forall>p \<in> set ps. p + C \<le> length D"
  shows "marked md4 C D meta (mark_all md4 C t D ps R)"
  using assms by (induction ps arbitrary: R) (simp_all add: marked_mark)

text \<open>Every window with the sums of a chunk the table knows leaves that chunk redirected.\<close>

lemma mark_all_keeps:
  "k < length R \<Longrightarrow> \<not> ci_from (R ! k) \<Longrightarrow> \<not> ci_from (mark_all md4 C t D ps R ! k)"
proof (induction ps arbitrary: R)
  case (Cons p ps)
  have "\<not> ci_from (mark md4 t (window C D p) (int p) R ! k)"
    using Cons.prems by (auto simp: mark_def redirect_nth split: option.split)
  with Cons show ?case by simp
qed simp

lemma mark_all_strong:
  "k < length R \<Longrightarrow> ci_strong_sum (mark_all md4 C t D ps R ! k) = ci_strong_sum (R ! k)"
proof (induction ps arbitrary: R)
  case (Cons p ps)
  have "ci_strong_sum (mark md4 t (window C D p) (int p) R ! k) = ci_strong_sum (R ! k)"
    using Cons.prems by (auto simp: mark_def redirect_nth split: option.split)
  with Cons show ?case by simp
qed simp

lemma mark_all_finds:
  assumes "k < length R" and "p \<in> set ps" and "st_sum_offset t (weak5 (window C D p)) = Some k"
    and "hex_string (md4 (window C D p)) = ci_strong_sum (R ! k)"
  shows "\<not> ci_from (mark_all md4 C t D ps R ! k)"
proof -
  from assms(2) obtain xs ys where ps: "ps = xs @ p # ys" by (auto simp: in_set_conv_decomp)
  let ?R1 = "mark_all md4 C t D xs R"
  have "\<not> ci_from (mark md4 t (window C D p) (int p) ?R1 ! k)"
    using assms mark_all_strong [of k R md4 C t D xs] by (simp add: mark_def redirect_def)
  then show ?thesis using mark_all_keeps assms(1) by (simp add: ps)
qed

section \<open>ScanFile1 returns marked chunks\<close>

definition scan1_inv ::
  "(byte list \<Rightarrow> byte list) \<Rightarrow> nat \<Rightarrow> byte list \<Rightarrow> fsys \<Rightarrow> string \<Rightarrow> chunk_info list \<Rightarrow> scan1_state \<Rightarrow> bool"
  where
  "scan1_inv md4 C D fs p meta s \<longleftrightarrow> fm_ok fs p D (s1c_fm s) \<and> marked md4 C D meta (s1c_meta s)"

definition scan1_readable :: "nat \<Rightarrow> scan1_state \<Rightarrow> bool" where
  "scan1_readable C s \<longleftrightarrow> (\<exists>m. fm_mem (s1c_fm s) (s1c_buf s) = Some m \<and> C \<le> length m)"

lemma scan1_judge_ok:
  assumes inv: "scan1_inv md4 C D fs p meta s" and t: "table_sound (length meta) t"
    and C: "C \<le> length D" and C30: "int C \<le> 2 ^ 30" and pos: "pos \<le> length D"
  shows "\<exists>hit s'. scan1_judge md4 (int C) fs t (int pos) s = Some (hit, s') \<and>
           s1c_summer s' = s1c_summer s \<and> s1c_curr s' = s1c_curr s \<and> scan1_inv md4 C D fs p meta s' \<and>
           (scan1_readable C s \<longrightarrow> scan1_readable C s')"
proof (cases "st_sum_offset t (ck3_tmp_sum (s1c_summer s))")
  case None
  then show ?thesis using inv by (intro exI [of _ False]) (simp add: scan1_judge_def Let_def)
next
  case (Some k)
  with t have k: "k < length meta" "st_map t (unat (ck3_tmp_sum (s1c_summer s) mod 4096)) = 1"
    by (auto simp: table_sound_def)
  from inv have fm: "fm_ok fs p D (s1c_fm s)" and mk: "marked md4 C D meta (s1c_meta s)"
    by (simp_all add: scan1_inv_def)
  from MapFileContent_ok [OF fm pos C30] C obtain fm' q m where
    map: "MapFileContent fs (int pos) (int C) (s1c_fm s) = Some (fm', q)" and fm': "fm_ok fs p D fm'"
      and m: "fm_mem fm' q = Some m" and sh: "fm_shows D pos C m" by auto
  from sh obtain w where w: "load m 0 C = Some w" "length w = C" "agrees D pos w"
    by (auto simp: fm_shows_def agrees_def)
  have st: "Checksum3_StrongSum md4 (Some m) (int C) (s1c_summer s) =
      Some (hex_string (md4 w), s1c_summer s)"
    using Checksum3_StrongSum_data [of "int C" m w md4] w(1) by simp
  have len: "C \<le> length m" using w(1) by (auto simp: load_def split: if_splits)
  have kR: "k < length (s1c_meta s)" using k(1) mk by (simp add: marked_def)
  define hit where "hit = (hex_string (md4 w) = ci_strong_sum (s1c_meta s ! k))"
  define s' where "s' = s\<lparr>s1c_fm := fm', s1c_buf := q,
      s1c_meta := (if hit then redirect k (int pos) (s1c_meta s) else s1c_meta s)\<rparr>"
  have "scan1_judge md4 (int C) fs t (int pos) s = Some (hit, s')"
    using Some k map m st kR by (simp add: scan1_judge_def service_judge_def Let_def hit_def s'_def)
  moreover have "scan1_inv md4 C D fs p meta s'"
    using fm' mk marked_redirect [OF mk k(1) pos w(2,3)] by (simp add: scan1_inv_def s'_def hit_def)
  moreover have "scan1_readable C s'" using m len by (simp add: scan1_readable_def s'_def)
  ultimately show ?thesis by (simp add: s'_def)
qed

lemma scan1_inner_ok:
  assumes "scan1_inv md4 C D fs p meta s" and "ck3_live 5 C (s1c_summer s)" and "scan1_readable C s"
    and "s1c_curr s = int c" and "i + k = C" and "C \<le> c" and "c + k \<le> length D + C"
    and hyps: "table_sound (length meta) t" "C \<le> length D" "int C \<le> 2 ^ 30"
  shows "\<exists>s' c'. scan1_inner md4 (int C) fs t k i s = Some s' \<and> scan1_inv md4 C D fs p meta s' \<and>
           ck3_live 5 C (s1c_summer s') \<and> s1c_curr s' = int c' \<and> c \<le> c'"
  using assms(1-7)
proof (induction k arbitrary: i s c)
  case 0
  then show ?case by auto
next
  case (Suc k)
  from Suc.prems(3) obtain m where m: "fm_mem (s1c_fm s) (s1c_buf s) = Some m" "C \<le> length m"
    by (auto simp: scan1_readable_def)
  have pk: "peek m i = Some (m ! i)" using m(2) Suc.prems(5) by (simp add: peek_def)
  from checksum3.update_law [OF Suc.prems(2), of "m ! i"] obtain sm where
    sm: "Checksum3_Update 5 (m ! i) (s1c_summer s) = Some sm" "ck3_live 5 C sm" by blast
  define s1 where "s1 = s\<lparr>s1c_summer := sm\<rparr>"
  have s1: "scan1_inv md4 C D fs p meta s1" "scan1_readable C s1" "s1c_summer s1 = sm"
      "s1c_curr s1 = int c"
    using Suc.prems by (simp_all add: s1_def scan1_inv_def scan1_readable_def)
  define pos where "pos = c + 1 - C"
  have pos: "int c - int C + 1 = int pos" "pos \<le> length D"
    using Suc.prems(6,7) by (auto simp: pos_def)
  from scan1_judge_ok [OF s1(1) hyps pos(2)] s1 obtain hit s2 where
    j: "scan1_judge md4 (int C) fs t (int pos) s1 = Some (hit, s2)" "s1c_summer s2 = sm"
      "s1c_curr s2 = int c" "scan1_inv md4 C D fs p meta s2" "scan1_readable C s2" by metis
  have step: "scan1_inner md4 (int C) fs t (Suc k) i s =
      (if hit then Some s2 else scan1_inner md4 (int C) fs t k (i + 1) (s2\<lparr>s1c_curr := int c + 1\<rparr>))"
    using m(1) pk sm(1) j(1,3) Suc.prems(4) pos(1) by (simp add: s1_def)
  show ?case
  proof (cases hit)
    case True
    with step j(2-4) sm(2) show ?thesis by auto
  next
    case False
    define s3 where "s3 = s2\<lparr>s1c_curr := int (c + 1)\<rparr>"
    have "scan1_inv md4 C D fs p meta s3" "ck3_live 5 C (s1c_summer s3)" "scan1_readable C s3"
        "s1c_curr s3 = int (c + 1)"
      using j sm(2) by (simp_all add: s3_def scan1_inv_def scan1_readable_def)
    from Suc.IH [OF this, of "i + 1"] Suc.prems(5-7) obtain s' c' where
      "scan1_inner md4 (int C) fs t k (i + 1) s3 = Some s'" "scan1_inv md4 C D fs p meta s'"
      "ck3_live 5 C (s1c_summer s')" "s1c_curr s' = int c'" "c + 1 \<le> c'" by auto
    moreover have "s3 = s2\<lparr>s1c_curr := int c + 1\<rparr>" by (simp add: s3_def add.commute)
    ultimately show ?thesis
      using False step by (intro exI [of _ s'] exI [of _ c']) simp
  qed
qed

lemma scan1_turn_ok:
  assumes inv: "scan1_inv md4 C D fs p meta s" and ready: "ck3_ready C (s1c_summer s)"
    and cc: "s1c_curr s = int c" and inside: "c + C \<le> length D" and C0: "0 < C"
    and hyps: "table_sound (length meta) t" "C \<le> length D" "int C \<le> 2 ^ 30"
  shows "\<exists>s' c'. scan1_turn md4 (int C) fs t (int (length D)) s = Some s' \<and>
           scan1_inv md4 C D fs p meta s' \<and> ck3_ready C (s1c_summer s') \<and>
           s1c_curr s' = int c' \<and> c + C \<le> c'"
proof -
  from inv have fm: "fm_ok fs p D (s1c_fm s)" by (simp add: scan1_inv_def)
  from MapFileContent_ok [OF fm _ hyps(3), of c] inside hyps(2) obtain fm1 q1 m1 where
    map1: "MapFileContent fs (int c) (int C) (s1c_fm s) = Some (fm1, q1)" "fm_ok fs p D fm1"
      "fm_mem fm1 q1 = Some m1" and sh: "fm_shows D c C m1" by auto
  have l: "load m1 0 C = Some (take C (drop c D))" using fm_shows_inside [OF sh inside] .
  from checksum3.init_law [OF ready C0 l] obtain sm where
    sm: "Checksum3_Init 5 m1 (int C) (s1c_summer s) = Some sm" "ck3_live 5 C sm" by blast
  define s1 where "s1 = s\<lparr>s1c_fm := fm1, s1c_buf := q1, s1c_summer := sm, s1c_curr := int (c + C)\<rparr>"
  have s1: "scan1_inv md4 C D fs p meta s1" "s1c_summer s1 = sm" "s1c_curr s1 = int (c + C)"
    using inv map1 by (simp_all add: s1_def scan1_inv_def)
  have "c \<le> length D" using inside by simp
  from scan1_judge_ok [OF s1(1) hyps this] s1 obtain hit s2 where
    j: "scan1_judge md4 (int C) fs t (int c) s1 = Some (hit, s2)" "s1c_summer s2 = sm"
      "s1c_curr s2 = int (c + C)" "scan1_inv md4 C D fs p meta s2" by metis
  define ml where "ml = min C (length D - (c + C))"
  have ml: "(if int C < int (length D) - int (c + C) then int C
      else int (length D) - int (c + C)) = int ml"
    using inside by (auto simp: ml_def)
  have step: "scan1_turn md4 (int C) fs t (int (length D)) s =
      (if hit then Some s2 else do {
         (fm, q) \<leftarrow> MapFileContent fs (int (c + C)) (int ml) (s1c_fm s2);
         scan1_inner md4 (int C) fs t C 0 (s2\<lparr>s1c_fm := fm, s1c_buf := q\<rparr>) })"
    using map1 sm(1) j cc ml
    by (cases "2 * int C < int (length D) - int c") (simp_all add: scan1_turn_def s1_def Let_def)
  show ?thesis
  proof (cases hit)
    case True
    then show ?thesis
      using step j sm(2) checksum3.live_ready by (intro exI [of _ s2] exI [of _ "c + C"]) simp
  next
    case False
    from j(4) have fm2: "fm_ok fs p D (s1c_fm s2)" by (simp add: scan1_inv_def)
    have "int ml \<le> 2 ^ 30" using hyps(3) by (simp add: ml_def min_def)
    from MapFileContent_ok [OF fm2 inside this] hyps(2) obtain fm3 q3 m3 where
      map3: "MapFileContent fs (int (c + C)) (int ml) (s1c_fm s2) = Some (fm3, q3)"
        "fm_ok fs p D fm3" "fm_mem fm3 q3 = Some m3" and "fm_shows D (c + C) C m3"
      by (auto simp: ml_def min_def split: if_splits)
    then have m3: "C \<le> length m3" by (auto simp: fm_shows_def load_def split: if_splits)
    define s3 where "s3 = s2\<lparr>s1c_fm := fm3, s1c_buf := q3\<rparr>"
    have s3: "scan1_inv md4 C D fs p meta s3" "ck3_live 5 C (s1c_summer s3)" "scan1_readable C s3"
        "s1c_curr s3 = int (c + C)"
      using map3 m3 j sm(2) by (simp_all add: s3_def scan1_inv_def scan1_readable_def)
    from scan1_inner_ok [OF s3 _ _ _ hyps, of 0 C] inside obtain s4 c4 where
      "scan1_inner md4 (int C) fs t C 0 s3 = Some s4" "scan1_inv md4 C D fs p meta s4"
      "ck3_live 5 C (s1c_summer s4)" "s1c_curr s4 = int c4" "c + C \<le> c4" by auto
    then show ?thesis
      using False step map3 checksum3.live_ready
      by (intro exI [of _ s4] exI [of _ c4]) (auto simp: s3_def)
  qed
qed

lemma scan1_loop_ok:
  assumes "scan1_inv md4 C D fs p meta s" and "ck3_ready C (s1c_summer s)" and "s1c_curr s = int c"
    and hyps: "0 < C" "table_sound (length meta) t" "int C \<le> 2 ^ 30"
  shows "\<exists>s'. scan1_loop md4 (int C) fs t (int (length D)) s = Some s' \<and> scan1_inv md4 C D fs p meta s'"
  using assms(1-3)
proof (induction "length D - c" arbitrary: s c rule: less_induct)
  case less
  show ?case
  proof (cases "c + C \<le> length D")
    case False
    then show ?thesis using less.prems by (subst scan1_loop.simps) auto
  next
    case True
    from scan1_turn_ok [OF less.prems True hyps(1,2) _ hyps(3)] True obtain s1 c1 where
      s1: "scan1_turn md4 (int C) fs t (int (length D)) s = Some s1" "scan1_inv md4 C D fs p meta s1"
        "ck3_ready C (s1c_summer s1)" "s1c_curr s1 = int c1" "c + C \<le> c1" by auto
    have "length D - c1 < length D - c" using True s1(5) hyps(1) by linarith
    from less.hyps [OF this s1(2-4)] s1(1) show ?thesis
      using True less.prems(3) by (subst scan1_loop.simps) auto
  qed
qed

lemma ScanFile1_marked:
  assumes f: "file_ok fs dst D" and C: "0 < C" "C < 4194312"
  shows "\<exists>R. service_ScanFile1 md4 (int C) fs dst (Some meta) = Some R \<and> marked md4 C D meta R"
proof -
  from file_ok_open [OF f] obtain fm where fm: "FileMap_new fs dst = Some fm" "fm_ok fs dst D fm" by blast
  define s0 where "s0 = \<lparr>s1c_summer = Checksum3_new, s1c_meta = meta, s1c_fm = fm, s1c_buf = None,
      s1c_curr = 0\<rparr>"
  have "scan1_inv md4 C D fs dst meta s0" "ck3_ready C (s1c_summer s0)" "s1c_curr s0 = int 0"
    using fm(2) Checksum3_new_ready [OF C(2)] by (simp_all add: scan1_inv_def s0_def)
  from scan1_loop_ok [OF this C(1) new_table_sound] C(2) obtain s where
    "scan1_loop md4 (int C) fs (new_table meta) (int (length D)) s0 = Some s"
    "scan1_inv md4 C D fs dst meta s" by auto
  then show ?thesis
    using fm(1) file_ok_size [OF f] by (simp add: service_ScanFile1_def s0_def scan1_inv_def)
qed

section \<open>The chunk list of a file\<close>

definition service_chunk :: "(byte list \<Rightarrow> byte list) \<Rightarrow> nat \<Rightarrow> byte list \<Rightarrow> nat \<Rightarrow> chunk_info" where
  "service_chunk md4 C old k =
     \<lparr>ci_weak_sum = weak5 (chunk C old k), ci_from = True, ci_offset = int (k * C),
      ci_length = int C, ci_strong_sum = hex_string (md4 (chunk C old k))\<rparr>"

text \<open>The last, shorter chunk: weak sum 0, and a strong sum that is not of its bytes.\<close>

definition last_chunk :: "nat \<Rightarrow> byte list \<Rightarrow> byte list \<Rightarrow> chunk_info list" where
  "last_chunk C old strong =
     (if length old mod C = 0 then []
      else [\<lparr>ci_weak_sum = 0, ci_from = True, ci_offset = int (length old div C * C),
             ci_length = int (length old mod C), ci_strong_sum = strong\<rparr>])"

definition service_meta :: "(byte list \<Rightarrow> byte list) \<Rightarrow> nat \<Rightarrow> byte list \<Rightarrow> byte list \<Rightarrow> chunk_info list" where
  "service_meta md4 C old strong =
     map (service_chunk md4 C old) [0..<length old div C] @ last_chunk C old strong"

lemma Sum1_5_load: "load m 0 (nat n) = Some w \<Longrightarrow> Checksum3_Sum1 5 m n = Some (weak5 w)"
  by (simp add: Checksum3_Sum1_def weak5_def ck3_quads_bytes ck3_bytes_eq)

lemma service_meta_step_ok:
  assumes fm: "fm_ok fs p old fm" and k: "k < length old div C" and C: "int C \<le> 2 ^ 30"
  shows "\<exists>fm' buf' m. service_meta_step md4 (int C) fs (int k) (fm, buf, s) =
             Some ((fm', buf', s), service_chunk md4 C old k) \<and>
           fm_ok fs p old fm' \<and> fm_mem fm' buf' = Some m \<and> load m 0 C = Some (chunk C old k)"
proof -
  note inside = chunk_inside [OF k]
  from MapFileContent_ok [OF fm, of "k * C" C] inside C obtain fm' q m where
    map: "MapFileContent fs (int k * int C) (int C) fm = Some (fm', q)" "fm_ok fs p old fm'"
      "fm_mem fm' q = Some m" and sh: "fm_shows old (k * C) C m"
    by auto
  have l: "load m 0 C = Some (chunk C old k)"
    using fm_shows_inside [OF sh inside] by (simp add: chunk_def)
  show ?thesis
    using map l Checksum3_StrongSum_data [of "int C" m "chunk C old k" md4 s]
      Sum1_5_load [of m "int C" "chunk C old k"]
    by (simp add: service_meta_step_def service_chunk_def)
qed

lemma service_meta_loop_ok:
  assumes "fm_ok fs p old fm" and "i + n = length old div C" and "int C \<le> 2 ^ 30"
    and "0 < i \<longrightarrow> (\<exists>m. fm_mem fm buf = Some m \<and> load m 0 C = Some (chunk C old (i - 1)))"
    and "i = 0 \<longrightarrow> buf = None"
  shows "\<exists>fm' buf'. service_meta_loop md4 (int C) fs n (int i) (fm, buf, s) =
            Some ((fm', buf', s), map (service_chunk md4 C old) [i..<i + n]) \<and>
          (if length old div C = 0 then buf' = None
           else \<exists>m. fm_mem fm' buf' = Some m \<and> load m 0 C = Some (chunk C old (length old div C - 1)))"
  using assms
proof (induction n arbitrary: i fm buf)
  case 0
  then show ?case by auto
next
  case (Suc n)
  from service_meta_step_ok [OF Suc.prems(1) _ Suc.prems(3), of i md4 buf s] Suc.prems(2)
  obtain fm1 buf1 m1 where
    1: "service_meta_step md4 (int C) fs (int i) (fm, buf, s) = Some ((fm1, buf1, s), service_chunk md4 C old i)"
      "fm_ok fs p old fm1" "fm_mem fm1 buf1 = Some m1" "load m1 0 C = Some (chunk C old i)" by auto
  from Suc.IH [OF 1(2), of "Suc i" buf1] 1(3,4) Suc.prems(2,3) obtain fm2 buf2 where
    2: "service_meta_loop md4 (int C) fs n (int (Suc i)) (fm1, buf1, s) =
          Some ((fm2, buf2, s), map (service_chunk md4 C old) [Suc i..<Suc i + n])"
      "if length old div C = 0 then buf2 = None
       else \<exists>m. fm_mem fm2 buf2 = Some m \<and> load m 0 C = Some (chunk C old (length old div C - 1))"
    by auto
  have "[i..<i + Suc n] = i # [Suc i..<Suc i + n]" by (simp add: upt_conv_Cons)
  then show ?case
    using 1(1) 2 by (simp add: add.commute [of 1] del: upt_Suc)
qed

definition last_message :: "nat \<Rightarrow> byte list \<Rightarrow> byte list \<Rightarrow> byte list" where
  "last_message C old queue =
     (if length old div C = 0 then queue
      else take (length old mod C) (chunk C old (length old div C - 1)))"

definition service_list :: "(byte list \<Rightarrow> byte list) \<Rightarrow> nat \<Rightarrow> byte list \<Rightarrow> byte list \<Rightarrow> chunk_info list" where
  "service_list md4 C old queue = service_meta md4 C old (hex_string (md4 (last_message C old queue)))"

lemma service_GenerateMetaList_ok:
  assumes f: "file_ok fs p old" and C: "0 < C" "int C \<le> 2 ^ 30"
    and s: "cq_inv (ck3_buf_list s)" and q: "queue = cq_list (ck3_buf_list s)"
  shows "\<exists>s'. service_GenerateMetaList md4 (int C) fs p s = Some (service_list md4 C old queue, s') \<and>
           cq_inv (ck3_buf_list s') \<and> cq_list (ck3_buf_list s') = queue"
proof -
  let ?n = "length old div C" and ?r = "length old mod C" and ?m = "last_message C old queue"
  from file_ok_open [OF f] obtain fm where fm: "FileMap_new fs p = Some fm" "fm_ok fs p old fm" by blast
  have n: "c_div (get_file_size fs p) (int C) = int ?n" and r: "c_mod (get_file_size fs p) (int C) = int ?r"
    using C by (simp_all add: file_ok_size [OF f] zdiv_int zmod_int)
  from service_meta_loop_ok [OF fm(2), of 0 ?n C None md4 s] C(2) obtain fm1 buf1 where
    1: "service_meta_loop md4 (int C) fs ?n 0 (fm, None, s) =
        Some ((fm1, buf1, s), map (service_chunk md4 C old) [0..<?n])"
      "if ?n = 0 then buf1 = None
       else \<exists>m. fm_mem fm1 buf1 = Some m \<and> load m 0 C = Some (chunk C old (?n - 1))" by auto
  show ?thesis
  proof (cases "?r = 0")
    case True
    then show ?thesis
      using fm(1) n r 1(1) s q
      by (simp add: service_GenerateMetaList_def Let_def service_list_def service_meta_def last_chunk_def)
  next
    case False
    have "\<exists>s'. Checksum3_StrongSum md4 (fm_mem fm1 buf1) (int ?r) s = Some (hex_string (md4 ?m), s') \<and>
        cq_inv (ck3_buf_list s') \<and> cq_list (ck3_buf_list s') = queue"
    proof (cases "?n = 0")
      case True
      then have "fm_mem fm1 buf1 = None" using 1(2) by (simp add: fm_mem_def)
      moreover obtain q' where "strong_message None (int ?r) (ck3_buf_list s) = Some (queue, q')"
          "cq_inv q'" "cq_list q' = queue" using strong_message_queue [OF s] q by blast
      ultimately show ?thesis using True by (simp add: Checksum3_StrongSum_def last_message_def)
    next
      case False
      with 1(2) obtain m where m: "fm_mem fm1 buf1 = Some m" "load m 0 C = Some (chunk C old (?n - 1))"
        by auto
      have "?r < C" using C(1) by simp
      moreover have "chunk C old (?n - 1) = take C m" "C \<le> length m"
        using m(2) by (auto simp: load_def split: if_splits)
      ultimately have "load m 0 ?r = Some ?m"
        using False by (simp add: load_def last_message_def min_absorb1)
      then show ?thesis
        using m(1) s q Checksum3_StrongSum_data [of "int ?r" m ?m md4 s] by auto
    qed
    then obtain s' where st: "Checksum3_StrongSum md4 (fm_mem fm1 buf1) (int ?r) s =
        Some (hex_string (md4 ?m), s')" "cq_inv (ck3_buf_list s')" "cq_list (ck3_buf_list s') = queue"
      by blast
    have "0 < int ?r" using False by simp
    then have "service_GenerateMetaList md4 (int C) fs p s = Some (service_list md4 C old queue, s')"
      using fm(1) n r 1(1) st(1)
      by (simp add: service_GenerateMetaList_def Let_def service_list_def service_meta_def last_chunk_def)
    then show ?thesis using st(2,3) by blast
  qed
qed

end
