(* ===== verification/RsyncRemote.thy ===== *)
theory RsyncRemote
  imports ServiceScan NetData
begin

text \<open>
  \<open>simple_rsync\<close>: the requests of the client (\<open>client.cpp\<close>), what the server reads from them
  (\<open>server_handler.cpp\<close>) and answers (\<open>server_processor.cpp\<close>), and the transfer of a file.

  A request and its answer are packets; \<open>deliver\<close> is what the stream of
  \<open>depends/net.v1/stream_socket_context.cpp\<close> makes of a packet on the other side (the theorem about
  it is \<open>stream1_transfers\<close>): as many bytes as the packet says, and a zero behind them.  \<open>fresh n\<close> is
  the content of a new allocation of \<open>n\<close> bytes.  C strings are lists of characters without a zero.

  The sets and gets of \<open>Package\<close> are in host order, the callers convert with \<open>htonl\<close> and \<open>ntohl\<close>.
\<close>

section \<open>Byte order and strings\<close>

definition htonl :: "u32 \<Rightarrow> u32" where
  "htonl w = rdle32 (be32 w)"

definition ntohl :: "u32 \<Rightarrow> u32" where
  "ntohl w = htonl w"

lemma rd32_rev: "length bs = 4 \<Longrightarrow> rdle32 bs = w \<longleftrightarrow> bs = le32 w"
  using be32_rd32 [of "rev bs"] by (auto simp: rdle32_def le32_def)

lemma le32_htonl [simp]: "le32 (htonl w) = be32 w"
  using rd32_rev [of "be32 w" "htonl w"] by (simp add: htonl_def)

lemma ntohl_htonl [simp]: "ntohl (htonl w) = w"
proof -
  have "be32 (htonl w) = rev (be32 w)" using le32_htonl [of w] unfolding le32_def by (metis rev_rev_ident)
  then show ?thesis by (simp add: ntohl_def htonl_def rdle32_def)
qed

definition str_bytes :: "string \<Rightarrow> byte list" where
  "str_bytes s = map (\<lambda>c. of_nat (of_char c)) s"

definition bytes_str :: "byte list \<Rightarrow> string" where
  "bytes_str bs = map (\<lambda>b. char_of (unat b)) (takeWhile (\<lambda>b. b \<noteq> 0) bs)"

definition c_path :: "string \<Rightarrow> bool" where
  "c_path s \<longleftrightarrow> CHR 0x00 \<notin> set s"

lemma unat_of_char: "unat (of_nat (of_char c) :: byte) = of_char c"
proof -
  have "(of_char c :: nat) < 256" by simp
  then show ?thesis by (simp add: unsigned_of_nat take_bit_nat_eq_self)
qed

lemma bytes_str_bytes [simp]: "c_path s \<Longrightarrow> bytes_str (str_bytes s) = s"
proof (induction s)
  case Nil
  then show ?case by (simp add: bytes_str_def str_bytes_def)
next
  case (Cons c s)
  have "(of_nat (of_char c) :: byte) \<noteq> 0"
  proof
    assume "(of_nat (of_char c) :: byte) = 0"
    then have "(of_char c :: nat) = 0" using unat_of_char [of c] by simp
    then have "of_char c = (of_char CHR 0x00 :: nat)" by simp
    then have "c = CHR 0x00" by (simp only: of_char_eq_iff)
    with Cons.prems show False by (simp add: c_path_def)
  qed
  moreover have "c_path s" using Cons.prems by (simp add: c_path_def)
  ultimately show ?case
    using Cons.IH by (simp add: bytes_str_def str_bytes_def unat_of_char)
qed

lemma length_str_bytes [simp]: "length (str_bytes s) = length s"
  by (simp add: str_bytes_def)

section \<open>Requests\<close>

definition GET_META :: int where "GET_META = 1"
definition GET_CHUNK :: int where "GET_CHUNK = 2"
definition RESPONSE_OK :: int where "RESPONSE_OK = 1"
definition FILE_DID_NOT_EXIST :: int where "FILE_DID_NOT_EXIST = - 1"

text \<open>\<open>SetInt32_t(htonl(x))\<close>, \<open>ntohl(GetInt32_t())\<close> and the unsigned pair.\<close>

definition set_net_i32 :: "int \<Rightarrow> package \<Rightarrow> package option" where
  "set_net_i32 i p = map_option snd (Package_SetInt32_t (sint (htonl (u32_of i))) p)"

definition set_net_u32 :: "u32 \<Rightarrow> package \<Rightarrow> package option" where
  "set_net_u32 w p = map_option snd (Package_SetUint32_t (htonl w) p)"

definition get_net_i32 :: "package \<Rightarrow> (int \<times> package) option" where
  "get_net_i32 p = map_option (\<lambda>(i, p). (sint (ntohl (u32_of i)), p)) (Package_GetInt32_t p)"

definition get_net_u32 :: "package \<Rightarrow> (u32 \<times> package) option" where
  "get_net_u32 p = map_option (\<lambda>(w, p). (ntohl w, p)) (Package_GetUint32_t p)"

definition new_packet :: "byte list \<Rightarrow> int \<Rightarrow> byte list \<Rightarrow> int \<Rightarrow> 'e packet" where
  "new_packet head hl dat dl =
     Packet_set_packet dat (u32_of dl) (Packet_set_head head (u32_of hl) (Packet_new 0))"

definition deliver :: "'e packet \<Rightarrow> 'e packet option" where
  "deliver p = do {
     hl \<leftarrow> pt_head_length p;
     h \<leftarrow> pt_head p;
     head_data \<leftarrow> load h 0 (unat hl);
     dl \<leftarrow> pt_data_length p;
     d \<leftarrow> pt_data p;
     dat \<leftarrow> load d 0 (unat dl);
     Some (Packet_set_packet (dat @ [0]) dl (Packet_set_head (head_data @ [0]) hl (Packet_new 0)))
   }"

definition Client_GetMeta_request :: "(nat \<Rightarrow> byte list) \<Rightarrow> string \<Rightarrow> 'e packet option" where
  "Client_GetMeta_request fresh path = do {
     let dat = fresh 1;
     let path_len = int (length path);
     let head_length = path_len + 4 + 4 + 1;
     let head = fresh (nat head_length);
     let package = Package_set_data head head_length Package_new;
     package \<leftarrow> set_net_i32 GET_META package;
     package \<leftarrow> set_net_i32 path_len package;
     package \<leftarrow> Package_SetString (str_bytes path) path_len package;
     Some (new_packet (pk_mem package) head_length dat 1)
   }"

definition Client_GetChunk_request ::
  "(nat \<Rightarrow> byte list) \<Rightarrow> int \<Rightarrow> int \<Rightarrow> string \<Rightarrow> 'e packet option" where
  "Client_GetChunk_request fresh offset len path = do {
     let dat = fresh 1;
     let path_len = int (length path);
     let head_length = path_len + 4 * 4 + 1;
     let head = fresh (nat head_length);
     let package = Package_set_data head head_length Package_new;
     package \<leftarrow> set_net_i32 GET_CHUNK package;
     package \<leftarrow> set_net_i32 path_len package;
     package \<leftarrow> Package_SetString (str_bytes path) path_len package;
     package \<leftarrow> set_net_i32 offset package;
     package \<leftarrow> set_net_i32 len package;
     Some (new_packet (pk_mem package) head_length dat 1)
   }"

section \<open>The server\<close>

text \<open>A task: the packet, the cursor behind what has been read of its head, the request and the path.\<close>

record 'e server_task =
  sk_packet :: "'e packet"
  sk_head :: package
  sk_req :: int
  sk_path :: "byte list"

text \<open>\<open>EchoFromServer\<close>; the path is a null pointer if its length exceeds the head, and is logged.\<close>

definition EchoFromServer :: "'e packet \<Rightarrow> 'e server_task option" where
  "EchoFromServer packet = do {
     head \<leftarrow> pt_head packet;
     head_length \<leftarrow> pt_head_length packet;
     let package = Package_set_data head (sint head_length) Package_new;
     (req, package) \<leftarrow> get_net_i32 package;
     (path_length, package) \<leftarrow> get_net_i32 package;
     (path, package) \<leftarrow> Package_GetString path_length package;
     path \<leftarrow> path;
     Some \<lparr>sk_packet = packet, sk_head = package, sk_req = req, sk_path = path\<rparr>
   }"

definition not_exist_answer :: "(nat \<Rightarrow> byte list) \<Rightarrow> 'e packet \<Rightarrow> 'e packet option" where
  "not_exist_answer fresh packet = do {
     let package = Package_set_data (fresh 5) 5 Package_new;
     package \<leftarrow> set_net_u32 (u32_of FILE_DID_NOT_EXIST) package;
     let packet = Packet_set_head (pk_mem package) 4 packet;
     Some (Packet_set_packet (fresh 1) 1 packet)
   }"

definition put_chunk_info :: "chunk_info \<Rightarrow> package \<Rightarrow> package option" where
  "put_chunk_info c package = do {
     package \<leftarrow> set_net_u32 (ci_weak_sum c) package;
     package \<leftarrow> set_net_i32 (ci_offset c) package;
     package \<leftarrow> set_net_i32 (ci_length c) package;
     Package_SetString (ci_strong_sum c) (int (length (ci_strong_sum c))) package
   }"

definition Server_GetMeta ::
  "(byte list \<Rightarrow> byte list) \<Rightarrow> int \<Rightarrow> (nat \<Rightarrow> byte list) \<Rightarrow> fsys \<Rightarrow> 'e server_task \<Rightarrow> checksum3 \<Rightarrow>
   ('e packet \<times> checksum3) option" where
  "Server_GetMeta md4 cs fresh fs node summer =
     (if \<not> is_exists_file fs (bytes_str (sk_path node))
      then map_option (\<lambda>p. (p, summer)) (not_exist_answer fresh (sk_packet node))
      else do {
        let head_length = 4 * 3 + 1;
        let package = Package_set_data (fresh (nat (head_length + 2))) head_length Package_new;
        package \<leftarrow> set_net_i32 RESPONSE_OK package;
        (meta, summer) \<leftarrow> service_GenerateMetaList md4 cs fs (bytes_str (sk_path node)) summer;
        package \<leftarrow> set_net_i32 (int (length meta)) package;
        package \<leftarrow> set_net_i32 1 package;
        let packet = Packet_set_head (pk_mem package) (u32_of head_length) (sk_packet node);
        let data_length = int (length meta) * (4 + 4 * 2 + 32) + 10;
        let package = Package_set_data (fresh (nat data_length)) data_length package;
        package \<leftarrow> foldM put_chunk_info meta package;
        Some (Packet_set_packet (pk_mem package) (u32_of data_length) packet, summer)
      })"

text \<open>\<open>GetChunk\<close>: the answer points to everything read from the offset on, with the length asked for.\<close>

definition Server_GetChunk ::
  "(nat \<Rightarrow> byte list) \<Rightarrow> fsys \<Rightarrow> 'e server_task \<Rightarrow> 'e packet option" where
  "Server_GetChunk fresh fs node =
     (if \<not> is_exists_file fs (bytes_str (sk_path node)) then not_exist_answer fresh (sk_packet node)
      else do {
        (chunk_offset, head) \<leftarrow> get_net_i32 (sk_head node);
        (chunk_length, head) \<leftarrow> get_net_i32 head;
        buf \<leftarrow> service_GetChunk fs (bytes_str (sk_path node)) chunk_offset;
        let head_length = 4 * 3 + 1;
        let package = Package_set_data (fresh (nat (head_length + 2))) head_length Package_new;
        package \<leftarrow> set_net_i32 RESPONSE_OK package;
        let packet = Packet_set_head (pk_mem package) (u32_of head_length) (sk_packet node);
        buf \<leftarrow> buf;
        Some (Packet_set_packet buf (u32_of chunk_length) packet)
      })"

text \<open>One task taken from the queue; any other request is dropped without an answer.\<close>

definition Server_Process ::
  "(byte list \<Rightarrow> byte list) \<Rightarrow> int \<Rightarrow> (nat \<Rightarrow> byte list) \<Rightarrow> fsys \<Rightarrow> 'e server_task option \<Rightarrow> checksum3 \<Rightarrow>
   ('e packet option \<times> checksum3) option" where
  "Server_Process md4 cs fresh fs node summer =
     (case node of
        None \<Rightarrow> Some (None, summer)
      | Some node \<Rightarrow>
          if sk_req node = GET_META
          then map_option (\<lambda>(p, s). (Some p, s)) (Server_GetMeta md4 cs fresh fs node summer)
          else if sk_req node = GET_CHUNK
          then map_option (\<lambda>p. (Some p, summer)) (Server_GetChunk fresh fs node)
          else Some (None, summer))"

text \<open>
  A request sent and its answer: the server is idle otherwise.  A request that is not answered
  leaves the client in the loop of \<open>SyncSendPacket\<close>.
\<close>

definition remote_call ::
  "(byte list \<Rightarrow> byte list) \<Rightarrow> int \<Rightarrow> (nat \<Rightarrow> byte list) \<Rightarrow> fsys \<Rightarrow> checksum3 \<Rightarrow> 'e packet \<Rightarrow>
   ('e packet \<times> checksum3) option" where
  "remote_call md4 cs fresh fs summer packet = do {
     packet \<leftarrow> deliver packet;
     node \<leftarrow> EchoFromServer packet;
     (answer, summer) \<leftarrow> Server_Process md4 cs fresh fs (Some node) summer;
     answer \<leftarrow> answer;
     answer \<leftarrow> deliver answer;
     Some (answer, summer)
   }"

section \<open>The client\<close>

fun parse_chunk_infos :: "nat \<Rightarrow> package \<Rightarrow> (chunk_info list \<times> package) option" where
  "parse_chunk_infos 0 package = Some ([], package)"
| "parse_chunk_infos (Suc n) package = do {
     (weak, package) \<leftarrow> get_net_u32 package;
     (offset, package) \<leftarrow> get_net_i32 package;
     (len, package) \<leftarrow> get_net_i32 package;
     (strong, package) \<leftarrow> Package_GetString 32 package;
     strong \<leftarrow> strong;
     (rest, package) \<leftarrow> parse_chunk_infos n package;
     Some (\<lparr>ci_weak_sum = weak, ci_from = True, ci_offset = offset, ci_length = len,
            ci_strong_sum = strong\<rparr> # rest, package)
   }"

text \<open>The inner \<open>None\<close> is the null pointer of a failed request.\<close>

definition Client_GetMeta_answer :: "'e packet \<Rightarrow> chunk_info list option option" where
  "Client_GetMeta_answer packet = do {
     head \<leftarrow> pt_head packet;
     hl \<leftarrow> pt_head_length packet;
     let package = Package_set_data head (sint hl) Package_new;
     (resp, package) \<leftarrow> get_net_i32 package;
     (node_num, package) \<leftarrow> get_net_i32 package;
     if resp < 0 then Some None
     else do {
       d \<leftarrow> pt_data packet;
       dl \<leftarrow> pt_data_length packet;
       (meta, _) \<leftarrow> parse_chunk_infos (nat node_num) (Package_set_data d (sint dl) package);
       Some (Some meta)
     }
   }"

definition Client_GetMeta ::
  "(byte list \<Rightarrow> byte list) \<Rightarrow> int \<Rightarrow> (nat \<Rightarrow> byte list) \<Rightarrow> fsys \<Rightarrow> checksum3 \<Rightarrow> string \<Rightarrow>
   (chunk_info list option \<times> checksum3) option" where
  "Client_GetMeta md4 cs fresh remote summer path = do {
     packet \<leftarrow> Client_GetMeta_request fresh path;
     (answer, summer) \<leftarrow> remote_call md4 cs fresh remote summer (packet :: unit packet);
     meta \<leftarrow> Client_GetMeta_answer answer;
     Some (meta, summer)
   }"

text \<open>\<open>GetChunk\<close> stores the data of the answer in \<open>*buf\<close>, or leaves it null.\<close>

definition Client_GetChunk ::
  "(byte list \<Rightarrow> byte list) \<Rightarrow> int \<Rightarrow> (nat \<Rightarrow> byte list) \<Rightarrow> fsys \<Rightarrow> checksum3 \<Rightarrow> int \<Rightarrow> int \<Rightarrow> string \<Rightarrow>
   (byte list option \<times> checksum3) option" where
  "Client_GetChunk md4 cs fresh remote summer offset len path = do {
     packet \<leftarrow> Client_GetChunk_request fresh offset len path;
     (answer, summer) \<leftarrow> remote_call md4 cs fresh remote summer (packet :: unit packet);
     head \<leftarrow> pt_head answer;
     hl \<leftarrow> pt_head_length answer;
     (resp, _) \<leftarrow> get_net_i32 (Package_set_data head (sint hl) Package_new);
     if resp < 0 then Some (None, summer)
     else do {
       d \<leftarrow> pt_data answer;
       Some (Some d, summer)
     }
   }"

text \<open>
  One chunk of \<open>ConstructFile\<close>: the bytes that \<open>fwrite\<close> takes from \<open>buf\<close>.  \<open>None\<close> for the map is the
  null pointer when there is no old file.
\<close>

definition construct_chunk ::
  "(byte list \<Rightarrow> byte list) \<Rightarrow> int \<Rightarrow> (nat \<Rightarrow> byte list) \<Rightarrow> fsys \<Rightarrow> fsys \<Rightarrow> string \<Rightarrow> chunk_info \<Rightarrow>
   checksum3 \<times> file_map option \<times> byte list \<Rightarrow> (checksum3 \<times> file_map option \<times> byte list) option" where
  "construct_chunk md4 cs fresh remote fs src_file c st = (case st of (summer, fm, out) \<Rightarrow>
     if ci_from c then do {
       (buf, summer) \<leftarrow> Client_GetChunk md4 cs fresh remote summer (ci_offset c) (ci_length c) src_file;
       require (0 \<le> ci_length c);
       buf \<leftarrow> buf;
       bs \<leftarrow> load buf 0 (nat (ci_length c));
       Some (summer, fm, out @ bs)
     } else do {
       m \<leftarrow> fm;
       (m, buf) \<leftarrow> MapFileContent fs (ci_offset c) (ci_length c) m;
       require (0 \<le> ci_length c);
       mem \<leftarrow> fm_mem m buf;
       bs \<leftarrow> load mem 0 (nat (ci_length c));
       Some (summer, Some m, out @ bs)
     })"

text \<open>\<open>fp\<close> is never closed; what was written to it is in the file once the program has ended.\<close>

definition Client_ConstructFile ::
  "(byte list \<Rightarrow> byte list) \<Rightarrow> int \<Rightarrow> (nat \<Rightarrow> byte list) \<Rightarrow> fsys \<Rightarrow> fsys \<Rightarrow> checksum3 \<Rightarrow> string \<Rightarrow> string \<Rightarrow>
   chunk_info list option \<Rightarrow> string \<Rightarrow> (fsys \<times> checksum3) option" where
  "Client_ConstructFile md4 cs fresh remote fs summer src_file dst_file file_meta cst_file = do {
     fs \<leftarrow> fopen_write fs cst_file;
     fm \<leftarrow> (if is_exists_file fs dst_file then map_option Some (FileMap_new fs dst_file) else Some None);
     file_meta \<leftarrow> file_meta;
     (summer, fm, out) \<leftarrow>
        foldM (construct_chunk md4 cs fresh remote fs src_file) file_meta (summer, fm, []);
     Some (fs\<lparr>fs_files := (fs_files fs)(cst_file \<mapsto> out)\<rparr>, summer)
   }"

text \<open>\<open>fs\<close> is the client's file system, \<open>remote\<close> the server's, \<open>summer\<close> the server's checksum.\<close>

definition Client_GetFile ::
  "(byte list \<Rightarrow> byte list) \<Rightarrow> int \<Rightarrow> (nat \<Rightarrow> byte list) \<Rightarrow> fsys \<Rightarrow> fsys \<Rightarrow> checksum3 \<Rightarrow> string \<Rightarrow> string \<Rightarrow>
   string \<Rightarrow> (int \<times> fsys \<times> checksum3) option" where
  "Client_GetFile md4 cs fresh remote fs summer src_path dst_path tmp_path = do {
     (meta, summer) \<leftarrow> Client_GetMeta md4 cs fresh remote summer src_path;
     meta \<leftarrow> (if is_exists_file fs dst_path \<or> 0 < get_file_size fs dst_path
            then map_option Some (service_ScanFile1 md4 cs fs dst_path meta)
            else Some meta);
     (fs, summer) \<leftarrow> Client_ConstructFile md4 cs fresh remote fs summer src_path dst_path meta tmp_path;
     Some (0, fs, summer)
   }"

text \<open>The operations that only return a value.\<close>

definition Client_PutFile :: int where "Client_PutFile = 0"
definition Client_PutChunk :: int where "Client_PutChunk = 0"
definition Client_CommitFile :: int where "Client_CommitFile = 0"

end
