(* ===== verification/RemoteFacts.thy ===== *)
theory RemoteFacts
  imports RsyncRemote
begin

text \<open>
  The requests and answers of \<open>simple_rsync\<close> read back as they were written, and what the transfer of
  a file puts together.
\<close>

section \<open>Reading and writing in network order\<close>

lemma set_net_i32_field: "set_net_i32 i = put_field (FInt (sint (htonl (u32_of i))))"
  by (rule ext) (simp add: set_net_i32_def)

lemma set_net_u32_field: "set_net_u32 w = put_field (FUint (htonl w))"
  by (rule ext) (simp add: set_net_u32_def)

lemma u32_of_sint [simp]: "u32_of (sint w) = w"
  by (simp add: u32_of_def)

lemma set_net_i32_ok:
  "pk_written_in k bs (4 + n) p \<Longrightarrow> \<exists>p'. set_net_i32 i p = Some p' \<and> pk_written_in k (bs @ wr_i32 i) n p'"
  using put_field_ok [of k bs "FInt (sint (htonl (u32_of i)))" n p]
  by (simp add: set_net_i32_field wr_i32_def)

lemma set_net_u32_ok:
  "pk_written_in k bs (4 + n) p \<Longrightarrow> \<exists>p'. set_net_u32 w p = Some p' \<and> pk_written_in k (bs @ be32 w) n p'"
  using put_field_ok [of k bs "FUint (htonl w)" n p] by (simp add: set_net_u32_field)

lemma SetString_ok:
  "pk_written_in k bs (length s + n) p \<Longrightarrow>
   \<exists>p'. Package_SetString s (int (length s)) p = Some p' \<and> pk_written_in k (bs @ s) n p'"
  using put_field_ok [of k bs "FStr s" n p] by simp

lemma pk_written_start: "length m = n + k \<Longrightarrow> pk_written_in k [] n (Package_set_data m (int n) p)"
  by (simp add: pk_written_in_def Package_set_data_def)

lemma pk_written_mem: "pk_written_in k bs n p \<Longrightarrow> \<exists>r. pk_mem p = bs @ r \<and> length r = n + k"
  using append_take_drop_id [of "length bs" "pk_mem p"]
  by (intro exI [of _ "drop (length bs) (pk_mem p)"]) (simp add: pk_written_in_def)

text \<open>The bytes in front of a cursor.\<close>

definition pk_rest :: "package \<Rightarrow> byte list \<Rightarrow> bool" where
  "pk_rest p xs \<longleftrightarrow> (\<exists>pre post. pk_mem p = pre @ xs @ post \<and> pk_pos p = length pre \<and>
     int (length xs) \<le> pk_left p)"

lemma pk_rest_start:
  "int (length xs) \<le> n \<Longrightarrow> pk_rest (Package_set_data (xs @ r) n p) xs"
  by (auto simp: pk_rest_def Package_set_data_def intro!: exI [of _ "[]"])

lemma pk_rest_load:
  assumes "pk_rest p (xs @ ys)"
  shows "load (pk_mem p) (pk_pos p) (length xs) = Some xs \<and>
         pk_rest (p\<lparr>pk_pos := pk_pos p + length xs, pk_left := pk_left p - int (length xs)\<rparr>) ys \<and>
         int (length xs) \<le> pk_left p"
proof -
  from assms obtain pre post where p: "pk_mem p = pre @ xs @ ys @ post" "pk_pos p = length pre"
    "int (length xs) + int (length ys) \<le> pk_left p" by (auto simp: pk_rest_def)
  then show ?thesis
    by (simp add: load_append pk_rest_def) (intro exI [of _ "pre @ xs"] exI [of _ post], simp)
qed

lemma get_net_i32_ok:
  assumes "pk_rest p (wr_i32 i @ xs)" and "i32_ok i"
  shows "\<exists>p'. get_net_i32 p = Some (i, p') \<and> pk_rest p' xs"
proof -
  have "rdle32 (wr_i32 i) = htonl (u32_of i)" by (simp add: htonl_def wr_i32_def)
  then show ?thesis
    using pk_rest_load [OF assms(1)] assms(2)
    by (auto simp: get_net_i32_def Package_GetInt32_t_def room4_def)
qed

lemma get_net_u32_ok:
  assumes "pk_rest p (be32 w @ xs)"
  shows "\<exists>p'. get_net_u32 p = Some (w, p') \<and> pk_rest p' xs"
proof -
  have "rdle32 (be32 w) = htonl w" by (simp add: htonl_def)
  then show ?thesis
    using pk_rest_load [OF assms]
    by (auto simp: get_net_u32_def Package_GetUint32_t_def room4_def)
qed

lemma GetString_ok:
  assumes "pk_rest p (s @ xs)" and "n = int (length s)"
  shows "\<exists>p'. Package_GetString n p = Some (Some s, p') \<and> pk_rest p' xs"
  using pk_rest_load [OF assms(1)] assms(2) by (auto simp: Package_GetString_def)

section \<open>Requests\<close>

definition fresh_ok :: "(nat \<Rightarrow> byte list) \<Rightarrow> bool" where
  "fresh_ok fresh \<longleftrightarrow> (\<forall>n. length (fresh n) = n)"

lemma bytes_str_zero: "c_path s \<Longrightarrow> bytes_str (str_bytes s @ 0 # r) = s"
proof -
  assume s: "c_path s"
  have "takeWhile (\<lambda>b. b \<noteq> 0) (xs @ 0 # r) = takeWhile (\<lambda>b. b \<noteq> 0) xs" for xs :: "byte list"
    by (induction xs) simp_all
  then have "bytes_str (str_bytes s @ 0 # r) = bytes_str (str_bytes s)" by (simp add: bytes_str_def)
  with s show ?thesis by simp
qed

lemma fresh_ok_replicate: "fresh_ok (\<lambda>n. replicate n 0)"
  by (simp add: fresh_ok_def)

text \<open>A packet whose head and data have these lengths holds these bytes, and more memory behind.\<close>

lemma unat_u32_of: "0 \<le> i \<Longrightarrow> i < 2 ^ 32 \<Longrightarrow> unat (u32_of i) = nat i"
  by (simp add: u32_of_def unsigned_of_int take_bit_int_eq_self)

lemma deliver_ok:
  assumes "pt_head p = Some (h @ hr)" and "pt_head_length p = Some (u32_of (int (length h)))"
    and "pt_data p = Some (d @ dr)" and "pt_data_length p = Some (u32_of (int (length d)))"
    and "length h < 2 ^ 31" and "length d < 2 ^ 31"
  shows "\<exists>q. deliver p = Some q \<and> pt_head q = Some (h @ [0]) \<and> pt_head_length q = pt_head_length p \<and>
           pt_data q = Some (d @ [0]) \<and> pt_data_length q = pt_data_length p"
  using assms
  by (simp add: deliver_def unat_u32_of load_def Packet_set_packet_def Packet_set_head_def)

definition request_bytes :: "int \<Rightarrow> string \<Rightarrow> byte list" where
  "request_bytes req path = wr_i32 req @ wr_i32 (int (length path)) @ str_bytes path"

lemma length_request_bytes [simp]: "length (request_bytes req path) = 8 + length path"
  by (simp add: request_bytes_def)

lemma put_request_ok:
  assumes "pk_written [] (8 + length path + n) p"
  shows "\<exists>p'. set_net_i32 req p \<bind> set_net_i32 (int (length path)) \<bind>
             Package_SetString (str_bytes path) (int (length path)) = Some p' \<and>
           pk_written (request_bytes req path) n p'"
proof -
  let ?n = "length path"
  have "pk_written [] (4 + (4 + (length (str_bytes path) + n))) p" using assms by (simp add: add.assoc)
  from set_net_i32_ok [OF this, of req] obtain p1 where
    p1: "set_net_i32 req p = Some p1"
      "pk_written ([] @ wr_i32 req) (4 + (length (str_bytes path) + n)) p1" by blast
  from set_net_i32_ok [OF p1(2), of "int ?n"] obtain p2 where
    p2: "set_net_i32 (int ?n) p1 = Some p2"
      "pk_written (([] @ wr_i32 req) @ wr_i32 (int ?n)) (length (str_bytes path) + n) p2" by blast
  from SetString_ok [OF p2(2)] p1(1) p2(1) show ?thesis by (simp add: request_bytes_def)
qed

lemma new_packet_deliver:
  assumes "length h < 2 ^ 31" and "length d < 2 ^ 31"
  shows "\<exists>q. deliver (new_packet h (int (length h)) d (int (length d))) = Some q \<and>
           pt_head q = Some (h @ [0]) \<and> pt_head_length q = Some (u32_of (int (length h))) \<and>
           pt_data q = Some (d @ [0]) \<and> pt_data_length q = Some (u32_of (int (length d)))"
  using deliver_ok [of "new_packet h (int (length h)) d (int (length d))" h "[]" d "[]"] assms
  by (simp add: new_packet_def Packet_set_packet_def Packet_set_head_def)

lemma GetMeta_request_ok:
  assumes fresh: "fresh_ok fresh" and path: "length path < 2 ^ 30"
  shows "\<exists>(p :: 'e packet) q r. Client_GetMeta_request fresh path = Some p \<and> deliver p = Some q \<and>
    pt_head q = Some (request_bytes GET_META path @ r) \<and>
    pt_head_length q = Some (u32_of (int (length path + 9)))"
proof -
  let ?n = "length path"
  have hl: "int ?n + 4 + 4 + 1 = int (?n + 9)" "nat (int ?n + 4 + 4 + 1) = ?n + 9" and nn: "nat (int ?n + 9) = ?n + 9" by simp_all
  have "pk_written [] (8 + ?n + 1) (Package_set_data (fresh (?n + 9)) (int (?n + 9)) Package_new)"
    using fresh pk_written_start [of "fresh (?n + 9)" "?n + 9" 0 Package_new]
    by (simp add: fresh_ok_def add.commute)
  from put_request_ok [OF this, of GET_META] obtain p where
    p: "set_net_i32 GET_META (Package_set_data (fresh (?n + 9)) (int (?n + 9)) Package_new) \<bind>
          set_net_i32 (int ?n) \<bind> Package_SetString (str_bytes path) (int ?n) = Some p"
      "pk_written (request_bytes GET_META path) 1 p" by blast
  from pk_written_mem [OF p(2)] obtain r where
    r: "pk_mem p = request_bytes GET_META path @ r" "length r = 1" by auto
  have "Client_GetMeta_request fresh path = Some (new_packet (pk_mem p) (int (?n + 9)) (fresh 1) 1 :: 'e packet)"
    unfolding Client_GetMeta_request_def Let_def hl using p(1) by (auto simp: bind_eq_Some_conv nn)
  moreover have L: "length (pk_mem p) = ?n + 9" "length (fresh 1) = 1"
    using r fresh by (simp_all add: fresh_ok_def)
  obtain q where "deliver (new_packet (pk_mem p) (int (?n + 9)) (fresh 1) 1 :: 'e packet) = Some q"
      "pt_head q = Some (pk_mem p @ [0])" "pt_head_length q = Some (u32_of (int (?n + 9)))"
    using new_packet_deliver [of "pk_mem p" "fresh 1", unfolded L of_nat_1] path by auto
  ultimately show ?thesis unfolding r(1) append_assoc by blast
qed

lemma GetChunk_request_ok:
  assumes fresh: "fresh_ok fresh" and path: "length path < 2 ^ 30"
  shows "\<exists>(p :: 'e packet) q r. Client_GetChunk_request fresh off len path = Some p \<and> deliver p = Some q \<and>
    pt_head q = Some ((request_bytes GET_CHUNK path @ wr_i32 off @ wr_i32 len) @ r) \<and>
    pt_head_length q = Some (u32_of (int (length path + 17)))"
proof -
  let ?n = "length path"
  have hl: "int ?n + 4 * 4 + 1 = int (?n + 17)" "nat (int ?n + 4 * 4 + 1) = ?n + 17" and nn: "nat (int ?n + 17) = ?n + 17" by simp_all
  have "pk_written [] (8 + ?n + (4 + (4 + 1))) (Package_set_data (fresh (?n + 17)) (int (?n + 17)) Package_new)"
    using fresh pk_written_start [of "fresh (?n + 17)" "?n + 17" 0 Package_new]
    by (simp add: fresh_ok_def add.commute)
  from put_request_ok [OF this, of GET_CHUNK] obtain p1 where
    p1: "set_net_i32 GET_CHUNK (Package_set_data (fresh (?n + 17)) (int (?n + 17)) Package_new) \<bind>
          set_net_i32 (int ?n) \<bind> Package_SetString (str_bytes path) (int ?n) = Some p1"
      "pk_written (request_bytes GET_CHUNK path) (4 + (4 + 1)) p1" by blast
  from set_net_i32_ok [OF p1(2), of off] obtain p2 where
    p2: "set_net_i32 off p1 = Some p2"
      "pk_written (request_bytes GET_CHUNK path @ wr_i32 off) (4 + 1) p2" by blast
  from set_net_i32_ok [OF p2(2), of len] obtain p where
    p: "set_net_i32 len p2 = Some p"
      "pk_written ((request_bytes GET_CHUNK path @ wr_i32 off) @ wr_i32 len) 1 p" by auto
  from pk_written_mem [OF p(2)] obtain r where
    r: "pk_mem p = (request_bytes GET_CHUNK path @ wr_i32 off @ wr_i32 len) @ r" "length r = 1" by auto
  have "Client_GetChunk_request fresh off len path =
      Some (new_packet (pk_mem p) (int (?n + 17)) (fresh 1) 1 :: 'e packet)"
    unfolding Client_GetChunk_request_def Let_def hl using p1(1) p2(1) p(1)
    by (auto simp: bind_eq_Some_conv nn)
  moreover have L: "length (pk_mem p) = ?n + 17" "length (fresh 1) = 1"
    using r fresh by (simp_all add: fresh_ok_def)
  obtain q where "deliver (new_packet (pk_mem p) (int (?n + 17)) (fresh 1) 1 :: 'e packet) = Some q"
      "pt_head q = Some (pk_mem p @ [0])" "pt_head_length q = Some (u32_of (int (?n + 17)))"
    using new_packet_deliver [of "pk_mem p" "fresh 1", unfolded L of_nat_1] path by auto
  ultimately show ?thesis unfolding r(1) append_assoc by blast
qed

text \<open>The server reads the request back, and its cursor stands behind the path.\<close>

lemma EchoFromServer_ok:
  assumes "pt_head q = Some ((request_bytes req path @ more_args) @ r)"
    and "pt_head_length q = Some (u32_of (int n))" and "8 + length path + length more_args \<le> n"
    and "n < 2 ^ 31" and "i32_ok req"
  shows "\<exists>node. EchoFromServer q = Some node \<and> sk_packet node = q \<and> sk_req node = req \<and>
           sk_path node = str_bytes path \<and> pk_rest (sk_head node) more_args"
proof -
  let ?xs = "request_bytes req path @ more_args"
  have n: "sint (u32_of (int n)) = int n" using assms(4) by (intro sint_u32_of) (simp add: i32_ok_def)
  have "pk_rest (Package_set_data (?xs @ r) (int n) Package_new) ?xs"
    using assms(3) by (intro pk_rest_start) simp
  then have "pk_rest (Package_set_data (?xs @ r) (int n) Package_new)
      (wr_i32 req @ wr_i32 (int (length path)) @ str_bytes path @ more_args)"
    by (simp add: request_bytes_def)
  from get_net_i32_ok [OF this assms(5)] obtain p1 where
    p1: "get_net_i32 (Package_set_data (?xs @ r) (int n) Package_new) = Some (req, p1)"
      "pk_rest p1 (wr_i32 (int (length path)) @ str_bytes path @ more_args)" by blast
  have "i32_ok (int (length path))" using assms(3,4) by (simp add: i32_ok_def)
  from get_net_i32_ok [OF p1(2) this] obtain p2 where
    p2: "get_net_i32 p1 = Some (int (length path), p2)" "pk_rest p2 (str_bytes path @ more_args)" by blast
  from GetString_ok [OF p2(2), of "int (length path)"] obtain p3 where
    p3: "Package_GetString (int (length path)) p2 = Some (Some (str_bytes path), p3)"
      "pk_rest p3 more_args" by auto
  show ?thesis
    using assms(1,2) n p1(1) p2(1) p3 by (simp add: EchoFromServer_def Let_def)
qed

section \<open>The chunk list over the wire\<close>

definition info_bytes :: "chunk_info \<Rightarrow> byte list" where
  "info_bytes c = be32 (ci_weak_sum c) @ wr_i32 (ci_offset c) @ wr_i32 (ci_length c) @ ci_strong_sum c"

definition info_ok :: "chunk_info \<Rightarrow> bool" where
  "info_ok c \<longleftrightarrow> i32_ok (ci_offset c) \<and> i32_ok (ci_length c) \<and> length (ci_strong_sum c) = 32 \<and> ci_from c"

lemma put_chunk_info_ok:
  assumes "info_ok c" and "pk_written bs (44 + n) p"
  shows "\<exists>p'. put_chunk_info c p = Some p' \<and> pk_written (bs @ info_bytes c) n p'"
proof -
  have "pk_written bs (4 + (4 + (4 + (length (ci_strong_sum c) + n)))) p"
    using assms by (simp add: info_ok_def)
  from set_net_u32_ok [OF this, of "ci_weak_sum c"] obtain p1 where
    p1: "set_net_u32 (ci_weak_sum c) p = Some p1"
      "pk_written (bs @ be32 (ci_weak_sum c)) (4 + (4 + (length (ci_strong_sum c) + n))) p1" by blast
  from set_net_i32_ok [OF p1(2), of "ci_offset c"] obtain p2 where
    p2: "set_net_i32 (ci_offset c) p1 = Some p2"
      "pk_written ((bs @ be32 (ci_weak_sum c)) @ wr_i32 (ci_offset c)) (4 + (length (ci_strong_sum c) + n)) p2"
    by blast
  from set_net_i32_ok [OF p2(2), of "ci_length c"] obtain p3 where
    p3: "set_net_i32 (ci_length c) p2 = Some p3"
      "pk_written (((bs @ be32 (ci_weak_sum c)) @ wr_i32 (ci_offset c)) @ wr_i32 (ci_length c))
         (length (ci_strong_sum c) + n) p3" by blast
  from SetString_ok [OF p3(2)] p1(1) p2(1) p3(1) show ?thesis
    by (simp add: put_chunk_info_def info_bytes_def)
qed

lemma put_chunk_infos_ok:
  assumes "\<forall>c \<in> set meta. info_ok c" and "pk_written bs (44 * length meta + n) p"
  shows "\<exists>p'. foldM put_chunk_info meta p = Some p' \<and>
           pk_written (bs @ concat (map info_bytes meta)) n p'"
  using assms
proof (induction meta arbitrary: bs p)
  case Nil
  then show ?case by simp
next
  case (Cons c meta)
  have "pk_written bs (44 + (44 * length meta + n)) p" using Cons.prems(2) by (simp add: add.assoc)
  with put_chunk_info_ok [of c bs _ p] Cons.prems(1) obtain p1 where
    "put_chunk_info c p = Some p1" "pk_written (bs @ info_bytes c) (44 * length meta + n) p1" by auto
  with Cons.IH [OF _ this(2)] Cons.prems(1) show ?case by auto
qed

lemma parse_chunk_infos_ok:
  assumes "\<forall>c \<in> set meta. info_ok c" and "pk_rest p (concat (map info_bytes meta) @ xs)"
  shows "\<exists>p'. parse_chunk_infos (length meta) p = Some (meta, p')"
  using assms
proof (induction meta arbitrary: p)
  case Nil
  then show ?case by simp
next
  case (Cons c meta)
  let ?r = "concat (map info_bytes meta) @ xs"
  have c: "i32_ok (ci_offset c)" "i32_ok (ci_length c)" "length (ci_strong_sum c) = 32" "ci_from c"
    using Cons.prems(1) by (simp_all add: info_ok_def)
  have "pk_rest p (be32 (ci_weak_sum c) @ wr_i32 (ci_offset c) @ wr_i32 (ci_length c) @ ci_strong_sum c @ ?r)"
    using Cons.prems(2) by (simp add: info_bytes_def [of c])
  from get_net_u32_ok [OF this] obtain p1 where
    p1: "get_net_u32 p = Some (ci_weak_sum c, p1)"
      "pk_rest p1 (wr_i32 (ci_offset c) @ wr_i32 (ci_length c) @ ci_strong_sum c @ ?r)" by blast
  from get_net_i32_ok [OF p1(2) c(1)] obtain p2 where
    p2: "get_net_i32 p1 = Some (ci_offset c, p2)" "pk_rest p2 (wr_i32 (ci_length c) @ ci_strong_sum c @ ?r)"
    by blast
  from get_net_i32_ok [OF p2(2) c(2)] obtain p3 where
    p3: "get_net_i32 p2 = Some (ci_length c, p3)" "pk_rest p3 (ci_strong_sum c @ ?r)" by blast
  from GetString_ok [OF p3(2), of 32] c(3) obtain p4 where
    p4: "Package_GetString 32 p3 = Some (Some (ci_strong_sum c), p4)" "pk_rest p4 ?r" by auto
  from Cons.IH [OF _ p4(2)] Cons.prems(1) obtain p5 where
    "parse_chunk_infos (length meta) p4 = Some (meta, p5)" by auto
  moreover have "\<lparr>ci_weak_sum = ci_weak_sum c, ci_from = True, ci_offset = ci_offset c,
      ci_length = ci_length c, ci_strong_sum = ci_strong_sum c\<rparr> = c" using c(4) by simp
  ultimately show ?case using p1(1) p2(1) p3(1) p4(1) by simp
qed

lemma length_info_bytes: "info_ok c \<Longrightarrow> length (info_bytes c) = 44"
  by (simp add: info_bytes_def info_ok_def)

lemma length_infos: "\<forall>c \<in> set meta. info_ok c \<Longrightarrow> length (concat (map info_bytes meta)) = 44 * length meta"
  by (induction meta) (simp_all add: length_info_bytes)

section \<open>Server and client together\<close>

lemma is_exists_file_ok: "file_ok fs p N \<Longrightarrow> is_exists_file fs p"
  by (simp add: file_ok_def is_exists_file_def)

text \<open>Answers begin with the response code; the head has 13 bytes.\<close>

lemma answer_head:
  assumes "fresh_ok fresh"
  shows "\<exists>p. set_net_i32 i (Package_set_data (fresh 15) 13 q) = Some p \<and> pk_written_in 2 (wr_i32 i) 9 p"
proof -
  have "pk_written_in 2 [] (4 + 9) (Package_set_data (fresh 15) (int (4 + 9)) q)"
    using assms by (intro pk_written_start) (simp add: fresh_ok_def)
  from set_net_i32_ok [OF this, of i] show ?thesis by simp
qed

lemma Server_GetMeta_ok:
  assumes f: "file_ok fs path old" and p: "bytes_str (sk_path node) = path" and fresh: "fresh_ok fresh"
    and C: "0 < C" "int C \<le> 2 ^ 30" and md4: "\<forall>m. length (md4 m) = 16"
    and s: "cq_inv (ck3_buf_list s)" and q: "queue = cq_list (ck3_buf_list s)"
    and n: "length (service_list md4 C old queue) < 2 ^ 25"
    and ok: "\<forall>c \<in> set (service_list md4 C old queue). info_ok c"
  shows "\<exists>a s' r r'. Server_GetMeta md4 (int C) fresh fs node s = Some (a, s') \<and>
           pt_head a = Some ((wr_i32 1 @ wr_i32 (int (length (service_list md4 C old queue))) @ wr_i32 1 @ [r']) @ r) \<and>
           pt_head_length a = Some (u32_of 13) \<and>
           (\<exists>d. length d = 10 \<and> pt_data a = Some (concat (map info_bytes (service_list md4 C old queue)) @ d)) \<and>
           pt_data_length a = Some (u32_of (int (44 * length (service_list md4 C old queue) + 10))) \<and>
           cq_inv (ck3_buf_list s') \<and> cq_list (ck3_buf_list s') = queue"
proof -
  let ?l = "service_list md4 C old queue"
  obtain p1 where p1: "set_net_i32 1 (Package_set_data (fresh 15) 13 Package_new) = Some p1"
    "pk_written_in 2 (wr_i32 1) (4 + (4 + 1)) p1" using answer_head [OF fresh, of 1 Package_new] by auto
  obtain s' where s': "service_GenerateMetaList md4 (int C) fs path s = Some (?l, s')"
    "cq_inv (ck3_buf_list s')" "cq_list (ck3_buf_list s') = queue"
    using service_GenerateMetaList_ok [OF f C s q] by blast
  from set_net_i32_ok [OF p1(2), of "int (length ?l)"] obtain p2 where
    p2: "set_net_i32 (int (length ?l)) p1 = Some p2"
      "pk_written_in 2 (wr_i32 1 @ wr_i32 (int (length ?l))) (4 + 1) p2" by blast
  from set_net_i32_ok [OF p2(2), of 1] obtain p3 where
    p3: "set_net_i32 1 p2 = Some p3"
      "pk_written_in 2 ((wr_i32 1 @ wr_i32 (int (length ?l))) @ wr_i32 1) 1 p3" by blast
  from pk_written_mem [OF p3(2)] obtain r where
    r: "pk_mem p3 = ((wr_i32 1 @ wr_i32 (int (length ?l))) @ wr_i32 1) @ r" "length r = Suc 2" by auto
  then obtain r0 r1 where r': "r = r0 # r1" by (cases r) auto
  let ?n = "44 * length ?l + 10"
  have "pk_written [] ?n (Package_set_data (fresh ?n) (int ?n) p3)"
    using fresh by (intro pk_written_start) (simp add: fresh_ok_def)
  from put_chunk_infos_ok [OF ok this] obtain p4 where
    p4: "foldM put_chunk_info ?l (Package_set_data (fresh ?n) (int ?n) p3) = Some p4"
      "pk_written (concat (map info_bytes ?l)) 10 p4" by auto
  from pk_written_mem [OF p4(2)] obtain d where
    d: "pk_mem p4 = concat (map info_bytes ?l) @ d" "length d = 10" by auto
  have dl: "int (length ?l) * (4 + 4 * 2 + 32) + 10 = int ?n" "nat (int ?n) = ?n"
    and nn: "nat (int (length ?l) * 44 + 10) = ?n" by simp_all
  have "is_exists_file fs path" using f by (rule is_exists_file_ok)
  then have "Server_GetMeta md4 (int C) fresh fs node s =
      Some (Packet_set_packet (pk_mem p4) (u32_of (int ?n))
        (Packet_set_head (pk_mem p3) (u32_of 13) (sk_packet node)), s')"
    unfolding Server_GetMeta_def Let_def p dl RESPONSE_OK_def
    using p1(1) s'(1) p2(1) p3(1) p4(1)
    by (simp add: nn mult.commute [of 44 "int (length ?l)"])
  then show ?thesis
    using r(1) d s'(2,3) by (simp add: Packet_set_packet_def Packet_set_head_def r')
qed

lemma Client_GetMeta_ok:
  assumes f: "file_ok remote path old" and path: "c_path path" "length path < 2 ^ 30"
    and fresh: "fresh_ok fresh" and C: "0 < C" "int C \<le> 2 ^ 30" and md4: "\<forall>m. length (md4 m) = 16"
    and s: "cq_inv (ck3_buf_list s)" and q: "queue = cq_list (ck3_buf_list s)"
    and n: "length (service_list md4 C old queue) < 2 ^ 25"
    and ok: "\<forall>c \<in> set (service_list md4 C old queue). info_ok c"
  shows "\<exists>s'. Client_GetMeta md4 (int C) fresh remote s path = Some (Some (service_list md4 C old queue), s') \<and>
           cq_inv (ck3_buf_list s') \<and> cq_list (ck3_buf_list s') = queue"
proof -
  let ?l = "service_list md4 C old queue" and ?n = "length path + 9"
  from GetMeta_request_ok [OF fresh path(2)] obtain rq :: "unit packet" and rq' r where
    rq: "Client_GetMeta_request fresh path = Some rq" "deliver rq = Some rq'"
      "pt_head rq' = Some (request_bytes GET_META path @ r)"
      "pt_head_length rq' = Some (u32_of (int ?n))" by blast
  obtain node where node: "EchoFromServer rq' = Some node" "sk_req node = GET_META"
      "sk_path node = str_bytes path"
    using EchoFromServer_ok [of rq' GET_META path "[]" r ?n] rq(3,4) path(2)
    by (auto simp: GET_META_def i32_ok_def)
  have "bytes_str (sk_path node) = path" using node(3) path(1) by simp
  from Server_GetMeta_ok [OF f this fresh C md4 s q n ok] obtain a s' r r' d where
    a: "Server_GetMeta md4 (int C) fresh remote node s = Some (a, s')"
      "pt_head a = Some ((wr_i32 1 @ wr_i32 (int (length ?l)) @ wr_i32 1 @ [r']) @ r)"
      "pt_head_length a = Some (u32_of 13)" "length d = 10"
      "pt_data a = Some (concat (map info_bytes ?l) @ d)"
      "pt_data_length a = Some (u32_of (int (44 * length ?l + 10)))"
      "cq_inv (ck3_buf_list s')" "cq_list (ck3_buf_list s') = queue" by blast
  let ?h = "wr_i32 1 @ wr_i32 (int (length ?l)) @ wr_i32 1 @ [r']"
  let ?d = "concat (map info_bytes ?l) @ d"
  have ld: "length ?d = 44 * length ?l + 10" using length_infos [OF ok] a(4) by simp
  have "\<exists>b. deliver a = Some b \<and> pt_head b = Some (?h @ [0]) \<and> pt_head_length b = pt_head_length a \<and>
      pt_data b = Some (?d @ [0]) \<and> pt_data_length b = pt_data_length a"
    by (rule deliver_ok [where hr = r and dr = "[]"]) (use a ld n in \<open>simp_all add: ld\<close>)
  then obtain b where b: "deliver a = Some b" "pt_head b = Some (?h @ [0])"
      "pt_head_length b = Some (u32_of 13)" "pt_data b = Some (?d @ [0])"
      and "pt_data_length b = pt_data_length a"
    using a(3) by auto
  then have b5: "pt_data_length b = Some (u32_of (int (length ?d)))" unfolding ld using a(6) by simp
  have call: "remote_call md4 (int C) fresh remote s rq = Some (b, s')"
    using rq(2) node(1,2) a(1) b(1) by (simp add: remote_call_def Server_Process_def)
  have i: "i32_ok 1" "i32_ok (int (length ?l))" using n by (simp_all add: i32_ok_def)
  have s13: "sint (u32_of 13) = 13" by (intro sint_u32_of) (simp add: i32_ok_def)
  have "pk_rest (Package_set_data (?h @ [0]) 13 Package_new) ?h" by (rule pk_rest_start) simp
  from get_net_i32_ok [OF this i(1)] obtain p1 where
    p1: "get_net_i32 (Package_set_data (?h @ [0]) 13 Package_new) = Some (1, p1)"
      "pk_rest p1 (wr_i32 (int (length ?l)) @ wr_i32 1 @ [r'])" by blast
  from get_net_i32_ok [OF p1(2) i(2)] obtain p2 where
    p2: "get_net_i32 p1 = Some (int (length ?l), p2)" by blast
  have sd: "sint (u32_of (int (length ?d))) = int (length ?d)"
    unfolding ld using n by (intro sint_u32_of) (simp add: i32_ok_def)
  have "pk_rest (Package_set_data (?d @ [0]) (int (length ?d)) p2) ?d" by (rule pk_rest_start) simp
  from parse_chunk_infos_ok [OF ok this] obtain p3 where
    p3: "parse_chunk_infos (length ?l) (Package_set_data (?d @ [0]) (int (length ?d)) p2) = Some (?l, p3)"
    by blast
  have "Client_GetMeta_answer b = Some (Some ?l)"
    unfolding Client_GetMeta_answer_def Let_def b(2-4) b5 Option.bind.bind_lunit s13 sd p1(1) p2 prod.case
    using p3 by simp
  then show ?thesis
    using rq(1) call a(7,8) by (simp add: Client_GetMeta_def)
qed

lemma Client_GetChunk_ok:
  assumes f: "file_ok remote path old" and path: "c_path path" "length path < 2 ^ 30"
    and fresh: "fresh_ok fresh" and inside: "off + len \<le> length old"
  shows "\<exists>d. Client_GetChunk md4 cs fresh remote s (int off) (int len) path = Some (Some d, s) \<and>
           load d 0 len = Some (take len (drop off old))"
proof -
  let ?n = "length path + 17"
  have old: "length old < 2 ^ 30" using f by (simp add: file_ok_def DEFAULT_BUFFER_LENGTH_def)
  have i: "i32_ok (int off)" "i32_ok (int len)" using inside old by (simp_all add: i32_ok_def)
  from GetChunk_request_ok [OF fresh path(2)] obtain rq :: "unit packet" and rq' r where
    rq: "Client_GetChunk_request fresh (int off) (int len) path = Some rq" "deliver rq = Some rq'"
      "pt_head rq' = Some ((request_bytes GET_CHUNK path @ wr_i32 (int off) @ wr_i32 (int len)) @ r)"
      "pt_head_length rq' = Some (u32_of (int ?n))" by blast
  obtain node where node: "EchoFromServer rq' = Some node" "sk_req node = GET_CHUNK"
      "sk_path node = str_bytes path" "pk_rest (sk_head node) (wr_i32 (int off) @ wr_i32 (int len))"
    using EchoFromServer_ok [of rq' GET_CHUNK path _ r ?n] rq(3,4) path(2)
    by (auto simp: GET_CHUNK_def i32_ok_def)
  from get_net_i32_ok [OF node(4) i(1)] obtain h1 where
    h1: "get_net_i32 (sk_head node) = Some (int off, h1)" "pk_rest h1 (wr_i32 (int len) @ [])" by auto
  from get_net_i32_ok [OF h1(2) i(2)] obtain h2 where h2: "get_net_i32 h1 = Some (int len, h2)" by blast
  have "fs_files remote path = Some old" "\<not> fs_denied remote path" "int (length old) < 2 ^ 31"
    using f old by (simp_all add: file_ok_def)
  from fu_read_at_ok [OF this, of off] have gc: "service_GetChunk remote path (int off) = Some (Some (drop off old))"
    by (auto simp: service_GetChunk_def)
  obtain p1 where p1: "set_net_i32 1 (Package_set_data (fresh 15) 13 Package_new) = Some p1"
    "pk_written_in 2 (wr_i32 1) 9 p1" using answer_head [OF fresh, of 1 Package_new] by auto
  from pk_written_mem [OF p1(2)] obtain r1 where r1: "pk_mem p1 = wr_i32 1 @ r1" "length r1 = 11" by auto
  define a where "a = Packet_set_packet (drop off old) (u32_of (int len))
      (Packet_set_head (pk_mem p1) (u32_of 13) (sk_packet node))"
  have "Server_GetChunk fresh remote node = Some a"
    using is_exists_file_ok [OF f] node(3) path(1) h1(1) h2 gc p1(1)
    by (simp add: Server_GetChunk_def Let_def RESPONSE_OK_def a_def)
  then have sp: "Server_Process md4 cs fresh remote (Some node) s = Some (Some a, s)"
    using node(2) by (simp add: Server_Process_def GET_META_def GET_CHUNK_def)
  let ?h = "wr_i32 1 @ take 9 r1" and ?d = "take len (drop off old)"
  have l: "length ?h = 13" "length ?d = len" using r1(2) inside by simp_all
  have "\<exists>b. deliver a = Some b \<and> pt_head b = Some (?h @ [0]) \<and> pt_head_length b = pt_head_length a \<and>
      pt_data b = Some (?d @ [0]) \<and> pt_data_length b = pt_data_length a"
    by (rule deliver_ok [where hr = "drop 9 r1" and dr = "drop len (drop off old)"])
      (use r1 l inside old in \<open>simp_all add: a_def Packet_set_packet_def Packet_set_head_def
         del: length_take drop_drop\<close>)
  then obtain b where b: "deliver a = Some b" "pt_head b = Some (?h @ [0])"
      "pt_head_length b = Some (u32_of 13)" "pt_data b = Some (?d @ [0])"
    by (auto simp: a_def Packet_set_packet_def Packet_set_head_def)
  have call: "remote_call md4 cs fresh remote s rq = Some (b, s)"
    using rq(2) node(1) sp b(1) by (simp add: remote_call_def)
  have s13: "sint (u32_of 13) = 13" by (intro sint_u32_of) (simp add: i32_ok_def)
  have "pk_rest (Package_set_data (?h @ [0]) 13 Package_new) ?h" using l(1) by (intro pk_rest_start) simp
  moreover have "i32_ok 1" by (simp add: i32_ok_def)
  ultimately obtain p2 where
    p2: "get_net_i32 (Package_set_data (?h @ [0]) 13 Package_new) = Some (1, p2)"
    using get_net_i32_ok by blast
  have "Client_GetChunk md4 cs fresh remote s (int off) (int len) path = Some (Some (?d @ [0]), s)"
    unfolding Client_GetChunk_def rq(1) Option.bind.bind_lunit call prod.case b(2-4) s13 p2 by simp
  then show ?thesis using l(2) by (simp add: load_def)
qed

text \<open>A missing file: the answer is -1, and the client gets a null list.\<close>

lemma Client_GetMeta_missing:
  assumes m: "fs_files remote path = None" and path: "c_path path" "length path < 2 ^ 30"
    and fresh: "fresh_ok fresh"
  shows "Client_GetMeta md4 cs fresh remote s path = Some (None, s)"
proof -
  let ?n = "length path + 9"
  from GetMeta_request_ok [OF fresh path(2)] obtain rq :: "unit packet" and rq' r where
    rq: "Client_GetMeta_request fresh path = Some rq" "deliver rq = Some rq'"
      "pt_head rq' = Some (request_bytes GET_META path @ r)"
      "pt_head_length rq' = Some (u32_of (int ?n))" by blast
  obtain node where node: "EchoFromServer rq' = Some node" "sk_req node = GET_META"
      "sk_path node = str_bytes path"
    using EchoFromServer_ok [of rq' GET_META path "[]" r ?n] rq(3,4) path(2)
    by (auto simp: GET_META_def i32_ok_def)
  have "pk_written [] (4 + 1) (Package_set_data (fresh 5) (int (4 + 1)) Package_new)"
    using fresh by (intro pk_written_start) (simp add: fresh_ok_def)
  from set_net_u32_ok [OF this, of "u32_of (- 1)"] obtain p1 where
    p1: "set_net_u32 (u32_of (- 1)) (Package_set_data (fresh 5) 5 Package_new) = Some p1"
      "pk_written (be32 (u32_of (- 1))) 1 p1" by auto
  from pk_written_mem [OF p1(2)] obtain r1 where
    r1: "pk_mem p1 = wr_i32 (- 1) @ r1" "length r1 = 1" by (auto simp: wr_i32_def)
  define a where "a = Packet_set_packet (fresh 1) 1 (Packet_set_head (pk_mem p1) 4 (sk_packet node))"
  have "not_exist_answer fresh (sk_packet node) = Some a"
    using p1(1) by (simp add: not_exist_answer_def FILE_DID_NOT_EXIST_def Let_def a_def)
  then have sp: "Server_Process md4 cs fresh remote (Some node) s = Some (Some a, s)"
    using node(2,3) m path(1) by (simp add: Server_Process_def Server_GetMeta_def is_exists_file_def)
  have "\<exists>b. deliver a = Some b \<and> pt_head b = Some (wr_i32 (- 1) @ [0]) \<and>
      pt_head_length b = pt_head_length a \<and> pt_data b = Some (fresh 1 @ [0]) \<and>
      pt_data_length b = pt_data_length a"
    by (rule deliver_ok [where hr = r1 and dr = "[]"])
      (use r1 fresh in \<open>simp_all add: a_def Packet_set_packet_def Packet_set_head_def u32_of_def fresh_ok_def\<close>)
  then obtain b where b: "deliver a = Some b" "pt_head b = Some (wr_i32 (- 1) @ [0])"
      "pt_head_length b = Some (u32_of 4)"
    by (auto simp: a_def Packet_set_packet_def Packet_set_head_def u32_of_def)
  have call: "remote_call md4 cs fresh remote s rq = Some (b, s)"
    using rq(2) node(1) sp b(1) by (simp add: remote_call_def)
  have s4: "sint (u32_of 4) = 4" by (intro sint_u32_of) (simp add: i32_ok_def)
  have "load (wr_i32 (- 1) @ [0]) 0 4 = Some (wr_i32 (- 1))" by (simp add: load_def)
  moreover have "rdle32 (wr_i32 (- 1)) = htonl (u32_of (- 1))" by (simp add: htonl_def wr_i32_def)
  moreover have "sint (u32_of (- 1)) = - 1" by (intro sint_u32_of) (simp add: i32_ok_def)
  ultimately have "get_net_i32 (Package_set_data (wr_i32 (- 1) @ [0]) 4 Package_new) =
      Some (- 1, \<lparr>pk_mem = wr_i32 (- 1) @ [0], pk_pos = 4, pk_length = 4, pk_left = 0\<rparr>)"
    by (simp add: get_net_i32_def Package_GetInt32_t_def room4_def Package_set_data_def Package_new_def)
  moreover have "get_net_i32 \<lparr>pk_mem = wr_i32 (- 1) @ [0], pk_pos = 4, pk_length = 4, pk_left = 0\<rparr> =
      Some (0, \<lparr>pk_mem = wr_i32 (- 1) @ [0], pk_pos = 4, pk_length = 4, pk_left = 0\<rparr>)"
    by (simp add: get_net_i32_def Package_GetInt32_t_def room4_def u32_of_def ntohl_def htonl_def
        rdle32_def be32_def)
  ultimately have "Client_GetMeta_answer b = Some None"
    unfolding Client_GetMeta_answer_def Let_def b(2,3) Option.bind.bind_lunit s4 by simp
  then show ?thesis using rq(1) call by (simp add: Client_GetMeta_def)
qed

end
