(* ===== verification/RemoteTransfer.thy ===== *)
theory RemoteTransfer
  imports RemoteFacts
begin

text \<open>
  The transfer of a file by the client of \<open>simple_rsync\<close>: \<open>ConstructFile\<close> puts the bytes of the chunks
  together, and after \<open>GetMeta\<close> and \<open>ScanFile1\<close> they are the file of the server.
\<close>

section \<open>Putting chunks together\<close>

definition chunk_gives :: "byte list \<Rightarrow> byte list \<Rightarrow> chunk_info \<Rightarrow> byte list \<Rightarrow> bool" where
  "chunk_gives old D c bs \<longleftrightarrow>
     (\<exists>off. ci_offset c = int off \<and> ci_length c = int (length bs) \<and>
        (let N = (if ci_from c then old else D)
         in off + length bs \<le> length N \<and> bs = take (length bs) (drop off N)))"

definition old_map_ok :: "fsys \<Rightarrow> string \<Rightarrow> byte list \<Rightarrow> chunk_info list \<Rightarrow> file_map option \<Rightarrow> bool" where
  "old_map_ok fs dst D R fm \<longleftrightarrow>
     (case fm of None \<Rightarrow> \<forall>c \<in> set R. ci_from c | Some m \<Rightarrow> fm_ok fs dst D m)"

lemma construct_chunk_ok:
  assumes f: "file_ok remote path old" and path: "c_path path" "length path < 2 ^ 30"
    and fresh: "fresh_ok fresh" and g: "chunk_gives old D c bs" and m: "old_map_ok fs dst D (c # R) fm"
  shows "\<exists>fm'. construct_chunk md4 cs fresh remote fs path c (s, fm, out) = Some (s, fm', out @ bs) \<and>
           old_map_ok fs dst D R fm'"
proof -
  from g obtain off where c: "ci_offset c = int off" "ci_length c = int (length bs)"
    "off + length bs \<le> length (if ci_from c then old else D)"
    "bs = take (length bs) (drop off (if ci_from c then old else D))"
    by (auto simp: chunk_gives_def Let_def)
  show ?thesis
  proof (cases "ci_from c")
    case True
    from Client_GetChunk_ok [OF f path fresh, of off "length bs" md4 cs s] c True obtain d where
      "Client_GetChunk md4 cs fresh remote s (int off) (int (length bs)) path = Some (Some d, s)"
      "load d 0 (length bs) = Some bs" by auto
    with True c(1,2) have "construct_chunk md4 cs fresh remote fs path c (s, fm, out) = Some (s, fm, out @ bs)"
      by (simp add: construct_chunk_def)
    moreover have "old_map_ok fs dst D R fm" using m by (auto simp: old_map_ok_def split: option.splits)
    ultimately show ?thesis by blast
  next
    case False
    with m obtain fm0 where fm0: "fm = Some fm0" "fm_ok fs dst D fm0"
      by (auto simp: old_map_ok_def split: option.splits)
    have "int (length bs) \<le> 2 ^ 30" "off \<le> length D"
      using c(3) False fm0(2) by (simp_all add: fm_ok_def DEFAULT_BUFFER_LENGTH_def)
    from MapFileContent_ok [OF fm0(2) this(2,1)] c(3) False obtain fm1 q mem where
      map: "MapFileContent fs (int off) (int (length bs)) fm0 = Some (fm1, q)" "fm_ok fs dst D fm1"
        "fm_mem fm1 q = Some mem" and "fm_shows D off (length bs) mem" by auto
    with fm_shows_inside [OF this(4)] c(3,4) False have "load mem 0 (length bs) = Some bs" by simp
    with False c(1,2) map fm0(1) have
      "construct_chunk md4 cs fresh remote fs path c (s, fm, out) = Some (s, Some fm1, out @ bs)"
      by (simp add: construct_chunk_def)
    then show ?thesis using map(2) by (auto simp: old_map_ok_def)
  qed
qed

lemma construct_chunks_ok:
  assumes f: "file_ok remote path old" and path: "c_path path" "length path < 2 ^ 30"
    and fresh: "fresh_ok fresh" and g: "list_all2 (chunk_gives old D) R bss" and m: "old_map_ok fs dst D R fm"
  shows "\<exists>fm'. foldM (construct_chunk md4 cs fresh remote fs path) R (s, fm, out) =
           Some (s, fm', out @ concat bss)"
  using g m
proof (induction arbitrary: fm out rule: list_all2_induct)
  case Nil
  then show ?case by simp
next
  case (Cons c R bs bss)
  from construct_chunk_ok [OF f path fresh Cons.hyps(1) Cons.prems] obtain fm1 where
    "construct_chunk md4 cs fresh remote fs path c (s, fm, out) = Some (s, fm1, out @ bs)"
    "old_map_ok fs dst D R fm1" by blast
  with Cons.IH [OF this(2), of "out @ bs"] show ?case by simp
qed

lemma ConstructFile_ok:
  assumes f: "file_ok remote path old" and path: "c_path path" "length path < 2 ^ 30"
    and fresh: "fresh_ok fresh" and g: "list_all2 (chunk_gives old D) R bss"
    and tmp: "\<not> fs_denied fs tmp" "tmp \<noteq> dst"
    and dst: "file_ok fs dst D \<or> fs_files fs dst = None \<and> (\<forall>c \<in> set R. ci_from c)"
  shows "\<exists>fs'. Client_ConstructFile md4 cs fresh remote fs s path dst (Some R) tmp = Some (fs', s) \<and>
           fs_files fs' tmp = Some (concat bss) \<and> fs_frame tmp fs fs'"
proof -
  define fs1 where "fs1 = fs\<lparr>fs_files := (fs_files fs)(tmp \<mapsto> [])\<rparr>"
  have fr: "fs_frame tmp fs fs1" by (simp add: fs_frame_def fs1_def)
  have w: "fopen_write fs tmp = Some fs1" using tmp(1) by (simp add: fopen_write_def fs1_def)
  have "\<exists>fm. (if is_exists_file fs1 dst then map_option Some (FileMap_new fs1 dst) else Some None) = Some fm \<and>
      old_map_ok fs1 dst D R fm"
  proof (cases "file_ok fs dst D")
    case True
    have "file_ok fs1 dst D" using file_ok_frame [OF True fr] tmp(2) by simp
    from file_ok_open [OF this] is_exists_file_ok [OF this] show ?thesis by (auto simp: old_map_ok_def)
  next
    case False
    with dst tmp(2) have "\<not> is_exists_file fs1 dst" "\<forall>c \<in> set R. ci_from c"
      by (auto simp: is_exists_file_def fs1_def)
    then show ?thesis by (simp add: old_map_ok_def)
  qed
  then obtain fm where fm: "(if is_exists_file fs1 dst then map_option Some (FileMap_new fs1 dst) else Some None) = Some fm"
    "old_map_ok fs1 dst D R fm" by blast
  from construct_chunks_ok [OF f path fresh g fm(2)] obtain fm' where
    "foldM (construct_chunk md4 cs fresh remote fs1 path) R (s, fm, []) = Some (s, fm', concat bss)"
    by (metis append_Nil)
  then have "Client_ConstructFile md4 cs fresh remote fs s path dst (Some R) tmp =
      Some (fs1\<lparr>fs_files := (fs_files fs1)(tmp \<mapsto> concat bss)\<rparr>, s)"
    unfolding Client_ConstructFile_def w Option.bind.bind_lunit fm(1) by simp
  then show ?thesis by (simp add: fs_frame_def fs1_def)
qed

section \<open>The chunks of a file\<close>

lemma chunks_take: "k \<le> length old div C \<Longrightarrow> concat (map (chunk C old) [0..<k]) = take (k * C) old"
proof (induction k)
  case (Suc k)
  have "take (k * C + C) old = take (k * C) old @ take C (drop (k * C) old)" by (rule take_add)
  with Suc show ?case by (simp add: chunk_def add.commute)
qed simp

text \<open>The bytes that stand for chunk \<open>k\<close> of the list.\<close>

definition chunk_bytes_of :: "nat \<Rightarrow> byte list \<Rightarrow> nat \<Rightarrow> byte list" where
  "chunk_bytes_of C old k =
     (if k < length old div C then chunk C old k else drop (length old div C * C) old)"

lemma length_service_list:
  "length (service_list md4 C old q) = length old div C + (if length old mod C = 0 then 0 else 1)"
  by (simp add: service_list_def service_meta_def last_chunk_def)

lemma concat_chunk_bytes:
  "concat (map (chunk_bytes_of C old) [0..<length (service_list md4 C old q)]) = old"
proof -
  let ?n = "length old div C"
  have a: "concat (map (chunk_bytes_of C old) [0..<?n]) = take (?n * C) old"
  proof -
    have "map (chunk_bytes_of C old) [0..<?n] = map (chunk C old) [0..<?n]"
      by (rule map_cong) (simp_all add: chunk_bytes_of_def)
    then show ?thesis by (simp only: chunks_take [OF le_refl])
  qed
  show ?thesis
  proof (cases "length old mod C = 0")
    case True
    then have "?n * C = length old" by (metis add.right_neutral div_mult_mod_eq)
    then show ?thesis using a True by (simp add: length_service_list)
  next
    case False
    then show ?thesis using a by (simp add: length_service_list chunk_bytes_of_def)
  qed
qed

lemma service_list_nth:
  assumes k: "k < length (service_list md4 C old q)" and C: "0 < C"
  defines "c \<equiv> service_list md4 C old q ! k"
  shows "ci_from c \<and> chunk_gives old D c (chunk_bytes_of C old k) \<and>
         (if k < length old div C then ci_strong_sum c = hex_string (md4 (chunk C old k)) \<and> ci_length c = int C
          else ci_strong_sum c = hex_string (md4 (last_message C old q)))"
proof (cases "k < length old div C")
  case True
  then have c: "c = service_chunk md4 C old k"
    by (simp add: c_def service_list_def service_meta_def nth_append)
  have "k * C + C \<le> length old" using chunk_inside [OF True] .
  then show ?thesis
    using True length_chunk [OF True]
    by (auto simp: c service_chunk_def chunk_gives_def chunk_bytes_of_def chunk_def Let_def
        intro!: exI [of _ "k * C"])
next
  case False
  let ?n = "length old div C"
  have kn: "k = ?n" "length old mod C \<noteq> 0" using k False by (simp_all add: length_service_list split: if_splits)
  then have c: "c = \<lparr>ci_weak_sum = 0, ci_from = True, ci_offset = int (?n * C),
      ci_length = int (length old mod C), ci_strong_sum = hex_string (md4 (last_message C old q))\<rparr>"
    by (simp add: c_def service_list_def service_meta_def nth_append last_chunk_def)
  have "length old - ?n * C = length old mod C" by (simp add: minus_div_mult_eq_mod)
  then show ?thesis
    using False
    by (auto simp: c chunk_gives_def chunk_bytes_of_def Let_def intro!: exI [of _ "?n * C"])
qed

text \<open>The digest does not confuse a window of the old file with a chunk of the new one.\<close>

definition no_clash :: "(byte list \<Rightarrow> byte list) \<Rightarrow> nat \<Rightarrow> byte list \<Rightarrow> byte list \<Rightarrow> bool" where
  "no_clash md4 C old D \<longleftrightarrow>
     (\<forall>p. p + C \<le> length D \<longrightarrow>
        (\<forall>k < length old div C. md4 (window C D p) = md4 (chunk C old k) \<longrightarrow> window C D p = chunk C old k) \<and>
        md4 (window C D p) \<noteq> md4 (last_message C old []))"

definition chunks_apart :: "(byte list \<Rightarrow> byte list) \<Rightarrow> nat \<Rightarrow> byte list \<Rightarrow> byte list \<Rightarrow> bool" where
  "chunks_apart md4 C old D \<longleftrightarrow>
     (\<forall>p k. p + C \<le> length D \<and> k < length old div C \<and> md4 (window C D p) = md4 (chunk C old k) \<longrightarrow>
        window C D p = chunk C old k)"

definition scan_inside :: "nat \<Rightarrow> byte list \<Rightarrow> chunk_info list \<Rightarrow> bool" where
  "scan_inside C D R \<longleftrightarrow> (\<forall>c \<in> set R. \<not> ci_from c \<longrightarrow> ci_offset c + int C \<le> int (length D))"

text \<open>
  A list of the chunks of \<open>old\<close>: chunk \<open>k\<close> stands for its bytes, a full chunk has its strong sum, and
  no window has the strong sum of the last, shorter one.
\<close>

definition chunk_list ::
  "(byte list \<Rightarrow> byte list) \<Rightarrow> nat \<Rightarrow> byte list \<Rightarrow> byte list \<Rightarrow> chunk_info list \<Rightarrow> bool" where
  "chunk_list md4 C old D l \<longleftrightarrow> (\<forall>k < length l. ci_from (l ! k) \<and>
     chunk_gives old D (l ! k) (chunk_bytes_of C old k) \<and>
     (if k < length old div C
      then ci_strong_sum (l ! k) = hex_string (md4 (chunk C old k)) \<and> ci_length (l ! k) = int C
      else \<forall>p. p + C \<le> length D \<longrightarrow> hex_string (md4 (window C D p)) \<noteq> ci_strong_sum (l ! k)))"

lemma marked_gives:
  assumes mk: "marked md4 C D l R" and l: "chunk_list md4 C old D l" and ins: "scan_inside C D R"
    and apart: "chunks_apart md4 C old D" and md4: "\<forall>m. length (md4 m) = 16" and C: "0 < C"
  shows "list_all2 (chunk_gives old D) R (map (chunk_bytes_of C old) [0..<length l])"
proof (rule list_all2_all_nthI)
  show "length R = length (map (chunk_bytes_of C old) [0..<length l])" using mk by (simp add: marked_def)
  fix k
  assume "k < length R"
  then have k: "k < length l" "k < length R" using mk by (simp_all add: marked_def)
  with l have nth: "chunk_gives old D (l ! k) (chunk_bytes_of C old k)"
      "k < length old div C \<Longrightarrow> ci_strong_sum (l ! k) = hex_string (md4 (chunk C old k))"
      "k < length old div C \<Longrightarrow> ci_length (l ! k) = int C"
      "\<not> k < length old div C \<Longrightarrow> p + C \<le> length D \<Longrightarrow>
         hex_string (md4 (window C D p)) \<noteq> ci_strong_sum (l ! k)" for p
    by (auto simp: chunk_list_def)
  have "chunk_gives old D (R ! k) (chunk_bytes_of C old k)"
  proof (cases "R ! k = l ! k")
    case True
    with nth show ?thesis by simp
  next
    case False
    with mk k(1) obtain p w where
      R: "R ! k = (l ! k)\<lparr>ci_from := False, ci_offset := int p\<rparr>"
      and w: "length w = C" "agrees D p w" "hex_string (md4 w) = ci_strong_sum (l ! k)"
      by (auto simp: marked_def)
    have "p + C \<le> length D" using ins k(2) R nth_mem [OF k(2)] by (fastforce simp: scan_inside_def)
    then have p: "p + C \<le> length D" "w = window C D p" using w(1,2) by (simp_all add: agrees_inside window_def)
    with nth(4) w(3) have kn: "k < length old div C" by blast
    with nth(2) w(3) have "md4 w = md4 (chunk C old k)"
      using hex_string_inj [of "md4 w" "md4 (chunk C old k)"] md4 by simp
    with apart p kn have "window C D p = chunk C old k" by (simp add: chunks_apart_def)
    with R kn nth(3) p(1) length_chunk [OF kn] show ?thesis
      by (auto simp: chunk_gives_def chunk_bytes_of_def window_def Let_def)
  qed
  then show "chunk_gives old D (R ! k) (map (chunk_bytes_of C old) [0..<length l] ! k)"
    using k(1) by simp
qed

lemma service_list_chunks:
  assumes nc: "no_clash md4 C old D" and md4: "\<forall>m. length (md4 m) = 16" and C: "0 < C"
  shows "chunk_list md4 C old D (service_list md4 C old [])"
  unfolding chunk_list_def
proof (intro allI impI)
  fix k
  let ?l = "service_list md4 C old []"
  assume k: "k < length ?l"
  note nth = service_list_nth [OF k C, of D]
  have "hex_string (md4 (window C D p)) \<noteq> ci_strong_sum (?l ! k)"
    if "\<not> k < length old div C" "p + C \<le> length D" for p
    using that nth nc md4 hex_string_inj [of "md4 (window C D p)" "md4 (last_message C old [])"]
    by (auto simp: no_clash_def)
  with nth show "ci_from (?l ! k) \<and> chunk_gives old D (?l ! k) (chunk_bytes_of C old k) \<and>
     (if k < length old div C
      then ci_strong_sum (?l ! k) = hex_string (md4 (chunk C old k)) \<and> ci_length (?l ! k) = int C
      else \<forall>p. p + C \<le> length D \<longrightarrow> hex_string (md4 (window C D p)) \<noteq> ci_strong_sum (?l ! k))"
    by (auto split: if_splits)
qed

lemma no_clash_apart: "no_clash md4 C old D \<Longrightarrow> chunks_apart md4 C old D"
  by (auto simp: no_clash_def chunks_apart_def)

section \<open>GetFile\<close>

lemma service_list_info_ok:
  assumes "file_ok fs p old" and "0 < C" and md4: "\<forall>m. length (md4 m) = 16"
  shows "length (service_list md4 C old q) < 2 ^ 25" and "\<forall>c \<in> set (service_list md4 C old q). info_ok c"
proof -
  let ?n = "length old div C"
  have old: "length old < 20971520" using assms(1) by (simp add: file_ok_def DEFAULT_BUFFER_LENGTH_def)
  have "?n \<le> length old" by (rule div_le_dividend)
  moreover have "length (service_list md4 C old q) \<le> ?n + 1" by (simp add: length_service_list)
  moreover have "(20971520 :: nat) < 2 ^ 25" by simp
  ultimately show "length (service_list md4 C old q) < 2 ^ 25" using old by linarith
  show "\<forall>c \<in> set (service_list md4 C old q). info_ok c"
  proof
    fix c
    assume "c \<in> set (service_list md4 C old q)"
    then obtain k where k: "k < length (service_list md4 C old q)" "c = service_list md4 C old q ! k"
      by (auto simp: in_set_conv_nth)
    from service_list_nth [OF k(1) assms(2), of old] k(2) have
      c: "ci_from c" "chunk_gives old old c (chunk_bytes_of C old k)" "\<exists>m. ci_strong_sum c = hex_string (md4 m)"
      by (auto split: if_splits)
    from c(2) old have "i32_ok (ci_offset c)" "i32_ok (ci_length c)"
      by (auto simp: chunk_gives_def i32_ok_def Let_def split: if_splits)
    with c md4 show "info_ok c" by (auto simp: info_ok_def length_hex_string)
  qed
qed

definition server_idle :: "checksum3 \<Rightarrow> bool" where
  "server_idle s \<longleftrightarrow> cq_inv (ck3_buf_list s) \<and> cq_list (ck3_buf_list s) = []"

lemma GetFile_ok:
  assumes f: "file_ok remote src old" and path: "c_path src" "length src < 2 ^ 30"
    and fresh: "fresh_ok fresh" and C: "0 < C" "C < 4194312" and md4: "\<forall>m. length (md4 m) = 16"
    and s: "server_idle s" and dst: "file_ok fs dst D" and tmp: "\<not> fs_denied fs tmp" "tmp \<noteq> dst"
    and nc: "no_clash md4 C old D"
    and ins: "\<And>R. service_ScanFile1 md4 (int C) fs dst (Some (service_list md4 C old [])) = Some R \<Longrightarrow>
                scan_inside C D R"
  shows "\<exists>fs' s'. Client_GetFile md4 (int C) fresh remote fs s src dst tmp = Some (0, fs', s') \<and>
           fs_files fs' tmp = Some old \<and> fs_frame tmp fs fs' \<and> server_idle s'"
proof -
  let ?l = "service_list md4 C old []"
  have C30: "int C \<le> 2 ^ 30" using C(2) by simp
  from s have cq: "cq_inv (ck3_buf_list s)" "[] = cq_list (ck3_buf_list s)" by (simp_all add: server_idle_def)
  from Client_GetMeta_ok [OF f path fresh C(1) C30 md4 cq service_list_info_ok [OF f C(1) md4]] obtain s1 where
    s1: "Client_GetMeta md4 (int C) fresh remote s src = Some (Some ?l, s1)" "server_idle s1"
    by (auto simp: server_idle_def)
  from ScanFile1_marked [OF dst C] obtain R where
    R: "service_ScanFile1 md4 (int C) fs dst (Some ?l) = Some R" "marked md4 C D ?l R" by blast
  note g = marked_gives [OF R(2) service_list_chunks [OF nc md4 C(1)] ins [OF R(1)] no_clash_apart [OF nc] md4 C(1)]
  from ConstructFile_ok [OF f path fresh g tmp, of md4 "int C" s1] dst obtain fs' where
    "Client_ConstructFile md4 (int C) fresh remote fs s1 src dst (Some R) tmp = Some (fs', s1)"
    "fs_files fs' tmp = Some old" "fs_frame tmp fs fs'" by (auto simp: concat_chunk_bytes)
  then show ?thesis
    using s1 R(1) is_exists_file_ok [OF dst] by (simp add: Client_GetFile_def)
qed

lemma GetFile_new_ok:
  assumes f: "file_ok remote src old" and path: "c_path src" "length src < 2 ^ 30"
    and fresh: "fresh_ok fresh" and C: "0 < C" "C < 4194312" and md4: "\<forall>m. length (md4 m) = 16"
    and s: "server_idle s" and dst: "fs_files fs dst = None" and tmp: "\<not> fs_denied fs tmp" "tmp \<noteq> dst"
  shows "\<exists>fs' s'. Client_GetFile md4 (int C) fresh remote fs s src dst tmp = Some (0, fs', s') \<and>
           fs_files fs' tmp = Some old \<and> fs_frame tmp fs fs' \<and> server_idle s'"
proof -
  let ?l = "service_list md4 C old []"
  have C30: "int C \<le> 2 ^ 30" using C(2) by simp
  from s have cq: "cq_inv (ck3_buf_list s)" "[] = cq_list (ck3_buf_list s)" by (simp_all add: server_idle_def)
  from Client_GetMeta_ok [OF f path fresh C(1) C30 md4 cq service_list_info_ok [OF f C(1) md4]] obtain s1 where
    s1: "Client_GetMeta md4 (int C) fresh remote s src = Some (Some ?l, s1)" "server_idle s1"
    by (auto simp: server_idle_def)
  have g: "list_all2 (chunk_gives old []) ?l (map (chunk_bytes_of C old) [0..<length ?l])"
    using service_list_nth [OF _ C(1), of _ md4 old "[]" "[]"] by (intro list_all2_all_nthI) auto
  have "\<forall>c \<in> set ?l. ci_from c" using service_list_nth [OF _ C(1), of _ md4 old "[]" "[]"]
    by (auto simp: in_set_conv_nth)
  with ConstructFile_ok [OF f path fresh g tmp, of md4 "int C" s1] dst obtain fs' where
    "Client_ConstructFile md4 (int C) fresh remote fs s1 src dst (Some ?l) tmp = Some (fs', s1)"
    "fs_files fs' tmp = Some old" "fs_frame tmp fs fs'" by (auto simp: concat_chunk_bytes)
  then show ?thesis
    using s1 dst by (simp add: Client_GetFile_def is_exists_file_def get_file_size_def)
qed

text \<open>A file the server does not have: the null list is used without a test.\<close>

lemma GetFile_missing:
  assumes "fs_files remote src = None" and "c_path src" and "length src < 2 ^ 30" and "fresh_ok fresh"
  shows "Client_GetFile md4 cs fresh remote fs s src dst tmp = None"
  using Client_GetMeta_missing [OF assms(1-4)]
  by (auto simp: Client_GetFile_def Client_ConstructFile_def service_ScanFile1_def bind_eq_None_conv
      split: option.splits)

end
