(* ===== verification/RemoteProperties.thy ===== *)
theory RemoteProperties
  imports RemoteTransfer "HOL-Library.Code_Target_Numeral"
begin

text \<open>
  What the client and the server of \<open>simple_rsync\<close> promise: the scans of the old file, the chunk list
  over the wire, the transfer of a file; and the inputs on which the transfer goes wrong.
\<close>

section \<open>Concrete inputs\<close>

definition remote_md4 :: "byte list \<Rightarrow> byte list" where
  "remote_md4 m = take 16 (m @ replicate 16 0)"

definition remote_fs :: "string \<Rightarrow> byte list \<Rightarrow> fsys" where
  "remote_fs p c = \<lparr>fs_files = [p \<mapsto> c], fs_denied = (\<lambda>_. False)\<rparr>"

definition remote_result :: "int \<Rightarrow> byte list \<Rightarrow> byte list \<Rightarrow> (int \<times> byte list option) option" where
  "remote_result C old D =
     map_option (\<lambda>(r, fs, _). (r, fs_files fs ''t''))
       (Client_GetFile remote_md4 C (\<lambda>n. replicate n 0) (remote_fs ''s'' old) (remote_fs ''d'' D)
          Checksum3_new ''s'' ''d'' ''t'')"

lemma length_remote_md4: "length (remote_md4 m) = 16"
  by (simp add: remote_md4_def)

lemma remote_fs_ok: "length c < 1000 \<Longrightarrow> file_ok (remote_fs p c) p c"
  by (simp add: file_ok_def remote_fs_def DEFAULT_BUFFER_LENGTH_def)

lemma remote_fs_simps [simp]:
  "fs_files (remote_fs p c) = [p \<mapsto> c]" "\<not> fs_denied (remote_fs p c) q"
  by (simp_all add: remote_fs_def)

lemma server_idle_new: "server_idle Checksum3_new"
  by (simp add: server_idle_def Checksum3_new_def cq_new_inv)

section \<open>The scan of the old file\<close>

text \<open>
  C26. \<open>ScanFile\<close>, with its rolling sums, its 4096-entry filter and its reading in pieces, computes the
  plain loop over all windows of the file in order of their offset.  So it redirects a chunk
  only to a window with the chunk's strong sum, and any window with both sums of a chunk that
  the table lists leaves that chunk redirected.
\<close>

theorem scan_file_all_windows:
  assumes "fs_files fs dst = Some D" and "\<not> fs_denied fs dst" and "int (length D) < 2 ^ 31"
    and "0 < sb" and "0 < C" and "C < 4194312" and "C \<le> length D"
  shows "\<exists>R. service_ScanFile md4 (int C) sb fs dst meta = Some R \<and>
     R = mark_all md4 C (new_table meta) D [0..<Suc (length D - C)] meta \<and>
     marked md4 C D meta R \<and>
     (\<forall>k p. k < length meta \<and> p + C \<le> length D \<and>
        st_sum_offset (new_table meta) (weak5 (window C D p)) = Some k \<and>
        hex_string (md4 (window C D p)) = ci_strong_sum (meta ! k) \<longrightarrow> \<not> ci_from (R ! k))"
proof -
  let ?R = "mark_all md4 C (new_table meta) D [0..<Suc (length D - C)] meta"
  have "service_ScanFile md4 (int C) sb fs dst meta = Some ?R"
    using assms by (rule ScanFile_marks)
  moreover have "marked md4 C D meta ?R"
    using assms(7) by (intro marked_mark_all new_table_sound) auto
  moreover have "\<not> ci_from (?R ! k)"
    if "k < length meta" "p + C \<le> length D" "st_sum_offset (new_table meta) (weak5 (window C D p)) = Some k"
      "hex_string (md4 (window C D p)) = ci_strong_sum (meta ! k)" for k p
    using that by (intro mark_all_finds [of k meta p]) auto
  ultimately show ?thesis by blast
qed

lemma scan_file_all_windows_witness:
  "\<exists>R. service_ScanFile remote_md4 (int 2) 1 (remote_fs ''d'' [7, 1, 2]) ''d''
          [service_chunk remote_md4 2 [1, 2] 0] = Some R \<and>
     R = mark_all remote_md4 2 (new_table [service_chunk remote_md4 2 [1, 2] 0]) [7, 1, 2] [0..<Suc (3 - 2)]
          [service_chunk remote_md4 2 [1, 2] 0]"
  using scan_file_all_windows [of "remote_fs ''d'' [7, 1, 2]" "''d''" "[7, 1, 2]" 1 2 remote_md4
      "[service_chunk remote_md4 2 [1, 2] 0]"]
  by auto

section \<open>The chunk list over the wire\<close>



section \<open>The transfer of a file\<close>


lemma demo_no_clash: "no_clash remote_md4 2 [1, 2, 3] [7, 1, 2]"
proof -
  have r: "replicate 15 (0 :: byte) = 0 # replicate 14 0" by (simp add: numeral_eq_Suc)
  let ?D = "[7, 1, 2] :: byte list" and ?old = "[1, 2, 3] :: byte list"
  have "(\<forall>k < length ?old div 2. remote_md4 w = remote_md4 (chunk 2 ?old k) \<longrightarrow> w = chunk 2 ?old k) \<and>
      remote_md4 w \<noteq> remote_md4 (last_message 2 ?old [])" if "w = [7, 1] \<or> w = [1, 2]" for w
    using that r by (auto simp: chunk_def remote_md4_def last_message_def)
  moreover have "window 2 ?D p = [7, 1] \<or> window 2 ?D p = [1, 2]" if "p + 2 \<le> length ?D" for p
  proof -
    have "p = 0 \<or> p = 1" using that by auto
    then show ?thesis by (auto simp: window_def)
  qed
  ultimately show ?thesis unfolding no_clash_def by blast
qed

lemma demo_scan_inside:
  "map_option (\<lambda>R. list_all (\<lambda>c. ci_from c \<or> ci_offset c + 2 \<le> 3) R)
     (service_ScanFile1 remote_md4 2 (remote_fs ''d'' [7, 1, 2]) ''d''
        (Some (service_list remote_md4 2 [1, 2, 3] []))) = Some True"
  by code_simp


text \<open>
  Where there is no local old file, \<open>Client::GetFile\<close> fetches every chunk from the server and the
  temporary file is the server's file, whatever the digest.
\<close>

theorem get_file_from_scratch:
  assumes "file_ok remote src old" and "c_path src" and "length src < 2 ^ 30"
    and "fresh_ok fresh" and "0 < C" and "C < 4194312" and "\<forall>m. length (md4 m) = 16"
    and "server_idle s" and "fs_files fs dst = None" and "\<not> fs_denied fs tmp" and "tmp \<noteq> dst"
  shows "\<exists>fs' s'. Client_GetFile md4 (int C) fresh remote fs s src dst tmp = Some (0, fs', s') \<and>
           fs_files fs' tmp = Some old \<and> fs_frame tmp fs fs' \<and> server_idle s'"
  using assms by (rule GetFile_new_ok)

lemma get_file_from_scratch_witness:
  "\<exists>fs' s'. Client_GetFile (\<lambda>_. replicate 16 0) (int 2) (\<lambda>n. replicate n 0) (remote_fs ''s'' [1, 2, 3])
       (remote_fs ''x'' []) Checksum3_new ''s'' ''d'' ''t'' = Some (0, fs', s') \<and>
     fs_files fs' ''t'' = Some [1, 2, 3] \<and> fs_frame ''t'' (remote_fs ''x'' []) fs' \<and> server_idle s'"
  by (rule get_file_from_scratch)
    (simp_all add: remote_fs_ok c_path_def server_idle_new fresh_ok_replicate)

text \<open>The run of the next theorem in its steps.\<close>

definition stale_dst :: "byte list" where "stale_dst = [1, 1, 0]"
definition stale_src :: "byte list" where "stale_src = [1, 0, 1, 1, 0, 0]"

definition stale_chunk :: "nat \<Rightarrow> bool \<Rightarrow> chunk_info" where
  "stale_chunk k from = (service_chunk remote_md4 3 stale_src k)\<lparr>ci_from := from\<rparr>"

lemma stale_scan:
  "service_ScanFile1 remote_md4 3 (remote_fs ''d'' stale_dst) ''d''
     (Some (service_list remote_md4 3 stale_src [])) = Some [stale_chunk 0 True, stale_chunk 1 False]"
  by code_simp

definition stale_fs :: fsys where
  "stale_fs = (remote_fs ''d'' stale_dst)\<lparr>fs_files := [''d'' \<mapsto> stale_dst, ''t'' \<mapsto> []]\<rparr>"

lemma stale_map:
  "(FileMap_new stale_fs ''d'' \<bind> MapFileContent stale_fs 3 3) \<bind>
     (\<lambda>(fm, buf). fm_mem fm buf \<bind> (\<lambda>mem. load mem 0 3)) = Some [1, 1, 0]"
  by code_simp

lemma stale_construct:
  "\<exists>fm. (case FileMap_new stale_fs ''d'' of None \<Rightarrow> None | Some m \<Rightarrow>
       foldM (construct_chunk remote_md4 3 (\<lambda>n. replicate n 0) (remote_fs ''s'' stale_src) stale_fs ''s'')
         [stale_chunk 0 True, stale_chunk 1 False] (s, Some m, [])) = Some (s, fm, [1, 0, 1, 1, 1, 0])"
proof -
  obtain m m' buf mem where m: "FileMap_new stale_fs ''d'' = Some m"
      "MapFileContent stale_fs 3 3 m = Some (m', buf)" "fm_mem m' buf = Some mem" "load mem 0 3 = Some [1, 1, 0]"
    using stale_map by (auto simp: bind_eq_Some_conv)
  have src: "file_ok (remote_fs ''s'' stale_src) ''s'' stale_src" by (simp add: remote_fs_ok stale_src_def)
  from Client_GetChunk_ok [OF src _ _ fresh_ok_replicate, of 0 3 remote_md4 3 s] obtain d where
    d: "Client_GetChunk remote_md4 3 (\<lambda>n. replicate n 0) (remote_fs ''s'' stale_src) s 0 3 ''s'' = Some (Some d, s)"
      "load d 0 3 = Some [1, 0, 1]"
    by (auto simp: c_path_def stale_src_def)
  show ?thesis
    using m d by (simp add: construct_chunk_def stale_chunk_def service_chunk_def)
qed

text \<open>
  The hypothesis on redirected chunks is needed: \<open>ScanFile1\<close> slides its window past the end of the
  local file over stale bytes of the mapping.  On this input a chunk is found there, and \<open>GetFile\<close>
  returns 0 with a file that is not the server's.
\<close>

theorem get_file_stale_window:
  "remote_result 3 [1, 0, 1, 1, 0, 0] [1, 1, 0] = Some (0, Some [1, 0, 1, 1, 1, 0])"
proof -
  let ?r = "remote_fs ''s'' stale_src" and ?d = "remote_fs ''d'' stale_dst" and ?f = "\<lambda>n. replicate n (0 :: byte)"
  have src: "file_ok ?r ''s'' stale_src" by (simp add: remote_fs_ok stale_src_def)
  have dst: "file_ok ?d ''d'' stale_dst" "file_ok stale_fs ''d'' stale_dst"
    by (simp_all add: remote_fs_ok stale_dst_def file_ok_def stale_fs_def DEFAULT_BUFFER_LENGTH_def)
  have md4: "\<forall>m. length (remote_md4 m) = 16" by (simp add: length_remote_md4)
  have s: "cq_inv (ck3_buf_list Checksum3_new)" "[] = cq_list (ck3_buf_list Checksum3_new)"
    using server_idle_new by (simp_all add: server_idle_def)
  from Client_GetMeta_ok [OF src _ _ fresh_ok_replicate _ _ md4 s service_list_info_ok [OF src _ md4], of 3]
  obtain s1 where
    1: "Client_GetMeta remote_md4 3 ?f ?r Checksum3_new ''s'' =
        Some (Some (service_list remote_md4 3 stale_src []), s1)"
    by (auto simp: c_path_def)
  have open_tmp: "fopen_write ?d ''t'' = Some stale_fs"
    by (simp add: fopen_write_def stale_fs_def remote_fs_def fun_upd_twist)
  from stale_construct [of s1] obtain m fm where
    2: "FileMap_new stale_fs ''d'' = Some m"
      "foldM (construct_chunk remote_md4 3 ?f ?r stale_fs ''s'') [stale_chunk 0 True, stale_chunk 1 False]
         (s1, Some m, []) = Some (s1, fm, [1, 0, 1, 1, 1, 0])"
    by (auto split: option.splits)
  have "Client_GetFile remote_md4 3 ?f ?r ?d Checksum3_new ''s'' ''d'' ''t'' =
      Some (0, stale_fs\<lparr>fs_files := (fs_files stale_fs)(''t'' \<mapsto> [1, 0, 1, 1, 1, 0])\<rparr>, s1)"
    unfolding Client_GetFile_def Client_ConstructFile_def 1 Option.bind.bind_lunit case_prod_conv
    using is_exists_file_ok [OF dst(1)] is_exists_file_ok [OF dst(2)]
    by (simp only: stale_scan open_tmp 2 if_True simp_thms option.map Option.bind.bind_lunit case_prod_conv)
  then show ?thesis by (simp add: remote_result_def stale_src_def stale_dst_def)
qed

text \<open>
  For a file that the server does not have, \<open>GetMeta\<close> returns a null list, and \<open>GetFile\<close> goes on
  with it without a test: it faults, whether a local old file exists or not.
\<close>

theorem get_file_missing_faults:
  assumes "fs_files remote src = None" and "c_path src" and "length src < 2 ^ 30" and "fresh_ok fresh"
  shows "Client_GetMeta md4 cs fresh remote s src = Some (None, s) \<and>
         Client_GetFile md4 cs fresh remote fs s src dst tmp = None"
  using assms Client_GetMeta_missing GetFile_missing by metis

lemma get_file_missing_faults_witness:
  "Client_GetMeta remote_md4 2 (\<lambda>n. replicate n 0) (remote_fs ''s'' [1, 2, 3]) Checksum3_new ''q'' =
     Some (None, Checksum3_new) \<and>
   Client_GetFile remote_md4 2 (\<lambda>n. replicate n 0) (remote_fs ''s'' [1, 2, 3]) (remote_fs ''d'' [1])
     Checksum3_new ''q'' ''d'' ''t'' = None"
  by (rule get_file_missing_faults) (simp_all add: c_path_def fresh_ok_replicate)

end
