(* ===== verification/LocalCopy.thy ===== *)
theory LocalCopy
  imports RemoteTransfer
begin

text \<open>
  \<open>simple_rsync/cp.cpp\<close>: five versions of copying a file by way of its chunks, as they were tried out
  one after the other.  They differ in the checksum class, in how they read the two files, and in
  which of the sums decide that a chunk has been found.

  The list of chunks is threaded through as a list; a pointer into it kept in \<open>sum_offset\<close> is the
  index of the chunk.  \<open>cp4\<close> and \<open>cp6\<close> only fill the list (their call of \<open>construct_file\<close> is commented
  out), so the list is their result here.
\<close>

section \<open>construct_file\<close>

text \<open>A null pointer is skipped with a warning; \<open>fp\<close> is never closed.\<close>

definition fwrite_chunk :: "byte list option \<Rightarrow> int \<Rightarrow> byte list \<Rightarrow> byte list option" where
  "fwrite_chunk buf len out =
     (case buf of
        None \<Rightarrow> Some out
      | Some m \<Rightarrow> do { require (0 \<le> len); bs \<leftarrow> load m 0 (nat len); Some (out @ bs) })"

definition construct_piece ::
  "fsys \<Rightarrow> chunk_info \<Rightarrow> file_map \<times> file_map \<times> byte list \<Rightarrow> (file_map \<times> file_map \<times> byte list) option"
  where
  "construct_piece fs c st = (case st of (src_map, dst_map, out) \<Rightarrow>
     if ci_from c then do {
       (src_map, buf) \<leftarrow> MapFileContent fs (ci_offset c) (ci_length c) src_map;
       out \<leftarrow> fwrite_chunk (fm_mem src_map buf) (ci_length c) out;
       Some (src_map, dst_map, out)
     } else do {
       (dst_map, buf) \<leftarrow> MapFileContent fs (ci_offset c) (ci_length c) dst_map;
       out \<leftarrow> fwrite_chunk (fm_mem dst_map buf) (ci_length c) out;
       Some (src_map, dst_map, out)
     })"

definition construct_file ::
  "fsys \<Rightarrow> string \<Rightarrow> string \<Rightarrow> chunk_info list \<Rightarrow> string \<Rightarrow> fsys option" where
  "construct_file fs src_file dst_file file_meta cst_file = do {
     fs \<leftarrow> fopen_write fs cst_file;
     src_map \<leftarrow> FileMap_new fs src_file;
     dst_map \<leftarrow> FileMap_new fs dst_file;
     (_, _, out) \<leftarrow> foldM (construct_piece fs) file_meta (src_map, dst_map, []);
     Some (fs\<lparr>fs_files := (fs_files fs)(cst_file \<mapsto> out)\<rparr>)
   }"

definition TEST_DAT :: string where
  "TEST_DAT = ''client_data/test.dat''"

section \<open>The chunks of the source\<close>

text \<open>
  \<open>new ChunkInfo()\<close> sets all members to zero; the weak sum stays 0, and the strong sum of the last
  chunk stays null, which is the empty string here (no table refers to that chunk).
\<close>

definition cp_chunk :: "int \<Rightarrow> int \<Rightarrow> byte list \<Rightarrow> chunk_info" where
  "cp_chunk offset len strong = \<lparr>ci_weak_sum = 0, ci_from = True, ci_offset = offset, ci_length = len,
                                ci_strong_sum = strong\<rparr>"

definition note_offset :: "u32 \<Rightarrow> nat \<Rightarrow> sum_table \<Rightarrow> sum_table" where
  "note_offset sum1 k t = t\<lparr>st_sum_offset := (st_sum_offset t)(sum1 \<mapsto> k)\<rparr>"

definition note_sum :: "u32 \<Rightarrow> nat \<Rightarrow> sum_table \<Rightarrow> sum_table" where
  "note_sum sum1 k t =
     (let t = note_offset sum1 k t in t\<lparr>st_map := (st_map t)(unat (sum1 mod 4096) := 1)\<rparr>)"

definition empty_table :: sum_table where
  "empty_table = \<lparr>st_map = (\<lambda>_. 0), st_sum_offset = Map.empty\<rparr>"

text \<open>
  The loop of \<open>cp3\<close> to \<open>cp6\<close>: it reads the rest of the file for every chunk.  \<open>strong_sum\<close> and \<open>sum1\<close>
  are the methods of the class used, \<open>add\<close> is how the sum is entered in the table.
\<close>

fun cp_chunks ::
  "(byte list option \<Rightarrow> int \<Rightarrow> 's \<Rightarrow> (byte list \<times> 's) option) \<Rightarrow> (byte list \<Rightarrow> int \<Rightarrow> u32 option) \<Rightarrow>
   (u32 \<Rightarrow> nat \<Rightarrow> sum_table \<Rightarrow> sum_table) \<Rightarrow> int \<Rightarrow> fsys \<Rightarrow> string \<Rightarrow> nat \<Rightarrow> int \<Rightarrow>
   's \<times> chunk_info list \<times> sum_table \<Rightarrow> ('s \<times> chunk_info list \<times> sum_table) option" where
  "cp_chunks strong_sum sum1 add cs fs src 0 i st = Some st"
| "cp_chunks strong_sum sum1 add cs fs src (Suc k) i (summer, meta, t) = do {
     (_, buf) \<leftarrow> fu_read_at fs (i * cs) src;
     (strong, summer) \<leftarrow> strong_sum buf cs summer;
     buf \<leftarrow> buf;
     s1 \<leftarrow> sum1 buf cs;
     cp_chunks strong_sum sum1 add cs fs src k (i + 1)
       (summer, meta @ [cp_chunk (i * cs) cs strong], add s1 (length meta) t)
   }"

definition cp_last :: "int \<Rightarrow> int \<Rightarrow> int \<Rightarrow> chunk_info list \<Rightarrow> chunk_info list" where
  "cp_last cs src_size i meta =
     (let last = c_mod src_size cs in
      if 0 < last then meta @ [cp_chunk (i * cs) last []] else meta)"

definition cp_source ::
  "(byte list option \<Rightarrow> int \<Rightarrow> 's \<Rightarrow> (byte list \<times> 's) option) \<Rightarrow> (byte list \<Rightarrow> int \<Rightarrow> u32 option) \<Rightarrow>
   (u32 \<Rightarrow> nat \<Rightarrow> sum_table \<Rightarrow> sum_table) \<Rightarrow> int \<Rightarrow> fsys \<Rightarrow> string \<Rightarrow> 's \<Rightarrow>
   ('s \<times> chunk_info list \<times> sum_table) option" where
  "cp_source strong_sum sum1 add cs fs src summer = do {
     let src_size = get_file_size fs src;
     let count = c_div src_size cs;
     (summer, meta, t) \<leftarrow> cp_chunks strong_sum sum1 add cs fs src (nat count) 0 (summer, [], empty_table);
     Some (summer, cp_last cs src_size (max 0 count) meta, t)
   }"

section \<open>The windows of the destination\<close>

text \<open>
  The outer loop of the scans: pieces of at most \<open>sb\<close> bytes, read from \<open>lag\<close> bytes before \<open>curr\<close> on.
  \<open>body\<close> is the body of the inner loop, called with the index into the piece; \<open>curr\<close> is the second
  component of the state.
\<close>

function cp_windows ::
  "int \<Rightarrow> int \<Rightarrow> fsys \<Rightarrow> string \<Rightarrow> (byte list \<Rightarrow> nat \<Rightarrow> 'a \<times> int \<Rightarrow> ('a \<times> int) option) \<Rightarrow> int \<Rightarrow>
   'a \<times> int \<Rightarrow> ('a \<times> int) option" where
  "cp_windows lag sb fs dst body total_left st =
     (if total_left \<le> 0 then Some st
      else if sb \<le> 0 then None
      else do {
        let buf_len = (if total_left < sb then total_left else sb);
        (_, buf) \<leftarrow> fu_read_at fs (snd st - lag) dst;
        buf \<leftarrow> buf;
        st \<leftarrow> foldM (body buf) [nat lag..<nat (lag + buf_len)] st;
        cp_windows lag sb fs dst body (total_left - buf_len) st
      })"
  by pat_completeness auto
termination
  by (relation "measure (\<lambda>(_, _, _, _, _, total_left, _). nat total_left)") auto

declare cp_windows.simps [simp del]

section \<open>cp3: weak sums only\<close>

definition cp3_judge :: "sum_table \<Rightarrow> int \<Rightarrow> checksum3 \<Rightarrow> chunk_info list \<Rightarrow> chunk_info list option" where
  "cp3_judge t pos summer meta =
     (case st_sum_offset t (ck3_tmp_sum summer) of
        None \<Rightarrow> Some meta
      | Some k \<Rightarrow> do { require (k < length meta); Some (redirect k pos meta) })"

definition cp3_byte ::
  "int \<Rightarrow> sum_table \<Rightarrow> byte list \<Rightarrow> nat \<Rightarrow> (checksum3 \<times> chunk_info list) \<times> int \<Rightarrow>
   ((checksum3 \<times> chunk_info list) \<times> int) option" where
  "cp3_byte cs t buf i st = (case st of ((summer, meta), cur) \<Rightarrow> do {
     b \<leftarrow> peek buf i;
     summer \<leftarrow> Checksum3_Update 5 b summer;
     meta \<leftarrow> cp3_judge t (cur - 1 * cs + 1) summer meta;
     Some ((summer, meta), cur + 1)
   })"

definition cp3 ::
  "(byte list \<Rightarrow> byte list) \<Rightarrow> int \<Rightarrow> int \<Rightarrow> fsys \<Rightarrow> string \<Rightarrow> string \<Rightarrow> fsys option" where
  "cp3 md4 cs sb fs src_file dst_file = do {
     (summer, meta, t) \<leftarrow>
        cp_source (Checksum3_StrongSum md4) (Checksum3_Sum1 5) note_offset cs fs src_file Checksum3_new;
     let dst_size = get_file_size fs dst_file;
     (_, buf) \<leftarrow> fu_read_at fs 0 dst_file;
     buf \<leftarrow> buf;
     summer \<leftarrow> Checksum3_Init 5 buf cs summer;
     meta \<leftarrow> cp3_judge t 0 summer meta;
     ((_, meta), _) \<leftarrow> cp_windows 0 sb fs dst_file (cp3_byte cs t) (dst_size - cs) ((summer, meta), cs);
     construct_file fs src_file dst_file meta TEST_DAT
   }"

section \<open>cp4: the filter and the strong sum of the bytes read\<close>

text \<open>The scan is that of \<open>ScanFile\<close> in \<open>rsync_service.cpp\<close>, word for word.\<close>

definition cp4 ::
  "(byte list \<Rightarrow> byte list) \<Rightarrow> int \<Rightarrow> int \<Rightarrow> fsys \<Rightarrow> string \<Rightarrow> string \<Rightarrow> chunk_info list option" where
  "cp4 md4 cs sb fs src_file dst_file = do {
     (summer, meta, t) \<leftarrow>
        cp_source (Checksum3_StrongSum md4) (Checksum3_Sum1 5) note_sum cs fs src_file Checksum3_new;
     let dst_size = get_file_size fs dst_file;
     (_, buf) \<leftarrow> fu_read_at fs 0 dst_file;
     buf \<leftarrow> buf;
     summer \<leftarrow> Checksum3_Init 5 buf cs summer;
     (_, summer, meta) \<leftarrow> service_judge md4 cs False t (Some buf) 0 (summer, meta);
     (_, meta, _) \<leftarrow> service_windows md4 cs sb fs dst_file t (dst_size - cs) (summer, meta, cs);
     Some meta
   }"

section \<open>cp5: the class Checksum\<close>

text \<open>
  \<open>StrongSum\<close> goes on with the MD4 context of the object; here it is called for the chunks of the
  source before any \<open>Init\<close> has set that context up.  A null \<open>data\<close> is a fault.
\<close>

definition Checksum_StrongSum_ptr ::
  "'ctx md4_api \<Rightarrow> byte list option \<Rightarrow> int \<Rightarrow> 'ctx checksum \<Rightarrow> (byte list \<times> 'ctx checksum) option" where
  "Checksum_StrongSum_ptr api buf len c = do { buf \<leftarrow> buf; Checksum_StrongSum api buf len c }"

definition cp5_judge ::
  "'ctx md4_api \<Rightarrow> int \<Rightarrow> sum_table \<Rightarrow> byte list \<Rightarrow> int \<Rightarrow> 'ctx checksum \<times> chunk_info list \<Rightarrow>
   ('ctx checksum \<times> chunk_info list) option" where
  "cp5_judge api cs t win pos st = (case st of (summer, meta) \<Rightarrow>
     case st_sum_offset t (ck_tmp_sum summer) of
       None \<Rightarrow> Some (summer, meta)
     | Some k \<Rightarrow> do {
         (strong, summer) \<leftarrow> Checksum_StrongSum api win cs summer;
         require (k < length meta);
         Some (summer, if strong = ci_strong_sum (meta ! k) then redirect k pos meta else meta)
       })"

definition cp5_byte ::
  "'ctx md4_api \<Rightarrow> int \<Rightarrow> sum_table \<Rightarrow> byte list \<Rightarrow> nat \<Rightarrow> ('ctx checksum \<times> chunk_info list) \<times> int \<Rightarrow>
   (('ctx checksum \<times> chunk_info list) \<times> int) option" where
  "cp5_byte api cs t buf i st = (case st of ((summer, meta), cur) \<Rightarrow> do {
     b \<leftarrow> peek buf i;
     summer \<leftarrow> Checksum_Update b summer;
     (summer, meta) \<leftarrow>
        cp5_judge api cs t (drop (nat (int i - cs + 1)) buf) (cur - 1 * cs + 1) (summer, meta);
     Some ((summer, meta), cur + 1)
   })"

definition cp5 ::
  "'ctx md4_api \<Rightarrow> int \<Rightarrow> int \<Rightarrow> fsys \<Rightarrow> string \<Rightarrow> string \<Rightarrow> fsys option" where
  "cp5 api cs sb fs src_file dst_file = do {
     (summer, meta, t) \<leftarrow>
        cp_source (Checksum_StrongSum_ptr api) Checksum_Sum1 note_offset cs fs src_file Checksum_new;
     let dst_size = get_file_size fs dst_file;
     (_, buf) \<leftarrow> fu_read_at fs 0 dst_file;
     buf \<leftarrow> buf;
     summer \<leftarrow> Checksum_Init api buf cs summer;
     (summer, meta) \<leftarrow> cp5_judge api cs t buf 0 (summer, meta);
     ((_, meta), _) \<leftarrow> cp_windows cs sb fs dst_file (cp5_byte api cs t) (dst_size - cs) ((summer, meta), cs);
     construct_file fs src_file dst_file meta TEST_DAT
   }"

section \<open>cp6: the strong sum of the queue\<close>

definition cp6_byte ::
  "(byte list \<Rightarrow> byte list) \<Rightarrow> int \<Rightarrow> sum_table \<Rightarrow> byte list \<Rightarrow> nat \<Rightarrow> (checksum3 \<times> chunk_info list) \<times> int \<Rightarrow>
   ((checksum3 \<times> chunk_info list) \<times> int) option" where
  "cp6_byte md4 cs t buf i st = (case st of ((summer, meta), cur) \<Rightarrow> do {
     let cur = cur + 1;
     b \<leftarrow> peek buf i;
     summer \<leftarrow> Checksum3_Update 5 b summer;
     (_, summer, meta) \<leftarrow> service_judge md4 cs True t None (cur - cs) (summer, meta);
     Some ((summer, meta), cur)
   })"

definition cp6 ::
  "(byte list \<Rightarrow> byte list) \<Rightarrow> int \<Rightarrow> int \<Rightarrow> fsys \<Rightarrow> string \<Rightarrow> string \<Rightarrow> chunk_info list option" where
  "cp6 md4 cs sb fs src_file dst_file = do {
     (summer, meta, t) \<leftarrow>
        cp_source (Checksum3_StrongSum md4) (Checksum3_Sum1 5) note_sum cs fs src_file Checksum3_new;
     let dst_size = get_file_size fs dst_file;
     (_, buf) \<leftarrow> fu_read_at fs 0 dst_file;
     buf \<leftarrow> buf;
     summer \<leftarrow> Checksum3_Init 5 buf cs summer;
     (_, summer, meta) \<leftarrow> service_judge md4 cs False t (Some buf) 0 (summer, meta);
     ((_, meta), _) \<leftarrow>
        cp_windows 0 sb fs dst_file (cp6_byte md4 cs t) (dst_size - cs) ((summer, meta), cs);
     Some meta
   }"

section \<open>cp7: mapped files and jumps over what was found\<close>

fun cp7_chunks ::
  "(byte list \<Rightarrow> byte list) \<Rightarrow> int \<Rightarrow> fsys \<Rightarrow> nat \<Rightarrow> int \<Rightarrow>
   file_map \<times> checksum3 \<times> chunk_info list \<times> sum_table \<Rightarrow>
   (file_map \<times> checksum3 \<times> chunk_info list \<times> sum_table) option" where
  "cp7_chunks md4 cs fs 0 i st = Some st"
| "cp7_chunks md4 cs fs (Suc k) i (fm, summer, meta, t) = do {
     (fm, buf) \<leftarrow> MapFileContent fs (i * cs) cs fm;
     (strong, summer) \<leftarrow> Checksum3_StrongSum md4 (fm_mem fm buf) cs summer;
     m \<leftarrow> fm_mem fm buf;
     s1 \<leftarrow> Checksum3_Sum1 5 m cs;
     cp7_chunks md4 cs fs k (i + 1)
       (fm, summer, meta @ [cp_chunk (i * cs) cs strong], note_sum s1 (length meta) t)
   }"

text \<open>The scan is that of \<open>ScanFile1\<close>; \<open>buf\<close> is set before it is used.\<close>

definition cp7 ::
  "(byte list \<Rightarrow> byte list) \<Rightarrow> int \<Rightarrow> fsys \<Rightarrow> string \<Rightarrow> string \<Rightarrow> fsys option" where
  "cp7 md4 cs fs src_file dst_file = do {
     let src_size = get_file_size fs src_file;
     let count = c_div src_size cs;
     fm \<leftarrow> FileMap_new fs src_file;
     (_, summer, meta, t) \<leftarrow> cp7_chunks md4 cs fs (nat count) 0 (fm, Checksum3_new, [], empty_table);
     let meta = cp_last cs src_size (max 0 count) meta;
     let dst_size = get_file_size fs dst_file;
     fm \<leftarrow> FileMap_new fs dst_file;
     s \<leftarrow> scan1_loop md4 cs fs t dst_size
            \<lparr>s1c_summer = summer, s1c_meta = meta, s1c_fm = fm, s1c_buf = None, s1c_curr = 0\<rparr>;
     construct_file fs src_file dst_file (s1c_meta s) TEST_DAT
   }"

definition cp_main ::
  "(byte list \<Rightarrow> byte list) \<Rightarrow> fsys \<Rightarrow> string list \<Rightarrow> (int \<times> fsys) option" where
  "cp_main md4 fs argv = do {
     src_file \<leftarrow> peek argv 1;
     dst_file \<leftarrow> peek argv 2;
     fs \<leftarrow> cp7 md4 SERVICE_CHUNK_SIZE fs src_file dst_file;
     Some (0, fs)
   }"

end
