(* ===== verification/CopyFacts.thy ===== *)
theory CopyFacts
  imports LocalCopy
begin

text \<open>
  The copying programs of \<open>cp.cpp\<close>: the chunk list and the table they make of the source, the scans
  of \<open>cp4\<close> and \<open>cp6\<close> as the plain loop over all windows, that of \<open>cp3\<close> as a loop that looks at
  weak sums only, and the copy made by \<open>cp7\<close>.
\<close>

section \<open>The source\<close>

definition cp_full :: "(byte list \<Rightarrow> byte list) \<Rightarrow> nat \<Rightarrow> byte list \<Rightarrow> nat \<Rightarrow> chunk_info" where
  "cp_full md4 C old k = cp_chunk (int (k * C)) (int C) (hex_string (md4 (chunk C old k)))"

definition cp_list :: "(byte list \<Rightarrow> byte list) \<Rightarrow> nat \<Rightarrow> byte list \<Rightarrow> chunk_info list" where
  "cp_list md4 C old = map (cp_full md4 C old) [0..<length old div C] @
     (if length old mod C = 0 then []
      else [cp_chunk (int (length old div C * C)) (int (length old mod C)) []])"

definition cp_table :: "nat \<Rightarrow> byte list \<Rightarrow> nat \<Rightarrow> sum_table" where
  "cp_table C old n = new_table (map (service_chunk (\<lambda>m. m) C old) [0..<n])"

definition offset_table :: "nat \<Rightarrow> byte list \<Rightarrow> nat \<Rightarrow> sum_table" where
  "offset_table C old n = (cp_table C old n)\<lparr>st_map := (\<lambda>_. 0)\<rparr>"

lemma fill_table_snoc:
  "fill_table (cs @ [c]) i t = note_sum (ci_weak_sum c) (i + length cs) (fill_table cs i t)"
  by (induction cs arbitrary: i t) (simp_all add: note_sum_def note_offset_def Let_def)

lemma cp_table_Suc: "cp_table C old (Suc k) = note_sum (weak5 (chunk C old k)) k (cp_table C old k)"
  by (simp add: cp_table_def new_table_def fill_table_snoc service_chunk_def)

lemma cp_table_0: "cp_table C old 0 = empty_table"
  by (simp add: cp_table_def new_table_def empty_table_def)

lemma offset_table_simps:
  "offset_table C old 0 = empty_table"
  "offset_table C old (Suc k) = note_offset (weak5 (chunk C old k)) k (offset_table C old k)"
  by (simp_all add: offset_table_def cp_table_0 cp_table_Suc empty_table_def note_sum_def note_offset_def Let_def)

lemma cp_table_sound: "n \<le> N \<Longrightarrow> table_sound N (cp_table C old n)"
  using new_table_sound [of "map (service_chunk (\<lambda>m. m) C old) [0..<n]"]
  by (fastforce simp: table_sound_def cp_table_def)

lemma offset_table_range: "st_sum_offset (offset_table C old n) s = Some k \<Longrightarrow> k < n"
  using cp_table_sound [of n n C old] by (auto simp: offset_table_def table_sound_def)

lemma length_cp_list: "length old div C \<le> length (cp_list md4 C old)"
  by (simp add: cp_list_def)

text \<open>One chunk read, and the loop over all of them, for both ways of filling the table.\<close>

lemma cp_chunks_ok:
  assumes f: "fs_files fs src = Some old" "\<not> fs_denied fs src" "int (length old) < 2 ^ 31"
    and "i + n \<le> length old div C"
    and add: "\<And>k. tab (Suc k) = add (weak5 (chunk C old k)) k (tab k)"
  shows "cp_chunks (Checksum3_StrongSum md4) (Checksum3_Sum1 5) add (int C) fs src n (int i)
           (s, map (cp_full md4 C old) [0..<i], tab i) =
         Some (s, map (cp_full md4 C old) [0..<i + n], tab (i + n))"
  using assms(4)
proof (induction n arbitrary: i)
  case 0
  then show ?case by simp
next
  case (Suc n)
  have inside: "i * C + C \<le> length old" using Suc.prems by (intro chunk_inside) simp
  obtain r where rd: "fu_read_at fs (int (i * C)) src = Some (r, Some (drop (i * C) old))"
    using fu_read_at_ok [OF f] by blast
  have l: "load (drop (i * C) old) 0 C = Some (chunk C old i)"
    using inside by (simp add: load_def chunk_def)
  have "Checksum3_StrongSum md4 (Some (drop (i * C) old)) (int C) s = Some (hex_string (md4 (chunk C old i)), s)"
    using Checksum3_StrongSum_data [of "int C" _ "chunk C old i" md4 s] l by simp
  moreover have "Checksum3_Sum1 5 (drop (i * C) old) (int C) = Some (weak5 (chunk C old i))"
    using Sum1_5_load [of _ "int C"] l by simp
  moreover have "map (cp_full md4 C old) [0..<i] @
      [cp_chunk (int i * int C) (int C) (hex_string (md4 (chunk C old i)))] = map (cp_full md4 C old) [0..<Suc i]"
    by (simp add: cp_full_def)
  ultimately show ?case
    using Suc.IH [of "Suc i"] Suc.prems rd add by (simp add: add.commute [of _ 1])
qed

lemma cp_source_ok:
  assumes f: "fs_files fs src = Some old" "\<not> fs_denied fs src" "int (length old) < 2 ^ 31" and C: "0 < C"
    and tab: "tab 0 = empty_table" "\<And>k. tab (Suc k) = add (weak5 (chunk C old k)) k (tab k)"
  shows "cp_source (Checksum3_StrongSum md4) (Checksum3_Sum1 5) add (int C) fs src s =
           Some (s, cp_list md4 C old, tab (length old div C))"
proof -
  have size: "get_file_size fs src = int (length old)" using f(1,3) by (rule get_file_size_small)
  have "c_div (int (length old)) (int C) = int (length old div C)"
    "c_mod (int (length old)) (int C) = int (length old mod C)"
    using C by (simp_all add: zdiv_int zmod_int)
  with cp_chunks_ok [OF f, of 0 "length old div C" C tab add md4 s, OF _ tab(2)] tab(1) size show ?thesis
    by (simp add: cp_source_def cp_last_def cp_list_def Let_def)
qed

section \<open>A pass over the windows\<close>

text \<open>
  What the body of a scan keeps: \<open>inv c x\<close> holds when \<open>curr\<close> is \<open>c\<close>, before byte \<open>c\<close> is taken.  The
  outer loop, which reads the file in pieces, then takes it to the end of the file.
\<close>

locale window_pass =
  fixes body :: "byte list \<Rightarrow> nat \<Rightarrow> 'a \<times> int \<Rightarrow> ('a \<times> int) option"
    and inv :: "nat \<Rightarrow> 'a \<Rightarrow> bool"
    and D :: "byte list"
    and lag :: nat
  assumes body_step: "inv c x \<Longrightarrow> c < length D \<Longrightarrow> lag \<le> i \<Longrightarrow> b + i = c \<Longrightarrow>
      \<exists>x'. body (drop b D) i (x, int c) = Some (x', int (Suc c)) \<and> inv (Suc c) x'"
begin

lemma piece:
  "inv c x \<Longrightarrow> c + k \<le> length D \<Longrightarrow> lag \<le> i \<Longrightarrow> b + i = c \<Longrightarrow>
   \<exists>x'. foldM (body (drop b D)) [i..<i + k] (x, int c) = Some (x', int (c + k)) \<and> inv (c + k) x'"
proof (induction k arbitrary: c i x)
  case 0
  then show ?case by simp
next
  case (Suc k)
  from body_step [OF Suc.prems(1) _ Suc.prems(3,4)] Suc.prems(2) obtain x1 where
    x1: "body (drop b D) i (x, int c) = Some (x1, int (Suc c))" "inv (Suc c) x1" by auto
  from Suc.IH [OF x1(2), of "Suc i"] Suc.prems obtain x2 where
    "foldM (body (drop b D)) [Suc i..<Suc i + k] (x1, int (Suc c)) = Some (x2, int (Suc c + k))"
    "inv (Suc c + k) x2" by auto
  with x1(1) show ?case by (simp add: upt_conv_Cons del: upt_Suc)
qed

lemma windows:
  assumes f: "fs_files fs dst = Some D" "\<not> fs_denied fs dst" "int (length D) < 2 ^ 31"
    and sb: "0 < sb" and "inv c x" and "lag \<le> c" and "c \<le> length D"
  shows "\<exists>x'. cp_windows (int lag) sb fs dst body (int (length D) - int c) (x, int c) =
           Some (x', int (length D)) \<and> inv (length D) x'"
  using assms(5-7)
proof (induction "length D - c" arbitrary: c x rule: less_induct)
  case less
  show ?case
  proof (cases "c = length D")
    case True
    then show ?thesis using less.prems(1) by (subst cp_windows.simps) simp
  next
    case False
    define n where "n = (if int (length D) - int c < sb then length D - c else nat sb)"
    have n: "(if int (length D) - int c < sb then int (length D) - int c else sb) = int n"
      "0 < n" "c + n \<le> length D"
      using False sb less.prems(3) by (auto simp: n_def)
    define b where "b = c - lag"
    have b: "b + lag = c" "int c - int lag = int b" using less.prems(2) by (auto simp: b_def)
    obtain r where rd: "fu_read_at fs (int b) dst = Some (r, Some (drop b D))"
      using fu_read_at_ok [OF f] by blast
    from piece [OF less.prems(1) n(3) le_refl b(1)] obtain x1 where
      x1: "foldM (body (drop b D)) [lag..<lag + n] (x, int c) = Some (x1, int (c + n))" "inv (c + n) x1"
      by blast
    have "length D - (c + n) < length D - c" using n(2,3) by linarith
    from less.hyps [OF this x1(2)] less.prems(2) n(3) obtain x2 where
      x2: "cp_windows (int lag) sb fs dst body (int (length D) - int (c + n)) (x1, int (c + n)) =
        Some (x2, int (length D))" "inv (length D) x2" by auto
    have "nat (int lag + int n) = lag + n" by simp
    then have "cp_windows (int lag) sb fs dst body (int (length D) - int c) (x, int c) =
        cp_windows (int lag) sb fs dst body (int (length D) - int (c + n)) (x1, int (c + n))"
      using False less.prems(3) sb rd x1(1) b(2)
      by (subst cp_windows.simps) (simp add: n(1) Let_def diff_diff_add)
    with x2 show ?thesis by simp
  qed
qed

end

section \<open>cp4 and cp6: the plain loop over all windows\<close>

lemma cq_get_data_steady:
  assumes "cq_steady L q"
  shows "\<exists>q' d. cq_get_data q = Some (q', d) \<and> cq_steady L q' \<and> cq_list q' = cq_list q \<and>
           read_cells d (cq_size q') = Some (cq_list q)"
proof -
  have inv: "cq_inv q" using assms by (simp add: cq_steady_def)
  from cq_get_data_ok [OF inv] obtain q' d where g: "cq_get_data q = Some (q', d)" "cq_inv q'"
    "cq_list q' = cq_list q" "\<forall>i < cq_size q. d i = Some (cq_list q ! i)" by blast
  from g(1) have "cq_front q' = 0" "cq_capacity q' = cq_capacity q"
    by (auto simp: cq_get_data_def cq_realloc_def Let_def bind_eq_Some_conv)
  with g(2) assms have "cq_steady L q'" by (simp add: cq_steady_def)
  moreover have "cq_size q' = length (cq_list q)" using g(3) length_cq_list by metis
  then have "read_cells d (cq_size q') = Some (cq_list q)"
    using g(4) read_cells_list [of "cq_list q" d] by simp
  ultimately show ?thesis using g by blast
qed

lemma StrongSum_queue:
  assumes "ck3_live off C s"
  shows "\<exists>s'. Checksum3_StrongSum md4 None n s = Some (hex_string (md4 (ck3_window s)), s') \<and>
           ck3_live off C s' \<and> ck3_window s' = ck3_window s"
proof -
  from assms have "cq_steady C (ck3_buf_list s)" by (simp add: ck3_live_def)
  from cq_get_data_steady [OF this] obtain q' d where
    "cq_get_data (ck3_buf_list s) = Some (q', d)" "cq_steady C q'" "cq_list q' = cq_list (ck3_buf_list s)"
    "read_cells d (cq_size q') = Some (cq_list (ck3_buf_list s))" by blast
  with assms show ?thesis
    using length_cq_list [of q'] length_cq_list [of "ck3_buf_list s"]
    by (simp add: Checksum3_StrongSum_def strong_message_def ck3_live_def ck3_window_def del: length_cq_list)
qed

lemma queue_judge_mark:
  assumes t: "table_sound (length meta) t" and s: "ck3_live 5 C s" "ck3_window s = w"
  shows "\<exists>hit s'. service_judge md4 (int C) True t None pos (s, meta) =
           Some (hit, s', mark md4 t w pos meta) \<and> ck3_live 5 C s' \<and> ck3_window s' = w"
proof (cases "st_sum_offset t (weak5 w)")
  case None
  then show ?thesis
    using s live_sum [OF s(1)]
    by (intro exI [of _ False] exI [of _ s]) (simp add: service_judge_def mark_def Let_def)
next
  case (Some k)
  with t have "k < length meta" "st_map t (unat (weak5 w mod 4096)) = 1"
    by (auto simp: table_sound_def)
  with Some StrongSum_queue [OF s(1), of md4 "int C"] live_sum [OF s(1)] s(2) show ?thesis
    by (auto simp: service_judge_def mark_def Let_def)
qed

text \<open>\<open>l\<close> is the list after the first window.\<close>

definition cp6_inv ::
  "(byte list \<Rightarrow> byte list) \<Rightarrow> nat \<Rightarrow> byte list \<Rightarrow> sum_table \<Rightarrow> chunk_info list \<Rightarrow> nat \<Rightarrow>
   checksum3 \<times> chunk_info list \<Rightarrow> bool" where
  "cp6_inv md4 C D t l c x \<longleftrightarrow> 0 < C \<and> C \<le> c \<and> table_sound (length l) t \<and>
     ck3_live 5 C (fst x) \<and> ck3_window (fst x) = window C D (c - C) \<and>
     snd x = mark_all md4 C t D [1..<Suc (c - C)] l"

text \<open>The byte at \<open>c\<close> is pushed: the window moves by one.\<close>

lemma update_window:
  assumes "ck3_live 5 C s" and "ck3_window s = window C D (c - C)" and "0 < C" and "C \<le> c"
    and c: "c < length D" "b + i = c"
  shows "\<exists>s'. peek (drop b D) i = Some (D ! c) \<and> Checksum3_Update 5 (D ! c) s = Some s' \<and>
           ck3_live 5 C s' \<and> ck3_window s' = window C D (Suc c - C)"
proof -
  from checksum3.update_law [OF assms(1), of "D ! c"] obtain s1 where
    s1: "Checksum3_Update 5 (D ! c) s = Some s1" "ck3_live 5 C s1"
      "ck3_window s1 = tl (ck3_window s @ [D ! c])" by blast
  moreover have "tl (window C D (c - C) @ [D ! (c - C + C)]) = window C D (Suc (c - C))"
    using assms(3,4) c(1) by (intro window_slide) simp_all
  ultimately show ?thesis using assms(2,4) c by (auto simp: peek_def Suc_diff_le)
qed

interpretation cp6: window_pass "cp6_byte md4 (int C) t" "cp6_inv md4 C D t l" D 0
  for md4 C t D l
proof unfold_locales
  fix c i b and x :: "checksum3 \<times> chunk_info list"
  assume inv: "cp6_inv md4 C D t l c x" and c: "c < length D" "b + i = c"
  obtain s meta where x: "x = (s, meta)" by (cases x)
  from inv have s: "ck3_live 5 C s" "ck3_window s = window C D (c - C)" and C: "0 < C" "C \<le> c"
    and t: "table_sound (length meta) t" and meta: "meta = mark_all md4 C t D [1..<Suc (c - C)] l"
    by (simp_all add: x cp6_inv_def)
  from update_window [OF s C c] obtain s1 where
    s1: "peek (drop b D) i = Some (D ! c)" "Checksum3_Update 5 (D ! c) s = Some s1" "ck3_live 5 C s1"
      "ck3_window s1 = window C D (Suc c - C)" by blast
  from queue_judge_mark [OF t s1(3,4), of md4 "int (Suc c - C)"] obtain hit s2 where
    s2: "service_judge md4 (int C) True t None (int (Suc c - C)) (s1, meta) =
        Some (hit, s2, mark md4 t (window C D (Suc c - C)) (int (Suc c - C)) meta)"
      "ck3_live 5 C s2" "ck3_window s2 = window C D (Suc c - C)" by blast
  have pos: "1 + int c - int C = int (Suc c - C)" and e: "Suc c - C = Suc (c - C)" using C(2) by simp_all
  have "cp6_byte md4 (int C) t (drop b D) i (x, int c) =
      Some ((s2, mark md4 t (window C D (Suc c - C)) (int (Suc c - C)) meta), int (Suc c))"
    using s1(1,2) s2(1) by (simp add: cp6_byte_def x Let_def pos add.commute [of "int c"])
  moreover have "mark md4 t (window C D (Suc c - C)) (int (Suc c - C)) meta =
      mark_all md4 C t D [1..<Suc (Suc c - C)] l"
    by (simp add: meta e)
  ultimately show "\<exists>x'. cp6_byte md4 (int C) t (drop b D) i (x, int c) = Some (x', int (Suc c)) \<and>
      cp6_inv md4 C D t l (Suc c) x'"
    using s2(2,3) inv C by (auto simp: cp6_inv_def)
qed

text \<open>The first window, which both look at without the filter.\<close>

lemma first_window:
  assumes f: "fs_files fs dst = Some D" "\<not> fs_denied fs dst" "int (length D) < 2 ^ 31"
    and C: "0 < C" "C < 4194312" "C \<le> length D" and t: "table_sound (length meta) t"
  shows "\<exists>r s hit. fu_read_at fs 0 dst = Some (r, Some D) \<and>
           Checksum3_Init 5 D (int C) Checksum3_new = Some s \<and>
           ck3_live 5 C s \<and> ck3_window s = window C D 0 \<and>
           service_judge md4 (int C) False t (Some D) 0 (s, meta) =
             Some (hit, s, mark md4 t (window C D 0) 0 meta)"
proof -
  obtain r where rd: "fu_read_at fs 0 dst = Some (r, Some D)" using fu_read_at_ok [OF f, of 0] by auto
  have l: "load D 0 C = Some (window C D 0)" using C(3) by (simp add: load_def window_def)
  from checksum3.init_law [OF Checksum3_new_ready [OF C(2)] C(1) l] obtain s where
    s: "Checksum3_Init 5 D (int C) Checksum3_new = Some s" "ck3_live 5 C s" "ck3_window s = window C D 0"
    by blast
  from service_judge_mark [OF t s(2,3) l] rd s show ?thesis by blast
qed

definition cp_marks :: "(byte list \<Rightarrow> byte list) \<Rightarrow> nat \<Rightarrow> byte list \<Rightarrow> byte list \<Rightarrow> chunk_info list" where
  "cp_marks md4 C old D =
     mark_all md4 C (cp_table C old (length old div C)) D [0..<Suc (length D - C)] (cp_list md4 C old)"

lemma cp4_cp6_marks:
  assumes src: "fs_files fs src = Some old" "\<not> fs_denied fs src" "int (length old) < 2 ^ 31"
    and dst: "fs_files fs dst = Some D" "\<not> fs_denied fs dst" "int (length D) < 2 ^ 31"
    and sb: "0 < sb" and C: "0 < C" "C < 4194312" "C \<le> length D"
  shows "cp4 md4 (int C) sb fs src dst = Some (cp_marks md4 C old D)"
    and "cp6 md4 (int C) sb fs src dst = Some (cp_marks md4 C old D)"
proof -
  let ?l = "cp_list md4 C old" and ?t = "cp_table C old (length old div C)"
  define l1 where "l1 = mark md4 ?t (window C D 0) 0 ?l"
  have t: "table_sound (length ?l) ?t" using length_cp_list by (rule cp_table_sound)
  have size: "get_file_size fs dst = int (length D)" using dst(1,3) by (rule get_file_size_small)
  note source = cp_source_ok [OF src C(1), where tab = "cp_table C old" and add = note_sum,
      OF cp_table_0 cp_table_Suc]
  from first_window [OF dst C t, of md4] obtain r s hit where
    1: "fu_read_at fs 0 dst = Some (r, Some D)" "Checksum3_Init 5 D (int C) Checksum3_new = Some s"
      "ck3_live 5 C s" "ck3_window s = window C D 0"
      "service_judge md4 (int C) False ?t (Some D) 0 (s, ?l) = Some (hit, s, l1)"
    unfolding l1_def by blast
  have l1: "table_sound (length l1) ?t" using t by (simp add: l1_def)
  have marks: "mark_all md4 C ?t D [1..<Suc (length D - C)] l1 = cp_marks md4 C old D"
  proof -
    have "[0..<Suc (length D - C)] = 0 # [1..<Suc (length D - C)]" by (simp add: upt_conv_Cons)
    then show ?thesis by (simp add: cp_marks_def l1_def del: upt_Suc)
  qed
  obtain s2 where "service_windows md4 (int C) sb fs dst ?t (int (length D) - int C) (s, l1, int C) =
      Some (s2, mark_all md4 C ?t D [1..<Suc (length D - C)] l1, int (length D))"
    using service_windows_marks [OF dst sb C(1) 1(3), of C l1 ?t md4] 1(4) C(3) l1 by (auto simp del: upt_Suc)
  then show "cp4 md4 (int C) sb fs src dst = Some (cp_marks md4 C old D)"
    using source 1 size marks by (simp add: cp4_def Let_def del: upt_Suc)
  have "cp6_inv md4 C D ?t l1 C (s, l1)" using 1(3,4) C(1) l1 by (simp add: cp6_inv_def)
  from cp6.windows [OF dst sb this _ C(3)] obtain x where
    x: "cp_windows (int 0) sb fs dst (cp6_byte md4 (int C) ?t) (int (length D) - int C) ((s, l1), int C) =
        Some (x, int (length D))" "cp6_inv md4 C D ?t l1 (length D) x" by auto
  then have "snd x = cp_marks md4 C old D" using marks by (simp add: cp6_inv_def)
  with x(1) show "cp6 md4 (int C) sb fs src dst = Some (cp_marks md4 C old D)"
    using source 1 size by (simp add: cp6_def Let_def split_beta)
qed

section \<open>cp3: the plain loop over weak sums\<close>

definition weak_mark :: "sum_table \<Rightarrow> byte list \<Rightarrow> int \<Rightarrow> chunk_info list \<Rightarrow> chunk_info list" where
  "weak_mark t w pos meta =
     (case st_sum_offset t (weak5 w) of None \<Rightarrow> meta | Some k \<Rightarrow> redirect k pos meta)"

definition weak_marks :: "nat \<Rightarrow> sum_table \<Rightarrow> byte list \<Rightarrow> nat list \<Rightarrow> chunk_info list \<Rightarrow> chunk_info list" where
  "weak_marks C t D ps l = fold (\<lambda>p. weak_mark t (window C D p) (int p)) ps l"

lemma length_weak_mark [simp]: "length (weak_mark t w pos l) = length l"
  by (simp add: weak_mark_def split: option.split)

lemma weak_marks_simps [simp]:
  "weak_marks C t D [] l = l"
  "weak_marks C t D (p # ps) l = weak_marks C t D ps (weak_mark t (window C D p) (int p) l)"
  "weak_marks C t D (ps @ qs) l = weak_marks C t D qs (weak_marks C t D ps l)"
  by (simp_all add: weak_marks_def)

lemma length_weak_marks [simp]: "length (weak_marks C t D ps l) = length l"
  by (induction ps arbitrary: l) simp_all

lemma cp3_judge_mark:
  assumes "ck3_live 5 C s" and "ck3_window s = w" and "\<forall>v k. st_sum_offset t v = Some k \<longrightarrow> k < length l"
  shows "cp3_judge t pos s l = Some (weak_mark t w pos l)"
  using assms live_sum [OF assms(1)] by (auto simp: cp3_judge_def weak_mark_def split: option.split)

definition cp3_inv ::
  "nat \<Rightarrow> byte list \<Rightarrow> sum_table \<Rightarrow> chunk_info list \<Rightarrow> nat \<Rightarrow> checksum3 \<times> chunk_info list \<Rightarrow> bool" where
  "cp3_inv C D t l c x \<longleftrightarrow> 0 < C \<and> C \<le> c \<and> (\<forall>v k. st_sum_offset t v = Some k \<longrightarrow> k < length l) \<and>
     ck3_live 5 C (fst x) \<and> ck3_window (fst x) = window C D (c - C) \<and>
     snd x = weak_marks C t D [1..<Suc (c - C)] l"

interpretation cp3: window_pass "cp3_byte (int C) t" "cp3_inv C D t l" D 0
  for C t D l
proof unfold_locales
  fix c i b and x :: "checksum3 \<times> chunk_info list"
  assume inv: "cp3_inv C D t l c x" and c: "c < length D" "b + i = c"
  obtain s meta where x: "x = (s, meta)" by (cases x)
  from inv have s: "ck3_live 5 C s" "ck3_window s = window C D (c - C)" and C: "0 < C" "C \<le> c"
    and t: "\<forall>v k. st_sum_offset t v = Some k \<longrightarrow> k < length meta"
    and meta: "meta = weak_marks C t D [1..<Suc (c - C)] l"
    by (simp_all add: x cp3_inv_def)
  from update_window [OF s C c] obtain s1 where
    s1: "peek (drop b D) i = Some (D ! c)" "Checksum3_Update 5 (D ! c) s = Some s1" "ck3_live 5 C s1"
      "ck3_window s1 = window C D (Suc c - C)" by blast
  have pos: "int c - int C + 1 = int (Suc c - C)" and e: "Suc c - C = Suc (c - C)" using C(2) by simp_all
  have "cp3_byte (int C) t (drop b D) i (x, int c) =
      Some ((s1, weak_mark t (window C D (Suc c - C)) (int (Suc c - C)) meta), int (Suc c))"
    using s1(1,2) cp3_judge_mark [OF s1(3,4) t] by (simp add: cp3_byte_def x pos)
  moreover have "weak_mark t (window C D (Suc c - C)) (int (Suc c - C)) meta =
      weak_marks C t D [1..<Suc (Suc c - C)] l"
    by (simp add: meta e)
  ultimately show "\<exists>x'. cp3_byte (int C) t (drop b D) i (x, int c) = Some (x', int (Suc c)) \<and>
      cp3_inv C D t l (Suc c) x'"
    using s1(3,4) inv C by (auto simp: cp3_inv_def)
qed

definition cp3_marks :: "(byte list \<Rightarrow> byte list) \<Rightarrow> nat \<Rightarrow> byte list \<Rightarrow> byte list \<Rightarrow> chunk_info list" where
  "cp3_marks md4 C old D =
     weak_marks C (offset_table C old (length old div C)) D [0..<Suc (length D - C)] (cp_list md4 C old)"

lemma cp3_marks_ok:
  assumes src: "fs_files fs src = Some old" "\<not> fs_denied fs src" "int (length old) < 2 ^ 31"
    and dst: "fs_files fs dst = Some D" "\<not> fs_denied fs dst" "int (length D) < 2 ^ 31"
    and sb: "0 < sb" and C: "0 < C" "C < 4194312" "C \<le> length D"
  shows "cp3 md4 (int C) sb fs src dst = construct_file fs src dst (cp3_marks md4 C old D) TEST_DAT"
proof -
  let ?l = "cp_list md4 C old" and ?t = "offset_table C old (length old div C)"
  define l1 where "l1 = weak_mark ?t (window C D 0) 0 ?l"
  have t: "\<forall>v k. st_sum_offset ?t v = Some k \<longrightarrow> k < length ?l"
    using offset_table_range length_cp_list by (metis order_less_le_trans)
  have size: "get_file_size fs dst = int (length D)" using dst(1,3) by (rule get_file_size_small)
  note source = cp_source_ok [OF src C(1), where tab = "offset_table C old" and add = note_offset,
      OF offset_table_simps]
  from first_window [OF dst C cp_table_sound [OF length_cp_list], of md4] obtain r s where
    1: "fu_read_at fs 0 dst = Some (r, Some D)" "Checksum3_Init 5 D (int C) Checksum3_new = Some s"
      "ck3_live 5 C s" "ck3_window s = window C D 0" by blast
  have j: "cp3_judge ?t 0 s ?l = Some l1" unfolding l1_def by (rule cp3_judge_mark [OF 1(3,4) t])
  have "cp3_inv C D ?t l1 C (s, l1)" using 1(3,4) C(1) t by (simp add: cp3_inv_def l1_def)
  from cp3.windows [OF dst sb this _ C(3)] obtain x where
    x: "cp_windows (int 0) sb fs dst (cp3_byte (int C) ?t) (int (length D) - int C) ((s, l1), int C) =
        Some (x, int (length D))" "cp3_inv C D ?t l1 (length D) x" by auto
  have "[0..<Suc (length D - C)] = 0 # [1..<Suc (length D - C)]" by (simp add: upt_conv_Cons)
  with x(2) have "snd x = cp3_marks md4 C old D"
    by (simp add: cp3_inv_def cp3_marks_def l1_def del: upt_Suc)
  with x(1) show ?thesis
    using source 1 size j by (simp add: cp3_def Let_def split_beta)
qed

section \<open>cp5: an MD4 context that was never set up\<close>

lemma cp5_faults:
  assumes src: "fs_files fs src = Some old" "\<not> fs_denied fs src" "int (length old) < 2 ^ 31"
    and C: "0 < C" "C \<le> length old"
  shows "cp5 api (int C) sb fs src dst = None"
proof -
  have size: "get_file_size fs src = int (length old)" using src(1,3) by (rule get_file_size_small)
  have "0 < length old div C" using C by (simp add: div_greater_zero_iff)
  then obtain n where n: "length old div C = Suc n" by (cases "length old div C") auto
  have "nat (c_div (int (length old)) (int C)) = Suc n"
    using C(1) n by (simp add: zdiv_int [symmetric])
  moreover obtain r where "fu_read_at fs 0 src = Some (r, Some old)" using fu_read_at_ok [OF src, of 0] by auto
  ultimately have "cp_source (Checksum_StrongSum_ptr api) Checksum_Sum1 note_offset (int C) fs src Checksum_new = None"
    using size by (simp add: cp_source_def Let_def Checksum_StrongSum_ptr_def Checksum_StrongSum_def Checksum_new_def)
  then show ?thesis by (simp add: cp5_def)
qed

section \<open>cp7: the copy\<close>

lemma cp7_chunks_ok:
  assumes "fm_ok fs src old fm" and "i + n \<le> length old div C" and C30: "int C \<le> 2 ^ 30"
  shows "\<exists>fm'. cp7_chunks md4 (int C) fs n (int i)
            (fm, s, map (cp_full md4 C old) [0..<i], cp_table C old i) =
          Some (fm', s, map (cp_full md4 C old) [0..<i + n], cp_table C old (i + n))"
  using assms(1,2)
proof (induction n arbitrary: i fm)
  case 0
  then show ?case by simp
next
  case (Suc n)
  have inside: "i * C + C \<le> length old" using Suc.prems(2) by (intro chunk_inside) simp
  from MapFileContent_ok [OF Suc.prems(1), of "i * C" C] inside C30 obtain fm1 q m where
    map: "MapFileContent fs (int i * int C) (int C) fm = Some (fm1, q)" "fm_ok fs src old fm1"
      "fm_mem fm1 q = Some m" and sh: "fm_shows old (i * C) C m"
    by auto
  have l: "load m 0 C = Some (chunk C old i)"
    using fm_shows_inside [OF sh inside] by (simp add: chunk_def)
  have "Checksum3_StrongSum md4 (Some m) (int C) s = Some (hex_string (md4 (chunk C old i)), s)"
    using Checksum3_StrongSum_data [of "int C" _ "chunk C old i" md4 s] l by simp
  moreover have "Checksum3_Sum1 5 m (int C) = Some (weak5 (chunk C old i))"
    using Sum1_5_load [of _ "int C"] l by simp
  moreover have "map (cp_full md4 C old) [0..<i] @
      [cp_chunk (int i * int C) (int C) (hex_string (md4 (chunk C old i)))] = map (cp_full md4 C old) [0..<Suc i]"
    by (simp add: cp_full_def)
  ultimately show ?case
    using Suc.IH [OF map(2), of "Suc i"] Suc.prems(2) map(1,3) cp_table_Suc [of C old i]
    by (simp add: add.commute [of _ 1])
qed

lemma cp_list_nth:
  assumes "k < length (cp_list md4 C old)"
  shows "cp_list md4 C old ! k =
    (if k < length old div C then cp_full md4 C old k
     else cp_chunk (int (length old div C * C)) (int (length old mod C)) []) \<and>
    (k < length old div C \<or> k = length old div C \<and> length old mod C \<noteq> 0)"
  using assms by (auto simp: cp_list_def nth_append split: if_splits)

lemma cp_list_chunks:
  assumes md4: "\<forall>m. length (md4 m) = 16" and C: "0 < C"
  shows "chunk_list md4 C old D (cp_list md4 C old)"
  unfolding chunk_list_def
proof (intro allI impI)
  fix k
  let ?c = "cp_list md4 C old ! k"
  assume k: "k < length (cp_list md4 C old)"
  show "ci_from ?c \<and> chunk_gives old D ?c (chunk_bytes_of C old k) \<and>
     (if k < length old div C
      then ci_strong_sum ?c = hex_string (md4 (chunk C old k)) \<and> ci_length ?c = int C
      else \<forall>p. p + C \<le> length D \<longrightarrow> hex_string (md4 (window C D p)) \<noteq> ci_strong_sum ?c)"
  proof (cases "k < length old div C")
    case True
    then have "k * C + C \<le> length old" by (rule chunk_inside)
    with cp_list_nth [OF k] True length_chunk [OF True] show ?thesis
      by (auto simp: cp_full_def cp_chunk_def chunk_gives_def chunk_bytes_of_def chunk_def Let_def
          intro!: exI [of _ "k * C"])
  next
    case False
    have "length old - length old div C * C = length old mod C" by (simp add: minus_div_mult_eq_mod)
    moreover have "hex_string (md4 w) \<noteq> []" for w using md4 length_hex_string [of "md4 w"] by auto
    ultimately show ?thesis
      using cp_list_nth [OF k] False
      by (auto simp: cp_chunk_def chunk_gives_def chunk_bytes_of_def Let_def
          intro!: exI [of _ "length old div C * C"])
  qed
qed

lemma concat_cp_list: "concat (map (chunk_bytes_of C old) [0..<length (cp_list md4 C old)]) = old"
proof -
  have "length (cp_list md4 C old) = length (service_list md4 C old [])"
    by (simp add: cp_list_def length_service_list)
  then show ?thesis by (simp only: concat_chunk_bytes)
qed

lemma construct_pieces_ok:
  assumes "list_all2 (chunk_gives old D) R bss" and "fm_ok fs src old sm" and "fm_ok fs dst D dm"
  shows "\<exists>sm' dm'. foldM (construct_piece fs) R (sm, dm, out) = Some (sm', dm', out @ concat bss)"
  using assms
proof (induction arbitrary: sm dm out rule: list_all2_induct)
  case Nil
  then show ?case by simp
next
  case (Cons c R bs bss)
  have get: "\<exists>m' mem q. MapFileContent fs (ci_offset c) (ci_length c) m = Some (m', q) \<and> fm_ok fs p N m' \<and>
      fm_mem m' q = Some mem \<and> load mem 0 (length bs) = Some bs"
    if m: "fm_ok fs p N m" and N: "N = (if ci_from c then old else D)" for m p N
  proof -
    from Cons.hyps(1) N obtain off where c: "ci_offset c = int off" "ci_length c = int (length bs)"
      "off + length bs \<le> length N" "bs = take (length bs) (drop off N)"
      by (auto simp: chunk_gives_def Let_def split: if_splits)
    have "int (length bs) \<le> 2 ^ 30" "off \<le> length N"
      using c(3) m by (simp_all add: fm_ok_def DEFAULT_BUFFER_LENGTH_def)
    from MapFileContent_ok [OF m this(2,1)] c(3) obtain m' q mem where
      map: "MapFileContent fs (int off) (int (length bs)) m = Some (m', q)" "fm_ok fs p N m'"
        "fm_mem m' q = Some mem" and "fm_shows N off (length bs) mem" by auto
    with fm_shows_inside [OF this(4)] c map show ?thesis by auto
  qed
  have len: "ci_length c = int (length bs)"
    using Cons.hyps(1) by (auto simp: chunk_gives_def Let_def split: if_splits)
  have "\<exists>sm1 dm1. construct_piece fs c (sm, dm, out) = Some (sm1, dm1, out @ bs) \<and>
      fm_ok fs src old sm1 \<and> fm_ok fs dst D dm1"
  proof (cases "ci_from c")
    case True
    with get [OF Cons.prems(1)] Cons.prems(2) len show ?thesis
      by (auto simp: construct_piece_def fwrite_chunk_def)
  next
    case False
    with get [OF Cons.prems(2)] Cons.prems(1) len show ?thesis
      by (auto simp: construct_piece_def fwrite_chunk_def)
  qed
  then obtain sm1 dm1 where "construct_piece fs c (sm, dm, out) = Some (sm1, dm1, out @ bs)"
    "fm_ok fs src old sm1" "fm_ok fs dst D dm1" by blast
  with Cons.IH [OF this(2,3), of "out @ bs"] show ?case by simp
qed

lemma construct_file_ok:
  assumes "file_ok fs src old" and "file_ok fs dst D" and g: "list_all2 (chunk_gives old D) R bss"
    and cst: "\<not> fs_denied fs cst" "cst \<noteq> src" "cst \<noteq> dst"
  shows "\<exists>fs'. construct_file fs src dst R cst = Some fs' \<and> fs_files fs' cst = Some (concat bss) \<and>
           fs_frame cst fs fs'"
proof -
  define fs1 where "fs1 = fs\<lparr>fs_files := (fs_files fs)(cst \<mapsto> [])\<rparr>"
  have fr: "fs_frame cst fs fs1" by (simp add: fs_frame_def fs1_def)
  have w: "fopen_write fs cst = Some fs1" using cst(1) by (simp add: fopen_write_def fs1_def)
  from file_ok_open [OF file_ok_frame [OF assms(1) fr]] cst(2) obtain sm where
    sm: "FileMap_new fs1 src = Some sm" "fm_ok fs1 src old sm" by auto
  from file_ok_open [OF file_ok_frame [OF assms(2) fr]] cst(3) obtain dm where
    dm: "FileMap_new fs1 dst = Some dm" "fm_ok fs1 dst D dm" by auto
  from construct_pieces_ok [OF g sm(2) dm(2), of "[]"] obtain sm' dm' where
    "foldM (construct_piece fs1) R (sm, dm, []) = Some (sm', dm', concat bss)" by auto
  then have "construct_file fs src dst R cst = Some (fs1\<lparr>fs_files := (fs_files fs1)(cst \<mapsto> concat bss)\<rparr>)"
    using w sm(1) dm(1) by (simp add: construct_file_def)
  then show ?thesis by (simp add: fs_frame_def fs1_def)
qed

text \<open>The list \<open>cp7\<close> has after its scan.\<close>

definition cp7_scanned ::
  "(byte list \<Rightarrow> byte list) \<Rightarrow> nat \<Rightarrow> fsys \<Rightarrow> string \<Rightarrow> byte list \<Rightarrow> byte list \<Rightarrow> chunk_info list option" where
  "cp7_scanned md4 C fs dst old D = do {
     fm \<leftarrow> FileMap_new fs dst;
     s \<leftarrow> scan1_loop md4 (int C) fs (cp_table C old (length old div C)) (int (length D))
            \<lparr>s1c_summer = Checksum3_new, s1c_meta = cp_list md4 C old, s1c_fm = fm, s1c_buf = None,
             s1c_curr = 0\<rparr>;
     Some (s1c_meta s)
   }"

lemma cp7_scanned_marked:
  assumes dst: "file_ok fs dst D" and C: "0 < C" "C < 4194312"
  shows "\<exists>R. cp7_scanned md4 C fs dst old D = Some R \<and> marked md4 C D (cp_list md4 C old) R"
proof -
  let ?l = "cp_list md4 C old"
  from file_ok_open [OF dst] obtain fm where fm: "FileMap_new fs dst = Some fm" "fm_ok fs dst D fm" by blast
  define s0 where "s0 = \<lparr>s1c_summer = Checksum3_new, s1c_meta = ?l, s1c_fm = fm, s1c_buf = None,
      s1c_curr = 0\<rparr>"
  have "scan1_inv md4 C D fs dst ?l s0" "ck3_ready C (s1c_summer s0)" "s1c_curr s0 = int 0"
    using fm(2) Checksum3_new_ready [OF C(2)] by (simp_all add: scan1_inv_def s0_def)
  from scan1_loop_ok [OF this C(1) cp_table_sound [OF length_cp_list]] C(2) obtain s where
    "scan1_loop md4 (int C) fs (cp_table C old (length old div C)) (int (length D)) s0 = Some s"
    "scan1_inv md4 C D fs dst ?l s" by auto
  then show ?thesis using fm(1) by (simp add: cp7_scanned_def s0_def scan1_inv_def)
qed

lemma cp7_eq:
  assumes src: "file_ok fs src old" and dst: "file_ok fs dst D" and C: "0 < C" "int C \<le> 2 ^ 30"
  shows "cp7 md4 (int C) fs src dst =
    (case cp7_scanned md4 C fs dst old D of None \<Rightarrow> None | Some R \<Rightarrow> construct_file fs src dst R TEST_DAT)"
proof -
  from file_ok_open [OF src] obtain fm where fm: "FileMap_new fs src = Some fm" "fm_ok fs src old fm" by blast
  from cp7_chunks_ok [OF fm(2), of 0 "length old div C" C md4 Checksum3_new] C(2) obtain fm' where
    ch: "cp7_chunks md4 (int C) fs (length old div C) 0 (fm, Checksum3_new, [], empty_table) =
      Some (fm', Checksum3_new, map (cp_full md4 C old) [0..<length old div C], cp_table C old (length old div C))"
    by (auto simp: cp_table_0)
  have "c_div (int (length old)) (int C) = int (length old div C)"
    "c_mod (int (length old)) (int C) = int (length old mod C)"
    using C by (simp_all add: zdiv_int zmod_int)
  moreover have "cp_last (int C) (int (length old)) (int (length old div C))
      (map (cp_full md4 C old) [0..<length old div C]) = cp_list md4 C old"
    using calculation by (simp add: cp_last_def cp_list_def Let_def)
  ultimately show ?thesis
    using fm(1) ch file_ok_size [OF src] file_ok_size [OF dst]
    by (simp add: cp7_def cp7_scanned_def Let_def split: bind_splits)
qed

lemma cp7_copies_file:
  assumes src: "file_ok fs src old" and dst: "file_ok fs dst D" and C: "0 < C" "C < 4194312"
    and md4: "\<forall>m. length (md4 m) = 16"
    and cst: "\<not> fs_denied fs TEST_DAT" "TEST_DAT \<noteq> src" "TEST_DAT \<noteq> dst"
    and apart: "chunks_apart md4 C old D"
    and ins: "\<And>R. cp7_scanned md4 C fs dst old D = Some R \<Longrightarrow> scan_inside C D R"
  shows "\<exists>fs'. cp7 md4 (int C) fs src dst = Some fs' \<and> fs_files fs' TEST_DAT = Some old \<and>
           fs_frame TEST_DAT fs fs'"
proof -
  from cp7_scanned_marked [OF dst C] obtain R where
    R: "cp7_scanned md4 C fs dst old D = Some R" "marked md4 C D (cp_list md4 C old) R" by blast
  note g = marked_gives [OF R(2) cp_list_chunks [OF md4 C(1)] ins [OF R(1)] apart md4 C(1)]
  from construct_file_ok [OF src dst g cst] R(1) cp7_eq [OF src dst C(1), of md4] C(2) show ?thesis
    by (auto simp: concat_cp_list)
qed

end
