(* ===== verification/CopyProperties.thy ===== *)
theory CopyProperties
  imports CopyFacts RemoteProperties
begin

text \<open>
  What the five copying programs of \<open>cp.cpp\<close> promise.
\<close>

definition copy_fs :: "byte list \<Rightarrow> byte list \<Rightarrow> fsys" where
  "copy_fs old D = \<lparr>fs_files = [''s'' \<mapsto> old, ''d'' \<mapsto> D], fs_denied = (\<lambda>_. False)\<rparr>"

lemma copy_fs_simps [simp]:
  "fs_files (copy_fs old D) = [''s'' \<mapsto> old, ''d'' \<mapsto> D]" "\<not> fs_denied (copy_fs old D) p"
  by (simp_all add: copy_fs_def)

lemma copy_fs_ok:
  "length old < 1000 \<Longrightarrow> file_ok (copy_fs old D) ''s'' old"
  "length D < 1000 \<Longrightarrow> file_ok (copy_fs old D) ''d'' D"
  by (simp_all add: file_ok_def DEFAULT_BUFFER_LENGTH_def)

text \<open>
  C32. \<open>cp4\<close>, which takes the strong sum of the bytes it read, and \<open>cp6\<close>, which reads each byte once and
  takes the strong sum of the checksum's own queue, find the same chunks at the same places: those
  of the plain loop over all windows of the destination.
\<close>

theorem cp4_and_cp6_agree:
  assumes "fs_files fs src = Some old" and "\<not> fs_denied fs src" and "int (length old) < 2 ^ 31"
    and "fs_files fs dst = Some D" and "\<not> fs_denied fs dst" and "int (length D) < 2 ^ 31"
    and "0 < sb" and "0 < C" and "C < 4194312" and "C \<le> length D"
  shows "cp6 md4 (int C) sb fs src dst = cp4 md4 (int C) sb fs src dst \<and>
         cp4 md4 (int C) sb fs src dst =
           Some (mark_all md4 C (cp_table C old (length old div C)) D [0..<Suc (length D - C)]
                   (cp_list md4 C old))"
  using cp4_cp6_marks [OF assms] by (simp add: cp_marks_def)

lemma cp4_and_cp6_agree_witness:
  "cp6 remote_md4 (int 2) 1 (copy_fs [1, 2, 3] [7, 1, 2]) ''s'' ''d'' =
     cp4 remote_md4 (int 2) 1 (copy_fs [1, 2, 3] [7, 1, 2]) ''s'' ''d'' \<and>
   cp4 remote_md4 (int 2) 1 (copy_fs [1, 2, 3] [7, 1, 2]) ''s'' ''d'' \<noteq> None"
  using cp4_and_cp6_agree [of "copy_fs [1, 2, 3] [7, 1, 2]" "''s''" "[1, 2, 3]" "''d''" "[7, 1, 2]" 1 2 remote_md4]
  by simp

text \<open>
  C33. \<open>cp7\<close> leaves the source in \<open>client_data/test.dat\<close> and changes no other file, for any contents
  of the destination.  Hypotheses: the sizes, 16-byte digests that do not confuse a window of the
  destination with a chunk of the source, and no chunk redirected to a place from which fewer
  than \<open>CHUNK_SIZE\<close> bytes are left.
\<close>

theorem cp7_copies:
  assumes "file_ok fs src old" and "file_ok fs dst D" and "0 < C" and "C < 4194312"
    and "\<forall>m. length (md4 m) = 16" and "\<not> fs_denied fs TEST_DAT" and "TEST_DAT \<noteq> src" and "TEST_DAT \<noteq> dst"
    and "chunks_apart md4 C old D"
    and "\<And>R. cp7_scanned md4 C fs dst old D = Some R \<Longrightarrow> scan_inside C D R"
  shows "\<exists>fs'. cp7 md4 (int C) fs src dst = Some fs' \<and> fs_files fs' TEST_DAT = Some old \<and>
           fs_frame TEST_DAT fs fs'"
  using assms by (rule cp7_copies_file)

lemma copy_scan_inside:
  "map_option (\<lambda>R. list_all (\<lambda>c. ci_from c \<or> ci_offset c + 2 \<le> 3) R)
     (cp7_scanned remote_md4 2 (copy_fs [1, 2, 3] [7, 1, 2]) ''d'' [1, 2, 3] [7, 1, 2]) = Some True"
  by code_simp

lemma cp7_copies_witness:
  "\<exists>fs'. cp7 remote_md4 (int 2) (copy_fs [1, 2, 3] [7, 1, 2]) ''s'' ''d'' = Some fs' \<and>
     fs_files fs' TEST_DAT = Some [1, 2, 3] \<and> fs_frame TEST_DAT (copy_fs [1, 2, 3] [7, 1, 2]) fs'"
proof (rule cp7_copies [OF _ _ _ _ _ _ _ _ no_clash_apart [OF demo_no_clash]])
  fix R
  assume "cp7_scanned remote_md4 2 (copy_fs [1, 2, 3] [7, 1, 2]) ''d'' [1, 2, 3] [7, 1, 2] = Some R"
  then show "scan_inside 2 [7, 1, 2] R"
    using copy_scan_inside by (auto simp: scan_inside_def list_all_iff)
qed (simp_all add: copy_fs_ok length_remote_md4 TEST_DAT_def)

text \<open>
  \<open>cp3\<close> believes the weak sum: if source and destination are one chunk each with the same weak
  sum, its copy of the source is the destination.
\<close>

theorem cp3_copies_by_weak_sum:
  assumes "file_ok fs src old" and "file_ok fs dst D" and "length old = C" and "length D = C"
    and "0 < C" and "C < 4194312" and "0 < sb" and "weak5 old = weak5 D"
    and "\<not> fs_denied fs TEST_DAT" and "TEST_DAT \<noteq> src" and "TEST_DAT \<noteq> dst"
  shows "\<exists>fs'. cp3 md4 (int C) sb fs src dst = Some fs' \<and> fs_files fs' TEST_DAT = Some D"
proof -
  let ?R = "[(cp_full md4 C old 0)\<lparr>ci_from := False, ci_offset := 0\<rparr>]"
  have n: "length old div C = 1" "length old mod C = 0" using assms(3,5) by simp_all
  have w: "window C D 0 = D" "chunk C old 0 = old" using assms(3,4) by (simp_all add: window_def chunk_def)
  have "cp3_marks md4 C old D = ?R"
    using n w assms(4,8) by (simp add: cp3_marks_def cp_list_def offset_table_simps note_offset_def
        weak_mark_def redirect_def)
  moreover have "cp3 md4 (int C) sb fs src dst = construct_file fs src dst (cp3_marks md4 C old D) TEST_DAT"
    using assms(1,2,4-7) by (intro cp3_marks_ok) (simp_all add: file_ok_def DEFAULT_BUFFER_LENGTH_def)
  moreover have "list_all2 (chunk_gives old D) ?R [D]"
    using assms(4) by (simp add: chunk_gives_def cp_full_def cp_chunk_def)
  from construct_file_ok [OF assms(1,2) this assms(9-11)] obtain fs' where
    "construct_file fs src dst ?R TEST_DAT = Some fs'" "fs_files fs' TEST_DAT = Some D" by auto
  ultimately show ?thesis by simp
qed

lemma cp3_copies_by_weak_sum_witness:
  "\<exists>fs'. cp3 remote_md4 (int 3) 1 (copy_fs [0, 2, 0] [1, 0, 1]) ''s'' ''d'' = Some fs' \<and>
     fs_files fs' TEST_DAT = Some [1, 0, 1]"
  by (rule cp3_copies_by_weak_sum [where old = "[0, 2, 0]"])
    (simp_all add: copy_fs_ok TEST_DAT_def weak5_def ck3_s1_def)

text \<open>
  \<open>cp5\<close> does not copy: the class \<open>Checksum\<close> sets its MD4 context up in \<open>Init\<close> only, and
  \<open>cp5\<close> asks for the strong sum of the first chunk before that, whatever MD4 library is used.
\<close>

theorem cp5_reads_unset_context:
  assumes "fs_files fs src = Some old" and "\<not> fs_denied fs src" and "int (length old) < 2 ^ 31"
    and "0 < C" and "C \<le> length old"
  shows "cp5 api (int C) sb fs src dst = None"
  using assms by (rule cp5_faults)

lemma cp5_reads_unset_context_witness:
  "cp5 \<lparr>MD4_Init = [], MD4_Update = (@), MD4_Final = (\<lambda>c. (c, c))\<rparr> (int 2) 1
     (copy_fs [1, 2, 3] [7, 1, 2]) ''s'' ''d'' = None"
  by (rule cp5_reads_unset_context [of _ _ "[1, 2, 3]"]) simp_all

end
