(* ===== verification/FileStore.thy ===== *)
theory FileStore
  imports FileIO NetData "HOL-Library.AList"
begin

text \<open>
  \<open>depends/fs/ifs.cpp\<close>: a store of numbered files, kept one behind the other in \<open>DATA_STORAGE\<close> with a
  table of their places.  The table is an association list; \<open>order\<close> is the unspecified order in
  which an \<open>unordered_map\<close> is iterated.
\<close>

type_synonym u64 = "64 word"

definition DATA_STORAGE :: string where "DATA_STORAGE = ''data_storage.dat''"
definition META_STORAGE :: string where "META_STORAGE = ''meta_storage.idx''"

section \<open>MetaNode and its bytes\<close>

record meta_node =
  mn_file_id :: u64
  mn_start :: int
  mn_length :: int

definition MetaNode :: "u64 \<Rightarrow> int \<Rightarrow> int \<Rightarrow> meta_node" where
  "MetaNode file_id start len = \<lparr>mn_file_id = file_id, mn_start = start, mn_length = len\<rparr>"

definition i64_ok :: "int \<Rightarrow> bool" where
  "i64_ok i \<longleftrightarrow> - (2 ^ 63) \<le> i \<and> i < 2 ^ 63"

definition add_i64 :: "int \<Rightarrow> int \<Rightarrow> int option" where
  "add_i64 a b = (if i64_ok (a + b) then Some (a + b) else None)"

text \<open>A \<open>uint64_t\<close> in memory, little endian, by its two halves.\<close>

definition le64 :: "u64 \<Rightarrow> byte list" where
  "le64 w = le32 (ucast w) @ le32 (ucast (drop_bit 32 w))"

definition rdle64 :: "byte list \<Rightarrow> u64" where
  "rdle64 bs = ucast (rdle32 (take 4 bs)) + push_bit 32 (ucast (rdle32 (drop 4 bs)))"

definition node_mem :: "meta_node \<Rightarrow> byte list" where
  "node_mem n = le64 (mn_file_id n) @ le64 (word_of_int (mn_start n)) @ le64 (word_of_int (mn_length n))"

definition node_of_mem :: "byte list \<Rightarrow> meta_node" where
  "node_of_mem m = MetaNode (rdle64 (take 8 m)) (sint (rdle64 (take 8 (drop 8 m)))) (sint (rdle64 (drop 16 m)))"

section \<open>The operations\<close>

record ifs =
  ifs_meta_datas :: "(u64 \<times> meta_node) list"
  ifs_latest_data :: meta_node

definition Ifs_new :: ifs where
  "Ifs_new = \<lparr>ifs_meta_datas = [], ifs_latest_data = MetaNode (- 1) 0 0\<rparr>"

text \<open>
  One turn of the loop of \<open>init\<close>: \<open>read\<close> puts at most 24 bytes over the variable \<open>meta_node\<close>, whose
  content is not set before the first full record (\<open>None\<close>).  The two file ids are compared as
  \<open>int32_t\<close>.
\<close>

fun init_loop ::
  "nat \<Rightarrow> byte list \<Rightarrow> byte list option \<Rightarrow> (u64 \<times> meta_node) list \<times> int \<Rightarrow>
   ((u64 \<times> meta_node) list \<times> int) option" where
  "init_loop 0 rest mem st = Some st"
| "init_loop (Suc k) rest mem (m, max_file_id) = do {
     let got = take 24 rest;
     mem \<leftarrow> (if length got = 24 then Some got else map_option (\<lambda>old. got @ drop (length got) old) mem);
     let node = node_of_mem mem;
     let m = AList.update (mn_file_id node) node m;
     let max_file_id =
       (if to_i32 max_file_id < to_i32 (uint (mn_file_id node)) then sint (mn_file_id node) else max_file_id);
     init_loop k (drop 24 rest) (Some mem) (m, max_file_id)
   }"

definition Ifs_init :: "fsys \<Rightarrow> ifs \<Rightarrow> (int \<times> ifs) option" where
  "Ifs_init fs s = do {
     let file_size = get_file_size fs META_STORAGE;
     if file_size \<le> 4 then Some (- 1, s\<lparr>ifs_latest_data := MetaNode 0 0 0\<rparr>)
     else do {
       c \<leftarrow> fopen_read fs META_STORAGE;
       size \<leftarrow> load c 0 4;
       (m, max_file_id) \<leftarrow>
          init_loop (nat (sint (rdle32 size))) (drop 4 c) None (ifs_meta_datas s, - 1);
       latest \<leftarrow> (if max_file_id = - 1 then Some (MetaNode 0 0 0) else map_of m (word_of_int max_file_id));
       Some (0, s\<lparr>ifs_meta_datas := m, ifs_latest_data := latest\<rparr>)
     }
   }"

definition file_content :: "fsys \<Rightarrow> string \<Rightarrow> byte list" where
  "file_content fs p = (case fs_files fs p of None \<Rightarrow> [] | Some c \<Rightarrow> c)"

text \<open>
  The mode \<open>ab\<close> creates the file and writes at its end, whatever \<open>fseek\<close> was asked for; \<open>fseek\<close> fails
  for a negative offset only.  The result is cut to \<open>int32_t\<close>.
\<close>

definition Ifs_write :: "fsys \<Rightarrow> byte list \<Rightarrow> int \<Rightarrow> ifs \<Rightarrow> (int \<times> fsys \<times> ifs) option" where
  "Ifs_write fs buffer len s = do {
     new_offset \<leftarrow> add_i64 (mn_start (ifs_latest_data s)) (mn_length (ifs_latest_data s));
     require (\<not> fs_denied fs DATA_STORAGE);
     let old = file_content fs DATA_STORAGE;
     let fs = fs\<lparr>fs_files := (fs_files fs)(DATA_STORAGE \<mapsto> old)\<rparr>;
     if new_offset < 0 then Some (- 1, fs, s)
     else do {
       require (0 \<le> len);
       bs \<leftarrow> load buffer 0 (nat len);
       let fs = fs\<lparr>fs_files := (fs_files fs)(DATA_STORAGE \<mapsto> old @ bs)\<rparr>;
       if to_i32 len = - 1 then Some (- 1, fs, s)
       else do {
         let file_id = mn_file_id (ifs_latest_data s) + 1;
         let meta_node = MetaNode file_id new_offset len;
         let s = s\<lparr>ifs_meta_datas := AList.update file_id meta_node (ifs_meta_datas s),
                   ifs_latest_data := meta_node\<rparr>;
         Some (to_i32 (sint file_id), fs, s)
       }
     }
   }"

definition Ifs_get_length :: "u64 \<Rightarrow> ifs \<Rightarrow> int" where
  "Ifs_get_length file_id s =
     (case map_of (ifs_meta_datas s) file_id of Some n \<Rightarrow> mn_length n | None \<Rightarrow> - 1)"

text \<open>The buffer is printed as a C string after it has been filled, so a zero must be in it.\<close>

definition Ifs_read :: "fsys \<Rightarrow> u64 \<Rightarrow> byte list \<Rightarrow> ifs \<Rightarrow> (int \<times> byte list) option" where
  "Ifs_read fs file_id buffer s =
     (case fopen_read fs DATA_STORAGE of
        None \<Rightarrow> Some (- 1, buffer)
      | Some c \<Rightarrow>
          (case map_of (ifs_meta_datas s) file_id of
             None \<Rightarrow> Some (- 1, buffer)
           | Some n \<Rightarrow> do {
               let pos = (if mn_start n < 0 then 0 else nat (mn_start n));
               let got = (if mn_length n < 0 then drop pos c else take (nat (mn_length n)) (drop pos c));
               buffer \<leftarrow> store buffer 0 got;
               require (0 \<in> set buffer);
               Some (to_i32 (int (length got)), buffer)
             }))"

text \<open>Without \<open>O_TRUNC\<close> the bytes of a longer old table stay behind the new one.\<close>

definition Ifs_save_metadata ::
  "((u64 \<times> meta_node) list \<Rightarrow> (u64 \<times> meta_node) list) \<Rightarrow> fsys \<Rightarrow> ifs \<Rightarrow> int \<times> fsys" where
  "Ifs_save_metadata order fs s =
     (if fs_denied fs META_STORAGE then (- 1, fs)
      else let new = le32 (of_nat (length (ifs_meta_datas s))) @
                     concat (map (\<lambda>(_, n). node_mem n) (order (ifs_meta_datas s)));
               old = file_content fs META_STORAGE
           in (0, fs\<lparr>fs_files := (fs_files fs)(META_STORAGE \<mapsto> new @ drop (length new) old)\<rparr>))"

section \<open>Bytes of a node\<close>

lemma length_le64 [simp]: "length (le64 w) = 8"
  by (simp add: le64_def)

lemma rdle64_le64 [simp]: "rdle64 (le64 w) = w"
proof -
  have "rdle64 (le64 w) = (ucast (ucast w :: u32) :: u64) + push_bit 32 (ucast (ucast (drop_bit 32 w) :: u32))"
    by (simp add: rdle64_def le64_def)
  also have "\<dots> = or (ucast (ucast w :: u32)) (push_bit 32 (ucast (ucast (drop_bit 32 w) :: u32)))"
    by (intro disjunctive_add bit_word_eqI) (auto simp: bit_simps)
  also have "\<dots> = w"
    by (intro bit_word_eqI) (auto simp: bit_simps)
  finally show ?thesis .
qed

definition node_fits :: "meta_node \<Rightarrow> bool" where
  "node_fits n \<longleftrightarrow> i64_ok (mn_start n) \<and> i64_ok (mn_length n)"

lemma sint_i64: "i64_ok i \<Longrightarrow> sint (word_of_int i :: u64) = i"
  by (simp add: i64_ok_def signed_of_int signed_take_bit_int_eq_self)

lemma length_node_mem [simp]: "length (node_mem n) = 24"
  by (simp add: node_mem_def)

lemma node_of_node_mem: "node_fits n \<Longrightarrow> node_of_mem (node_mem n) = n"
  by (simp add: node_of_mem_def node_mem_def node_fits_def sint_i64 MetaNode_def)

end
