(* ===== verification/StoreFacts.thy ===== *)
theory StoreFacts
  imports FileStore "HOL-Library.Multiset"
begin

text \<open>
  The store as a list of files: file \<open>k\<close>, counted from 1, is the \<open>k\<close>-th of \<open>bs\<close>.  \<open>store_holds\<close> is
  the abstraction relation; every operation is proved to do on it what it should, and saving the
  table and starting again from it keeps it.
\<close>

definition node_for :: "byte list list \<Rightarrow> nat \<Rightarrow> meta_node" where
  "node_for bs k =
     (case k of 0 \<Rightarrow> MetaNode 0 0 0
      | Suc j \<Rightarrow> MetaNode (of_nat k) (int (length (concat (take j bs)))) (int (length (bs ! j))))"

definition in_store :: "byte list list \<Rightarrow> u64 \<Rightarrow> bool" where
  "in_store bs w \<longleftrightarrow> 1 \<le> unat w \<and> unat w \<le> length bs"

definition store_small :: "byte list list \<Rightarrow> bool" where
  "store_small bs \<longleftrightarrow> length bs < 2 ^ 26 \<and> length (concat bs) < 2 ^ 31"

definition table_holds :: "ifs \<Rightarrow> byte list list \<Rightarrow> bool" where
  "table_holds s bs \<longleftrightarrow> distinct (map fst (ifs_meta_datas s)) \<and>
     map_of (ifs_meta_datas s) = (\<lambda>w. if in_store bs w then Some (node_for bs (unat w)) else None) \<and>
     ifs_latest_data s = node_for bs (length bs)"

definition store_holds :: "fsys \<Rightarrow> ifs \<Rightarrow> byte list list \<Rightarrow> bool" where
  "store_holds fs s bs \<longleftrightarrow> store_small bs \<and> table_holds s bs \<and> \<not> fs_denied fs DATA_STORAGE \<and>
     file_content fs DATA_STORAGE = concat bs"

text \<open>Positions in the concatenation.\<close>

lemma concat_take_le: "length (concat (take j bs)) \<le> length (concat bs)"
proof -
  have "concat bs = concat (take j bs) @ concat (drop j bs)"
    by (metis append_take_drop_id concat_append)
  then show ?thesis by simp
qed

lemma concat_at:
  assumes "j < length bs"
  shows "take (length (bs ! j)) (drop (length (concat (take j bs))) (concat bs)) = bs ! j"
proof -
  have "bs = take j bs @ bs ! j # drop (Suc j) bs" using assms by (rule id_take_nth_drop)
  then have "concat bs = concat (take j bs) @ bs ! j @ concat (drop (Suc j) bs)"
    by (metis concat.simps(2) concat_append)
  then show ?thesis by simp
qed

lemma concat_nth_le: "j < length bs \<Longrightarrow> length (bs ! j) \<le> length (concat bs)"
  using concat_at [of j bs] by (metis length_drop length_take min.bounded_iff diff_le_self le_trans order_refl)

lemma unat_of_nat_u64: "k < 2 ^ 64 \<Longrightarrow> unat (of_nat k :: u64) = k"
  by (simp add: unsigned_of_nat take_bit_nat_eq_self)

lemma node_for_append: "k \<le> length bs \<Longrightarrow> node_for (bs @ [b]) k = node_for bs k"
  by (cases k) (simp_all add: node_for_def nth_append)

lemma node_for_end:
  "mn_start (node_for bs (length bs)) + mn_length (node_for bs (length bs)) = int (length (concat bs))"
proof (cases "length bs")
  case 0
  then show ?thesis by (simp add: node_for_def MetaNode_def)
next
  case (Suc j)
  then have "bs = take j bs @ [bs ! j]" using take_Suc_conv_app_nth [of j bs] by simp
  from arg_cong [OF this, of concat] have "concat bs = concat (take j bs) @ bs ! j"
    by (simp only: concat_append concat.simps append_Nil2)
  with Suc show ?thesis by (simp add: node_for_def MetaNode_def)
qed

lemma node_for_id: "mn_file_id (node_for bs k) = of_nat k"
  by (simp add: node_for_def MetaNode_def split: nat.split)

section \<open>The operations on the list\<close>

lemma store_start: "\<not> fs_denied fs DATA_STORAGE \<Longrightarrow> fs_files fs DATA_STORAGE = None \<Longrightarrow>
    fs_files fs META_STORAGE = None \<Longrightarrow>
    \<exists>s. Ifs_init fs Ifs_new = Some (- 1, s) \<and> store_holds fs s []"
  by (auto simp: Ifs_init_def get_file_size_def Ifs_new_def store_holds_def store_small_def table_holds_def
      in_store_def node_for_def file_content_def)

lemma Ifs_write_ok:
  assumes h: "store_holds fs s bs" and l: "load buffer 0 n = Some b" and n: "n = length b"
    and small: "store_small (bs @ [b])"
  shows "\<exists>fs' s'. Ifs_write fs buffer (int n) s = Some (int (Suc (length bs)), fs', s') \<and>
           store_holds fs' s' (bs @ [b]) \<and> fs_frame DATA_STORAGE fs fs'"
proof -
  let ?k = "Suc (length bs)"
  have len: "?k < 2 ^ 26" "length (concat bs) < 2 ^ 31" "n < 2 ^ 31"
    using small n by (simp_all add: store_small_def)
  have latest: "ifs_latest_data s = node_for bs (length bs)" and denied: "\<not> fs_denied fs DATA_STORAGE"
    and data: "file_content fs DATA_STORAGE = concat bs"
    and m: "map_of (ifs_meta_datas s) = (\<lambda>w. if in_store bs w then Some (node_for bs (unat w)) else None)"
    and dist: "distinct (map fst (ifs_meta_datas s))"
    using h by (simp_all add: store_holds_def table_holds_def)
  have off: "add_i64 (mn_start (node_for bs (length bs))) (mn_length (node_for bs (length bs))) =
      Some (int (length (concat bs)))"
    using len(2) by (simp add: add_i64_def node_for_end i64_ok_def)
  define node where "node = MetaNode (of_nat ?k) (int (length (concat bs))) (int n)"
  define fs' where "fs' = fs\<lparr>fs_files := (fs_files fs)(DATA_STORAGE \<mapsto> concat bs @ b)\<rparr>"
  define s' where "s' = s\<lparr>ifs_meta_datas := AList.update (of_nat ?k) node (ifs_meta_datas s),
      ifs_latest_data := node\<rparr>"
  have id: "mn_file_id (node_for bs (length bs)) + 1 = (of_nat ?k :: u64)" by (simp add: node_for_id)
  have ret: "to_i32 (sint (of_nat ?k :: u64)) = int ?k"
  proof -
    have "sint (of_nat ?k :: u64) = int ?k"
      using sint_i64 [of "int ?k"] len(1) by (simp add: i64_ok_def)
    then show ?thesis using len(1) by (simp add: to_i32_ok i32_ok_def)
  qed
  have n1: "to_i32 (int n) \<noteq> - 1" using len(3) by (simp add: to_i32_ok i32_ok_def)
  have run: "Ifs_write fs buffer (int n) s = Some (int ?k, fs', s')"
    using l denied data off n1 id ret
    by (simp add: Ifs_write_def latest Let_def node_def fs'_def s'_def del: of_nat_Suc)
  have uk: "unat (of_nat ?k :: u64) = ?k" using len(1) by (intro unat_of_nat_u64) simp
  have node: "node = node_for (bs @ [b]) ?k" by (simp add: node_def node_for_def n)
  have "map_of (ifs_meta_datas s') w =
      (if in_store (bs @ [b]) w then Some (node_for (bs @ [b]) (unat w)) else None)" for w
  proof (cases "w = of_nat ?k")
    case True
    have "in_store (bs @ [b]) w" unfolding in_store_def True uk by simp
    moreover have "node_for (bs @ [b]) (unat w) = node" unfolding True uk node ..
    ultimately show ?thesis by (simp add: s'_def True update_conv del: of_nat_Suc)
  next
    case False
    have "in_store (bs @ [b]) w \<longleftrightarrow> in_store bs w"
    proof -
      have "(of_nat (unat w) :: u64) = w" by simp
      then have "unat w \<noteq> ?k" using False by metis
      then show ?thesis by (auto simp: in_store_def)
    qed
    then show ?thesis
      using False by (simp add: s'_def update_conv m in_store_def node_for_append del: of_nat_Suc)
  qed
  then have "table_holds s' (bs @ [b])"
    using dist node by (auto simp: table_holds_def s'_def distinct_update fun_eq_iff)
  then have "store_holds fs' s' (bs @ [b])"
    using small denied by (simp add: store_holds_def fs'_def file_content_def)
  with run show ?thesis by (auto simp: fs'_def fs_frame_def)
qed

lemma Ifs_get_length_ok:
  assumes "store_holds fs s bs"
  shows "Ifs_get_length w s = (if in_store bs w then int (length (bs ! (unat w - 1))) else - 1)"
  using assms
  by (cases "unat w") (auto simp: Ifs_get_length_def store_holds_def table_holds_def in_store_def
      node_for_def MetaNode_def)

lemma Ifs_read_ok:
  assumes h: "store_holds fs s bs" and w: "in_store bs w" and b: "b = bs ! (unat w - 1)"
    and buffer: "length b \<le> length buffer" and z: "0 \<in> set (drop (length b) buffer)"
    and ex: "fs_files fs DATA_STORAGE \<noteq> None"
  shows "Ifs_read fs w buffer s = Some (int (length b), b @ drop (length b) buffer)"
proof -
  from w obtain j where j: "unat w = Suc j" "j < length bs" by (cases "unat w") (auto simp: in_store_def)
  have c: "fopen_read fs DATA_STORAGE = Some (concat bs)"
    using h ex by (auto simp: store_holds_def fopen_read_def file_content_def split: option.splits)
  have m: "map_of (ifs_meta_datas s) w =
      Some (MetaNode (of_nat (Suc j)) (int (length (concat (take j bs)))) (int (length (bs ! j))))"
    using h w j by (simp add: store_holds_def table_holds_def node_for_def del: of_nat_Suc)
  have bj: "b = bs ! j" using b j by simp
  have "length b < 2 ^ 31" using concat_nth_le [OF j(2)] h bj by (simp add: store_holds_def store_small_def)
  then have "to_i32 (int (length b)) = int (length b)" by (simp add: to_i32_ok i32_ok_def)
  moreover have "take (length b) (drop (length (concat (take j bs))) (concat bs)) = b"
    using concat_at [OF j(2)] bj by simp
  moreover have "store buffer 0 b = Some (b @ drop (length b) buffer)"
    using buffer by (simp add: store_def)
  ultimately show ?thesis
    using c m z bj by (simp add: Ifs_read_def MetaNode_def Let_def del: length_take length_drop)
qed

lemma Ifs_read_missing:
  assumes "store_holds fs s bs" and "\<not> in_store bs w"
  shows "Ifs_read fs w buffer s = Some (- 1, buffer)"
  using assms by (simp add: Ifs_read_def store_holds_def table_holds_def split: option.split)

section \<open>Saving the table and starting again\<close>

definition pick_id :: "int \<Rightarrow> meta_node \<Rightarrow> int" where
  "pick_id mx n = (if to_i32 mx < to_i32 (uint (mn_file_id n)) then sint (mn_file_id n) else mx)"

definition put_node :: "(u64 \<times> meta_node) list \<Rightarrow> meta_node \<Rightarrow> (u64 \<times> meta_node) list" where
  "put_node m n = AList.update (mn_file_id n) n m"

lemma init_loop_nodes:
  "\<forall>n \<in> set ns. node_fits n \<Longrightarrow>
   init_loop (length ns) (concat (map node_mem ns) @ junk) mem (m, mx) =
     Some (foldl put_node m ns, foldl pick_id mx ns)"
proof (induction ns arbitrary: mem m mx)
  case Nil
  then show ?case by simp
next
  case (Cons n ns)
  have "node_of_mem (node_mem n) = n" using Cons.prems by (intro node_of_node_mem) simp
  then have "init_loop (length (n # ns)) (concat (map node_mem (n # ns)) @ junk) mem (m, mx) =
      init_loop (length ns) (concat (map node_mem ns) @ junk) (Some (node_mem n)) (put_node m n, pick_id mx n)"
    by (simp add: Let_def put_node_def pick_id_def)
  then show ?case using Cons by simp
qed

lemma foldl_put_node:
  "distinct (map mn_file_id ns) \<Longrightarrow>
   map_of (foldl put_node m ns) w =
     (case map_of (map (\<lambda>n. (mn_file_id n, n)) ns) w of Some n \<Rightarrow> Some n | None \<Rightarrow> map_of m w)"
proof (induction ns arbitrary: m)
  case (Cons n ns)
  have "map_of (map (\<lambda>n. (mn_file_id n, n)) ns) (mn_file_id n) = None"
    using Cons.prems by (auto simp: map_of_eq_None_iff image_image)
  then show ?case
    using Cons.IH [of "put_node m n"] Cons.prems
    by (auto simp: put_node_def update_conv split: option.split)
qed simp

lemma distinct_put_node: "distinct (map fst m) \<Longrightarrow> distinct (map fst (foldl put_node m ns))"
  by (induction ns arbitrary: m) (simp_all add: put_node_def distinct_update)

lemma foldl_pick_id:
  assumes "\<forall>n \<in> set ns. 0 < uint (mn_file_id n) \<and> uint (mn_file_id n) \<le> N" and "N < 2 ^ 31"
    and "- 1 \<le> mx" and "mx \<le> N" and "mx = N \<or> (\<exists>n \<in> set ns. uint (mn_file_id n) = N)"
  shows "foldl pick_id mx ns = N"
  using assms
proof (induction ns arbitrary: mx)
  case Nil
  then show ?case by simp
next
  case (Cons n ns)
  let ?u = "uint (mn_file_id n)"
  have u: "0 < ?u" "?u \<le> N" using Cons.prems(1) by simp_all
  have "sint (mn_file_id n) = ?u"
    using sint_i64 [of ?u] u Cons.prems(2) by (simp add: i64_ok_def)
  then have "pick_id mx n = max mx ?u"
    using u Cons.prems(2-4) by (simp add: pick_id_def to_i32_ok i32_ok_def)
  moreover have "max mx ?u = N \<or> (\<exists>n \<in> set ns. uint (mn_file_id n) = N)"
    using Cons.prems(4,5) u by (auto simp: max_def)
  ultimately show ?case using Cons.IH [of "max mx ?u"] Cons.prems u by simp
qed

text \<open>What \<open>map_of\<close> says of the entries.\<close>

lemma table_entry:
  assumes "table_holds s bs" and "(w, n) \<in> set (ifs_meta_datas s)"
  shows "in_store bs w \<and> n = node_for bs (unat w) \<and> mn_file_id n = w"
proof -
  have "map_of (ifs_meta_datas s) w = Some n"
    using assms map_of_is_SomeI by (fastforce simp: table_holds_def)
  then have "in_store bs w \<and> n = node_for bs (unat w)"
    using assms(1) by (simp add: table_holds_def split: if_splits)
  then show ?thesis by (simp add: node_for_id)
qed

lemma node_for_fits: "store_small bs \<Longrightarrow> k \<le> length bs \<Longrightarrow> node_fits (node_for bs k)"
  using concat_take_le [of "k - 1" bs] concat_nth_le [of "k - 1" bs]
  by (cases k) (auto simp: node_for_def node_fits_def MetaNode_def i64_ok_def store_small_def)

lemma table_length:
  assumes "table_holds s bs"
  shows "length (ifs_meta_datas s) \<le> length bs"
proof -
  have "fst ` set (ifs_meta_datas s) \<subseteq> of_nat ` {1..length bs}"
  proof
    fix w
    assume "w \<in> fst ` set (ifs_meta_datas s)"
    with table_entry [OF assms] have "in_store bs w" by auto
    then have "unat w \<in> {1..length bs}" by (simp add: in_store_def)
    moreover have "(of_nat (unat w) :: u64) = w" by simp
    ultimately show "w \<in> of_nat ` {1..length bs}" by (metis image_eqI)
  qed
  then have "card (fst ` set (ifs_meta_datas s)) \<le> card {1..length bs}"
    by (rule surj_card_le [rotated]) simp
  then show ?thesis
    using assms distinct_card [of "map fst (ifs_meta_datas s)"] by (simp add: table_holds_def)
qed

lemma save_then_init:
  assumes h: "store_holds fs s bs" and order: "mset (order (ifs_meta_datas s)) = mset (ifs_meta_datas s)"
    and meta: "\<not> fs_denied fs META_STORAGE" and old: "length (file_content fs META_STORAGE) < 2 ^ 31"
  shows "\<exists>fs' r s'. Ifs_save_metadata order fs s = (0, fs') \<and> fs_frame META_STORAGE fs fs' \<and>
           Ifs_init fs' Ifs_new = Some (r, s') \<and> store_holds fs' s' bs"
proof -
  let ?xs = "order (ifs_meta_datas s)" and ?n = "length (ifs_meta_datas s)"
  define ns where "ns = map snd ?xs"
  have tab: "table_holds s bs" and small: "store_small bs" using h by (simp_all add: store_holds_def)
  have set: "set ?xs = set (ifs_meta_datas s)" using order by (metis set_mset_mset)
  have entry: "in_store bs w \<and> n = node_for bs (unat w) \<and> mn_file_id n = w" if "(w, n) \<in> set ?xs" for w n
    using table_entry [OF tab] that set by blast
  have keys: "map (\<lambda>n. (mn_file_id n, n)) ns = ?xs"
    using entry by (auto simp: ns_def comp_def split_beta intro!: map_idI)
  have dist: "distinct (map fst ?xs)"
    using order tab by (metis mset_map table_holds_def mset_eq_imp_distinct_iff)
  have ids: "map mn_file_id ns = map fst ?xs" using arg_cong [OF keys, of "map fst"] by (simp add: comp_def)
  have len: "length ns = ?n" using order by (metis ns_def length_map size_mset)
  have n26: "?n < 2 ^ 26" using table_length [OF tab] small by (simp add: store_small_def)
  have fits: "\<forall>n \<in> set ns. node_fits n"
    using entry node_for_fits [OF small] by (fastforce simp: ns_def in_store_def)
  define new where "new = le32 (of_nat ?n) @ concat (map node_mem ns)"
  define junk where "junk = drop (length new) (file_content fs META_STORAGE)"
  define fs' where "fs' = fs\<lparr>fs_files := (fs_files fs)(META_STORAGE \<mapsto> new @ junk)\<rparr>"
  have save: "Ifs_save_metadata order fs s = (0, fs')"
    using meta by (simp add: Ifs_save_metadata_def Let_def fs'_def new_def junk_def ns_def comp_def case_prod_unfold)
  have fr: "fs_frame META_STORAGE fs fs'" by (simp add: fs'_def fs_frame_def)
  have lnew: "length new = 4 + 24 * ?n"
    using len by (simp add: new_def length_concat comp_def sum_list_triv)
  have total: "length (new @ junk) < 2 ^ 31" using old lnew n26 by (simp add: junk_def)
  have size: "get_file_size fs' META_STORAGE = int (length (new @ junk))"
    using total by (intro get_file_size_small) (simp_all add: fs'_def)
  have data: "\<not> fs_denied fs' DATA_STORAGE" "file_content fs' DATA_STORAGE = concat bs"
    using h by (simp_all add: store_holds_def fs'_def file_content_def DATA_STORAGE_def META_STORAGE_def)
  have m: "map_of (foldl put_node [] ns) = map_of (ifs_meta_datas s)"
  proof
    fix w
    have "map_of (foldl put_node [] ns) w = map_of ?xs w"
      using foldl_put_node [of ns "[]" w] dist ids keys by (simp split: option.split)
    also have "\<dots> = map_of (ifs_meta_datas s) w"
      using map_of_inject_set [OF dist, of "ifs_meta_datas s"] tab set by (simp add: table_holds_def)
    finally show "map_of (foldl put_node [] ns) w = map_of (ifs_meta_datas s) w" .
  qed
  have latest: "(if foldl pick_id (- 1) ns = - 1 then Some (MetaNode 0 0 0)
      else map_of (foldl put_node [] ns) (word_of_int (foldl pick_id (- 1) ns))) = Some (node_for bs (length bs))"
  proof (cases "length bs")
    case 0
    with table_length [OF tab] len have "ns = []" by simp
    then show ?thesis using 0 by (simp add: node_for_def)
  next
    case (Suc j)
    let ?N = "length bs" and ?w = "of_nat (length bs) :: u64"
    have N: "?N < 2 ^ 26" using small by (simp add: store_small_def)
    then have w: "unat ?w = ?N" by (intro unat_of_nat_u64) simp
    then have mw: "map_of (ifs_meta_datas s) ?w = Some (node_for bs ?N)"
      using tab Suc by (simp add: table_holds_def in_store_def)
    then have "(?w, node_for bs ?N) \<in> set ?xs" using set map_of_SomeD by metis
    then have "node_for bs ?N \<in> set ns" unfolding ns_def set_map by (metis image_eqI snd_conv)
    moreover have "uint (mn_file_id (node_for bs ?N)) = int ?N"
      using w by (simp only: node_for_id uint_nat)
    ultimately have "\<exists>n \<in> set ns. uint (mn_file_id n) = int ?N" by blast
    moreover have "\<forall>n \<in> set ns. 0 < uint (mn_file_id n) \<and> uint (mn_file_id n) \<le> int ?N"
    proof
      fix n
      assume "n \<in> set ns"
      then obtain v where "(v, n) \<in> set ?xs" by (auto simp: ns_def)
      with entry have "in_store bs v" and v: "mn_file_id n = v" by blast+
      then have "1 \<le> unat v" "unat v \<le> ?N" by (simp_all add: in_store_def)
      then show "0 < uint (mn_file_id n) \<and> uint (mn_file_id n) \<le> int ?N"
        unfolding v uint_nat by linarith
    qed
    ultimately have "foldl pick_id (- 1) ns = int ?N" using N by (intro foldl_pick_id) auto
    then show ?thesis using m mw by simp
  qed
  have body: "load (new @ junk) 0 4 = Some (le32 (of_nat ?n))" "drop 4 (new @ junk) = concat (map node_mem ns) @ junk"
    by (simp_all add: new_def load_def)
  have cnt: "nat (sint (rdle32 (le32 (of_nat ?n)))) = length ns"
    using n26 len sint_u32_of [of "int ?n"] by (simp add: i32_ok_def u32_of_def)
  have "\<exists>r s'. Ifs_init fs' Ifs_new = Some (r, s') \<and> store_holds fs' s' bs"
  proof (cases "length (new @ junk) \<le> 4")
    case True
    with lnew len have e: "ns = []" "?n = 0" by simp_all
    have "length bs = 0"
    proof (rule ccontr)
      assume "length bs \<noteq> 0"
      then have "in_store bs 1" by (simp add: in_store_def Suc_leI)
      then have "map_of (ifs_meta_datas s) 1 \<noteq> None" using tab by (simp add: table_holds_def)
      with e(2) show False by simp
    qed
    then have "table_holds (Ifs_new\<lparr>ifs_latest_data := MetaNode 0 0 0\<rparr>) bs"
      by (auto simp: table_holds_def Ifs_new_def in_store_def node_for_def fun_eq_iff)
    with True size data small show ?thesis by (simp add: Ifs_init_def Let_def store_holds_def)
  next
    case False
    have "table_holds (Ifs_new\<lparr>ifs_meta_datas := foldl put_node [] ns, ifs_latest_data := node_for bs (length bs)\<rparr>) bs"
      using tab m distinct_put_node [of "[]" ns] by (simp add: table_holds_def)
    moreover have "fopen_read fs' META_STORAGE = Some (new @ junk)"
      using meta by (simp add: fopen_read_def fs'_def)
    moreover have "init_loop (length ns) (concat (map node_mem ns) @ junk) None (ifs_meta_datas Ifs_new, - 1) =
        Some (foldl put_node [] ns, foldl pick_id (- 1) ns)"
      using init_loop_nodes [OF fits] by (simp add: Ifs_new_def)
    ultimately show ?thesis
      using False size body cnt latest data small
      by (simp add: Ifs_init_def Let_def store_holds_def)
  qed
  with save fr show ?thesis by blast
qed

end
