(* ===== verification/StoreApp.thy ===== *)
theory StoreApp
  imports StoreFacts RsyncRemote
begin

text \<open>
  \<open>single_fs/app\<close>: the server that keeps files in an \<open>Ifs\<close> (\<open>server_handler.cpp\<close>) and the client that
  puts and gets them (\<open>client.cpp\<close>).  A packet travels by \<open>deliver\<close>; \<open>fresh n\<close> is the content of a new
  allocation.  \<open>dbg\<close> says whether messages of level \<open>DEBUG\<close> are written: a message with \<open>%s\<close> reads its
  argument up to a zero, so there must be one.
\<close>

definition APP_GET :: int where "APP_GET = 1"
definition APP_PUT :: int where "APP_PUT = 2"
definition APP_SUCCESS :: int where "APP_SUCCESS = 1"
definition APP_FILE_DID_NOT_EXIST :: int where "APP_FILE_DID_NOT_EXIST = - 1"
definition APP_OTHER_ERROR :: int where "APP_OTHER_ERROR = - 3"

definition log_arg :: "bool \<Rightarrow> byte list \<Rightarrow> unit option" where
  "log_arg on s = require (on \<longrightarrow> 0 \<in> set s)"

text \<open>The first \<open>int\<close> of a head, and a new head of two of them; the second is never set.\<close>

definition head_code :: "'e packet \<Rightarrow> int option" where
  "head_code packet = do { head \<leftarrow> pt_head packet; w \<leftarrow> load head 0 4; Some (sint (ntohl (rdle32 w))) }"

definition code_head :: "(nat \<Rightarrow> byte list) \<Rightarrow> int \<Rightarrow> byte list option" where
  "code_head fresh code = store (fresh 8) 0 (le32 (htonl (u32_of code)))"

section \<open>The server\<close>

definition Ifs_answer_get ::
  "bool \<Rightarrow> (nat \<Rightarrow> byte list) \<Rightarrow> fsys \<Rightarrow> ifs \<Rightarrow> 'e packet \<Rightarrow> 'e packet option" where
  "Ifs_answer_get dbg fresh fs s packet = do {
     dat \<leftarrow> pt_data packet;
     data_length \<leftarrow> pt_data_length packet;
     dat \<leftarrow> store dat (unat data_length) [0];
     file_id \<leftarrow> atoi (bytes_str dat);
     let file_id = (if file_id \<le> 0 then 10 else file_id);
     let file_length = Ifs_get_length (word_of_int file_id) s;
     let response = (if file_length < 0 then APP_FILE_DID_NOT_EXIST else APP_SUCCESS);
     let file_length = (if file_length < 0 then 4 else file_length);
     buf \<leftarrow> store (fresh (nat (file_length + 2))) (nat file_length) [0];
     (ret, buf) \<leftarrow> Ifs_read fs (word_of_int file_id) buf s;
     let response = (if ret < 0 \<and> response \<noteq> APP_SUCCESS then APP_OTHER_ERROR else response);
     log_arg dbg buf;
     head \<leftarrow> code_head fresh response;
     Some (Packet_set_packet buf (u32_of file_length) (Packet_set_head head 8 packet))
   }"

definition Ifs_answer_put ::
  "((u64 \<times> meta_node) list \<Rightarrow> (u64 \<times> meta_node) list) \<Rightarrow> bool \<Rightarrow> (nat \<Rightarrow> byte list) \<Rightarrow> fsys \<Rightarrow> ifs \<Rightarrow>
   'e packet \<Rightarrow> (fsys \<times> ifs \<times> 'e packet) option" where
  "Ifs_answer_put order dbg fresh fs s packet = do {
     dat \<leftarrow> pt_data packet;
     data_length \<leftarrow> pt_data_length packet;
     (file_id, fs, s) \<leftarrow> Ifs_write fs dat (uint data_length) s;
     let response = (if file_id < 0 then APP_OTHER_ERROR else APP_SUCCESS);
     let (ret, fs) = Ifs_save_metadata order fs s;
     let response = (if ret < 0 then APP_OTHER_ERROR else response);
     head \<leftarrow> code_head fresh response;
     buf \<leftarrow> store (fresh 5) 0 (le32 (htonl (u32_of file_id)));
     log_arg dbg dat;
     Some (fs, s, Packet_set_packet buf 4 (Packet_set_head head 8 packet))
   }"

text \<open>A request that is neither gets no answer.\<close>

definition EchoFromIfs ::
  "((u64 \<times> meta_node) list \<Rightarrow> (u64 \<times> meta_node) list) \<Rightarrow> bool \<Rightarrow> (nat \<Rightarrow> byte list) \<Rightarrow> fsys \<Rightarrow> ifs \<Rightarrow>
   'e packet \<Rightarrow> (fsys \<times> ifs \<times> 'e packet option) option" where
  "EchoFromIfs order dbg fresh fs s packet = do {
     reqest_type \<leftarrow> head_code packet;
     if reqest_type = APP_GET
     then map_option (\<lambda>p. (fs, s, Some p)) (Ifs_answer_get dbg fresh fs s packet)
     else if reqest_type = APP_PUT
     then map_option (\<lambda>(fs, s, p). (fs, s, Some p)) (Ifs_answer_put order dbg fresh fs s packet)
     else Some (fs, s, None)
   }"

text \<open>\<open>EchoFromFs\<close> answers with a file of the directory \<open>server_data\<close>; nothing calls it.\<close>

definition EchoFromFs :: "bool \<Rightarrow> fsys \<Rightarrow> 'e packet \<Rightarrow> (int \<times> 'e packet option) option" where
  "EchoFromFs dbg fs packet = do {
     dat \<leftarrow> pt_data packet;
     len \<leftarrow> pt_data_length packet;
     dat \<leftarrow> store dat (unat len) [0];
     let path = ''server_data/'' @ bytes_str dat;
     if \<not> is_exists_file fs path then Some (- 1, None)
     else if 10 * 1024 * 1024 < get_file_size fs path then Some (- 1, None)
     else do {
       let size = get_file_size fs path;
       (_, dat) \<leftarrow> fu_read_reserve fs path 0;
       Some (0, Some (packet\<lparr>pt_data := dat, pt_data_length := Some (u32_of size)\<rparr>))
     }
   }"

definition Handler_OnReceived :: "bool \<Rightarrow> 'e packet \<Rightarrow> (int \<times> 'e packet) option" where
  "Handler_OnReceived dbg packet = do {
     dat \<leftarrow> pt_data packet;
     log_arg dbg dat;
     Some (0, packet)
   }"

definition Handler_OnSent :: "bool \<Rightarrow> 'e packet \<Rightarrow> int option" where
  "Handler_OnSent dbg packet = do { dat \<leftarrow> pt_data packet; log_arg dbg dat; Some 0 }"

definition Handler_OnAccepted :: "int \<Rightarrow> int" where
  "Handler_OnAccepted fd = 0"

definition Handler_OnTimeOut :: int where
  "Handler_OnTimeOut = 0"

section \<open>The client\<close>

definition app_call ::
  "((u64 \<times> meta_node) list \<Rightarrow> (u64 \<times> meta_node) list) \<Rightarrow> bool \<Rightarrow> (nat \<Rightarrow> byte list) \<Rightarrow> fsys \<Rightarrow> ifs \<Rightarrow>
   unit packet \<Rightarrow> (fsys \<times> ifs \<times> unit packet) option" where
  "app_call order dbg fresh remote s packet = do {
     packet \<leftarrow> deliver packet;
     (remote, s, answer) \<leftarrow> EchoFromIfs order dbg fresh remote s packet;
     answer \<leftarrow> answer;
     answer \<leftarrow> deliver answer;
     Some (remote, s, answer)
   }"

text \<open>
  The request type is written to the start of \<open>data\<close> and then overwritten by the file id, which is
  used as a format string (a \<open>%\<close> in it is a fault here); 4 bytes more than the id are sent.
\<close>

definition App_Get_request :: "(nat \<Rightarrow> byte list) \<Rightarrow> string \<Rightarrow> unit packet option" where
  "App_Get_request fresh file_id = do {
     head \<leftarrow> code_head fresh APP_GET;
     dat \<leftarrow> store (fresh 100) 0 (le32 (htonl (u32_of APP_GET)));
     require (CHR ''%'' \<notin> set file_id);
     dat \<leftarrow> store dat 0 (take 99 (str_bytes file_id) @ [0]);
     Some (new_packet head 8 dat (int (length file_id) + 4))
   }"

definition App_Get ::
  "((u64 \<times> meta_node) list \<Rightarrow> (u64 \<times> meta_node) list) \<Rightarrow> bool \<Rightarrow> (nat \<Rightarrow> byte list) \<Rightarrow> nat list \<Rightarrow> fsys \<Rightarrow>
   ifs \<Rightarrow> fsys \<Rightarrow> string \<Rightarrow> (int \<times> fsys) option" where
  "App_Get order dbg fresh quota remote s fs file_id = do {
     packet \<leftarrow> App_Get_request fresh file_id;
     (_, _, packet1) \<leftarrow> app_call order dbg fresh remote s packet;
     response \<leftarrow> head_code packet1;
     if response < 0 then Some (- 1, fs)
     else do {
       data1 \<leftarrow> pt_data packet1;
       length1 \<leftarrow> pt_data_length packet1;
       data1 \<leftarrow> store data1 (unat length1) [0];
       let path = take 99 (''client_data/'' @ file_id);
       (_, fs) \<leftarrow> fu_write quota fs data1 (sint length1) path True;
       Some (0, fs)
     }
   }"

text \<open>
  The file id is only logged; it is the second component here.  After a refusal \<open>delete []\<close> is used
  on a single object, a fault.
\<close>

definition App_Put ::
  "((u64 \<times> meta_node) list \<Rightarrow> (u64 \<times> meta_node) list) \<Rightarrow> bool \<Rightarrow> (nat \<Rightarrow> byte list) \<Rightarrow> fsys \<Rightarrow> ifs \<Rightarrow>
   fsys \<Rightarrow> string \<Rightarrow> (int \<times> int option \<times> fsys \<times> ifs) option" where
  "App_Put order dbg fresh remote s fs path =
     (if \<not> is_exists_file fs path then Some (- 1, None, remote, s)
      else if 10 * 1024 * 1024 < get_file_size fs path then Some (- 1, None, remote, s)
      else do {
        let size = get_file_size fs path;
        (_, dat) \<leftarrow> fu_read_reserve fs path 0;
        dat \<leftarrow> dat;
        log_arg dbg dat;
        head \<leftarrow> code_head fresh APP_PUT;
        (remote, s, packet1) \<leftarrow> app_call order dbg fresh remote s (new_packet head 8 dat size);
        response \<leftarrow> head_code packet1;
        require (\<not> response < 0);
        data1 \<leftarrow> pt_data packet1;
        w \<leftarrow> load data1 0 4;
        Some (0, Some (sint (ntohl (rdle32 w))), remote, s)
      })"

definition App_Delete :: "string \<Rightarrow> int" where
  "App_Delete file_id = 0"

end
