(* ===== verification/StoreProperties.thy ===== *)
theory StoreProperties
  imports StoreApp RemoteFacts
begin

text \<open>
  What the numbered-file store and its client and server promise.
\<close>

section \<open>Requests and answers\<close>

lemma code_head_ok:
  "fresh_ok fresh \<Longrightarrow> \<exists>r. length r = 4 \<and> code_head fresh c = Some (be32 (u32_of c) @ r)"
  by (simp add: code_head_def store_def fresh_ok_def)

lemma head_code_ok: "pt_head p = Some (be32 (u32_of c) @ r) \<Longrightarrow> i32_ok c \<Longrightarrow> head_code p = Some c"
proof -
  assume "pt_head p = Some (be32 (u32_of c) @ r)" and c: "i32_ok c"
  moreover have "rdle32 (be32 (u32_of c)) = htonl (u32_of c)" by (simp add: htonl_def)
  ultimately show ?thesis by (simp add: head_code_def load_def)
qed

text \<open>A packet with a code in its head, on the other side.\<close>

lemma deliver_coded:
  assumes "pt_head p = Some (be32 (u32_of c) @ r)" and "length r = 4" and "pt_head_length p = Some 8"
    and "pt_data p = Some (d @ dr)" and "pt_data_length p = Some (u32_of (int (length d)))"
    and "length d < 2 ^ 31" and "i32_ok c"
  shows "\<exists>q. deliver p = Some q \<and> head_code q = Some c \<and> pt_data q = Some (d @ [0]) \<and>
           pt_data_length q = Some (u32_of (int (length d)))"
proof -
  have "pt_head_length p = Some (u32_of (int (length (be32 (u32_of c) @ r))))"
    using assms(2,3) by (simp add: u32_of_def)
  with deliver_ok [of p "be32 (u32_of c) @ r" "[]" d dr] assms obtain q where
    "deliver p = Some q" "pt_head q = Some (be32 (u32_of c) @ r @ [0])" "pt_data q = Some (d @ [0])"
    "pt_data_length q = Some (u32_of (int (length d)))" by auto
  with head_code_ok assms(7) show ?thesis by blast
qed

lemma Get_request_ok:
  assumes "fresh_ok fresh" and "c_path f" and "CHR ''%'' \<notin> set f" and "length f \<le> 20"
  shows "\<exists>p q x. App_Get_request fresh f = Some p \<and> deliver p = Some q \<and> head_code q = Some APP_GET \<and>
           pt_data q = Some (str_bytes f @ 0 # x @ [0]) \<and> length x = 3 \<and>
           pt_data_length q = Some (u32_of (int (length f) + 4))"
proof -
  obtain r where r: "length r = 4" "code_head fresh APP_GET = Some (be32 (u32_of APP_GET) @ r)"
    using code_head_ok [OF assms(1)] by blast
  define m where "m = be32 (u32_of APP_GET) @ drop 4 (fresh 100)"
  have m: "store (fresh 100) 0 (le32 (htonl (u32_of APP_GET))) = Some m" "length m = 100"
    using assms(1) by (simp_all add: store_def m_def fresh_ok_def)
  define t where "t = drop (length f + 1) m"
  have t: "store m 0 (take 99 (str_bytes f) @ [0]) = Some (str_bytes f @ 0 # t)" "length t = 99 - length f"
    using m(2) assms(4) by (simp_all add: store_def t_def)
  define p :: "unit packet" where
    "p = new_packet (be32 (u32_of APP_GET) @ r) 8 (str_bytes f @ 0 # t) (int (length f) + 4)"
  have p: "App_Get_request fresh f = Some p"
    using r(2) m(1) t(1) assms(3) by (simp add: App_Get_request_def p_def)
  define d where "d = str_bytes f @ 0 # take 3 t"
  have d: "str_bytes f @ 0 # t = d @ drop 3 t" "length d = length f + 4"
    using t(2) assms(4) by (simp_all add: d_def)
  obtain q where "deliver p = Some q" "head_code q = Some APP_GET" "pt_data q = Some (d @ [0])"
    "pt_data_length q = Some (u32_of (int (length d)))"
    using deliver_coded [of p APP_GET r d "drop 3 t"] r(1) d assms(4)
    by (auto simp: p_def new_packet_def Packet_set_head_def Packet_set_packet_def u32_of_def APP_GET_def i32_ok_def)
  with p d t(2) assms(4) show ?thesis by (auto simp: d_def intro!: exI [of _ "take 3 t"])
qed

section \<open>The server\<close>

lemma answer_get_ok:
  assumes h: "store_holds fs s bs" and w: "in_store bs (word_of_int i)" "0 < i"
    and b: "b = bs ! (unat (word_of_int i :: u64) - 1)" and ex: "fs_files fs DATA_STORAGE \<noteq> None"
    and fresh: "fresh_ok fresh" and f: "atoi f = Some i" "c_path f"
    and p: "pt_data p = Some (str_bytes f @ 0 # x @ [0])" "length x = 3"
      "pt_data_length p = Some (u32_of (int (length f) + 4))" and len: "length f \<le> 20"
  shows "\<exists>q r y. Ifs_answer_get dbg fresh fs s p = Some q \<and>
           pt_head q = Some (be32 (u32_of APP_SUCCESS) @ r) \<and> length r = 4 \<and> pt_head_length q = Some 8 \<and>
           pt_data q = Some (b @ y) \<and> pt_data_length q = Some (u32_of (int (length b)))"
proof -
  obtain r where r: "length r = 4" "code_head fresh APP_SUCCESS = Some (be32 (u32_of APP_SUCCESS) @ r)"
    using code_head_ok [OF fresh] by blast
  have "unat (u32_of (int (length f) + 4)) = length f + 4"
    using unat_u32_of [of "int (length f) + 4"] len by simp
  then have st: "store (str_bytes f @ 0 # x @ [0]) (unat (u32_of (int (length f) + 4))) [0] =
      Some (str_bytes f @ 0 # x @ [0])"
    using p(2) by (simp add: store_def)
  have gl: "Ifs_get_length (word_of_int i) s = int (length b)"
    using Ifs_get_length_ok [OF h] w(1) b by simp
  define buf where "buf = take (length b) (fresh (length b + 2)) @ 0 # drop (Suc (length b)) (fresh (length b + 2))"
  have buf: "store (fresh (nat (int (length b) + 2))) (nat (int (length b))) [0] = Some buf"
    "length b \<le> length buf" "drop (length b) buf = 0 # drop (Suc (length b)) (fresh (length b + 2))"
    using fresh by (simp_all add: store_def buf_def fresh_ok_def nat_add_distrib)
  have rd: "Ifs_read fs (word_of_int i) buf s = Some (int (length b), b @ drop (length b) buf)"
    using Ifs_read_ok [OF h w(1) b buf(2) _ ex] buf(3) by simp
  define q where "q = Packet_set_packet (b @ drop (length b) buf) (u32_of (int (length b)))
      (Packet_set_head (be32 (u32_of APP_SUCCESS) @ r) 8 p)"
  have "Ifs_answer_get dbg fresh fs s p = Some q"
    using p st gl buf rd r(2) w(2) f bytes_str_zero [OF f(2), of "x @ [0]"]
    by (simp add: Ifs_answer_get_def Let_def log_arg_def q_def)
  then show ?thesis
    using r(1) by (auto simp: q_def Packet_set_packet_def Packet_set_head_def)
qed

lemma answer_get_missing:
  assumes h: "store_holds fs s bs" and w: "\<not> in_store bs (word_of_int i)" "0 < i"
    and fresh: "fresh_ok fresh" and f: "atoi f = Some i" "c_path f"
    and p: "pt_data p = Some (str_bytes f @ 0 # x @ [0])" "length x = 3"
      "pt_data_length p = Some (u32_of (int (length f) + 4))" and len: "length f \<le> 20"
  shows "\<exists>q r d y. Ifs_answer_get dbg fresh fs s p = Some q \<and>
           pt_head q = Some (be32 (u32_of APP_OTHER_ERROR) @ r) \<and> length r = 4 \<and> pt_head_length q = Some 8 \<and>
           pt_data q = Some (d @ y) \<and> length d = 4 \<and> pt_data_length q = Some (u32_of (int (length d)))"
proof -
  obtain r where r: "length r = 4" "code_head fresh APP_OTHER_ERROR = Some (be32 (u32_of APP_OTHER_ERROR) @ r)"
    using code_head_ok [OF fresh] by blast
  have "unat (u32_of (int (length f) + 4)) = length f + 4"
    using unat_u32_of [of "int (length f) + 4"] len by simp
  then have st: "store (str_bytes f @ 0 # x @ [0]) (unat (u32_of (int (length f) + 4))) [0] =
      Some (str_bytes f @ 0 # x @ [0])"
    using p(2) by (simp add: store_def)
  have gl: "Ifs_get_length (word_of_int i) s = - 1" using Ifs_get_length_ok [OF h] w(1) by simp
  define d where "d = take 4 (fresh 6)"
  have buf: "store (fresh 6) 4 [0] = Some (d @ 0 # drop 5 (fresh 6))" "length d = 4"
    using fresh by (simp_all add: store_def d_def fresh_ok_def)
  have rd: "Ifs_read fs (word_of_int i) (d @ 0 # drop 5 (fresh 6)) s = Some (- 1, d @ 0 # drop 5 (fresh 6))"
    using Ifs_read_missing [OF h w(1)] .
  define q where "q = Packet_set_packet (d @ 0 # drop 5 (fresh 6)) (u32_of 4)
      (Packet_set_head (be32 (u32_of APP_OTHER_ERROR) @ r) 8 p)"
  have "Ifs_answer_get dbg fresh fs s p = Some q"
    using p st gl buf rd r(2) w(2) f bytes_str_zero [OF f(2), of "x @ [0]"]
    by (simp add: Ifs_answer_get_def Let_def log_arg_def q_def APP_FILE_DID_NOT_EXIST_def APP_SUCCESS_def)
  then show ?thesis
    using r(1) buf(2) by (auto simp: q_def Packet_set_packet_def Packet_set_head_def)
qed

lemma answer_put_ok:
  assumes h: "store_holds fs s bs" and small: "store_small (bs @ [b])"
    and order: "\<And>m. mset (order m) = mset m" and meta: "\<not> fs_denied fs META_STORAGE"
    and old: "length (file_content fs META_STORAGE) < 2 ^ 31" and fresh: "fresh_ok fresh"
    and p: "pt_data p = Some (b @ [0])" "pt_data_length p = Some (u32_of (int (length b)))"
  shows "\<exists>fs' s' q r y. Ifs_answer_put order dbg fresh fs s p = Some (fs', s', q) \<and>
           store_holds fs' s' (bs @ [b]) \<and> fs_files fs' DATA_STORAGE \<noteq> None \<and>
           pt_head q = Some (be32 (u32_of APP_SUCCESS) @ r) \<and> length r = 4 \<and> pt_head_length q = Some 8 \<and>
           pt_data q = Some (be32 (of_nat (Suc (length bs))) @ y) \<and> pt_data_length q = Some 4"
proof -
  have bl: "length b < 2 ^ 31" using small by (simp add: store_small_def)
  have l: "uint (u32_of (int (length b))) = int (length b)" "load (b @ [0]) 0 (length b) = Some b"
    using bl by (simp_all add: load_def u32_of_def unsigned_of_nat take_bit_nat_eq_self)
  from Ifs_write_ok [OF h l(2) refl small] obtain fs1 s1 where
    1: "Ifs_write fs (b @ [0]) (int (length b)) s = Some (int (Suc (length bs)), fs1, s1)"
      "store_holds fs1 s1 (bs @ [b])" "fs_frame DATA_STORAGE fs fs1" by blast
  have m1: "\<not> fs_denied fs1 META_STORAGE" "length (file_content fs1 META_STORAGE) < 2 ^ 31"
    using 1(3) meta old by (simp_all add: fs_frame_def file_content_def DATA_STORAGE_def META_STORAGE_def)
  from save_then_init [OF 1(2), of order, OF order m1] obtain fs2 where
    2: "Ifs_save_metadata order fs1 s1 = (0, fs2)" "fs_frame META_STORAGE fs1 fs2" by blast
  have "META_STORAGE \<noteq> DATA_STORAGE" by (simp add: DATA_STORAGE_def META_STORAGE_def)
  then have same: "fs_files fs2 DATA_STORAGE = fs_files fs1 DATA_STORAGE" "fs_denied fs2 = fs_denied fs1"
    using 2(2) by (auto simp: fs_frame_def)
  then have h2: "store_holds fs2 s1 (bs @ [b])" using 1(2) by (simp add: store_holds_def file_content_def)
  have "fs_files fs1 DATA_STORAGE \<noteq> None"
    using 1(1) by (auto simp: Ifs_write_def Let_def bind_eq_Some_conv split: if_splits)
  then have ex: "fs_files fs2 DATA_STORAGE \<noteq> None" using same by simp
  obtain r where r: "length r = 4" "code_head fresh APP_SUCCESS = Some (be32 (u32_of APP_SUCCESS) @ r)"
    using code_head_ok [OF fresh] by blast
  define y where "y = drop 4 (fresh 5)"
  have buf: "store (fresh 5) 0 (le32 (htonl (u32_of (int (Suc (length bs)))))) =
      Some (be32 (of_nat (Suc (length bs))) @ y)"
    using fresh by (simp add: store_def y_def fresh_ok_def u32_of_def)
  define q where "q = Packet_set_packet (be32 (of_nat (Suc (length bs))) @ y) 4
      (Packet_set_head (be32 (u32_of APP_SUCCESS) @ r) 8 p)"
  have "Ifs_answer_put order dbg fresh fs s p = Some (fs2, s1, q)"
    using p l(1) 1(1) 2(1) r(2) buf
    by (simp add: Ifs_answer_put_def Let_def log_arg_def q_def del: of_nat_Suc)
  then show ?thesis
    using h2 ex r(1) by (auto simp: q_def Packet_set_packet_def Packet_set_head_def)
qed

section \<open>The store\<close>

text \<open>
  C36. The store implements a list of files that only grows: in a fresh directory it is empty, \<open>write\<close>
  adds a file at the end and returns its number, \<open>get_length\<close> and \<open>read\<close> give the length and the
  bytes of a file by its number, and -1 for a number that is not there.
\<close>

theorem store_is_growing_list:
  "(\<forall>fs. \<not> fs_denied fs DATA_STORAGE \<and> fs_files fs DATA_STORAGE = None \<and> fs_files fs META_STORAGE = None \<longrightarrow>
      (\<exists>s. Ifs_init fs Ifs_new = Some (- 1, s) \<and> store_holds fs s [])) \<and>
   (\<forall>fs s bs b. store_holds fs s bs \<and> store_small (bs @ [b]) \<longrightarrow>
      (\<exists>fs' s'. Ifs_write fs b (int (length b)) s = Some (int (Suc (length bs)), fs', s') \<and>
         store_holds fs' s' (bs @ [b]) \<and> fs_frame DATA_STORAGE fs fs')) \<and>
   (\<forall>fs s bs k b n. store_holds fs s bs \<and> fs_files fs DATA_STORAGE \<noteq> None \<and> in_store bs k \<and>
        b = bs ! (unat k - 1) \<longrightarrow>
      Ifs_get_length k s = int (length b) \<and>
      Ifs_read fs k (replicate (length b + Suc n) 0) s = Some (int (length b), b @ replicate (Suc n) 0)) \<and>
   (\<forall>fs s bs k buf. store_holds fs s bs \<and> \<not> in_store bs k \<longrightarrow>
      Ifs_get_length k s = - 1 \<and> Ifs_read fs k buf s = Some (- 1, buf))"
proof (intro conjI allI impI)
  fix fs s bs k b n
  assume "store_holds fs s bs \<and> fs_files fs DATA_STORAGE \<noteq> None \<and> in_store bs k \<and> b = bs ! (unat k - 1)"
  then have h: "store_holds fs s bs" "in_store bs k" "b = bs ! (unat k - 1)" "fs_files fs DATA_STORAGE \<noteq> None"
    by auto
  have d: "drop (length b) (replicate (length b + Suc n) 0) = replicate (Suc n) (0 :: byte)"
    by (simp add: replicate_add del: replicate_Suc)
  show "Ifs_get_length k s = int (length b)" using Ifs_get_length_ok [OF h(1), of k] h(2,3) by simp
  from Ifs_read_ok [OF h(1-3) _ _ h(4), of "replicate (length b + Suc n) 0"]
  show "Ifs_read fs k (replicate (length b + Suc n) 0) s = Some (int (length b), b @ replicate (Suc n) 0)"
    unfolding d by (simp del: replicate_Suc add: set_replicate_conv_if)
next
  fix fs s bs b
  assume "store_holds fs s bs \<and> store_small (bs @ [b])"
  then show "\<exists>fs' s'. Ifs_write fs b (int (length b)) s = Some (int (Suc (length bs)), fs', s') \<and>
         store_holds fs' s' (bs @ [b]) \<and> fs_frame DATA_STORAGE fs fs'"
    by (intro Ifs_write_ok) (simp_all add: load_def)
qed (use store_start Ifs_get_length_ok Ifs_read_missing in \<open>auto\<close>)

definition empty_fs :: fsys where
  "empty_fs = \<lparr>fs_files = Map.empty, fs_denied = (\<lambda>_. False)\<rparr>"

lemma store_is_growing_list_witness:
  "\<exists>s fs' s'. Ifs_init empty_fs Ifs_new = Some (- 1, s) \<and> store_holds empty_fs s [] \<and>
     Ifs_write empty_fs [7, 8] (int (length [7, 8 :: byte])) s = Some (int (Suc 0), fs', s') \<and>
     store_holds fs' s' [[7, 8]]"
proof -
  note P = store_is_growing_list
  obtain s where 1: "Ifs_init empty_fs Ifs_new = Some (- 1, s)" "store_holds empty_fs s []"
    using P [THEN conjunct1, rule_format, of empty_fs] by (auto simp: empty_fs_def)
  then show ?thesis
    using P [THEN conjunct2, THEN conjunct1, rule_format, of empty_fs s "[]" "[7, 8]"]
    by (auto simp: store_small_def)
qed

text \<open>
  C37. \<open>save_metadata\<close>, in whatever order the map is iterated and over whatever older table, followed by
  \<open>init\<close> of a new object gives a store with the same files.
\<close>

theorem store_survives_restart:
  assumes "store_holds fs s bs" and "mset (order (ifs_meta_datas s)) = mset (ifs_meta_datas s)"
    and "\<not> fs_denied fs META_STORAGE" and "length (file_content fs META_STORAGE) < 2 ^ 31"
  shows "\<exists>fs' r s'. Ifs_save_metadata order fs s = (0, fs') \<and> fs_frame META_STORAGE fs fs' \<and>
           Ifs_init fs' Ifs_new = Some (r, s') \<and> store_holds fs' s' bs"
  using assms by (rule save_then_init)

definition one_file_store :: ifs where
  "one_file_store = \<lparr>ifs_meta_datas = [(1, MetaNode 1 0 2)], ifs_latest_data = MetaNode 1 0 2\<rparr>"

definition one_file_fs :: fsys where
  "one_file_fs = \<lparr>fs_files = [DATA_STORAGE \<mapsto> [7, 8]], fs_denied = (\<lambda>_. False)\<rparr>"

lemma one_file_holds: "store_holds one_file_fs one_file_store [[7, 8]]"
proof -
  have "in_store [[7, 8 :: byte]] w \<longleftrightarrow> w = 1" for w
  proof
    assume "in_store [[7, 8 :: byte]] w"
    then have "unat w = 1" by (simp add: in_store_def)
    moreover have "(of_nat (unat w) :: u64) = w" by simp
    ultimately show "w = 1" by (metis of_nat_1)
  qed (simp add: in_store_def)
  then show ?thesis
    by (auto simp: store_holds_def store_small_def table_holds_def one_file_store_def one_file_fs_def
        file_content_def node_for_def fun_eq_iff)
qed

lemma store_survives_restart_witness:
  "\<exists>fs' r s'. Ifs_save_metadata rev one_file_fs one_file_store = (0, fs') \<and>
     fs_frame META_STORAGE one_file_fs fs' \<and> Ifs_init fs' Ifs_new = Some (r, s') \<and>
     store_holds fs' s' [[7, 8]]"
  by (rule store_survives_restart [OF one_file_holds])
    (simp_all add: one_file_fs_def file_content_def DATA_STORAGE_def META_STORAGE_def)

section \<open>Client and server\<close>

lemma write_loop_all: "0 \<notin> set quota \<Longrightarrow> l \<le> n \<Longrightarrow> write_loop quota n l = n"
  by (induction quota arbitrary: l) (auto simp: Let_def)

text \<open>What \<open>Put\<close> leaves on the server, and what \<open>Get\<close> leaves at the client.\<close>

lemma App_Put_ok:
  assumes h: "store_holds remote s bs" and small: "store_small (bs @ [b])"
    and order: "\<And>m. mset (order m) = mset m" and meta: "\<not> fs_denied remote META_STORAGE"
    and old: "length (file_content remote META_STORAGE) < 2 ^ 31" and fresh: "fresh_ok fresh"
    and f: "fs_files fs path = Some b" "\<not> fs_denied fs path" "length b \<le> 10485760"
    and dbg: "dbg \<longrightarrow> 0 \<in> set b"
  shows "\<exists>remote' s'. App_Put order dbg fresh remote s fs path =
      Some (0, Some (int (Suc (length bs))), remote', s') \<and>
    store_holds remote' s' (bs @ [b]) \<and> fs_files remote' DATA_STORAGE \<noteq> None"
proof -
  let ?k = "Suc (length bs)"
  have k26: "?k < 2 ^ 26" and bl: "length b < 2 ^ 31" using small by (simp_all add: store_small_def)
  have size: "get_file_size fs path = int (length b)" using f(1,3) by (intro get_file_size_small) simp_all
  have rd: "fu_read_reserve fs path 0 = Some (int (length b), Some b)"
    using f size by (simp add: fu_read_reserve_def is_exists_file_def fopen_read_def)
  obtain r where r: "length r = 4" "code_head fresh APP_PUT = Some (be32 (u32_of APP_PUT) @ r)"
    using code_head_ok [OF fresh] by blast
  define p :: "unit packet" where "p = new_packet (be32 (u32_of APP_PUT) @ r) 8 b (int (length b))"
  obtain q where q: "deliver p = Some q" "head_code q = Some APP_PUT" "pt_data q = Some (b @ [0])"
    "pt_data_length q = Some (u32_of (int (length b)))"
    using deliver_coded [of p APP_PUT r b "[]"] r(1) bl
    by (auto simp: p_def new_packet_def Packet_set_head_def Packet_set_packet_def u32_of_def APP_PUT_def i32_ok_def)
  from answer_put_ok [OF h small order meta old fresh q(3,4), of dbg] obtain remote' s' q1 r1 y where
    1: "Ifs_answer_put order dbg fresh remote s q = Some (remote', s', q1)"
      "store_holds remote' s' (bs @ [b])" "fs_files remote' DATA_STORAGE \<noteq> None"
      "pt_head q1 = Some (be32 (u32_of APP_SUCCESS) @ r1)" "length r1 = 4" "pt_head_length q1 = Some 8"
      "pt_data q1 = Some (be32 (of_nat ?k) @ y)" "pt_data_length q1 = Some 4"
    by blast
  from deliver_coded [OF 1(4-7)] 1(8) obtain q2 where
    q2: "deliver q1 = Some q2" "head_code q2 = Some APP_SUCCESS" "pt_data q2 = Some (be32 (of_nat ?k) @ [0])"
    by (auto simp: u32_of_def APP_SUCCESS_def i32_ok_def)
  have id: "sint (ntohl (rdle32 (be32 (of_nat ?k)))) = int ?k"
  proof -
    have "rdle32 (be32 (of_nat ?k)) = htonl (of_nat ?k)" by (simp add: htonl_def del: of_nat_Suc)
    moreover have "i32_ok (int ?k)" using k26 by (simp add: i32_ok_def)
    ultimately show ?thesis using sint_u32_of [of "int ?k"] by (simp add: u32_of_def del: of_nat_Suc)
  qed
  have "app_call order dbg fresh remote s p = Some (remote', s', q2)"
    using q(1,2) 1(1) q2(1) by (simp add: app_call_def EchoFromIfs_def APP_PUT_def APP_GET_def)
  then have "App_Put order dbg fresh remote s fs path = Some (0, Some (int ?k), remote', s')"
    using f size rd dbg r(2) q2(2,3) id
    by (simp add: App_Put_def is_exists_file_def log_arg_def p_def load_def APP_SUCCESS_def del: of_nat_Suc)
  with 1(2,3) show ?thesis by blast
qed

lemma App_Get_ok:
  assumes h: "store_holds remote s bs" and there: "fs_files remote DATA_STORAGE \<noteq> None" and fresh: "fresh_ok fresh"
    and g: "c_path g" "CHR ''%'' \<notin> set g" "length g \<le> 20" "atoi g = Some i" "0 < i"
    and w: "in_store bs (word_of_int i)" and b: "b = bs ! (unat (word_of_int i :: u64) - 1)"
    and bl: "length b < 2 ^ 31" and quota: "0 \<notin> set quota" and den: "\<not> fs_denied fs (''client_data/'' @ g)"
  shows "\<exists>fs'. App_Get order dbg fresh quota remote s fs g = Some (0, fs') \<and>
    fs_files fs' (''client_data/'' @ g) = Some b \<and> fs_frame (''client_data/'' @ g) fs fs'"
proof -
  from Get_request_ok [OF fresh g(1-3)] obtain p1 q3 x where
    2: "App_Get_request fresh g = Some p1" "deliver p1 = Some q3" "head_code q3 = Some APP_GET"
      "pt_data q3 = Some (str_bytes g @ 0 # x @ [0])" "length x = 3"
      "pt_data_length q3 = Some (u32_of (int (length g) + 4))" by blast
  from answer_get_ok [OF h w g(5) b there fresh g(4,1) 2(4-6) g(3), of dbg] obtain q4 r2 z where
    4: "Ifs_answer_get dbg fresh remote s q3 = Some q4"
      "pt_head q4 = Some (be32 (u32_of APP_SUCCESS) @ r2)" "length r2 = 4" "pt_head_length q4 = Some 8"
      "pt_data q4 = Some (b @ z)" "pt_data_length q4 = Some (u32_of (int (length b)))" by auto
  from deliver_coded [OF 4(2-6) bl] obtain q5 where
    5: "deliver q4 = Some q5" "head_code q5 = Some APP_SUCCESS" "pt_data q5 = Some (b @ [0])"
      "pt_data_length q5 = Some (u32_of (int (length b)))" by (auto simp: APP_SUCCESS_def i32_ok_def)
  have call: "app_call order dbg fresh remote s p1 = Some (remote, s, q5)"
    using 2(2,3) 4(1) 5(1) by (simp add: app_call_def EchoFromIfs_def)
  have len: "unat (u32_of (int (length b))) = length b" "sint (u32_of (int (length b))) = int (length b)"
    using bl unat_u32_of [of "int (length b)"] sint_u32_of [of "int (length b)"] by (simp_all add: i32_ok_def)
  have st: "store (b @ [0]) (length b) [0] = Some (b @ [0])" by (simp add: store_def)
  have path: "take 99 (''client_data/'' @ g) = ''client_data/'' @ g" using g(3) by simp
  have "\<exists>ret. fu_write quota fs (b @ [0]) (int (length b)) (''client_data/'' @ g) True =
      Some (ret, fs\<lparr>fs_files := (fs_files fs)(''client_data/'' @ g \<mapsto> b)\<rparr>)"
    using den write_loop_all [OF quota, of 0 "length b"]
    by (simp add: fu_write_def fopen_write_def load_def Let_def)
  then have "App_Get order dbg fresh quota remote s fs g =
      Some (0, fs\<lparr>fs_files := (fs_files fs)(''client_data/'' @ g \<mapsto> b)\<rparr>)"
    using 2(1) call 5(2-4) len st path
    by (auto simp: App_Get_def APP_SUCCESS_def Let_def simp del: append.simps)
  then show ?thesis by (simp add: fs_frame_def)
qed


text \<open>
  For a number the store does not have, the server's answer is \<open>OTHER_ERROR\<close>, never
  \<open>FILE_DID_NOT_EXIST\<close>: the failed read replaces the more precise code.  The client returns -1
  and writes nothing.
\<close>

theorem get_missing_file:
  assumes h: "store_holds remote s bs" and fresh: "fresh_ok fresh"
    and g: "c_path g" "CHR ''%'' \<notin> set g" "length g \<le> 20" "atoi g = Some i" "0 < i"
    and w: "\<not> in_store bs (word_of_int i)"
  shows "App_Get order dbg fresh quota remote s fs g = Some (- 1, fs) \<and>
         (\<exists>p q. App_Get_request fresh g = Some p \<and> app_call order dbg fresh remote s p = Some (remote, s, q) \<and>
            head_code q = Some APP_OTHER_ERROR)"
proof -
  from Get_request_ok [OF fresh g(1-3)] obtain p1 q3 x where
    2: "App_Get_request fresh g = Some p1" "deliver p1 = Some q3" "head_code q3 = Some APP_GET"
      "pt_data q3 = Some (str_bytes g @ 0 # x @ [0])" "length x = 3"
      "pt_data_length q3 = Some (u32_of (int (length g) + 4))" by blast
  from answer_get_missing [OF h w g(5) fresh g(4,1) 2(4-6) g(3), of dbg] obtain q4 r2 d z where
    4: "Ifs_answer_get dbg fresh remote s q3 = Some q4"
      "pt_head q4 = Some (be32 (u32_of APP_OTHER_ERROR) @ r2)" "length r2 = 4" "pt_head_length q4 = Some 8"
      "pt_data q4 = Some (d @ z)" "length d = 4" "pt_data_length q4 = Some (u32_of (int (length d)))" by blast
  from deliver_coded [OF 4(2-5,7)] 4(6) obtain q5 where
    5: "deliver q4 = Some q5" "head_code q5 = Some APP_OTHER_ERROR" by (auto simp: APP_OTHER_ERROR_def i32_ok_def)
  have call: "app_call order dbg fresh remote s p1 = Some (remote, s, q5)"
    using 2(2,3) 4(1) 5(1) by (simp add: app_call_def EchoFromIfs_def)
  with 2(1) 5(2) show ?thesis by (simp add: App_Get_def APP_OTHER_ERROR_def)
qed

lemma atoi_one: "atoi ''1'' = Some 1" by code_simp
lemma atoi_two: "atoi ''2'' = Some 2" by code_simp


lemma get_missing_file_witness:
  "App_Get rev False (\<lambda>n. replicate n 0) [] one_file_fs one_file_store empty_fs ''2'' = Some (- 1, empty_fs)"
  using get_missing_file [OF one_file_holds, of "\<lambda>n. replicate n 0" "''2''" 2 rev False "[]" empty_fs] atoi_two
  by (simp add: fresh_ok_def c_path_def in_store_def)

end
