(* ===== verification/LogTime.thy ===== *)
theory LogTime
  imports Complex_Main Prelude
begin

text \<open>
  \<open>depends/utils\<close>: the logger (\<open>log.cpp\<close>) that every program writes its messages with, the broken-down
  time in the header of a message and the stop watch (\<open>time_utils.h\<close>).  The text that \<open>printf\<close> makes of
  the caller's format and arguments is given; characters are bytes.
\<close>

section \<open>Text\<close>

fun nat_dec :: "nat \<Rightarrow> string" where
  "nat_dec n = (if n < 10 then [char_of (48 + n)] else nat_dec (n div 10) @ [char_of (48 + n mod 10)])"

declare nat_dec.simps [simp del]

lemma length_nat_dec: "n < 10 ^ k \<Longrightarrow> 0 < k \<Longrightarrow> length (nat_dec n) \<le> k"
proof (induction k arbitrary: n)
  case (Suc k)
  show ?case
  proof (cases "n < 10")
    case True
    then show ?thesis by (simp add: nat_dec.simps [of n])
  next
    case False
    with Suc.prems have "0 < k" by (cases k) simp_all
    moreover have "n div 10 < 10 ^ k" using Suc.prems(1) by (simp add: div_less_iff_less_mult mult.commute)
    ultimately show ?thesis using Suc.IH [of "n div 10"] False by (simp add: nat_dec.simps [of n])
  qed
qed simp

definition int_dec :: "int \<Rightarrow> string" where
  "int_dec i = (if i < 0 then CHR ''-'' # nat_dec (nat (- i)) else nat_dec (nat i))"

text \<open>\<open>%4d\<close> and \<open>%02d\<close>; a sign stands before the zeros.\<close>

definition pad_left :: "char \<Rightarrow> nat \<Rightarrow> string \<Rightarrow> string" where
  "pad_left c n s = replicate (n - length s) c @ s"

definition fmt_4d :: "int \<Rightarrow> string" where
  "fmt_4d i = pad_left (CHR '' '') 4 (int_dec i)"

definition fmt_02d :: "int \<Rightarrow> string" where
  "fmt_02d i = (if i < 0 then CHR ''-'' # pad_left (CHR ''0'') 1 (nat_dec (nat (- i)))
                else pad_left (CHR ''0'') 2 (nat_dec (nat i)))"

definition text_bytes :: "string \<Rightarrow> byte list" where
  "text_bytes s = map (\<lambda>c. of_nat (of_char c)) s"

text \<open>
  \<open>snprintf\<close> to offset \<open>off\<close> of a block: at most \<open>room - 1\<close> characters and a zero, and the length the
  whole text has.
\<close>

definition c_snprintf :: "byte list \<Rightarrow> nat \<Rightarrow> nat \<Rightarrow> byte list \<Rightarrow> (byte list \<times> nat) option" where
  "c_snprintf m off room s =
     (if room = 0 then Some (m, length s)
      else map_option (\<lambda>m. (m, length s)) (store m off (take (room - 1) s @ [0])))"

section \<open>Time\<close>

record tm =
  tm_year :: int
  tm_mon :: int
  tm_mday :: int
  tm_hour :: int
  tm_min :: int
  tm_sec :: int

definition HumanTime_year :: "tm \<Rightarrow> int" where "HumanTime_year t = tm_year t + 1900"
definition HumanTime_month :: "tm \<Rightarrow> int" where "HumanTime_month t = tm_mon t + 1"
definition HumanTime_day :: "tm \<Rightarrow> int" where "HumanTime_day t = tm_mday t"
definition HumanTime_hour :: "tm \<Rightarrow> int" where "HumanTime_hour t = tm_hour t"
definition HumanTime_minutes :: "tm \<Rightarrow> int" where "HumanTime_minutes t = tm_min t"
definition HumanTime_second :: "tm \<Rightarrow> int" where "HumanTime_second t = tm_sec t"

text \<open>The stop watch; a \<open>timeval\<close> is a pair of seconds and microseconds, a \<open>double\<close> a rational.\<close>

record time_counter =
  tc_times :: "rat list"
  tc_capacity :: int
  tc_starttime :: "int \<times> int"

definition TimeCounter_new :: "int \<Rightarrow> int \<times> int \<Rightarrow> time_counter" where
  "TimeCounter_new capacity now = \<lparr>tc_times = [], tc_capacity = capacity, tc_starttime = now\<rparr>"

definition TimeCounter_default :: "int \<times> int \<Rightarrow> time_counter" where
  "TimeCounter_default now = TimeCounter_new 10 now"

definition TimeCounter_AddNow :: "int \<times> int \<Rightarrow> time_counter \<Rightarrow> time_counter" where
  "TimeCounter_AddNow endtime c =
     (let timeuse = 1000000 * (fst endtime - fst (tc_starttime c)) + snd endtime - snd (tc_starttime c)
      in c\<lparr>tc_times := tc_times c @ [of_int timeuse / 1000]\<rparr>)"

text \<open>\<open>num\<close> is converted to the unsigned type of \<open>size()\<close>, so a negative one is large.\<close>

definition TimeCounter_GetTimeCosts :: "int \<Rightarrow> time_counter \<Rightarrow> rat" where
  "TimeCounter_GetTimeCosts num c =
     (let n = length (tc_times c) in
      if (num < 0 \<or> int n \<le> num) \<and> 0 < n then tc_times c ! (n - 1) else 0)"

definition get_microseconds_of_now :: int where
  "get_microseconds_of_now = 0"

definition get_miliseconds_of_now :: int where
  "get_miliseconds_of_now = c_div get_microseconds_of_now 1000"

definition get_second_of_now :: int where
  "get_second_of_now = c_div get_microseconds_of_now 1000000"

section \<open>The logger\<close>

record logger =
  lg_level :: int
  lg_fd :: int

definition Log_new :: logger where
  "Log_new = \<lparr>lg_level = 0, lg_fd = 2\<rparr>"

definition Log_set_level :: "int \<Rightarrow> logger \<Rightarrow> logger" where
  "Log_set_level level g = g\<lparr>lg_level := level\<rparr>"

definition ESC :: string where
  "ESC = [CHR 0x1B]"

text \<open>The \<open>return\<close> behind the \<open>break\<close> of the default case is not reached: another level has no result.\<close>

definition LevelStr :: "int \<Rightarrow> string option" where
  "LevelStr level =
     (if level = 0 then Some (ESC @ ''[0;32;32m'' @ ''DEBUG '' @ ESC @ ''[m'')
      else if level = 1 then Some (ESC @ ''[1;32m'' @ ''INFO  '' @ ESC @ ''[m'')
      else if level = 2 then Some (ESC @ ''[1;33m'' @ ''NOTICE'' @ ESC @ ''[m'')
      else if level = 3 then Some (ESC @ ''[0;32;34m'' @ ''WARN  '' @ ESC @ ''[m'')
      else if level = 4 then Some (ESC @ ''[0;32;31m'' @ ''ERROR '' @ ESC @ ''[m'')
      else if level = 5 then Some (ESC @ ''[0;35m'' @ ''FATAL '' @ ESC @ ''[m'')
      else None)"

text \<open>What is written to the file descriptor, and the logger; \<open>None\<close> inside when nothing is.\<close>

definition Log_WriteToFile :: "byte list \<Rightarrow> int \<Rightarrow> logger \<Rightarrow> (byte list option \<times> logger) option" where
  "Log_WriteToFile dat n g =
     (if n \<le> 0 then Some (None, g)
      else do {
        let g = (if lg_fd g < 0 then g\<lparr>lg_fd := 2\<rparr> else g);
        bs \<leftarrow> load dat 0 (nat n);
        Some (Some bs, g)
      })"

definition log_head :: "int \<Rightarrow> tm \<Rightarrow> string option" where
  "log_head level t = do {
     l \<leftarrow> LevelStr level;
     Some (''['' @ l @ '']['' @ fmt_4d (HumanTime_year t) @ ''-'' @ fmt_02d (HumanTime_month t) @ ''-'' @
           fmt_02d (HumanTime_day t) @ '', '' @ fmt_02d (HumanTime_hour t) @ '':'' @
           fmt_02d (HumanTime_minutes t) @ '':'' @ fmt_02d (HumanTime_second t) @ '']'')
   }"

definition log_place :: "string \<Rightarrow> int \<Rightarrow> string \<Rightarrow> string" where
  "log_place file_name line function = ''['' @ file_name @ '':'' @ int_dec line @ '':'' @ function @ '']: ''"

text \<open>\<open>sizeof(buffer) - len\<close>, a difference of \<open>size_t\<close>.\<close>

definition log_room :: "nat \<Rightarrow> nat" where
  "log_room len = nat ((4096 - int len) mod 2 ^ 64)"

text \<open>\<open>buffer\<close> is the content of the 4096 bytes of the stack, \<open>body\<close> what the caller's format gives.\<close>

definition Log_WriteLog ::
  "byte list \<Rightarrow> tm \<Rightarrow> int \<Rightarrow> string \<Rightarrow> int \<Rightarrow> string \<Rightarrow> byte list \<Rightarrow> logger \<Rightarrow>
   (byte list option \<times> logger) option" where
  "Log_WriteLog buffer human_time level file_name line function body g =
     (if level < lg_level g then Some (None, g)
      else do {
        head \<leftarrow> log_head level human_time;
        (m, len) \<leftarrow> c_snprintf buffer 0 4096 (text_bytes head);
        (m, l) \<leftarrow> c_snprintf m len (log_room len)
                   (text_bytes (log_place file_name line function));
        let len = len + l;
        (m, l) \<leftarrow> c_snprintf m len (log_room len) body;
        let len = len + l;
        (m, len) \<leftarrow> (if len < 4096 then map_option (\<lambda>m. (m, len + 1)) (store m len [10])
                    else map_option (\<lambda>m. (m, len)) (store m (len - 1) [10]));
        Log_WriteToFile m (int len) g
      })"

section \<open>How long a line may be\<close>

lemma log_room_eq: "n \<le> 4096 \<Longrightarrow> log_room n = 4096 - n"
  by (simp add: log_room_def)

lemma c_snprintf_fits:
  assumes "length m = 4096" and "off + length s < 4096"
  shows "c_snprintf m off (log_room off) s = Some (take off m @ s @ 0 # drop (off + length s + 1) m, length s)"
  using assms by (simp add: c_snprintf_def store_def log_room_eq)

lemma c_snprintf_cut:
  assumes "length m = 4096" and "off < 4096" and "4096 \<le> off + length s"
  shows "c_snprintf m off (log_room off) s = Some (take off m @ take (4095 - off) s @ [0], length s)"
  using assms by (simp add: c_snprintf_def store_def log_room_eq)

lemma WriteToFile_nat:
  "0 < k \<Longrightarrow> map_option fst (Log_WriteToFile m (int k) g) = map_option Some (load m 0 k)"
  by (cases "load m 0 k") (simp_all add: Log_WriteToFile_def)

lemma WriteLog_line:
  assumes m: "length m = 4096" and on: "lg_level g \<le> level" and head: "log_head level t = Some head"
    and pre: "pre = text_bytes head @ text_bytes (log_place file_name line function)"
    and short: "length pre < 4096"
  shows "map_option fst (Log_WriteLog m t level file_name line function body g) =
    (if length pre + length body \<le> 4096 then Some (Some (take 4095 (pre @ body) @ [10])) else None)"
proof -
  let ?h = "text_bytes head" and ?p = "text_bytes (log_place file_name line function)"
  let ?n = "length pre"
  have lens: "length ?h + length ?p = ?n" "length ?h < 4096" using pre short by simp_all
  define m1 where "m1 = ?h @ 0 # drop (length ?h + 1) m"
  have m1: "c_snprintf m 0 4096 ?h = Some (m1, length ?h)" "length m1 = 4096"
    using c_snprintf_fits [of m 0 ?h] m lens by (simp_all add: m1_def log_room_eq)
  define m2 where "m2 = pre @ 0 # drop (?n + 1) m1"
  have h1: "take (length ?h) m1 = ?h" by (simp add: m1_def)
  have "take (length ?h) m1 @ ?p @ 0 # drop (length ?h + length ?p + 1) m1 = m2"
    unfolding h1 lens(1) m2_def by (simp only: pre append_assoc)
  moreover have "length ?h + length ?p < 4096" using lens(1) short by simp
  ultimately have m2: "c_snprintf m1 (length ?h) (log_room (length ?h)) ?p = Some (m2, length ?p)"
    using c_snprintf_fits [OF m1(2)] by metis
  have l2: "length m2 = 4096" using m1(2) short by (simp add: m2_def)
  have tk: "take ?n m2 = pre" by (simp add: m2_def)
  have run: "Log_WriteLog m t level file_name line function body g = do {
      (m, l) \<leftarrow> c_snprintf m2 ?n (log_room ?n) body;
      (m, len) \<leftarrow> (if ?n + l < 4096 then map_option (\<lambda>m. (m, ?n + l + 1)) (store m (?n + l) [10])
                  else map_option (\<lambda>m. (m, ?n + l)) (store m (?n + l - 1) [10]));
      Log_WriteToFile m (int len) g }"
    using on head m1(1) m2 by (simp add: Log_WriteLog_def Let_def, simp only: lens(1))
  show ?thesis
  proof (cases "?n + length body < 4096")
    case True
    then show ?thesis
      using c_snprintf_fits [OF l2 True] l2 tk
      by (simp add: run store_def WriteToFile_nat load_def del: of_nat_add of_nat_Suc)
  next
    case False
    define m3 where "m3 = pre @ take (4095 - ?n) body @ [0]"
    have m3: "c_snprintf m2 ?n (log_room ?n) body = Some (m3, length body)"
      using c_snprintf_cut [OF l2 short] False tk by (simp add: m3_def)
    have l3: "length m3 = 4096" using False short by (simp add: m3_def)
    show ?thesis
    proof (cases "?n + length body = 4096")
      case True
      then have "take 4095 m3 = take 4095 (pre @ body)" "drop 4096 m3 = []"
        using short l3 by (simp_all add: m3_def)
      with True l3 show ?thesis
        by (simp add: run m3 store_def load_def Log_WriteToFile_def)
    next
      case False
      with \<open>\<not> ?n + length body < 4096\<close> have "\<not> ?n + length body - Suc 0 \<le> 4095" by linarith
      with False \<open>\<not> ?n + length body < 4096\<close> l3 show ?thesis by (simp add: run m3 store_def)
    qed
  qed
qed

end
