(* ===== verification/UtilProperties.thy ===== *)
theory UtilProperties
  imports LogTime "HOL-Library.Code_Target_Numeral"
begin

text \<open>
  What the logger promises, and where it leaves its buffer.
\<close>

text \<open>
  A message of a level that is logged is written as one line: the header, the message and a
  newline.  A line of exactly 4096 bytes loses its last character to the newline; for any longer
  one, \<open>vsnprintf\<close> returns the length the text would have, and the newline is stored outside of the
  buffer.  Hypotheses: the level is one of the six, and the header alone fits.
\<close>

theorem log_line_bound:
  assumes "length buffer = 4096" and "lg_level g \<le> level" and "log_head level now = Some head"
    and "pre = text_bytes head @ text_bytes (log_place file_name line function)"
    and "length pre < 4096"
  shows "map_option fst (Log_WriteLog buffer now level file_name line function body g) =
    (if length pre + length body \<le> 4096 then Some (Some (take 4095 (pre @ body) @ [10])) else None)"
  using assms by (rule WriteLog_line)

definition demo_now :: tm where
  "demo_now = \<lparr>tm_year = 115, tm_mon = 4, tm_mday = 9, tm_hour = 7, tm_min = 30, tm_sec = 5\<rparr>"

definition demo_head :: string where
  "demo_head = ''['' @ ESC @ ''[1;33mNOTICE'' @ ESC @ ''[m][2015-05-09, 07:30:05]''"

lemma demo_log_head: "log_head 2 demo_now = Some demo_head"
  by code_simp

lemma demo_pre: "length (text_bytes demo_head @ text_bytes (log_place ''a.cpp'' 12 ''f'')) = 54"
  by code_simp

lemma log_line_bound_witness:
  "map_option fst (Log_WriteLog (replicate 4096 0) demo_now 2 ''a.cpp'' 12 ''f'' [72, 105] Log_new) =
     Some (Some (take 4095 ((text_bytes demo_head @ text_bytes (log_place ''a.cpp'' 12 ''f'')) @ [72, 105]) @ [10])) \<and>
   map_option fst (Log_WriteLog (replicate 4096 0) demo_now 2 ''a.cpp'' 12 ''f'' (replicate 4043 65) Log_new) = None"
proof -
  note B = log_line_bound [of "replicate 4096 0" Log_new 2 demo_now demo_head _ "''a.cpp''" 12 "''f''",
      OF _ _ demo_log_head refl]
  show ?thesis
    using B [of "[72, 105]"] B [of "replicate 4043 65"] demo_pre by (simp add: Log_new_def)
qed

end
