(* ===== verification/ChatCore.thy ===== *)
theory ChatCore
  imports RemoteFacts TaskQueue "HOL-Library.AList"
begin

text \<open>
  \<open>single_fs/chat\<close>: the requests of the client (\<open>client.cpp\<close>, \<open>client_handler.h\<close>), the table of users
  (\<open>user_connection.cpp\<close>), and the server, whose two threads meet at the table, at the queue of requests
  and at the queues of the connections.  The event loop runs \<open>server_handler.cpp\<close> and the destructor of a
  connection; the chat thread runs \<open>chat_process.cpp\<close>.  A thread is modelled by the place it has reached;
  a step goes to the next place where the other thread can be seen.

  An end point is its address, and is alive from \<open>accept\<close> to the end of the destructor of its connection.
  Names and messages are C++ strings, that is lists of bytes.
\<close>

definition SEND_MSG :: int where "SEND_MSG = 1"
definition LOGIN :: int where "LOGIN = 7"

definition world :: "byte list" where
  "world = str_bytes ''world''"

section \<open>The table of users\<close>

record user_connection =
  uc_users :: "(byte list \<times> nat) list"
  uc_conns :: "(nat \<times> byte list) list"

definition UserConnection_new :: user_connection where
  "UserConnection_new = \<lparr>uc_users = [], uc_conns = []\<rparr>"

definition addUser :: "byte list \<Rightarrow> nat \<Rightarrow> user_connection \<Rightarrow> user_connection" where
  "addUser user end_point c =
     c\<lparr>uc_users := AList.update user end_point (uc_users c),
       uc_conns := AList.update end_point user (uc_conns c)\<rparr>"

definition removeUser :: "byte list \<Rightarrow> user_connection \<Rightarrow> user_connection" where
  "removeUser user c =
     (case map_of (uc_users c) user of
        None \<Rightarrow> c
      | Some end_point \<Rightarrow>
          c\<lparr>uc_conns := AList.delete end_point (uc_conns c),
            uc_users := AList.delete user (uc_users c)\<rparr>)"

definition removeUser_end_point :: "nat \<Rightarrow> user_connection \<Rightarrow> user_connection" where
  "removeUser_end_point end_point c =
     (case map_of (uc_conns c) end_point of
        None \<Rightarrow> c
      | Some user \<Rightarrow>
          c\<lparr>uc_users := AList.delete user (uc_users c),
            uc_conns := AList.delete end_point (uc_conns c)\<rparr>)"

definition contains :: "byte list \<Rightarrow> user_connection \<Rightarrow> bool" where
  "contains user c \<longleftrightarrow> map_of (uc_users c) user \<noteq> None"

definition getEndPointByUser :: "byte list \<Rightarrow> user_connection \<Rightarrow> nat option" where
  "getEndPointByUser user c = map_of (uc_users c) user"

section \<open>What a request says\<close>

record chat_task =
  ct_packet :: "nat packet"
  ct_req :: int

definition ChatHandler_EchoFromServer :: "nat packet \<Rightarrow> chat_task option" where
  "ChatHandler_EchoFromServer packet = do {
     head \<leftarrow> pt_head packet;
     head_length \<leftarrow> pt_head_length packet;
     (req, _) \<leftarrow> get_net_i32 (Package_set_data head (sint head_length) Package_new);
     Some \<lparr>ct_packet = packet, ct_req = req\<rparr>
   }"

text \<open>
  The test of the length in \<open>Login\<close> is made in 64 bits without sign, so that a negative length is
  refused.  \<open>Some None\<close> is the early return.
\<close>

definition chat_login :: "nat packet \<Rightarrow> (byte list \<times> nat) option option" where
  "chat_login packet = do {
     dat \<leftarrow> pt_data packet;
     data_length \<leftarrow> pt_data_length packet;
     (sender_length, package) \<leftarrow> get_net_i32 (Package_set_data dat (sint data_length) Package_new);
     if (ucast data_length - 4 :: 64 word) < word_of_int sender_length then Some None
     else do {
       (sender, _) \<leftarrow> Package_GetString sender_length package;
       sender \<leftarrow> sender;
       end_point \<leftarrow> pt_end_point packet;
       Some (Some (sender, end_point))
     }
   }"

text \<open>\<open>None\<close> for a string is the null pointer of \<open>GetString\<close>.\<close>

definition chat_message ::
  "'e packet \<Rightarrow> (byte list option \<times> byte list option \<times> byte list option) option" where
  "chat_message packet = do {
     dat \<leftarrow> pt_data packet;
     data_length \<leftarrow> pt_data_length packet;
     (sender_length, package) \<leftarrow> get_net_i32 (Package_set_data dat (sint data_length) Package_new);
     (sender, package) \<leftarrow> Package_GetString sender_length package;
     (receiver_length, package) \<leftarrow> get_net_i32 package;
     (receiver, package) \<leftarrow> Package_GetString receiver_length package;
     (message_length, package) \<leftarrow> get_net_i32 package;
     (message, package) \<leftarrow> Package_GetString message_length package;
     Some (sender, receiver, message)
   }"

section \<open>The client\<close>

record chat_client =
  cc_user_name :: "byte list"

definition chat_head :: "(nat \<Rightarrow> byte list) \<Rightarrow> int \<Rightarrow> byte list option" where
  "chat_head fresh request_type = do {
     package \<leftarrow> set_net_i32 request_type (Package_set_data (fresh 5) 5 Package_new);
     Some (pk_mem package)
   }"

definition set_net_string :: "byte list \<Rightarrow> package \<Rightarrow> package option" where
  "set_net_string s package = do {
     package \<leftarrow> set_net_i32 (int (length s)) package;
     Package_SetString s (int (length s)) package
   }"

definition Chat_SendMessage ::
  "(nat \<Rightarrow> byte list) \<Rightarrow> byte list \<Rightarrow> byte list \<Rightarrow> chat_client \<Rightarrow> 'e packet option" where
  "Chat_SendMessage fresh receiver message c = do {
     head \<leftarrow> chat_head fresh SEND_MSG;
     let data_length = to_i32 (int (length receiver) + 4 + int (length (cc_user_name c)) + 4 +
           int (length message) + 4 + 1);
     require (0 \<le> data_length);
     let package = Package_set_data (fresh (nat data_length)) data_length Package_new;
     package \<leftarrow> set_net_string (cc_user_name c) package;
     package \<leftarrow> set_net_string receiver package;
     package \<leftarrow> set_net_string message package;
     Some (new_packet head 5 (pk_mem package) data_length)
   }"

definition Chat_Login ::
  "(nat \<Rightarrow> byte list) \<Rightarrow> byte list \<Rightarrow> chat_client \<Rightarrow> ('e packet \<times> chat_client) option" where
  "Chat_Login fresh user_name c = do {
     head \<leftarrow> chat_head fresh LOGIN;
     let len = int (length user_name) + 4 + 1;
     let package = Package_set_data (fresh (nat len)) (to_i32 len) Package_new;
     package \<leftarrow> set_net_string user_name package;
     Some (new_packet head 5 (pk_mem package) (int (length user_name) + 4),
           c\<lparr>cc_user_name := user_name\<rparr>)
   }"

text \<open>What the receiving client shows, as the label, the sender and the message.\<close>

datatype shown =
  PrivateMessage "byte list" "byte list"
| WorldMessage "byte list" "byte list"

definition ClientHandler_OnReceived :: "'e packet \<Rightarrow> shown option" where
  "ClientHandler_OnReceived packet = do {
     (sender, receiver, message) \<leftarrow> chat_message packet;
     receiver \<leftarrow> receiver;
     sender \<leftarrow> sender;
     message \<leftarrow> message;
     Some (if receiver \<noteq> world then PrivateMessage sender message else WorldMessage sender message)
   }"

definition ClientHandler_OnReceived_from :: "'e packet \<Rightarrow> 'p \<Rightarrow> shown option" where
  "ClientHandler_OnReceived_from packet end_point = do {
     (sender, _, message) \<leftarrow> chat_message packet;
     sender \<leftarrow> sender;
     message \<leftarrow> message;
     Some (PrivateMessage sender message)
   }"

section \<open>The server\<close>

text \<open>
  The chat thread: waiting for a request; about to add a user; before the lock of \<open>sendToAllUser\<close>;
  inside of it, with the connections still to be served; before \<open>contains\<close>; before
  \<open>getEndPointByUser\<close>; before the \<open>Push\<close> on the queue of a connection; before \<open>SetEvent\<close> on it.  The
  flag of the last four says whether sender and message are strings and not null: the
  log line after \<open>SendToOne\<close> reads both.  \<open>ChatFault\<close>: undefined behaviour.
\<close>

datatype chat_pc =
  ChatIdle
| AddingUser "byte list" nat
| ToAll "nat packet"
| Broadcasting "nat packet" "nat list"
| ToOne "byte list" "nat packet" bool
| FindOne "byte list" "nat packet" bool
| SendingTo nat "nat packet" bool
| SettingEvent nat bool
| ChatFault

text \<open>
  The event loop: waiting; before the \<open>Push\<close> of a request; in the destructor of a
  connection, before \<open>removeUser\<close> and after it.
\<close>

datatype loop_pc =
  LoopIdle
| Pushing chat_task
| Closing nat
| Deleting nat
| LoopFault

record chat_server =
  sv_table :: user_connection
  sv_tasks :: "chat_task task_queue"
  sv_live :: "(nat \<times> nat packet task_queue) list"
  sv_chat :: chat_pc
  sv_loop :: loop_pc
  sv_running :: bool
  sv_sent :: "(nat \<times> nat packet) list"

definition ChatProcess_Start :: "chat_server \<Rightarrow> chat_server" where
  "ChatProcess_Start s = (if sv_running s then s else s\<lparr>sv_running := True\<rparr>)"

definition ChatProcess_Stop :: "chat_server \<Rightarrow> chat_server" where
  "ChatProcess_Stop s = s\<lparr>sv_running := False\<rparr>"

definition ChatServer_Init :: chat_server where
  "ChatServer_Init = ChatProcess_Start
     \<lparr>sv_table = UserConnection_new, sv_tasks = TaskQueue_default, sv_live = [], sv_chat = ChatIdle,
      sv_loop = LoopIdle, sv_running = False, sv_sent = []\<rparr>"

text \<open>The mutex of the table; its other sections are single steps.\<close>

fun holds_lock :: "chat_pc \<Rightarrow> bool" where
  "holds_lock (Broadcasting _ _) = True"
| "holds_lock _ = False"

text \<open>
  \<open>AsyncSendPacket\<close> on the connection of an end point: \<open>None\<close> when it has been deleted,
  \<open>Some None\<close> while its queue is full.
\<close>

definition chat_push ::
  "nat \<Rightarrow> nat packet \<Rightarrow> (nat \<times> nat packet task_queue) list \<Rightarrow>
   (nat \<times> nat packet task_queue) list option option" where
  "chat_push end_point packet live = do {
     queue \<leftarrow> map_of live end_point;
     let (pushed, queue) = try_push packet queue;
     Some (if pushed then Some (AList.update end_point queue live) else None)
   }"

text \<open>The second \<open>OnReceived\<close> of the server sends the packet back; the stream does not call it.\<close>

definition ChatHandler_OnReceived_from ::
  "nat packet \<Rightarrow> nat \<Rightarrow> (nat \<times> nat packet task_queue) list \<Rightarrow>
   (nat \<times> nat packet task_queue) list option option" where
  "ChatHandler_OnReceived_from packet end_point live = do {
     _ \<leftarrow> pt_data packet;
     _ \<leftarrow> pt_data_length packet;
     chat_push end_point packet live
   }"

definition ChatHandler_OnClose :: "nat \<Rightarrow> user_connection \<Rightarrow> user_connection" where
  "ChatHandler_OnClose end_point c = removeUser_end_point end_point c"

definition chat_dispatch :: "chat_task \<Rightarrow> chat_pc" where
  "chat_dispatch node =
     (if ct_req node = SEND_MSG then
        (case chat_message (ct_packet node) of
           Some (sender, Some receiver, message) \<Rightarrow>
             if receiver = world then ToAll (ct_packet node)
             else ToOne receiver (ct_packet node) (sender \<noteq> None \<and> message \<noteq> None)
         | _ \<Rightarrow> ChatFault)
      else if ct_req node = LOGIN then
        (case chat_login (ct_packet node) of
           None \<Rightarrow> ChatFault
         | Some None \<Rightarrow> ChatIdle
         | Some (Some (user, end_point)) \<Rightarrow> AddingUser user end_point)
      else ChatIdle)"

definition after_send :: "bool \<Rightarrow> chat_pc" where
  "after_send ok = (if ok then ChatIdle else ChatFault)"

text \<open>
  A step of the chat thread, \<open>None\<close> while it waits.  \<open>order\<close> is the order in which the \<open>unordered_map\<close>
  is walked; the table cannot change on the way, as \<open>sendToAllUser\<close> holds the lock.
\<close>

fun chat_thread ::
  "((nat \<times> byte list) list \<Rightarrow> (nat \<times> byte list) list) \<Rightarrow> u32 \<Rightarrow> chat_pc \<Rightarrow> chat_server \<Rightarrow>
   chat_server option" where
  "chat_thread order max_id ChatIdle s =
     (if sv_running s then
        (case try_pop (sv_tasks s) of
           (None, _) \<Rightarrow> None
         | (Some node, q) \<Rightarrow> Some (s\<lparr>sv_tasks := q, sv_chat := chat_dispatch node\<rparr>))
      else None)"
| "chat_thread order max_id (AddingUser user end_point) s =
     Some (s\<lparr>sv_table := addUser user end_point (sv_table s), sv_chat := ChatIdle\<rparr>)"
| "chat_thread order max_id (ToAll packet) s =
     Some (s\<lparr>sv_chat := Broadcasting packet (map fst (order (uc_conns (sv_table s))))\<rparr>)"
| "chat_thread order max_id (Broadcasting packet []) s = Some (s\<lparr>sv_chat := ChatIdle\<rparr>)"
| "chat_thread order max_id (Broadcasting packet (e # es)) s =
     (case do { copy \<leftarrow> Packet_GetCopy max_id packet; chat_push e copy (sv_live s) } of
        None \<Rightarrow> Some (s\<lparr>sv_chat := ChatFault\<rparr>)
      | Some None \<Rightarrow> None
      | Some (Some live) \<Rightarrow> Some (s\<lparr>sv_live := live, sv_chat := Broadcasting packet es\<rparr>))"
| "chat_thread order max_id (ToOne receiver packet ok) s =
     Some (s\<lparr>sv_chat := (if contains receiver (sv_table s) then FindOne receiver packet ok else ChatIdle)\<rparr>)"
| "chat_thread order max_id (FindOne receiver packet ok) s =
     Some (s\<lparr>sv_chat := (case getEndPointByUser receiver (sv_table s) of
        None \<Rightarrow> after_send ok
      | Some e \<Rightarrow> SendingTo e packet ok)\<rparr>)"
| "chat_thread order max_id (SendingTo e packet ok) s =
     (case chat_push e packet (sv_live s) of
        None \<Rightarrow> Some (s\<lparr>sv_chat := ChatFault\<rparr>)
      | Some None \<Rightarrow> None
      | Some (Some live) \<Rightarrow> Some (s\<lparr>sv_live := live, sv_chat := SettingEvent e ok\<rparr>))"
| "chat_thread order max_id (SettingEvent e ok) s =
     Some (s\<lparr>sv_chat := (if map_of (sv_live s) e = None then ChatFault else after_send ok)\<rparr>)"
| "chat_thread order max_id ChatFault s = None"

text \<open>What the event loop does after it has left its waiting place.\<close>

fun loop_thread :: "loop_pc \<Rightarrow> chat_server \<Rightarrow> chat_server option" where
  "loop_thread (Pushing node) s =
     (case try_push node (sv_tasks s) of
        (True, q) \<Rightarrow> Some (s\<lparr>sv_tasks := q, sv_loop := LoopIdle\<rparr>)
      | (False, _) \<Rightarrow> None)"
| "loop_thread (Closing e) s =
     (if holds_lock (sv_chat s) then None
      else Some (s\<lparr>sv_table := ChatHandler_OnClose e (sv_table s), sv_loop := Deleting e\<rparr>))"
| "loop_thread (Deleting e) s = Some (s\<lparr>sv_live := AList.delete e (sv_live s), sv_loop := LoopIdle\<rparr>)"
| "loop_thread _ s = None"

text \<open>The events; those of the network reach the loop only while it waits.\<close>

datatype chat_action =
  ChatTurn
| LoopTurn
| Accept nat
| Receive nat "nat packet"
| Disconnect nat
| Output nat

fun chat_exec ::
  "((nat \<times> byte list) list \<Rightarrow> (nat \<times> byte list) list) \<Rightarrow> u32 \<Rightarrow> chat_action \<Rightarrow> chat_server \<Rightarrow>
   chat_server option" where
  "chat_exec order max_id ChatTurn s = chat_thread order max_id (sv_chat s) s"
| "chat_exec order max_id LoopTurn s = loop_thread (sv_loop s) s"
| "chat_exec order max_id (Accept e) s =
     (if sv_loop s = LoopIdle \<and> map_of (sv_live s) e = None
      then Some (s\<lparr>sv_live := AList.update e TaskQueue_default (sv_live s)\<rparr>) else None)"
| "chat_exec order max_id (Receive e packet) s =
     (if sv_loop s = LoopIdle \<and> map_of (sv_live s) e \<noteq> None
      then Some (s\<lparr>sv_loop := (case ChatHandler_EchoFromServer (packet\<lparr>pt_end_point := Some e\<rparr>) of
             None \<Rightarrow> LoopFault
           | Some node \<Rightarrow> Pushing node)\<rparr>) else None)"
| "chat_exec order max_id (Disconnect e) s =
     (if sv_loop s = LoopIdle \<and> map_of (sv_live s) e \<noteq> None
      then Some (s\<lparr>sv_loop := Closing e\<rparr>) else None)"
| "chat_exec order max_id (Output e) s =
     (if sv_loop s = LoopIdle then
        (case map_of (sv_live s) e of
           None \<Rightarrow> None
         | Some queue \<Rightarrow>
             (case try_pop queue of
                (None, _) \<Rightarrow> None
              | (Some packet, queue) \<Rightarrow>
                  Some (s\<lparr>sv_live := AList.update e queue (sv_live s), sv_sent := sv_sent s @ [(e, packet)]\<rparr>)))
      else None)"

abbreviation chat_run ::
  "((nat \<times> byte list) list \<Rightarrow> (nat \<times> byte list) list) \<Rightarrow> u32 \<Rightarrow> chat_action list \<Rightarrow> chat_server \<Rightarrow>
   chat_server option" where
  "chat_run order max_id \<equiv> foldM (chat_exec order max_id)"

end
