(* ===== verification/ChatFacts.thy ===== *)
theory ChatFacts
  imports ChatCore
begin

text \<open>
  What a packet of the chat programs says, from the bytes the client writes to the request the server
  reads and the line the other client shows; the table of users as two maps, under a contract that the
  lemmas about registration need and nothing else.
\<close>

section \<open>Strings in packets\<close>

definition net_string :: "byte list \<Rightarrow> byte list" where
  "net_string s = wr_i32 (int (length s)) @ s"

definition chat_body :: "byte list \<Rightarrow> byte list \<Rightarrow> byte list \<Rightarrow> byte list" where
  "chat_body sender receiver message = net_string sender @ net_string receiver @ net_string message"

lemma length_net_string [simp]: "length (net_string s) = 4 + length s"
  by (simp add: net_string_def)

lemma length_chat_body: "length (chat_body s r m) = length s + length r + length m + 12"
  by (simp add: chat_body_def)

lemma set_net_string_ok:
  assumes "pk_written_in k bs (4 + (length s + n)) p"
  shows "\<exists>p'. set_net_string s p = Some p' \<and> pk_written_in k (bs @ net_string s) n p'"
proof -
  from set_net_i32_ok [OF assms, of "int (length s)"] obtain p1 where
    p1: "set_net_i32 (int (length s)) p = Some p1"
      "pk_written_in k (bs @ wr_i32 (int (length s))) (length s + n) p1" by blast
  from SetString_ok [OF p1(2)] p1(1) show ?thesis by (auto simp: set_net_string_def net_string_def)
qed

lemma get_net_string_ok:
  assumes "pk_rest p (net_string s @ xs)" and "length s < 2 ^ 31"
  obtains p1 p2 where "get_net_i32 p = Some (int (length s), p1)"
    and "Package_GetString (int (length s)) p1 = Some (Some s, p2)" and "pk_rest p2 xs"
proof -
  have "i32_ok (int (length s))" using assms(2) by (simp add: i32_ok_def)
  with get_net_i32_ok [of p "int (length s)" "s @ xs"] assms(1) obtain p1 where
    "get_net_i32 p = Some (int (length s), p1)" "pk_rest p1 (s @ xs)" by (auto simp: net_string_def)
  with GetString_ok [OF this(2), of "int (length s)"] show ?thesis by (auto intro: that)
qed

text \<open>
  A packet carries a request type and a body: its head starts with the type, its data with the body,
  and the lengths it gives lie inside of what is allocated.
\<close>

definition chat_packet :: "int \<Rightarrow> byte list \<Rightarrow> 'e packet \<Rightarrow> bool" where
  "chat_packet req body p \<longleftrightarrow>
     (\<exists>h hr d dr n. pt_head p = Some (wr_i32 req @ h # hr) \<and> pt_head_length p = Some (u32_of 5) \<and>
        pt_data p = Some (body @ d @ dr) \<and> n = length (body @ d) \<and> n < 2 ^ 31 \<and>
        pt_data_length p = Some (u32_of (int n)))"

lemma chat_packetI:
  assumes "pt_head p = Some (wr_i32 req @ h # hr)" and "pt_head_length p = Some (u32_of 5)"
    and "pt_data p = Some (body @ d @ dr)" and "pt_data_length p = Some (u32_of (int (length (body @ d))))"
    and "length (body @ d) < 2 ^ 31"
  shows "chat_packet req body p"
  unfolding chat_packet_def using assms by blast

lemma chat_packetE:
  assumes "chat_packet req body p"
  obtains h hr d dr where "pt_head p = Some (wr_i32 req @ h # hr)" and "pt_head_length p = Some (u32_of 5)"
    and "pt_data p = Some (body @ d @ dr)" and "length (body @ d) < 2 ^ 31"
    and "pt_data_length p = Some (u32_of (int (length (body @ d))))"
  using assms by (auto simp: chat_packet_def)

lemma chat_packet_end_point [simp]: "chat_packet req body (p\<lparr>pt_end_point := e\<rparr>) = chat_packet req body p"
  by (simp add: chat_packet_def)

lemma chat_packet_body: "chat_packet req body p \<Longrightarrow> length body < 2 ^ 31"
  by (auto simp: chat_packet_def)

lemma sint_length: "n < 2 ^ 31 \<Longrightarrow> sint (u32_of (int n)) = int n"
  by (simp add: i32_ok_def)

text \<open>The bytes of the body lie before the cursor of a fresh \<open>Package\<close>.\<close>

lemma chat_packet_data:
  assumes "chat_packet req body p"
  obtains dat n where "pt_data p = Some dat" and "pt_data_length p = Some (u32_of (int n))"
    and "n < 2 ^ 31" and "length body \<le> n" and "sint (u32_of (int n)) = int n"
    and "pk_rest (Package_set_data dat (int n) Package_new) body"
proof -
  from assms obtain d dr where p: "pt_data p = Some (body @ d @ dr)" "length (body @ d) < 2 ^ 31"
    "pt_data_length p = Some (u32_of (int (length (body @ d))))" by (rule chat_packetE)
  show ?thesis
    by (rule that [OF p(1,3,2)]) (use p(2) in \<open>simp_all add: sint_length pk_rest_start i32_ok_def\<close>)
qed

lemma chat_packet_head:
  assumes "chat_packet req body p" and "i32_ok req"
  shows "ChatHandler_EchoFromServer (p :: nat packet) = Some \<lparr>ct_packet = p, ct_req = req\<rparr>"
proof -
  from assms(1) obtain h hr where p: "pt_head p = Some (wr_i32 req @ h # hr)"
    "pt_head_length p = Some (u32_of 5)" by (rule chat_packetE)
  have five: "sint (u32_of 5) = 5" by (simp add: i32_ok_def)
  have "pk_rest (Package_set_data (wr_i32 req @ h # hr) 5 Package_new) (wr_i32 req @ [])"
    by (simp add: pk_rest_start)
  from get_net_i32_ok [OF this assms(2)] p five show ?thesis
    by (auto simp: ChatHandler_EchoFromServer_def)
qed

lemma chat_message_ok:
  assumes "chat_packet req (chat_body s r m) p"
  shows "chat_message p = Some (Some s, Some r, Some m)"
proof -
  have len: "length s < 2 ^ 31" "length r < 2 ^ 31" "length m < 2 ^ 31"
    using chat_packet_body [OF assms] by (simp_all add: length_chat_body)
  from assms obtain dat n where p: "pt_data p = Some dat" "pt_data_length p = Some (u32_of (int n))"
    "sint (u32_of (int n)) = int n"
    "pk_rest (Package_set_data dat (int n) Package_new) (chat_body s r m)" by (rule chat_packet_data)
  from p(4) have "pk_rest (Package_set_data dat (int n) Package_new)
      (net_string s @ net_string r @ net_string m @ [])" by (simp add: chat_body_def)
  from get_net_string_ok [OF this len(1)] obtain p1 p2 where
    p1: "get_net_i32 (Package_set_data dat (int n) Package_new) = Some (int (length s), p1)"
      "Package_GetString (int (length s)) p1 = Some (Some s, p2)"
      "pk_rest p2 (net_string r @ net_string m @ [])" by blast
  from get_net_string_ok [OF p1(3) len(2)] obtain p3 p4 where
    p3: "get_net_i32 p2 = Some (int (length r), p3)"
      "Package_GetString (int (length r)) p3 = Some (Some r, p4)" "pk_rest p4 (net_string m @ [])" by blast
  from get_net_string_ok [OF p3(3) len(3)] obtain p5 p6 where
    "get_net_i32 p4 = Some (int (length m), p5)"
    "Package_GetString (int (length m)) p5 = Some (Some m, p6)" by blast
  with p p1 p3 show ?thesis by (simp add: chat_message_def)
qed

lemma u64_room:
  assumes "4 + int k \<le> i" and "i < 2 ^ 31"
  shows "\<not> (ucast (u32_of i) - 4 :: 64 word) < word_of_int (int k)"
proof -
  have "uint (ucast (u32_of i) :: 64 word) = i"
    using assms by (simp add: u32_of_def unsigned_ucast_eq unsigned_of_int take_bit_int_eq_self)
  then have "(ucast (u32_of i) :: 64 word) = word_of_int i" by (metis word_of_int_uint)
  then have "(ucast (u32_of i) - 4 :: 64 word) = word_of_int (i - 4)" by simp
  moreover have "uint (word_of_int (int k) :: 64 word) = int k"
    using assms by (simp only: uint_word_of_int) (simp add: take_bit_int_eq_self)
  moreover have "uint (word_of_int (i - 4) :: 64 word) = i - 4"
    using assms by (simp only: uint_word_of_int) (simp add: take_bit_int_eq_self)
  ultimately show ?thesis using assms(1) by (simp only: word_less_def)
qed

lemma chat_login_ok:
  assumes "chat_packet req (net_string u) p" and "pt_end_point p = Some e"
  shows "chat_login p = Some (Some (u, e))"
proof -
  have len: "length u < 2 ^ 31" using chat_packet_body [OF assms(1)] by simp
  from assms(1) obtain dat n where p: "pt_data p = Some dat" "pt_data_length p = Some (u32_of (int n))"
    "n < 2 ^ 31" "length (net_string u) \<le> n" "sint (u32_of (int n)) = int n"
    "pk_rest (Package_set_data dat (int n) Package_new) (net_string u)" by (rule chat_packet_data)
  from p(6) have "pk_rest (Package_set_data dat (int n) Package_new) (net_string u @ [])" by simp
  from get_net_string_ok [OF this len] obtain p1 p2 where
    p1: "get_net_i32 (Package_set_data dat (int n) Package_new) = Some (int (length u), p1)"
      "Package_GetString (int (length u)) p1 = Some (Some u, p2)" by blast
  have "4 + int (length u) \<le> int n" and "int n < 2 ^ 31" using p(3,4) by simp_all
  from u64_room [OF this] have
    "\<not> (ucast (u32_of (int n)) - 4 :: 64 word) < word_of_int (int (length u))" by simp
  with p p1 assms(2) show ?thesis by (simp add: chat_login_def)
qed

text \<open>The stream and \<open>GetCopy\<close> keep what a packet carries.\<close>

lemma chat_packet_deliver:
  assumes "chat_packet req body p"
  shows "\<exists>q. deliver p = Some q \<and> chat_packet req body q"
proof -
  from assms obtain h hr d dr where p: "pt_head p = Some (wr_i32 req @ h # hr)"
    "pt_head_length p = Some (u32_of 5)" "pt_data p = Some (body @ d @ dr)" "length (body @ d) < 2 ^ 31"
    "pt_data_length p = Some (u32_of (int (length (body @ d))))" by (rule chat_packetE)
  from deliver_ok [of p "wr_i32 req @ [h]" hr "body @ d" dr] p show ?thesis
    by (auto simp: chat_packet_def)
qed

lemma chat_packet_copy:
  assumes "chat_packet req body p" and "pt_end_point p = Some e"
  shows "\<exists>q. Packet_GetCopy max_id p = Some q \<and> chat_packet req body q"
proof -
  from assms(1) obtain h hr d dr where p: "pt_head p = Some (wr_i32 req @ h # hr)"
    "pt_head_length p = Some (u32_of 5)" "pt_data p = Some (body @ d @ dr)" "length (body @ d) < 2 ^ 31"
    "pt_data_length p = Some (u32_of (int (length (body @ d))))" by (rule chat_packetE)
  then have "load (wr_i32 req @ h # hr) 0 5 = Some (wr_i32 req @ [h])"
    "load (body @ d @ dr) 0 (length (body @ d)) = Some (body @ d)" by (simp_all add: load_def)
  moreover have "unat (u32_of 5) = 5" "unat (u32_of (int (length (body @ d)))) = length (body @ d)"
    using p(4) by (simp_all add: unat_u32_of)
  ultimately show ?thesis
    using p assms(2)
    by (auto simp: Packet_GetCopy_def Let_def Packet_set_head_def Packet_set_packet_def
        intro!: chat_packetI [where h = h and hr = "[]" and d = d and dr = "[]"])
qed

lemma ClientHandler_ok:
  "chat_packet req (chat_body s r m) p \<Longrightarrow>
   ClientHandler_OnReceived p = Some (if r \<noteq> world then PrivateMessage s m else WorldMessage s m)"
  by (simp add: ClientHandler_OnReceived_def chat_message_ok)

section \<open>The requests of the client\<close>

lemma chat_head_ok:
  assumes "fresh_ok fresh"
  shows "\<exists>h. chat_head fresh req = Some (wr_i32 req @ [h])"
proof -
  have "pk_written_in 0 [] (4 + 1) (Package_set_data (fresh 5) 5 Package_new)"
    using pk_written_start [of "fresh 5" 5 0 Package_new] assms by (simp add: fresh_ok_def)
  from set_net_i32_ok [OF this, of req] obtain p where
    p: "set_net_i32 req (Package_set_data (fresh 5) 5 Package_new) = Some p"
      "pk_written_in 0 (wr_i32 req) 1 p" by auto
  from pk_written_mem [OF p(2)] obtain r where "pk_mem p = wr_i32 req @ r" "length r = 1" by auto
  then show ?thesis using p(1) by (auto simp: chat_head_def length_Suc_conv)
qed

lemma Chat_SendMessage_ok:
  assumes "fresh_ok fresh" and "length (cc_user_name c) + length receiver + length message < 2 ^ 30"
  shows "\<exists>p. Chat_SendMessage fresh receiver message c = Some p \<and>
             chat_packet SEND_MSG (chat_body (cc_user_name c) receiver message) p"
proof -
  let ?u = "cc_user_name c"
  define N where "N = length ?u + length receiver + length message + 13"
  from chat_head_ok [OF assms(1)] obtain h where h: "chat_head fresh SEND_MSG = Some (wr_i32 SEND_MSG @ [h])" by blast
  have n: "to_i32 (int (length receiver) + 4 + int (length ?u) + 4 + int (length message) + 4 + 1) = int N"
    using assms(2) by (subst to_i32_ok) (simp_all add: i32_ok_def N_def)
  define P where "P = Package_set_data (fresh N) (int N) Package_new"
  have "pk_written_in 0 [] (4 + (length ?u + (4 + (length receiver + (4 + (length message + 1)))))) P"
    using pk_written_start [of "fresh N" N 0 Package_new] assms(1)
    by (simp add: fresh_ok_def P_def N_def algebra_simps)
  from set_net_string_ok [OF this] obtain p1 where
    p1: "set_net_string ?u P = Some p1"
      "pk_written_in 0 (net_string ?u) (4 + (length receiver + (4 + (length message + 1)))) p1" by auto
  from set_net_string_ok [OF p1(2)] obtain p2 where
    p2: "set_net_string receiver p1 = Some p2"
      "pk_written_in 0 (net_string ?u @ net_string receiver) (4 + (length message + 1)) p2" by blast
  from set_net_string_ok [OF p2(2)] obtain p3 where
    p3: "set_net_string message p2 = Some p3"
      "pk_written_in 0 (chat_body ?u receiver message) 1 p3" by (auto simp: chat_body_def)
  from pk_written_mem [OF p3(2)] obtain r where
    r: "pk_mem p3 = chat_body ?u receiver message @ r" "length r = 1" by auto
  have "Chat_SendMessage fresh receiver message c =
      Some (new_packet (wr_i32 SEND_MSG @ [h]) 5 (pk_mem p3) (int N) :: 'a packet)"
    unfolding Chat_SendMessage_def Let_def n nat_int
    using h p1(1) p2(1) p3(1) by (simp add: P_def [symmetric])
  moreover have "chat_packet SEND_MSG (chat_body ?u receiver message)
      (new_packet (wr_i32 SEND_MSG @ [h]) 5 (pk_mem p3) (int N) :: 'a packet)"
    using r assms(2)
    by (intro chat_packetI [where h = h and hr = "[]" and d = r and dr = "[]"])
      (simp_all add: new_packet_def Packet_set_packet_def Packet_set_head_def length_chat_body N_def algebra_simps)
  ultimately show ?thesis by blast
qed

lemma Chat_Login_ok:
  assumes "fresh_ok fresh" and "length u < 2 ^ 30"
  shows "\<exists>p. Chat_Login fresh u c = Some (p, c\<lparr>cc_user_name := u\<rparr>) \<and> chat_packet LOGIN (net_string u) p"
proof -
  from chat_head_ok [OF assms(1)] obtain h where h: "chat_head fresh LOGIN = Some (wr_i32 LOGIN @ [h])" by blast
  define N where "N = length u + 5"
  have n: "int (length u) + 4 + 1 = int N" "to_i32 (int N) = int N"
    using assms(2) by (simp_all add: to_i32_ok i32_ok_def N_def)
  define P where "P = Package_set_data (fresh N) (int N) Package_new"
  have "pk_written_in 0 [] (4 + (length u + 1)) P"
    using pk_written_start [of "fresh N" N 0 Package_new] assms(1)
    by (simp add: fresh_ok_def P_def N_def algebra_simps)
  from set_net_string_ok [OF this] obtain p1 where
    p1: "set_net_string u P = Some p1" "pk_written_in 0 (net_string u) 1 p1" by auto
  from pk_written_mem [OF p1(2)] obtain r where r: "pk_mem p1 = net_string u @ r" "length r = 1" by auto
  have "Chat_Login fresh u c = Some (new_packet (wr_i32 LOGIN @ [h]) 5 (pk_mem p1) (int (length u) + 4) :: 'a packet,
      c\<lparr>cc_user_name := u\<rparr>)"
    unfolding Chat_Login_def Let_def n nat_int using h p1(1) by (simp add: P_def [symmetric])
  moreover have "chat_packet LOGIN (net_string u)
      (new_packet (wr_i32 LOGIN @ [h]) 5 (pk_mem p1) (int (length u) + 4) :: 'a packet)"
    using r assms(2)
    by (intro chat_packetI [where h = h and hr = "[]" and d = "[]" and dr = r])
      (simp_all add: new_packet_def Packet_set_packet_def Packet_set_head_def algebra_simps)
  ultimately show ?thesis by blast
qed

end
