(* ===== verification/ChatSystem.thy ===== *)
theory ChatSystem
  imports ChatFacts
begin

text \<open>
  The chat server as a system of two threads and a network: its runs, the invariants of its reachable
  states and the states in which nothing can happen any more.
\<close>

section \<open>The table of users as two maps\<close>

definition inverse_maps :: "('u \<Rightarrow> 'e option) \<Rightarrow> ('e \<Rightarrow> 'u option) \<Rightarrow> bool" where
  "inverse_maps f g \<longleftrightarrow> (\<forall>u e. f u = Some e \<longleftrightarrow> g e = Some u)"

text \<open>What the server needs of the table: the effect of a login and of a lost connection on both maps.\<close>

locale registry =
  fixes users :: "'s \<Rightarrow> 'u \<Rightarrow> 'e option"
    and conns :: "'s \<Rightarrow> 'e \<Rightarrow> 'u option"
    and add :: "'u \<Rightarrow> 'e \<Rightarrow> 's \<Rightarrow> 's"
    and close :: "'e \<Rightarrow> 's \<Rightarrow> 's"
  assumes users_add: "users (add u e s) = (users s)(u \<mapsto> e)"
    and conns_add: "conns (add u e s) = (conns s)(e \<mapsto> u)"
    and users_close: "users (close e s) = (case conns s e of None \<Rightarrow> users s | Some u \<Rightarrow> (users s)(u := None))"
    and conns_close: "conns (close e s) = (conns s)(e := None)"
begin

lemma add_inverse:
  "inverse_maps (users s) (conns s) \<Longrightarrow> users s u = None \<Longrightarrow> conns s e = None \<Longrightarrow>
   inverse_maps (users (add u e s)) (conns (add u e s))"
  unfolding inverse_maps_def users_add conns_add by (metis fun_upd_apply option.distinct(1) option.inject)

lemma close_inverse:
  "inverse_maps (users s) (conns s) \<Longrightarrow> inverse_maps (users (close e s)) (conns (close e s))"
  unfolding inverse_maps_def users_close conns_close
  by (cases "conns s e") (simp_all, metis option.distinct(1) option.inject)

lemma close_unregisters: "inverse_maps (users s) (conns s) \<Longrightarrow> users (close e s) u \<noteq> Some e"
  using close_inverse [of s e] by (auto simp: inverse_maps_def conns_close)

lemma close_other: "inverse_maps (users s) (conns s) \<Longrightarrow> conns s e \<noteq> Some u \<Longrightarrow> users (close e s) u = users s u"
  by (auto simp: users_close inverse_maps_def split: option.splits)

text \<open>A second name on one connection: the first stays registered when the connection is lost.\<close>

lemma second_name_stays:
  "users s v = Some e \<Longrightarrow> u \<noteq> v \<Longrightarrow> users (close e (add u e s)) v = Some e \<and> conns (close e (add u e s)) e = None"
  by (auto simp: users_close conns_close users_add conns_add)

end

text \<open>Removal by name, which the server does not use.\<close>

locale registry_by_name = registry +
  fixes remove :: "'u \<Rightarrow> 's \<Rightarrow> 's"
  assumes users_remove: "users (remove u s) = (users s)(u := None)"
    and conns_remove: "conns (remove u s) = (case users s u of None \<Rightarrow> conns s | Some e \<Rightarrow> (conns s)(e := None))"
begin

lemma remove_inverse:
  "inverse_maps (users s) (conns s) \<Longrightarrow> inverse_maps (users (remove u s)) (conns (remove u s))"
proof (cases "users s u")
  case (Some e)
  assume "inverse_maps (users s) (conns s)"
  then have i: "users s v = Some d \<longleftrightarrow> conns s d = Some v" for v d by (simp add: inverse_maps_def)
  have "((users s)(u := None)) v = Some d \<longleftrightarrow> ((conns s)(e := None)) d = Some v" for v d
    using i [of v d] i [of u d] i [of v e] Some by auto
  with Some show ?thesis by (simp add: inverse_maps_def users_remove conns_remove)
next
  case None
  then have "(users s)(u := None) = users s" by auto
  moreover assume "inverse_maps (users s) (conns s)"
  ultimately show ?thesis using None by (simp add: users_remove conns_remove)
qed

lemma remove_is_close:
  "inverse_maps (users s) (conns s) \<Longrightarrow> users s u = Some e \<Longrightarrow>
   users (remove u s) = users (close e s) \<and> conns (remove u s) = conns (close e s)"
proof -
  assume i: "inverse_maps (users s) (conns s)" and u: "users s u = Some e"
  then have "conns s e = Some u" by (simp add: inverse_maps_def)
  with u show ?thesis by (simp add: users_remove conns_remove users_close conns_close)
qed

end

abbreviation tb_users :: "user_connection \<Rightarrow> byte list \<Rightarrow> nat option" where
  "tb_users c \<equiv> map_of (uc_users c)"

abbreviation tb_conns :: "user_connection \<Rightarrow> nat \<Rightarrow> byte list option" where
  "tb_conns c \<equiv> map_of (uc_conns c)"

lemmas table_defs = addUser_def removeUser_def removeUser_end_point_def ChatHandler_OnClose_def
  update_conv' delete_conv'

interpretation tb: registry_by_name tb_users tb_conns addUser ChatHandler_OnClose removeUser
  by unfold_locales (auto simp: table_defs split: option.splits)

lemma table_new [simp]: "tb_users UserConnection_new u = None" "tb_conns UserConnection_new e = None"
  by (simp_all add: UserConnection_new_def)

section \<open>Reachable states\<close>

text \<open>\<open>D\<close> restricts the steps that are taken.\<close>

inductive chat_reach ::
  "((nat \<times> byte list) list \<Rightarrow> (nat \<times> byte list) list) \<Rightarrow> u32 \<Rightarrow> (chat_action \<Rightarrow> chat_server \<Rightarrow> bool) \<Rightarrow>
   chat_server \<Rightarrow> bool" for order max_id D where
  chat_start: "chat_reach order max_id D ChatServer_Init"
| chat_next: "chat_reach order max_id D s \<Longrightarrow> chat_exec order max_id a s = Some s' \<Longrightarrow> D a s \<Longrightarrow>
    chat_reach order max_id D s'"

lemma chat_reach_run:
  assumes "chat_run order max_id as s = Some s'" and "chat_reach order max_id (\<lambda>_ _. True) s"
  shows "chat_reach order max_id (\<lambda>_ _. True) s'"
  using assms
proof (induction as arbitrary: s)
  case (Cons a as)
  then show ?case by (auto simp: bind_eq_Some_conv intro: chat_next)
qed simp

lemma chat_Init_simps [simp]:
  "sv_table ChatServer_Init = UserConnection_new" "sv_tasks ChatServer_Init = TaskQueue_default"
  "sv_live ChatServer_Init = []" "sv_chat ChatServer_Init = ChatIdle" "sv_loop ChatServer_Init = LoopIdle"
  "sv_running ChatServer_Init" "sv_sent ChatServer_Init = []"
  by (simp_all add: ChatServer_Init_def ChatProcess_Start_def)

text \<open>The queues of the server.\<close>

definition queue_wf :: "'a task_queue \<Rightarrow> bool" where
  "queue_wf q \<longleftrightarrow> tq_limit q = 10 \<and> length (tq_data q) \<le> 10"

lemma queue_wf_default [simp]: "queue_wf TaskQueue_default"
  by (simp add: queue_wf_def TaskQueue_default_def TaskQueue_new_def)

lemma queue_wf_push: "queue_wf q \<Longrightarrow> try_push x q = (ok, q') \<Longrightarrow> queue_wf q'"
  by (auto simp: queue_wf_def try_push_def split: if_splits)

lemma queue_wf_pop: "queue_wf q \<Longrightarrow> try_pop q = (r, q') \<Longrightarrow> queue_wf q'"
  by (cases rule: try_pop_cases [of q]) (auto simp: queue_wf_def)

lemma map_of_update [simp]: "map_of (AList.update k v xs) = (map_of xs)(k \<mapsto> v)"
  by (simp add: update_conv')

lemma map_of_delete [simp]: "map_of (AList.delete k xs) = (map_of xs)(k := None)"
  by (simp add: delete_conv')

lemma chat_push_cases:
  obtains "map_of live e = None" "chat_push e p live = None"
  | q q' where "map_of live e = Some q" "try_push p q = (True, q')"
      "chat_push e p live = Some (Some (AList.update e q' live))"
  | q q' where "map_of live e = Some q" "try_push p q = (False, q')" "chat_push e p live = Some None"
proof (cases "map_of live e")
  case (Some q)
  obtain ok q' where "try_push p q = (ok, q')" by (cases "try_push p q")
  with Some that show ?thesis by (cases ok) (simp_all add: chat_push_def)
qed (simp add: chat_push_def that)

lemma chat_pushD:
  "chat_push e p live = Some (Some live') \<Longrightarrow>
   \<exists>q q'. map_of live e = Some q \<and> try_push p q = (True, q') \<and> live' = AList.update e q' live"
  by (cases rule: chat_push_cases [of live e p]) auto

lemma chat_push_dom: "chat_push e p live = Some (Some live') \<Longrightarrow> dom (map_of live') = dom (map_of live)"
  by (auto dest!: chat_pushD split: if_splits)

text \<open>Well-formed states: tables without double keys and queues within their limits.\<close>

definition table_wf :: "user_connection \<Rightarrow> bool" where
  "table_wf c \<longleftrightarrow> distinct (map fst (uc_users c)) \<and> distinct (map fst (uc_conns c))"

definition live_wf :: "(nat \<times> nat packet task_queue) list \<Rightarrow> bool" where
  "live_wf live \<longleftrightarrow> distinct (map fst live) \<and> (\<forall>e q. map_of live e = Some q \<longrightarrow> queue_wf q)"

definition chat_wf :: "chat_server \<Rightarrow> bool" where
  "chat_wf s \<longleftrightarrow> table_wf (sv_table s) \<and> live_wf (sv_live s) \<and> queue_wf (sv_tasks s) \<and> sv_running s"

lemma table_wf_new [simp]: "table_wf UserConnection_new"
  by (simp add: table_wf_def UserConnection_new_def)

lemma table_wf_add: "table_wf c \<Longrightarrow> table_wf (addUser u e c)"
  by (simp add: table_wf_def addUser_def distinct_update)

lemma table_wf_remove: "table_wf c \<Longrightarrow> table_wf (removeUser u c)"
  by (simp add: table_wf_def removeUser_def distinct_delete split: option.split)

lemma table_wf_close: "table_wf c \<Longrightarrow> table_wf (ChatHandler_OnClose e c)"
  by (simp add: table_wf_def ChatHandler_OnClose_def removeUser_end_point_def distinct_delete split: option.split)

lemma live_wf_queue: "live_wf live \<Longrightarrow> map_of live e = Some q \<Longrightarrow> queue_wf q"
  by (simp add: live_wf_def)

lemma live_wf_pop:
  "live_wf live \<Longrightarrow> map_of live e = Some q \<Longrightarrow> try_pop q = (r, q') \<Longrightarrow> queue_wf q'"
  by (blast intro: queue_wf_pop live_wf_queue)

lemma live_wf_update: "live_wf live \<Longrightarrow> queue_wf q \<Longrightarrow> live_wf (AList.update e q live)"
  by (simp add: live_wf_def distinct_update)

lemma live_wf_push: "live_wf live \<Longrightarrow> chat_push e p live = Some (Some live') \<Longrightarrow> live_wf live'"
  by (auto dest!: chat_pushD intro: live_wf_update queue_wf_push live_wf_queue)

lemma live_wf_delete: "live_wf live \<Longrightarrow> live_wf (AList.delete e live)"
  by (simp add: live_wf_def distinct_delete)

lemmas wf_intros = table_wf_add table_wf_close live_wf_update live_wf_delete
lemmas wf_dests = live_wf_push live_wf_pop queue_wf_push queue_wf_pop

lemmas exec_splits = option.splits if_splits prod.splits bool.splits

lemma chat_thread_wf:
  assumes "chat_thread order max_id c s = Some s'" and "chat_wf s"
  shows "chat_wf s'"
  using assms unfolding chat_wf_def
  by (induction order max_id c s rule: chat_thread.induct) (auto split: exec_splits bind_splits dest: wf_dests intro!: wf_intros)

lemma loop_thread_wf:
  assumes "loop_thread l s = Some s'" and "chat_wf s"
  shows "chat_wf s'"
  using assms unfolding chat_wf_def
  by (induction l s rule: loop_thread.induct) (auto split: exec_splits dest: wf_dests intro!: wf_intros)

lemma chat_exec_wf:
  assumes "chat_exec order max_id a s = Some s'" and "chat_wf s"
  shows "chat_wf s'"
proof (cases a)
  case ChatTurn
  with assms chat_thread_wf show ?thesis by simp
next
  case LoopTurn
  with assms loop_thread_wf show ?thesis by simp
qed (use assms in \<open>auto simp: chat_wf_def split: exec_splits dest: wf_dests intro!: wf_intros\<close>)

lemma chat_reach_wf: "chat_reach order max_id D s \<Longrightarrow> chat_wf s"
proof (induction rule: chat_reach.induct)
  case chat_start
  then show ?case by (simp add: chat_wf_def live_wf_def)
next
  case (chat_next s a s')
  then show ?case by (blast intro: chat_exec_wf)
qed

end
