(* ===== verification/ChatSafety.thy ===== *)
theory ChatSafety
  imports ChatSystem
begin

text \<open>
  What keeps the chat server from touching a connection that is gone: conditions on its clients and on
  the timing, and the invariant of all states reached under them.
\<close>

section \<open>The conditions\<close>

text \<open>The connections a thread of the server is going to touch without a further look at the table.\<close>

fun touches :: "chat_pc \<Rightarrow> nat \<Rightarrow> bool" where
  "touches (Broadcasting _ es) e = (e \<in> set es)"
| "touches (SendingTo e' _ _) e = (e = e')"
| "touches (SettingEvent e' _) e = (e = e')"
| "touches _ e = False"

text \<open>A place from which no null string and no uncopyable packet is reached.\<close>

fun pc_sane :: "u32 \<Rightarrow> chat_pc \<Rightarrow> bool" where
  "pc_sane max_id (ToAll p) = (Packet_GetCopy max_id p \<noteq> None)"
| "pc_sane max_id (Broadcasting p _) = (Packet_GetCopy max_id p \<noteq> None)"
| "pc_sane max_id (ToOne _ _ ok) = ok"
| "pc_sane max_id (FindOne _ _ ok) = ok"
| "pc_sane max_id (SendingTo _ _ ok) = ok"
| "pc_sane max_id (SettingEvent _ ok) = ok"
| "pc_sane max_id ChatFault = False"
| "pc_sane max_id _ = True"

definition sane_task :: "u32 \<Rightarrow> chat_task \<Rightarrow> bool" where
  "sane_task max_id node \<longleftrightarrow> pc_sane max_id (chat_dispatch node)"

fun loop_sane :: "u32 \<Rightarrow> loop_pc \<Rightarrow> bool" where
  "loop_sane max_id (Pushing node) = sane_task max_id node"
| "loop_sane max_id LoopFault = False"
| "loop_sane max_id _ = True"

text \<open>
  Requests are well-formed; a login is for a new name on a connection that is alive, not about to go, and
  has no name yet; and no connection goes while a private message to it is under way.
\<close>

fun disciplined :: "u32 \<Rightarrow> chat_action \<Rightarrow> chat_server \<Rightarrow> bool" where
  "disciplined max_id (Receive e p) s =
     (case ChatHandler_EchoFromServer (p\<lparr>pt_end_point := Some e\<rparr>) of
        None \<Rightarrow> False
      | Some node \<Rightarrow> sane_task max_id node)"
| "disciplined max_id ChatTurn s =
     (case sv_chat s of
        AddingUser u e \<Rightarrow>
          map_of (sv_live s) e \<noteq> None \<and> tb_conns (sv_table s) e = None \<and>
          tb_users (sv_table s) u = None \<and> sv_loop s \<noteq> Closing e \<and> sv_loop s \<noteq> Deleting e
      | _ \<Rightarrow> True)"
| "disciplined max_id LoopTurn s =
     (case sv_loop s of Closing e \<Rightarrow> \<not> touches (sv_chat s) e | _ \<Rightarrow> True)"
| "disciplined max_id _ s = True"

text \<open>
  The invariant: the two maps of the table are inverse to each other, what is registered or about to be
  touched is alive, and a connection that is being deleted is neither.
\<close>

definition chat_good :: "u32 \<Rightarrow> chat_server \<Rightarrow> bool" where
  "chat_good max_id s \<longleftrightarrow>
     inverse_maps (tb_users (sv_table s)) (tb_conns (sv_table s)) \<and>
     (\<forall>e. tb_conns (sv_table s) e \<noteq> None \<or> touches (sv_chat s) e \<longrightarrow>
        map_of (sv_live s) e \<noteq> None \<and> sv_loop s \<noteq> Deleting e) \<and>
     pc_sane max_id (sv_chat s) \<and> loop_sane max_id (sv_loop s) \<and>
     (\<forall>node \<in> set (tq_data (sv_tasks s)). sane_task max_id node)"

section \<open>Every step keeps it\<close>

lemma dispatch_touches [simp]: "\<not> touches (chat_dispatch node) e"
  by (auto simp: chat_dispatch_def split: option.splits)

lemma touches_after_send [simp]: "\<not> touches (after_send ok) e"
  by (simp add: after_send_def)

lemma after_send_sane [simp]: "pc_sane max_id (after_send ok) = ok"
  by (simp add: after_send_def)

lemma chat_push_live: "map_of live e \<noteq> None \<Longrightarrow> chat_push e p live \<noteq> None"
  by (cases rule: chat_push_cases [of live e p]) auto

lemma chat_push_same:
  "chat_push e p live = Some (Some live') \<Longrightarrow> map_of live' e' = None \<longleftrightarrow> map_of live e' = None"
  by (auto dest!: chat_pushD split: if_splits)

lemma keys_of_order: "\<forall>xs. set (order xs) = set xs \<Longrightarrow> fst ` set (order xs) = dom (map_of xs)"
  by (simp add: dom_map_of_conv_image_fst)

lemma chat_good_table:
  "chat_good max_id s \<Longrightarrow> inverse_maps (tb_users (sv_table s)) (tb_conns (sv_table s))"
  "chat_good max_id s \<Longrightarrow> tb_users (sv_table s) u = Some e \<Longrightarrow>
     map_of (sv_live s) e \<noteq> None \<and> sv_loop s \<noteq> Deleting e"
  by (auto simp: chat_good_def inverse_maps_def)

lemma good_idle:
  assumes "chat_good max_id s" and "sv_chat s = ChatIdle" and "chat_thread order max_id ChatIdle s = Some s'"
  shows "chat_good max_id s'"
proof (cases rule: try_pop_cases [of "sv_tasks s"])
  case (1 node xs)
  with assms(3) have "s' = s\<lparr>sv_tasks := (sv_tasks s)\<lparr>tq_data := xs\<rparr>, sv_chat := chat_dispatch node\<rparr>"
    by (simp split: if_splits)
  with assms(1,2) 1(1) show ?thesis by (simp add: chat_good_def sane_task_def)
next
  case 2
  with assms(3) show ?thesis by (simp split: if_splits)
qed

lemma good_add:
  assumes "chat_good max_id s" and "sv_chat s = AddingUser u e" and "disciplined max_id ChatTurn s"
  shows "chat_good max_id (s\<lparr>sv_table := addUser u e (sv_table s), sv_chat := ChatIdle\<rparr>)"
  using assms tb.add_inverse [of "sv_table s" u e]
  by (simp add: chat_good_def tb.conns_add)

lemma good_broadcast:
  assumes "chat_good max_id s" and "sv_chat s = Broadcasting p (e # es)"
    and "chat_thread order max_id (sv_chat s) s = Some s'"
  shows "chat_good max_id s'"
proof -
  from assms(1,2) obtain c where c: "Packet_GetCopy max_id p = Some c" by (auto simp: chat_good_def)
  have "map_of (sv_live s) e \<noteq> None" using assms(1,2) by (simp add: chat_good_def)
  from chat_push_live [OF this, of c] assms(2,3) c obtain live where
    "chat_push e c (sv_live s) = Some (Some live)"
    and s': "s' = s\<lparr>sv_live := live, sv_chat := Broadcasting p es\<rparr>"
    by (auto split: exec_splits)
  from chat_push_same [OF this(1)] assms(1,2) show ?thesis by (simp add: chat_good_def s')
qed

lemma good_send:
  assumes "chat_good max_id s" and "sv_chat s = SendingTo e p ok"
    and "chat_thread order max_id (sv_chat s) s = Some s'"
  shows "chat_good max_id s'"
proof -
  have "map_of (sv_live s) e \<noteq> None" using assms(1,2) by (simp add: chat_good_def)
  from chat_push_live [OF this, of p] assms(2,3) obtain live where
    "chat_push e p (sv_live s) = Some (Some live)"
    and s': "s' = s\<lparr>sv_live := live, sv_chat := SettingEvent e ok\<rparr>"
    by (auto split: exec_splits)
  from chat_push_same [OF this(1)] assms(1,2) show ?thesis by (simp add: chat_good_def s')
qed

lemma good_find:
  assumes "chat_good max_id s" and "sv_chat s = FindOne r p ok"
    and "chat_thread order max_id (sv_chat s) s = Some s'"
  shows "chat_good max_id s'"
proof (cases "tb_users (sv_table s) r")
  case None
  with assms show ?thesis by (auto simp: chat_good_def getEndPointByUser_def)
next
  case (Some e)
  with chat_good_table(2) [OF assms(1) Some] assms show ?thesis
    by (auto simp: chat_good_def getEndPointByUser_def)
qed

lemma chat_thread_good:
  assumes "chat_thread order max_id (sv_chat s) s = Some s'" and "chat_good max_id s"
    and "disciplined max_id ChatTurn s" and "\<forall>xs. set (order xs) = set xs"
  shows "chat_good max_id s'"
proof (cases "sv_chat s")
  case (Broadcasting p es)
  show ?thesis
  proof (cases es)
    case Nil
    with assms(1,2) Broadcasting show ?thesis by (auto simp: chat_good_def)
  next
    case (Cons e es')
    with good_broadcast [OF assms(2)] Broadcasting assms(1) show ?thesis by blast
  qed
next
  case (ToAll p)
  have "e \<in> fst ` set (order (uc_conns (sv_table s))) \<longleftrightarrow> tb_conns (sv_table s) e \<noteq> None" for e
    by (simp add: keys_of_order [OF assms(4)] domIff)
  moreover from assms(1) ToAll have
    "s' = s\<lparr>sv_chat := Broadcasting p (map fst (order (uc_conns (sv_table s))))\<rparr>" by simp
  ultimately show ?thesis using assms(2) ToAll by (simp add: chat_good_def)
next
  case ChatIdle
  with assms(1) have "chat_thread order max_id ChatIdle s = Some s'" by simp
  with good_idle [OF assms(2) ChatIdle] show ?thesis .
next
  case (AddingUser u e)
  with assms(1) good_add [OF assms(2) AddingUser assms(3)] show ?thesis by simp
next
  case (SettingEvent e ok)
  with assms(2) have "map_of (sv_live s) e \<noteq> None" and "ok" by (simp_all add: chat_good_def)
  with SettingEvent assms(1) have "s' = s\<lparr>sv_chat := ChatIdle\<rparr>" by (auto simp: after_send_def)
  with assms(2) show ?thesis by (simp add: chat_good_def)
next
  case (ToOne r p ok)
  with assms(1) have "s' = s\<lparr>sv_chat := FindOne r p ok\<rparr> \<or> s' = s\<lparr>sv_chat := ChatIdle\<rparr>"
    by (simp split: if_splits)
  with assms(2) ToOne show ?thesis by (elim disjE) (simp_all add: chat_good_def)
next
  case (SendingTo e p ok)
  with good_send [OF assms(2)] assms(1) show ?thesis by blast
next
  case (FindOne r p ok)
  with good_find [OF assms(2)] assms(1) show ?thesis by blast
qed (use assms(1) in simp)

lemma loop_thread_good:
  assumes "loop_thread (sv_loop s) s = Some s'" and "chat_good max_id s" and "disciplined max_id LoopTurn s"
  shows "chat_good max_id s'"
proof (cases "sv_loop s")
  case (Pushing node)
  with assms(1,2) show ?thesis
    by (auto simp: chat_good_def try_push_def split: if_splits)
next
  case (Closing e)
  have "tb_conns (ChatHandler_OnClose e (sv_table s)) d \<noteq> None \<longleftrightarrow> d \<noteq> e \<and> tb_conns (sv_table s) d \<noteq> None" for d
    by (simp add: tb.conns_close)
  moreover from Closing assms(1) have
    "s' = s\<lparr>sv_table := ChatHandler_OnClose e (sv_table s), sv_loop := Deleting e\<rparr>"
    by (simp split: if_splits)
  ultimately show ?thesis
    using Closing assms(2,3) tb.close_inverse [of "sv_table s" e]
    by (auto simp: chat_good_def)
next
  case (Deleting e)
  with assms(2) have "tb_conns (sv_table s) e = None" and "\<not> touches (sv_chat s) e"
    unfolding chat_good_def by blast+
  moreover from Deleting assms(1) have "s' = s\<lparr>sv_live := AList.delete e (sv_live s), sv_loop := LoopIdle\<rparr>"
    by simp
  ultimately show ?thesis using assms(2) by (auto simp: chat_good_def)
qed (use assms in simp_all)

lemma chat_exec_good:
  assumes "chat_exec order max_id a s = Some s'" and "chat_good max_id s" and "disciplined max_id a s"
    and "\<forall>xs. set (order xs) = set xs"
  shows "chat_good max_id s'"
proof (cases a)
  case ChatTurn
  with assms chat_thread_good show ?thesis by simp
next
  case LoopTurn
  with assms loop_thread_good show ?thesis by simp
next
  case (Receive e p)
  with assms(1-3) show ?thesis by (auto simp: chat_good_def split: exec_splits)
qed (use assms(1,2) in \<open>auto simp: chat_good_def split: exec_splits\<close>)

lemma chat_reach_good:
  assumes "chat_reach order max_id (disciplined max_id) s" and "\<forall>xs. set (order xs) = set xs"
  shows "chat_good max_id s"
  using assms
proof (induction rule: chat_reach.induct)
  case chat_start
  show ?case by (simp add: chat_good_def inverse_maps_def TaskQueue_default_def TaskQueue_new_def)
next
  case (chat_next s a s')
  then show ?case by (blast intro: chat_exec_good)
qed

end
