(* ===== verification/ChatRuns.thy ===== *)
theory ChatRuns
  imports ChatSafety "HOL-Library.Multiset"
begin

text \<open>
  Runs of the chat server: what a login, a private message and a message to everybody do to a server
  that is at rest, and the states in which both threads wait for each other.
\<close>

section \<open>A request at a server at rest\<close>

definition at_rest :: "chat_server \<Rightarrow> bool" where
  "at_rest s \<longleftrightarrow> sv_chat s = ChatIdle \<and> sv_loop s = LoopIdle \<and> sv_running s \<and> sv_tasks s = TaskQueue_default"

lemma at_rest_Init [simp]: "at_rest ChatServer_Init"
  by (simp add: at_rest_def)

lemma at_rest_frame [simp]:
  "at_rest (s\<lparr>sv_live := l\<rparr>) = at_rest s" "at_rest (s\<lparr>sv_table := t\<rparr>) = at_rest s"
  by (simp_all add: at_rest_def)

lemma restD:
  "at_rest s \<Longrightarrow> sv_chat s = ChatIdle" "at_rest s \<Longrightarrow> sv_loop s = LoopIdle"
  "at_rest s \<Longrightarrow> sv_running s" "at_rest s \<Longrightarrow> sv_tasks s = TaskQueue_default"
  by (simp_all add: at_rest_def)

lemma set_back [simp]:
  "sv_chat s = c \<Longrightarrow> s\<lparr>sv_chat := c\<rparr> = s" "sv_loop s = l \<Longrightarrow> s\<lparr>sv_loop := l\<rparr> = s"
  "sv_tasks s = q \<Longrightarrow> s\<lparr>sv_tasks := q\<rparr> = s"
  by auto

definition request_turns :: "nat \<Rightarrow> nat packet \<Rightarrow> chat_action list" where
  "request_turns e p = [Receive e p, LoopTurn, ChatTurn]"

lemma request_run:
  assumes "at_rest s" and "map_of (sv_live s) e \<noteq> None"
    and "ChatHandler_EchoFromServer (p\<lparr>pt_end_point := Some e\<rparr>) = Some node"
  shows "chat_run order max_id (request_turns e p) s = Some (s\<lparr>sv_chat := chat_dispatch node\<rparr>)"
proof -
  have q: "try_push node TaskQueue_default = (True, TaskQueue_default\<lparr>tq_data := [node]\<rparr>)"
    by (simp add: try_push_def TaskQueue_default_def TaskQueue_new_def)
  have pop: "try_pop (TaskQueue_default\<lparr>tq_data := [node]\<rparr>) = (Some node, TaskQueue_default)"
    by (simp add: try_pop_def TaskQueue_default_def TaskQueue_new_def TaskQueue_Empty_def)
  show ?thesis
    using assms restD [OF assms(1)] by (simp add: request_turns_def q pop)
qed

lemma i32_ok_requests [simp]: "i32_ok SEND_MSG" "i32_ok LOGIN"
  by (simp_all add: i32_ok_def SEND_MSG_def LOGIN_def)

lemma dispatch_private:
  "chat_packet SEND_MSG (chat_body u r m) p \<Longrightarrow>
   chat_dispatch \<lparr>ct_packet = p, ct_req = SEND_MSG\<rparr> = (if r = world then ToAll p else ToOne r p True)"
  by (simp add: chat_dispatch_def chat_message_ok)

lemma dispatch_login:
  "chat_packet LOGIN (net_string u) p \<Longrightarrow> pt_end_point p = Some e \<Longrightarrow>
   chat_dispatch \<lparr>ct_packet = p, ct_req = LOGIN\<rparr> = AddingUser u e"
  by (simp add: chat_dispatch_def chat_login_ok SEND_MSG_def LOGIN_def)

definition login_turns :: "nat \<Rightarrow> nat packet \<Rightarrow> chat_action list" where
  "login_turns e p = request_turns e p @ [ChatTurn]"

lemma login_run:
  assumes "at_rest s" and "map_of (sv_live s) e \<noteq> None" and "chat_packet LOGIN (net_string u) p"
  shows "chat_run order max_id (login_turns e p) s = Some (s\<lparr>sv_table := addUser u e (sv_table s)\<rparr>)"
proof -
  let ?p = "p\<lparr>pt_end_point := Some e\<rparr>"
  have "ChatHandler_EchoFromServer ?p = Some \<lparr>ct_packet = ?p, ct_req = LOGIN\<rparr>"
    using assms(3) by (intro chat_packet_head) simp_all
  from request_run [OF assms(1,2) this] have
    "chat_run order max_id (request_turns e p) s = Some (s\<lparr>sv_chat := AddingUser u e\<rparr>)"
    using assms(3) by (simp add: dispatch_login)
  then show ?thesis using restD [OF assms(1)] by (simp add: login_turns_def)
qed

text \<open>The turns of a private message up to the look at the table, and those after it.\<close>

definition private_turns :: "nat \<Rightarrow> nat packet \<Rightarrow> chat_action list" where
  "private_turns e p = request_turns e p @ [ChatTurn, ChatTurn]"

lemma message_node:
  "chat_packet SEND_MSG (chat_body u r m) p \<Longrightarrow>
   ChatHandler_EchoFromServer (p\<lparr>pt_end_point := Some e\<rparr>) =
     Some \<lparr>ct_packet = p\<lparr>pt_end_point := Some e\<rparr>, ct_req = SEND_MSG\<rparr>"
  by (intro chat_packet_head) simp_all

lemma private_run:
  assumes "at_rest s" and "map_of (sv_live s) e \<noteq> None"
    and "chat_packet SEND_MSG (chat_body u r m) p" and "r \<noteq> world" and "tb_users (sv_table s) r = Some d"
  shows "chat_run order max_id (private_turns e p) s =
           Some (s\<lparr>sv_chat := SendingTo d (p\<lparr>pt_end_point := Some e\<rparr>) True\<rparr>)"
proof -
  let ?p = "p\<lparr>pt_end_point := Some e\<rparr>"
  have "chat_run order max_id (request_turns e p) s = Some (s\<lparr>sv_chat := ToOne r ?p True\<rparr>)"
    using request_run [OF assms(1,2) message_node [OF assms(3)]] assms(3,4)
    by (simp add: dispatch_private [of u r m])
  then show ?thesis
    using assms(5) by (simp add: private_turns_def contains_def getEndPointByUser_def)
qed

lemma private_unknown:
  assumes "at_rest s" and "map_of (sv_live s) e \<noteq> None"
    and "chat_packet SEND_MSG (chat_body u r m) p" and "r \<noteq> world" and "tb_users (sv_table s) r = None"
  shows "chat_run order max_id (request_turns e p @ [ChatTurn]) s = Some s"
proof -
  let ?p = "p\<lparr>pt_end_point := Some e\<rparr>"
  have "chat_run order max_id (request_turns e p) s = Some (s\<lparr>sv_chat := ToOne r ?p True\<rparr>)"
    using request_run [OF assms(1,2) message_node [OF assms(3)]] assms(3,4)
    by (simp add: dispatch_private [of u r m])
  then show ?thesis using assms(5) restD [OF assms(1)] by (simp add: contains_def)
qed

lemma private_deliver:
  assumes "at_rest s" and "map_of (sv_live s) d = Some q" and "try_push p q = (True, q')"
  shows "chat_run order max_id [ChatTurn, ChatTurn] (s\<lparr>sv_chat := SendingTo d p True\<rparr>) =
           Some (s\<lparr>sv_live := AList.update d q' (sv_live s)\<rparr>)"
  using restD [OF assms(1)] assms(2,3) by (simp add: chat_push_def after_send_def)

lemma private_dead:
  assumes "map_of (sv_live s) d = None" and "sv_chat s = SendingTo d p ok"
  shows "chat_run order max_id [ChatTurn] s = Some (s\<lparr>sv_chat := ChatFault\<rparr>)"
  using assms by (simp add: chat_push_def)

lemma output_run:
  assumes "at_rest s" and "map_of (sv_live s) d = Some q" and "try_pop q = (Some p, q')"
  shows "chat_run order max_id [Output d] s =
    Some (s\<lparr>sv_live := AList.update d q' (sv_live s), sv_sent := sv_sent s @ [(d, p)]\<rparr>)"
  using assms restD [OF assms(1)] by simp

lemma accept_run:
  "at_rest s \<Longrightarrow> map_of (sv_live s) e = None \<Longrightarrow>
   chat_run order max_id [Accept e] s = Some (s\<lparr>sv_live := AList.update e TaskQueue_default (sv_live s)\<rparr>)"
  by (simp add: restD)

definition hangup_turns :: "nat \<Rightarrow> chat_action list" where
  "hangup_turns e = [Disconnect e, LoopTurn, LoopTurn]"

lemma hangup_run:
  assumes "sv_loop s = LoopIdle" and "\<not> holds_lock (sv_chat s)" and "map_of (sv_live s) e \<noteq> None"
  shows "chat_run order max_id (hangup_turns e) s =
    Some (s\<lparr>sv_table := ChatHandler_OnClose e (sv_table s), sv_live := AList.delete e (sv_live s)\<rparr>)"
  using assms by (simp add: hangup_turns_def)

section \<open>A message to everybody\<close>

text \<open>A copy at the end of the queue of every connection of a list.\<close>

definition has_room :: "(nat \<times> nat packet task_queue) list \<Rightarrow> nat \<Rightarrow> bool" where
  "has_room live e \<longleftrightarrow>
     (case map_of live e of None \<Rightarrow> False | Some q \<Rightarrow> length (tq_data q) < unat (tq_limit q))"

lemma room_push:
  "has_room live e \<Longrightarrow>
   \<exists>q. map_of live e = Some q \<and>
       chat_push e c live = Some (Some (AList.update e (q\<lparr>tq_data := tq_data q @ [c]\<rparr>) live))"
  by (auto simp: has_room_def chat_push_def try_push_def split: option.splits)

lemma broadcast_run:
  assumes "Packet_GetCopy max_id p = Some c" and "sv_chat s = Broadcasting p es"
    and "distinct es" and "\<forall>e \<in> set es. has_room (sv_live s) e"
  shows "\<exists>live. chat_run order max_id (replicate (length es) ChatTurn) s =
             Some (s\<lparr>sv_live := live, sv_chat := Broadcasting p []\<rparr>) \<and>
           (\<forall>e. map_of live e =
              (if e \<in> set es then map_option (\<lambda>q. q\<lparr>tq_data := tq_data q @ [c]\<rparr>) (map_of (sv_live s) e)
               else map_of (sv_live s) e))"
  using assms(2-)
proof (induction es arbitrary: s)
  case Nil
  then show ?case by (intro exI [of _ "sv_live s"]) simp
next
  case (Cons e es)
  from Cons.prems room_push obtain q where q: "map_of (sv_live s) e = Some q"
    "chat_push e c (sv_live s) = Some (Some (AList.update e (q\<lparr>tq_data := tq_data q @ [c]\<rparr>) (sv_live s)))"
    by (meson list.set_intros(1))
  define live1 where "live1 = AList.update e (q\<lparr>tq_data := tq_data q @ [c]\<rparr>) (sv_live s)"
  define t where "t = s\<lparr>sv_live := live1, sv_chat := Broadcasting p es\<rparr>"
  have step: "chat_exec order max_id ChatTurn s = Some t"
    using Cons.prems(1) q(2) assms(1) by (simp add: t_def live1_def)
  have "\<forall>d \<in> set es. has_room (sv_live t) d"
    using Cons.prems(2,3) by (auto simp: t_def live1_def has_room_def)
  with Cons.IH [of t] Cons.prems(2) obtain live where
    live: "chat_run order max_id (replicate (length es) ChatTurn) t =
        Some (t\<lparr>sv_live := live, sv_chat := Broadcasting p []\<rparr>)"
      "\<And>d. map_of live d = (if d \<in> set es then map_option (\<lambda>q. q\<lparr>tq_data := tq_data q @ [c]\<rparr>) (map_of live1 d)
         else map_of live1 d)" by (auto simp: t_def)
  have "map_of live d = (if d \<in> set (e # es)
      then map_option (\<lambda>q. q\<lparr>tq_data := tq_data q @ [c]\<rparr>) (map_of (sv_live s) d)
      else map_of (sv_live s) d)" for d
    using live(2) [of d] Cons.prems(2) q(1) by (auto simp: live1_def)
  moreover have "chat_run order max_id (replicate (length (e # es)) ChatTurn) s =
      Some (s\<lparr>sv_live := live, sv_chat := Broadcasting p []\<rparr>)"
    using step live(1) by (simp add: t_def)
  ultimately show ?case by blast
qed

text \<open>The turns of a message to everybody, with \<open>n\<close> users on the server.\<close>

definition world_turns :: "nat \<Rightarrow> nat packet \<Rightarrow> nat \<Rightarrow> chat_action list" where
  "world_turns e p n = request_turns e p @ ChatTurn # replicate n ChatTurn @ [ChatTurn]"

lemma world_start:
  assumes "at_rest s" and "map_of (sv_live s) e \<noteq> None" and "chat_packet SEND_MSG (chat_body u world m) p"
  shows "chat_run order max_id (request_turns e p @ [ChatTurn]) s =
    Some (s\<lparr>sv_chat := Broadcasting (p\<lparr>pt_end_point := Some e\<rparr>) (map fst (order (uc_conns (sv_table s))))\<rparr>)"
proof -
  have "chat_run order max_id (request_turns e p) s = Some (s\<lparr>sv_chat := ToAll (p\<lparr>pt_end_point := Some e\<rparr>)\<rparr>)"
    using request_run [OF assms(1,2) message_node [OF assms(3)]] assms(3)
    by (simp add: dispatch_private [of u world m])
  then show ?thesis by simp
qed

lemma order_keys:
  assumes "\<forall>xs. mset (order xs) = mset xs" and "table_wf c"
  shows "distinct (map fst (order (uc_conns c))) \<and>
    set (map fst (order (uc_conns c))) = dom (tb_conns c) \<and>
    length (order (uc_conns c)) = length (uc_conns c)"
proof -
  from assms(1) have m: "mset (order (uc_conns c)) = mset (uc_conns c)" by blast
  then have "mset (map fst (order (uc_conns c))) = mset (map fst (uc_conns c))" by simp
  with assms(2) have "distinct (map fst (order (uc_conns c)))"
    by (metis mset_eq_imp_distinct_iff table_wf_def)
  moreover from m have "set (order (uc_conns c)) = set (uc_conns c)" by (rule mset_eq_setD)
  ultimately show ?thesis
    using mset_eq_length [OF m] by (simp add: dom_map_of_conv_image_fst)
qed

lemma world_middle:
  assumes "at_rest s" and "map_of (sv_live s) e \<noteq> None" and "chat_packet SEND_MSG (chat_body u world m) p"
    and "\<forall>xs. mset (order xs) = mset xs" and "table_wf (sv_table s)"
    and "\<forall>d \<in> dom (tb_conns (sv_table s)). has_room (sv_live s) d"
  shows "\<exists>live c.
    chat_run order max_id ((request_turns e p @ [ChatTurn]) @ replicate (length (uc_conns (sv_table s))) ChatTurn) s =
      Some (s\<lparr>sv_live := live, sv_chat := Broadcasting (p\<lparr>pt_end_point := Some e\<rparr>) []\<rparr>) \<and>
    chat_packet SEND_MSG (chat_body u world m) c \<and>
    (\<forall>d. map_of live d =
       (if tb_conns (sv_table s) d \<noteq> None
        then map_option (\<lambda>q. q\<lparr>tq_data := tq_data q @ [c]\<rparr>) (map_of (sv_live s) d)
        else map_of (sv_live s) d))"
proof -
  let ?p = "p\<lparr>pt_end_point := Some e\<rparr>" and ?ks = "map fst (order (uc_conns (sv_table s)))"
  let ?turns = "replicate (length (uc_conns (sv_table s))) ChatTurn"
  obtain c where c: "Packet_GetCopy max_id ?p = Some c" "chat_packet SEND_MSG (chat_body u world m) c"
    using chat_packet_copy [of SEND_MSG "chat_body u world m" ?p e] assms(3) by auto
  note ks = order_keys [OF assms(4,5)]
  have "\<forall>d \<in> set ?ks. has_room (sv_live s) d" using ks assms(6) by simp
  with broadcast_run [OF c(1), of "s\<lparr>sv_chat := Broadcasting ?p ?ks\<rparr>" ?ks order] ks obtain live where
    live: "chat_run order max_id ?turns
        (s\<lparr>sv_chat := Broadcasting ?p ?ks\<rparr>) = Some (s\<lparr>sv_live := live, sv_chat := Broadcasting ?p []\<rparr>)"
      "\<And>d. map_of live d = (if d \<in> set ?ks then map_option (\<lambda>q. q\<lparr>tq_data := tq_data q @ [c]\<rparr>) (map_of (sv_live s) d)
         else map_of (sv_live s) d)" by auto
  have "chat_run order max_id ((request_turns e p @ [ChatTurn]) @ ?turns) s =
      Some (s\<lparr>sv_live := live, sv_chat := Broadcasting ?p []\<rparr>)"
    using world_start [OF assms(1-3), of order max_id] live(1)
    by (simp only: foldM_append [of _ "_ @ [ChatTurn]"] bind.bind_lunit)
  moreover have "\<forall>d. map_of live d = (if tb_conns (sv_table s) d \<noteq> None
      then map_option (\<lambda>q. q\<lparr>tq_data := tq_data q @ [c]\<rparr>) (map_of (sv_live s) d) else map_of (sv_live s) d)"
    using live(2) ks by (simp add: domIff)
  ultimately show ?thesis using c(2) by blast
qed

lemma world_turns_eq:
  "world_turns e p n = ((request_turns e p @ [ChatTurn]) @ replicate n ChatTurn) @ [ChatTurn]"
  by (simp add: world_turns_def)

lemma world_run:
  assumes "at_rest s" and "map_of (sv_live s) e \<noteq> None" and "chat_packet SEND_MSG (chat_body u world m) p"
    and "\<forall>xs. mset (order xs) = mset xs" and "table_wf (sv_table s)"
    and "\<forall>d \<in> dom (tb_conns (sv_table s)). has_room (sv_live s) d"
  shows "\<exists>live c. chat_run order max_id (world_turns e p (length (uc_conns (sv_table s)))) s = Some (s\<lparr>sv_live := live\<rparr>) \<and>
           chat_packet SEND_MSG (chat_body u world m) c \<and>
           (\<forall>d. map_of live d =
              (if tb_conns (sv_table s) d \<noteq> None
               then map_option (\<lambda>q. q\<lparr>tq_data := tq_data q @ [c]\<rparr>) (map_of (sv_live s) d)
               else map_of (sv_live s) d))"
proof -
  from world_middle [OF assms] obtain live c where
    w: "chat_run order max_id ((request_turns e p @ [ChatTurn]) @
        replicate (length (uc_conns (sv_table s))) ChatTurn) s =
      Some (s\<lparr>sv_live := live, sv_chat := Broadcasting (p\<lparr>pt_end_point := Some e\<rparr>) []\<rparr>)"
      "chat_packet SEND_MSG (chat_body u world m) c"
      "\<forall>d. map_of live d = (if tb_conns (sv_table s) d \<noteq> None
        then map_option (\<lambda>q. q\<lparr>tq_data := tq_data q @ [c]\<rparr>) (map_of (sv_live s) d) else map_of (sv_live s) d)"
    by blast
  have "chat_run order max_id (world_turns e p (length (uc_conns (sv_table s)))) s = Some (s\<lparr>sv_live := live\<rparr>)"
    using w(1) restD(1) [OF assms(1)]
    by (simp only: world_turns_eq foldM_append [of _ "_ @ replicate _ _"] bind.bind_lunit) simp
  with w(2,3) show ?thesis by blast
qed

section \<open>Runs that obey the conditions\<close>

fun obeys ::
  "((nat \<times> byte list) list \<Rightarrow> (nat \<times> byte list) list) \<Rightarrow> u32 \<Rightarrow> chat_action list \<Rightarrow> chat_server \<Rightarrow> bool" where
  "obeys order max_id [] s = True"
| "obeys order max_id (a # as) s =
     (disciplined max_id a s \<and>
      (case chat_exec order max_id a s of None \<Rightarrow> True | Some s' \<Rightarrow> obeys order max_id as s'))"

lemma obeys_append:
  "obeys order max_id (as @ bs) s \<longleftrightarrow>
   obeys order max_id as s \<and>
   (case chat_run order max_id as s of None \<Rightarrow> True | Some s' \<Rightarrow> obeys order max_id bs s')"
  by (induction as arbitrary: s) (auto split: option.splits)

lemma chat_reach_obeys:
  assumes "chat_reach order max_id (disciplined max_id) s" and "obeys order max_id as s"
    and "chat_run order max_id as s = Some s'"
  shows "chat_reach order max_id (disciplined max_id) s'"
  using assms
proof (induction as arbitrary: s)
  case (Cons a as)
  then obtain s1 where "chat_exec order max_id a s = Some s1" "chat_run order max_id as s1 = Some s'"
    by (auto simp: bind_eq_Some_conv)
  with Cons.IH [of s1] Cons.prems chat_next [of order max_id _ s a s1] show ?case by simp
qed simp

lemma obeys_request:
  assumes "at_rest s" and "ChatHandler_EchoFromServer (p\<lparr>pt_end_point := Some e\<rparr>) = Some node"
    and "sane_task max_id node"
  shows "obeys order max_id (request_turns e p) s"
  using assms restD [OF assms(1)]
  by (auto simp: request_turns_def split: option.splits prod.splits bool.splits)

lemma sane_message:
  assumes "chat_packet SEND_MSG (chat_body u r m) p" and "pt_end_point p = Some e"
  shows "sane_task max_id \<lparr>ct_packet = p, ct_req = SEND_MSG\<rparr>"
  using chat_packet_copy [OF assms, of max_id] assms(1) by (auto simp: sane_task_def dispatch_private [of u r m])

lemma sane_login:
  assumes "chat_packet LOGIN (net_string u) p" and "pt_end_point p = Some e"
  shows "sane_task max_id \<lparr>ct_packet = p, ct_req = LOGIN\<rparr>"
  using dispatch_login [OF assms] by (simp add: sane_task_def)

lemma obeys_login:
  assumes "at_rest s" and "map_of (sv_live s) e \<noteq> None" and "chat_packet LOGIN (net_string u) p"
    and "tb_conns (sv_table s) e = None" and "tb_users (sv_table s) u = None"
  shows "obeys order max_id (login_turns e p) s"
proof -
  let ?p = "p\<lparr>pt_end_point := Some e\<rparr>"
  have node: "ChatHandler_EchoFromServer ?p = Some \<lparr>ct_packet = ?p, ct_req = LOGIN\<rparr>"
    using assms(3) by (intro chat_packet_head) simp_all
  have "sane_task max_id \<lparr>ct_packet = ?p, ct_req = LOGIN\<rparr>"
    using assms(3) by (intro sane_login [where e = e and u = u]) simp_all
  from obeys_request [OF assms(1) node this] request_run [OF assms(1,2) node, of order max_id]
  show ?thesis using assms(3-5) restD [OF assms(1)]
    by (simp add: login_turns_def obeys_append dispatch_login assms(2) [unfolded not_None_eq])
qed

lemma obeys_fault: "sv_chat s = ChatFault \<Longrightarrow> obeys order max_id (replicate n ChatTurn) s"
  by (cases n) simp_all

lemma obeys_turns:
  "sv_chat s = Broadcasting p es \<Longrightarrow> obeys order max_id (replicate (length es) ChatTurn) s"
proof (induction es arbitrary: s)
  case (Cons e es)
  then show ?case by (auto split: option.splits bind_splits intro: obeys_fault)
qed simp

section \<open>Both threads waiting\<close>

text \<open>The chat thread waits for room in the queue of a connection.\<close>

definition chat_waits :: "u32 \<Rightarrow> chat_server \<Rightarrow> bool" where
  "chat_waits max_id s \<longleftrightarrow>
     (case sv_chat s of
        Broadcasting p (e # _) \<Rightarrow>
          Packet_GetCopy max_id p \<noteq> None \<and> map_of (sv_live s) e \<noteq> None \<and> \<not> has_room (sv_live s) e
      | SendingTo e _ _ \<Rightarrow> map_of (sv_live s) e \<noteq> None \<and> \<not> has_room (sv_live s) e
      | _ \<Rightarrow> False)"

text \<open>The event loop waits for room in the queue of requests, or for the lock of the table.\<close>

definition loop_waits :: "chat_server \<Rightarrow> bool" where
  "loop_waits s \<longleftrightarrow>
     (case sv_loop s of
        Pushing _ \<Rightarrow> \<not> length (tq_data (sv_tasks s)) < unat (tq_limit (sv_tasks s))
      | Closing _ \<Rightarrow> holds_lock (sv_chat s)
      | _ \<Rightarrow> False)"

lemma chat_push_waits: "chat_push e p live = Some None \<longleftrightarrow> map_of live e \<noteq> None \<and> \<not> has_room live e"
  by (cases rule: chat_push_cases [of live e p])
    (auto simp: has_room_def try_push_def split: if_splits)

lemma chat_push_none: "chat_push e p live = None \<longleftrightarrow> map_of live e = None"
  by (cases rule: chat_push_cases [of live e p]) simp_all

lemma chat_push_room: "chat_push e p live = Some (Some live') \<Longrightarrow> has_room live e"
  by (auto dest!: chat_pushD simp: has_room_def try_push_def split: if_splits)

lemma chat_thread_stuck:
  assumes "sv_chat s \<noteq> ChatFault" and "sv_running s"
  shows "chat_thread order max_id (sv_chat s) s = None \<longleftrightarrow>
    chat_waits max_id s \<or> sv_chat s = ChatIdle \<and> tq_data (sv_tasks s) = []"
proof (cases "sv_chat s")
  case ChatIdle
  with assms show ?thesis
    by (cases rule: try_pop_cases [of "sv_tasks s"]) (auto simp: chat_waits_def)
next
  case (Broadcasting p es)
  show ?thesis
  proof (cases es)
    case (Cons e es')
    with Broadcasting show ?thesis
      by (cases "Packet_GetCopy max_id p")
        (auto simp: chat_waits_def chat_push_waits chat_push_none dest: chat_push_room split: option.splits)
  qed (use Broadcasting in \<open>simp add: chat_waits_def\<close>)
next
  case (SendingTo e p ok)
  then show ?thesis
    by (auto simp: chat_waits_def chat_push_waits chat_push_none dest: chat_push_room split: option.splits)
qed (use assms in \<open>simp_all add: chat_waits_def\<close>)

lemma loop_thread_stuck:
  assumes "sv_loop s \<noteq> LoopFault"
  shows "loop_thread (sv_loop s) s = None \<longleftrightarrow> loop_waits s \<or> sv_loop s = LoopIdle"
  using assms by (cases "sv_loop s") (auto simp: loop_waits_def try_push_def)

lemma fresh_end_point: "\<exists>e. map_of (live :: (nat \<times> 'b) list) e = None"
proof -
  have "finite (dom (map_of live))" by (rule finite_dom_map_of)
  then obtain e where "e \<notin> dom (map_of live)" using ex_new_if_finite infinite_UNIV_nat by blast
  then show ?thesis by (auto simp: domIff)
qed

lemma network_stuck:
  "(\<forall>a. a \<noteq> ChatTurn \<and> a \<noteq> LoopTurn \<longrightarrow> chat_exec order max_id a s = None) \<longleftrightarrow> sv_loop s \<noteq> LoopIdle"
proof
  assume all: "\<forall>a. a \<noteq> ChatTurn \<and> a \<noteq> LoopTurn \<longrightarrow> chat_exec order max_id a s = None"
  obtain e where "map_of (sv_live s) e = None" using fresh_end_point by blast
  moreover from all have "chat_exec order max_id (Accept e) s = None" by blast
  ultimately show "sv_loop s \<noteq> LoopIdle" by (simp split: if_splits)
next
  assume l: "sv_loop s \<noteq> LoopIdle"
  show "\<forall>a. a \<noteq> ChatTurn \<and> a \<noteq> LoopTurn \<longrightarrow> chat_exec order max_id a s = None"
  proof (intro allI impI)
    fix a
    assume "a \<noteq> ChatTurn \<and> a \<noteq> LoopTurn"
    with l show "chat_exec order max_id a s = None" by (cases a) simp_all
  qed
qed

text \<open>When the event loop waits for room, the chat thread has requests to serve.\<close>

lemma chat_stuck_iff:
  assumes "chat_reach order max_id D s" and "sv_chat s \<noteq> ChatFault" and "sv_loop s \<noteq> LoopFault"
  shows "(\<forall>a. chat_exec order max_id a s = None) \<longleftrightarrow> chat_waits max_id s \<and> loop_waits s"
proof -
  have wf: "chat_wf s" by (rule chat_reach_wf [OF assms(1)])
  then have run: "sv_running s" by (simp add: chat_wf_def)
  have "(\<forall>a. chat_exec order max_id a s = None) \<longleftrightarrow>
      chat_exec order max_id ChatTurn s = None \<and> chat_exec order max_id LoopTurn s = None \<and>
      (\<forall>a. a \<noteq> ChatTurn \<and> a \<noteq> LoopTurn \<longrightarrow> chat_exec order max_id a s = None)"
    by metis
  also have "\<dots> \<longleftrightarrow> (chat_waits max_id s \<or> sv_chat s = ChatIdle \<and> tq_data (sv_tasks s) = []) \<and>
      (loop_waits s \<or> sv_loop s = LoopIdle) \<and> sv_loop s \<noteq> LoopIdle"
    unfolding network_stuck
    using chat_thread_stuck [OF assms(2) run] loop_thread_stuck [OF assms(3)] by simp
  also have "\<dots> \<longleftrightarrow> chat_waits max_id s \<and> loop_waits s"
  proof -
    have "\<not> (sv_chat s = ChatIdle \<and> tq_data (sv_tasks s) = [] \<and> loop_waits s)"
      using wf by (auto simp: loop_waits_def chat_wf_def queue_wf_def split: loop_pc.splits)
    moreover have "loop_waits s \<Longrightarrow> sv_loop s \<noteq> LoopIdle" by (auto simp: loop_waits_def)
    ultimately show ?thesis by blast
  qed
  finally show ?thesis .
qed

section \<open>A full queue\<close>

lemma obeys_world_start:
  assumes "at_rest s" and "map_of (sv_live s) e \<noteq> None" and "chat_packet SEND_MSG (chat_body u world m) p"
  shows "obeys order max_id (request_turns e p @ [ChatTurn]) s"
proof -
  let ?p = "p\<lparr>pt_end_point := Some e\<rparr>"
  have "sane_task max_id \<lparr>ct_packet = ?p, ct_req = SEND_MSG\<rparr>"
    using assms(3) by (intro sane_message [where u = u and r = world and m = m and e = e]) simp_all
  from obeys_request [OF assms(1) message_node [OF assms(3)] this]
    request_run [OF assms(1,2) message_node [OF assms(3)], of order max_id]
  show ?thesis using assms(3) by (simp add: obeys_append dispatch_private [of u world m])
qed

lemma obeys_world:
  assumes "at_rest s" and "map_of (sv_live s) e \<noteq> None" and "chat_packet SEND_MSG (chat_body u world m) p"
    and "\<forall>xs. mset (order xs) = mset xs" and "table_wf (sv_table s)"
    and "\<forall>d \<in> dom (tb_conns (sv_table s)). has_room (sv_live s) d"
  shows "obeys order max_id (world_turns e p (length (uc_conns (sv_table s)))) s"
proof -
  let ?as = "request_turns e p @ [ChatTurn]" and ?b = "p\<lparr>pt_end_point := Some e\<rparr>"
  let ?n = "length (uc_conns (sv_table s))"
  let ?t = "s\<lparr>sv_chat := Broadcasting ?b (map fst (order (uc_conns (sv_table s))))\<rparr>"
  have "obeys order max_id (replicate ?n ChatTurn) ?t"
    using obeys_turns [of ?t ?b "map fst (order (uc_conns (sv_table s)))" order max_id]
      order_keys [OF assms(4,5)] by simp
  then have "obeys order max_id (?as @ replicate ?n ChatTurn) s"
    using obeys_world_start [OF assms(1-3), of order max_id] world_start [OF assms(1-3), of order max_id]
    by (simp only: obeys_append [of _ _ ?as] option.case)
  moreover obtain live where "chat_run order max_id (?as @ replicate ?n ChatTurn) s =
      Some (s\<lparr>sv_live := live, sv_chat := Broadcasting ?b []\<rparr>)"
    using world_middle [OF assms] by blast
  ultimately show ?thesis
    by (simp only: world_turns_eq obeys_append [of _ _ "?as @ _"] option.case) simp
qed

text \<open>One user writes to everybody while nobody reads.\<close>

definition waiting_user ::
  "((nat \<times> byte list) list \<Rightarrow> (nat \<times> byte list) list) \<Rightarrow> u32 \<Rightarrow> byte list \<Rightarrow> nat \<Rightarrow> nat \<Rightarrow> chat_server \<Rightarrow> bool" where
  "waiting_user order max_id u e k s \<longleftrightarrow>
     chat_reach order max_id (disciplined max_id) s \<and> at_rest s \<and>
     sv_table s = addUser u e UserConnection_new \<and>
     (\<exists>q. map_of (sv_live s) e = Some q \<and> length (tq_data q) = k)"

lemma waiting_user_login:
  assumes "chat_packet LOGIN (net_string u) (p :: nat packet)"
  shows "\<exists>s. waiting_user order max_id u e 0 s"
proof -
  let ?s = "ChatServer_Init\<lparr>sv_live := AList.update e TaskQueue_default (sv_live ChatServer_Init)\<rparr>"
  have "chat_run order max_id ([Accept e]) ChatServer_Init = Some ?s" by (intro accept_run) simp_all
  with chat_reach_obeys [of order max_id ChatServer_Init "[Accept e]" ?s] have
    reach: "chat_reach order max_id (disciplined max_id) ?s"
    by (auto intro: chat_start)
  have rest: "at_rest ?s" "map_of (sv_live ?s) e \<noteq> None" "tb_conns (sv_table ?s) e = None"
    "tb_users (sv_table ?s) u = None" by simp_all
  note run = login_run [OF rest(1,2) assms, of order max_id]
  from chat_reach_obeys [OF reach obeys_login [OF rest(1,2) assms rest(3,4)] run] show ?thesis
    by (intro exI [of _ "?s\<lparr>sv_table := addUser u e (sv_table ?s)\<rparr>"])
      (simp add: waiting_user_def TaskQueue_default_def TaskQueue_new_def)
qed

lemma single_user [simp]: "uc_conns (addUser u e UserConnection_new) = [(e, u)]"
  by (simp add: addUser_def UserConnection_new_def)

lemma waiting_user_more:
  assumes "waiting_user order max_id u e k s" and "k < 10"
    and "chat_packet SEND_MSG (chat_body v world m) (p :: nat packet)"
    and "\<forall>xs. mset (order xs) = mset xs"
  shows "\<exists>s'. waiting_user order max_id u e (Suc k) s'"
proof -
  from assms(1) obtain q where s: "chat_reach order max_id (disciplined max_id) s" "at_rest s"
    "sv_table s = addUser u e UserConnection_new" "map_of (sv_live s) e = Some q" "length (tq_data q) = k"
    by (auto simp: waiting_user_def)
  have live: "map_of (sv_live s) e \<noteq> None" using s(4) by simp
  have "queue_wf q" using chat_reach_wf [OF s(1)] s(4) by (auto simp: chat_wf_def intro: live_wf_queue)
  then have room: "has_room (sv_live s) e"
    using s(4,5) assms(2) by (simp add: has_room_def queue_wf_def)
  have wf: "table_wf (sv_table s)" unfolding s(3) by (simp add: table_wf_add)
  have all: "\<forall>d \<in> dom (tb_conns (sv_table s)). has_room (sv_live s) d" using room by (simp add: s(3))
  have one: "length (uc_conns (sv_table s)) = 1" by (simp add: s(3))
  from world_run [OF s(2) live assms(3,4) wf all, of max_id] obtain live' c where
    run: "chat_run order max_id (world_turns e p 1) s = Some (s\<lparr>sv_live := live'\<rparr>)"
      "\<forall>d. map_of live' d = (if tb_conns (sv_table s) d \<noteq> None
         then map_option (\<lambda>q. q\<lparr>tq_data := tq_data q @ [c]\<rparr>) (map_of (sv_live s) d) else map_of (sv_live s) d)"
    unfolding one by blast
  have obeys: "obeys order max_id (world_turns e p 1) s"
    using obeys_world [OF s(2) live assms(3,4) wf all, of max_id] unfolding one .
  from chat_reach_obeys [OF s(1) obeys run(1)] run(2) s show ?thesis
    by (intro exI [of _ "s\<lparr>sv_live := live'\<rparr>"]) (simp add: waiting_user_def)
qed

end
