(* ===== verification/ChatProperties.thy ===== *)
theory ChatProperties
  imports ChatRuns
begin

text \<open>
  What the chat programs promise, and where they do not keep it.
\<close>

section \<open>Concrete packets\<close>

definition demo_packet :: "int \<Rightarrow> byte list \<Rightarrow> nat packet" where
  "demo_packet req body = new_packet (wr_i32 req @ [0]) 5 body (int (length body))"

lemma demo_packet_ok: "length body < 2 ^ 31 \<Longrightarrow> chat_packet req body (demo_packet req body)"
  by (intro chat_packetI [where h = 0 and hr = "[]" and d = "[]" and dr = "[]"])
    (simp_all add: demo_packet_def new_packet_def Packet_set_packet_def Packet_set_head_def)

section \<open>Messages\<close>

lemma try_push_default: "try_push p TaskQueue_default = (True, TaskQueue_default\<lparr>tq_data := [p]\<rparr>)"
  by (simp add: try_push_def TaskQueue_default_def TaskQueue_new_def)

lemma try_pop_single: "try_pop (TaskQueue_default\<lparr>tq_data := [p]\<rparr>) = (Some p, TaskQueue_default\<lparr>tq_data := []\<rparr>)"
  by (simp add: try_pop_Cons)

lemma run_append: "chat_run order max_id as s = Some t \<Longrightarrow>
   chat_run order max_id (as @ bs) s = chat_run order max_id bs t"
  by simp

lemma private_sent:
  assumes "at_rest s" and "map_of (sv_live s) e \<noteq> None" and "chat_packet SEND_MSG (chat_body u r m) p"
    and "r \<noteq> world" and "tb_users (sv_table s) r = Some d" and "map_of (sv_live s) d = Some TaskQueue_default"
  shows "\<exists>live. chat_run order max_id (private_turns e p @ [ChatTurn, ChatTurn, Output d]) s =
    Some (s\<lparr>sv_live := live, sv_sent := sv_sent s @ [(d, p\<lparr>pt_end_point := Some e\<rparr>)]\<rparr>)"
proof -
  let ?p = "p\<lparr>pt_end_point := Some e\<rparr>"
  let ?q = "TaskQueue_default\<lparr>tq_data := [?p]\<rparr>"
  have a: "chat_run order max_id [ChatTurn, ChatTurn] (s\<lparr>sv_chat := SendingTo d ?p True\<rparr>) =
      Some (s\<lparr>sv_live := AList.update d ?q (sv_live s)\<rparr>)"
    by (rule private_deliver [OF assms(1,6) try_push_default])
  let ?t = "s\<lparr>sv_live := AList.update d ?q (sv_live s)\<rparr>"
  have "map_of (sv_live ?t) d = Some ?q" by simp
  from output_run [OF _ this try_pop_single] assms(1) have
    b: "chat_run order max_id [Output d] ?t = Some (?t\<lparr>sv_live := AList.update d
      (TaskQueue_default\<lparr>tq_data := []\<rparr>) (sv_live ?t), sv_sent := sv_sent ?t @ [(d, ?p)]\<rparr>)" by simp
  have "private_turns e p @ [ChatTurn, ChatTurn, Output d] =
      private_turns e p @ [ChatTurn, ChatTurn] @ [Output d]" by simp
  then show ?thesis
    using private_run [OF assms(1-5), of order max_id]
    by (simp only: foldM_append bind.bind_lunit a b) auto
qed



text \<open>
  C11. A message to \<open>world\<close> is put, as a copy, at the end of the queue of every connection of the table,
  the sender's among them, and of no other, in whatever order the table is walked; the server is at
  rest again after one turn of the chat thread for each user.  Every queue has room.
\<close>

theorem chat_world_message:
  assumes "at_rest s" and "map_of (sv_live s) e \<noteq> None" and "chat_packet SEND_MSG (chat_body u world m) p"
    and "\<forall>xs. mset (order xs) = mset xs" and "table_wf (sv_table s)"
    and "\<forall>d \<in> dom (tb_conns (sv_table s)). has_room (sv_live s) d"
  shows "\<exists>live c. chat_run order max_id (world_turns e p (length (uc_conns (sv_table s)))) s = Some (s\<lparr>sv_live := live\<rparr>) \<and>
    ClientHandler_OnReceived c = Some (WorldMessage u m) \<and>
    (\<forall>d. map_of live d =
       (if tb_conns (sv_table s) d \<noteq> None
        then map_option (\<lambda>q. q\<lparr>tq_data := tq_data q @ [c]\<rparr>) (map_of (sv_live s) d)
        else map_of (sv_live s) d))"
proof -
  from world_run [OF assms] obtain live c where
    "chat_run order max_id (world_turns e p (length (uc_conns (sv_table s)))) s = Some (s\<lparr>sv_live := live\<rparr>)"
    "chat_packet SEND_MSG (chat_body u world m) c"
    "\<forall>d. map_of live d = (if tb_conns (sv_table s) d \<noteq> None
       then map_option (\<lambda>q. q\<lparr>tq_data := tq_data q @ [c]\<rparr>) (map_of (sv_live s) d) else map_of (sv_live s) d)"
    by blast
  moreover from this(2) have "ClientHandler_OnReceived c = Some (WorldMessage u m)"
    by (simp add: ClientHandler_ok [of _ u world m])
  ultimately show ?thesis by blast
qed

definition demo_server :: chat_server where
  "demo_server = ChatServer_Init\<lparr>sv_live := [(1, TaskQueue_default)],
     sv_table := addUser [97] 1 UserConnection_new\<rparr>"

lemma length_demo_world: "length (chat_body [97] world [104]) < 2 ^ 31"
  by (simp add: length_chat_body world_def)

lemma chat_world_message_witness:
  "\<exists>live c. chat_run id 0 (world_turns 1 (demo_packet SEND_MSG (chat_body [97] world [104])) 1) demo_server =
      Some (demo_server\<lparr>sv_live := live\<rparr>) \<and>
    ClientHandler_OnReceived c = Some (WorldMessage [97] [104]) \<and>
    map_of live 1 = Some (TaskQueue_default\<lparr>tq_data := [c]\<rparr>)"
proof -
  have s: "at_rest demo_server" "map_of (sv_live demo_server) 1 \<noteq> None" "table_wf (sv_table demo_server)"
    "\<forall>d \<in> dom (tb_conns (sv_table demo_server)). has_room (sv_live demo_server) d"
    by (simp_all add: demo_server_def table_wf_add has_room_def TaskQueue_default_def TaskQueue_new_def)
  from chat_world_message [OF s(1,2) demo_packet_ok [OF length_demo_world] _ s(3,4), of id 0] show ?thesis
    by (auto simp: demo_server_def TaskQueue_default_def TaskQueue_new_def)
qed

section \<open>States\<close>





text \<open>Two names on a connection that is then lost, and a message to a name whose connection is gone.\<close>

lemma two_names_run:
  assumes "chat_packet LOGIN (net_string A) pA" and "chat_packet LOGIN (net_string B) pB" and "A \<noteq> B"
  obtains s where "chat_run order max_id ([Accept e] @ login_turns e pA @ login_turns e pB @ hangup_turns e)
      ChatServer_Init = Some s"
    and "at_rest s" and "tb_users (sv_table s) A = Some e" and "tb_conns (sv_table s) e = None"
    and "\<And>x. map_of (sv_live s) x = None" and "sv_sent s = []"
proof -
  define s1 where "s1 = ChatServer_Init\<lparr>sv_live := AList.update e TaskQueue_default []\<rparr>"
  have r1: "chat_run order max_id [Accept e] ChatServer_Init = Some s1" by (simp add: s1_def)
  define s2 where "s2 = s1\<lparr>sv_table := addUser A e (sv_table s1)\<rparr>"
  have r2: "chat_run order max_id (login_turns e pA) s1 = Some s2"
    unfolding s2_def by (rule login_run) (use assms(1) in \<open>simp_all add: s1_def\<close>)
  define s3 where "s3 = s2\<lparr>sv_table := addUser B e (sv_table s2)\<rparr>"
  have r3: "chat_run order max_id (login_turns e pB) s2 = Some s3"
    unfolding s3_def by (rule login_run) (use assms(2) in \<open>simp_all add: s2_def s1_def\<close>)
  define s4 where "s4 = s3\<lparr>sv_table := ChatHandler_OnClose e (sv_table s3), sv_live := AList.delete e (sv_live s3)\<rparr>"
  have r4: "chat_run order max_id (hangup_turns e) s3 = Some s4"
    unfolding s4_def by (rule hangup_run) (simp_all add: s3_def s2_def s1_def)
  have "tb_users (sv_table s4) A = Some e" "tb_conns (sv_table s4) e = None"
    using tb.second_name_stays [of "sv_table s2" A e B] assms(3)
    by (simp_all add: s4_def s3_def s2_def tb.users_add)
  moreover have "chat_run order max_id ([Accept e] @ login_turns e pA @ login_turns e pB @ hangup_turns e)
      ChatServer_Init = Some s4"
    by (simp only: run_append [OF r1] run_append [OF r2] run_append [OF r3] r4)
  moreover have "at_rest s4" "map_of (sv_live s4) x = None" "sv_sent s4 = []" for x
    by (simp_all add: s4_def s3_def s2_def s1_def)
  ultimately show ?thesis using that by blast
qed

lemma message_to_dead:
  assumes "at_rest s" and "map_of (sv_live s) d \<noteq> None" and "chat_packet SEND_MSG (chat_body u A m) pm"
    and "A \<noteq> world" and "tb_users (sv_table s) A = Some e" and "map_of (sv_live s) e = None"
  shows "chat_run order max_id (private_turns d pm @ [ChatTurn]) s = Some (s\<lparr>sv_chat := ChatFault\<rparr>)"
  using private_run [OF assms(1-5), of order max_id] assms(6)
    private_dead [of "s\<lparr>sv_chat := SendingTo e (pm\<lparr>pt_end_point := Some d\<rparr>) True\<rparr>" e _ True order max_id]
  by (simp only: run_append) simp

text \<open>A private message whose receiver leaves after the look at the table.\<close>

lemma message_in_flight:
  assumes "at_rest s" and "map_of (sv_live s) d \<noteq> None" and "chat_packet SEND_MSG (chat_body u A m) pm"
    and "A \<noteq> world" and "tb_users (sv_table s) A = Some e" and "map_of (sv_live s) e \<noteq> None"
  shows "\<exists>t. chat_run order max_id (private_turns d pm @ hangup_turns e @ [ChatTurn]) s = Some t \<and> sv_chat t = ChatFault"
proof -
  let ?t = "s\<lparr>sv_chat := SendingTo e (pm\<lparr>pt_end_point := Some d\<rparr>) True\<rparr>"
  let ?t' = "?t\<lparr>sv_table := ChatHandler_OnClose e (sv_table ?t), sv_live := AList.delete e (sv_live ?t)\<rparr>"
  have r1: "chat_run order max_id (hangup_turns e) ?t = Some ?t'"
    by (rule hangup_run) (use assms(6) restD(2) [OF assms(1)] in simp_all)
  have r2: "chat_run order max_id [ChatTurn] ?t' = Some (?t'\<lparr>sv_chat := ChatFault\<rparr>)"
    by (rule private_dead [of _ e "pm\<lparr>pt_end_point := Some d\<rparr>" True]) simp_all
  show ?thesis
    by (simp only: run_append [OF private_run [OF assms(1-5)]] run_append [OF r1] r2) simp
qed

text \<open>
  C21. Without these conditions connections that are gone are touched.  Two names \<open>A\<close> and \<open>B\<close> on one
  connection: when the connection is lost only \<open>B\<close> is removed, and a message to \<open>A\<close> uses the deleted
  end point, or reaches a stranger whose end point has the same address and who has never logged in.
  And a private message whose receiver leaves between the look at the table and the sending.
\<close>

theorem chat_stale_names:
  assumes "chat_packet LOGIN (net_string A) pA" and "chat_packet LOGIN (net_string B) pB"
    and "chat_packet SEND_MSG (chat_body u A m) pm" and "A \<noteq> B" and "A \<noteq> world" and "e \<noteq> d"
  shows "(\<exists>s. chat_run order max_id ([Accept e] @ login_turns e pA @ login_turns e pB @ hangup_turns e @
        [Accept d] @ private_turns d pm @ [ChatTurn]) ChatServer_Init = Some s \<and> sv_chat s = ChatFault) \<and>
    (\<exists>s out. chat_run order max_id ([Accept e] @ login_turns e pA @ login_turns e pB @ hangup_turns e @
        [Accept d] @ [Accept e] @ private_turns d pm @ [ChatTurn, ChatTurn, Output e]) ChatServer_Init = Some s \<and>
      sv_sent s = [(e, out)] \<and> tb_conns (sv_table s) e = None) \<and>
    (\<exists>s. chat_run order max_id ([Accept e] @ login_turns e pA @ [Accept d] @ private_turns d pm @
        hangup_turns e @ [ChatTurn]) ChatServer_Init = Some s \<and> sv_chat s = ChatFault)"
proof (intro conjI)
  let ?T = TaskQueue_default
  from two_names_run [OF assms(1,2,4), of order max_id e] obtain s where
    r: "chat_run order max_id ([Accept e] @ login_turns e pA @ login_turns e pB @ hangup_turns e)
        ChatServer_Init = Some s"
    and s: "at_rest s" "tb_users (sv_table s) A = Some e" "tb_conns (sv_table s) e = None"
      "\<And>x. map_of (sv_live s) x = None" "sv_sent s = []" by blast
  note r = run_append [OF r, unfolded append_assoc]
  define s1 where "s1 = s\<lparr>sv_live := AList.update d ?T (sv_live s)\<rparr>"
  have r1: "chat_run order max_id [Accept d] s = Some s1" unfolding s1_def by (rule accept_run [OF s(1,4)])
  have s1: "at_rest s1" "map_of (sv_live s1) d \<noteq> None" "tb_users (sv_table s1) A = Some e"
    "map_of (sv_live s1) e = None" using s assms(6) by (simp_all add: s1_def)
  show "\<exists>s. chat_run order max_id ([Accept e] @ login_turns e pA @ login_turns e pB @ hangup_turns e @
      [Accept d] @ private_turns d pm @ [ChatTurn]) ChatServer_Init = Some s \<and> sv_chat s = ChatFault"
    unfolding r run_append [OF r1] message_to_dead [OF s1(1,2) assms(3,5) s1(3,4)] by simp
  define s2 where "s2 = s1\<lparr>sv_live := AList.update e ?T (sv_live s1)\<rparr>"
  have r2: "chat_run order max_id [Accept e] s1 = Some s2" unfolding s2_def by (rule accept_run [OF s1(1,4)])
  have s2: "at_rest s2" "map_of (sv_live s2) d \<noteq> None" "tb_users (sv_table s2) A = Some e"
    "map_of (sv_live s2) e = Some ?T" "sv_sent s2 = []" "tb_conns (sv_table s2) e = None"
    using s s1 by (simp_all add: s2_def s1_def)
  from private_sent [OF s2(1,2) assms(3,5) s2(3,4), of order max_id] show "\<exists>s out. chat_run order max_id
      ([Accept e] @ login_turns e pA @ login_turns e pB @ hangup_turns e @ [Accept d] @ [Accept e] @
       private_turns d pm @ [ChatTurn, ChatTurn, Output e]) ChatServer_Init = Some s \<and>
      sv_sent s = [(e, out)] \<and> tb_conns (sv_table s) e = None"
    unfolding r run_append [OF r1] run_append [OF r2] using s2(5,6) by fastforce
  define t0 where "t0 = ChatServer_Init\<lparr>sv_live := AList.update e ?T []\<rparr>"
  have q0: "chat_run order max_id [Accept e] ChatServer_Init = Some t0" by (simp add: t0_def)
  define t1 where "t1 = t0\<lparr>sv_table := addUser A e (sv_table t0)\<rparr>"
  have q1: "chat_run order max_id (login_turns e pA) t0 = Some t1"
    unfolding t1_def by (rule login_run) (use assms(1) in \<open>simp_all add: t0_def\<close>)
  define t2 where "t2 = t1\<lparr>sv_live := AList.update d ?T (sv_live t1)\<rparr>"
  have q2: "chat_run order max_id [Accept d] t1 = Some t2"
    unfolding t2_def by (rule accept_run) (use assms(6) in \<open>simp_all add: t1_def t0_def\<close>)
  have t2: "at_rest t2" "map_of (sv_live t2) d \<noteq> None" "tb_users (sv_table t2) A = Some e"
    "map_of (sv_live t2) e \<noteq> None" by (simp_all add: t2_def t1_def t0_def tb.users_add)
  show "\<exists>s. chat_run order max_id ([Accept e] @ login_turns e pA @ [Accept d] @ private_turns d pm @
      hangup_turns e @ [ChatTurn]) ChatServer_Init = Some s \<and> sv_chat s = ChatFault"
    unfolding run_append [OF q0] run_append [OF q1] run_append [OF q2]
    by (rule message_in_flight [OF t2(1,2) assms(3,5) t2(3,4)])
qed

lemma chat_stale_names_witness:
  "\<exists>s. chat_run id 0 ([Accept 1] @ login_turns 1 (demo_packet LOGIN (net_string [97])) @
      login_turns 1 (demo_packet LOGIN (net_string [98])) @ hangup_turns 1 @ [Accept 2] @
      private_turns 2 (demo_packet SEND_MSG (chat_body [99] [97] [104])) @ [ChatTurn]) ChatServer_Init = Some s \<and>
    sv_chat s = ChatFault"
proof -
  have len: "length (net_string [97]) < 2 ^ 31" "length (net_string [98]) < 2 ^ 31"
    "length (chat_body [99] [97] [104]) < 2 ^ 31" by (simp_all add: length_chat_body)
  have "[97] \<noteq> world" by (simp add: world_def str_bytes_def)
  from chat_stale_names [OF demo_packet_ok [OF len(1)] demo_packet_ok [OF len(2)] demo_packet_ok [OF len(3)] _ this,
      of 1 2 id 0]
  show ?thesis by simp
qed

text \<open>The queue of the only user is full, the next message holds the lock, and the user leaves.\<close>

lemma waiting_user_full:
  assumes "\<forall>xs. mset (order xs) = mset xs" and "k \<le> 10"
  shows "\<exists>s. waiting_user order max_id [97] 1 k s"
  using assms(2)
proof (induction k)
  case 0
  have "length (net_string [97]) < 2 ^ 31" by simp
  from waiting_user_login [OF demo_packet_ok [OF this]] show ?case by blast
next
  case (Suc k)
  then obtain s where "waiting_user order max_id [97] 1 k s" "k < 10" by auto
  from waiting_user_more [OF this demo_packet_ok [OF length_demo_world] assms(1)] show ?case .
qed

lemma single_order:
  assumes "\<forall>xs. mset (order xs) = mset xs"
  shows "order [x] = [x]"
proof -
  have m: "mset (order [x]) = mset [x]" using assms by blast
  then have "length (order [x]) = 1" using mset_eq_length by fastforce
  then obtain y where "order [x] = [y]" by (auto simp: length_Suc_conv)
  with m show ?thesis by simp
qed

lemma full_queue_stuck:
  assumes "\<forall>xs. mset (order xs) = mset xs"
  shows "\<exists>s. chat_reach order max_id (disciplined max_id) s \<and> sv_chat s \<noteq> ChatFault \<and> sv_loop s \<noteq> LoopFault \<and>
    (\<forall>a. chat_exec order max_id a s = None)"
proof -
  let ?p = "demo_packet SEND_MSG (chat_body [97] world [104])"
  let ?q = "?p\<lparr>pt_end_point := Some 1\<rparr>"
  from waiting_user_full [OF assms le_refl, of max_id] obtain s q where s:
    "chat_reach order max_id (disciplined max_id) s" "at_rest s" "sv_table s = addUser [97] 1 UserConnection_new"
    "map_of (sv_live s) 1 = Some q" "length (tq_data q) = 10" by (auto simp: waiting_user_def)
  have live: "map_of (sv_live s) 1 \<noteq> None" using s(4) by simp
  note p = demo_packet_ok [OF length_demo_world, of SEND_MSG]
  define t where "t = s\<lparr>sv_chat := Broadcasting ?q [1], sv_loop := Closing 1\<rparr>"
  have one: "map fst (order (uc_conns (sv_table s))) = [1]" by (simp add: s(3) single_order [OF assms])
  have run: "chat_run order max_id ((request_turns 1 ?p @ [ChatTurn]) @ [Disconnect 1]) s = Some t"
    using live restD(2) [OF s(2)]
    by (simp only: run_append [OF world_start [OF s(2) live p]] one) (simp add: t_def)
  have "obeys order max_id ((request_turns 1 ?p @ [ChatTurn]) @ [Disconnect 1]) s"
    using obeys_world_start [OF s(2) live p, of order max_id]
    by (simp only: obeys_append [of _ _ "_ @ [ChatTurn]"]) (simp split: option.split)
  from chat_reach_obeys [OF s(1) this run] have reach: "chat_reach order max_id (disciplined max_id) t" .
  have "queue_wf q" using chat_reach_wf [OF s(1)] s(4) by (auto simp: chat_wf_def intro: live_wf_queue)
  then have full: "\<not> has_room (sv_live s) 1" using s(4,5) by (simp add: has_room_def queue_wf_def)
  obtain c where "Packet_GetCopy max_id ?q = Some c"
    using chat_packet_copy [of SEND_MSG "chat_body [97] world [104]" ?q 1 max_id] p by auto
  then have "chat_waits max_id t" "loop_waits t"
    using full live by (simp_all add: chat_waits_def loop_waits_def t_def)
  with chat_stuck_iff [OF reach] reach show ?thesis by (intro exI [of _ t]) (simp add: t_def)
qed

text \<open>The receiver of such a message is null.\<close>

lemma long_receiver:
  assumes "pt_data p = Some (body @ r)" and "pt_data_length p = Some (u32_of (int (length body)))"
    and "body = net_string u @ wr_i32 k @ rest" and "length body < 2 ^ 31" and "int (length rest) < k" and "i32_ok k"
  shows "chat_message p \<noteq> Some (s, Some v, m)"
proof
  assume c: "chat_message p = Some (s, Some v, m)"
  let ?n = "int (length body)" and ?P = "Package_set_data (body @ r) (int (length body)) Package_new"
  have n: "sint (u32_of ?n) = ?n" using assms(4) by (simp add: sint_length)
  have len: "length u < 2 ^ 31" using assms(3,4) by simp
  have "pk_rest ?P body" by (intro pk_rest_start) simp
  then have "pk_rest ?P (net_string u @ wr_i32 k @ rest)" by (simp add: assms(3))
  from get_net_string_ok [OF this len] obtain p1 p2 where
    p1: "get_net_i32 ?P = Some (int (length u), p1)" "Package_GetString (int (length u)) p1 = Some (Some u, p2)"
      "pk_rest p2 (wr_i32 k @ rest)" by blast
  from get_net_i32_ok [OF p1(3) assms(6)] obtain p3 where p3: "get_net_i32 p2 = Some (k, p3)" by blast
  have "pk_left p3 = int (length rest)"
    using p1(1,2) p3 assms(3)
    by (auto simp: get_net_i32_def Package_GetInt32_t_def Package_GetString_def Package_set_data_def room4_def
        bind_eq_Some_conv split: if_splits)
  with assms(5) have "Package_GetString k p3 = Some (None, p3)" by (simp add: Package_GetString_def)
  with c assms(1,2) n p1(1,2) p3 show False
    by (auto simp: chat_message_def bind_eq_Some_conv)
qed

text \<open>
  C25. Nothing can happen any more in a reached state without undefined behaviour exactly when the
  chat thread waits for room in the queue of a connection, which only the event loop empties, and the
  event loop waits for the chat thread, on the queue of requests or on the lock of the table.
  Such a state is reached by well-behaved clients: \<open>sendToAllUser\<close> holds the lock over its pushes.
\<close>

theorem chat_deadlock:
  assumes "\<forall>xs. mset (order xs) = mset xs"
  shows "(\<forall>D s. chat_reach order max_id D s \<and> sv_chat s \<noteq> ChatFault \<and> sv_loop s \<noteq> LoopFault \<longrightarrow>
      ((\<forall>a. chat_exec order max_id a s = None) \<longleftrightarrow> chat_waits max_id s \<and> loop_waits s)) \<and>
    (\<exists>s. chat_reach order max_id (disciplined max_id) s \<and> sv_chat s \<noteq> ChatFault \<and> sv_loop s \<noteq> LoopFault \<and>
      (\<forall>a. chat_exec order max_id a s = None))"
proof (intro conjI)
  show "\<forall>D s. chat_reach order max_id D s \<and> sv_chat s \<noteq> ChatFault \<and> sv_loop s \<noteq> LoopFault \<longrightarrow>
      ((\<forall>a. chat_exec order max_id a s = None) \<longleftrightarrow> chat_waits max_id s \<and> loop_waits s)"
    by (intro allI impI) (elim conjE, rule chat_stuck_iff)
next
  from full_queue_stuck [OF assms] show "\<exists>s. chat_reach order max_id (disciplined max_id) s \<and>
      sv_chat s \<noteq> ChatFault \<and> sv_loop s \<noteq> LoopFault \<and> (\<forall>a. chat_exec order max_id a s = None)" by blast
qed

lemma chat_deadlock_witness:
  "\<exists>s. chat_reach id 0 (disciplined 0) s \<and> sv_chat s \<noteq> ChatFault \<and> (\<forall>a. chat_exec id 0 a s = None)"
  using chat_deadlock [of id 0] by auto

text \<open>
  A message whose receiver is announced as longer than what is left of the packet makes the
  server use the null pointer of \<open>GetString\<close>: any client can stop the server.
\<close>

theorem chat_malformed_message:
  assumes "at_rest s" and "map_of (sv_live s) e \<noteq> None"
    and "pt_head p = Some (wr_i32 SEND_MSG @ h # hr)" and "pt_head_length p = Some (u32_of 5)"
    and "pt_data p = Some (body @ r)" and "pt_data_length p = Some (u32_of (int (length body)))"
    and "body = net_string u @ wr_i32 k @ rest" and "length body < 2 ^ 31" and "int (length rest) < k" and "i32_ok k"
  shows "chat_run order max_id (request_turns e p) s = Some (s\<lparr>sv_chat := ChatFault\<rparr>)"
proof -
  let ?p = "p\<lparr>pt_end_point := Some e\<rparr>"
  have "chat_packet SEND_MSG body p"
    by (rule chat_packetI [where d = "[]" and dr = r]) (use assms in simp_all)
  then have node: "ChatHandler_EchoFromServer ?p = Some \<lparr>ct_packet = ?p, ct_req = SEND_MSG\<rparr>"
    by (intro chat_packet_head) simp_all
  have "chat_dispatch \<lparr>ct_packet = ?p, ct_req = SEND_MSG\<rparr> = ChatFault"
    using long_receiver [of ?p body r u k rest] assms by (auto simp: chat_dispatch_def split: option.splits)
  with request_run [OF assms(1,2) node] show ?thesis by simp
qed

lemma chat_malformed_message_witness:
  "\<exists>s. chat_run id 0 (request_turns 1 (demo_packet SEND_MSG (net_string [97] @ wr_i32 9 @ [98]))) demo_server = Some s \<and>
     sv_chat s = ChatFault"
proof -
  let ?body = "net_string [97] @ wr_i32 9 @ [98]"
  have "at_rest demo_server" "map_of (sv_live demo_server) 1 \<noteq> None" by (simp_all add: demo_server_def)
  from chat_malformed_message [OF this, of "demo_packet SEND_MSG ?body" 0 "[]" ?body "[]" "[97]" 9 "[98]" id 0]
  show ?thesis
    by (simp add: demo_packet_def new_packet_def Packet_set_packet_def Packet_set_head_def i32_ok_def)
qed

end
