(* ===== verification/HttpCore.thy ===== *)
theory HttpCore
  imports RsyncRemote LogTime TaskQueue
begin

text \<open>
  The http servers: \<open>http_server.1.1.0\<close>, and where they differ \<open>http_server.1.0.0\<close>: configuration files
  (\<open>depend/config/config.cpp\<close>, \<open>src/http_conf.h\<close>), helpers (\<open>depend/util/util.cpp\<close>), the answer to a request
  (\<open>src/response.cpp\<close>, \<open>src/cgi.cpp\<close>) and the turn of a worker (\<open>src/http_work_flow.cpp\<close>).

  A path names a file as it is written: what \<open>.\<close> and \<open>..\<close> in it lead to is the matter of the file
  system.  \<open>sys\<close> is what \<open>system\<close> makes of a command.  \<open>exit\<close> is the value \<open>Inl\<close> of its code.
\<close>

section \<open>Configuration\<close>

record config =
  cf_mode :: char
  cf_conf :: "string \<rightharpoonup> string"

text \<open>The lines of a file, each with its end, as \<open>getline\<close> hands them out.\<close>

fun file_lines :: "byte list \<Rightarrow> byte list list" where
  "file_lines [] = []"
| "file_lines (b # bs) =
     (if b = 10 then [b] # file_lines bs
      else case file_lines bs of
        [] \<Rightarrow> [[b]]
      | l # ls \<Rightarrow> (b # l) # ls)"

definition Config_Parse :: "char \<Rightarrow> string \<Rightarrow> string \<times> string" where
  "Config_Parse mode input =
     (let key = takeWhile (\<lambda>c. c \<noteq> mode) input
      in (key, takeWhile (\<lambda>c. c \<noteq> CHR 0x0A) (drop (length key + 1) input)))"

definition Config_read :: "char \<Rightarrow> byte list \<Rightarrow> config" where
  "Config_read mode content =
     foldl (\<lambda>c line. let (key, value) = Config_Parse mode (bytes_str line)
                     in c\<lparr>cf_conf := (cf_conf c)(key \<mapsto> value)\<rparr>)
       \<lparr>cf_mode = mode, cf_conf = Map.empty\<rparr> (file_lines content)"

definition Config_new :: "fsys \<Rightarrow> string \<Rightarrow> char \<Rightarrow> int + config" where
  "Config_new fs path mode =
     (case fopen_read fs path of
        None \<Rightarrow> Inl 1
      | Some content \<Rightarrow> Inr (Config_read mode content))"

definition Config_GetString :: "string \<Rightarrow> config \<Rightarrow> string" where
  "Config_GetString key c = (case cf_conf c key of None \<Rightarrow> '''' | Some v \<Rightarrow> v)"

definition Config_Exist :: "string \<Rightarrow> config \<Rightarrow> bool" where
  "Config_Exist key c \<longleftrightarrow> key \<noteq> '''' \<and> cf_conf c key \<noteq> None"

definition Config_GetInt :: "string \<Rightarrow> config \<Rightarrow> int option" where
  "Config_GetInt key c = atoi (Config_GetString key c)"

definition Config_GetBool :: "string \<Rightarrow> config \<Rightarrow> bool" where
  "Config_GetBool key c \<longleftrightarrow> Config_GetString key c \<noteq> ''false''"

definition FType_ExistType :: "string \<Rightarrow> config \<Rightarrow> bool" where
  "FType_ExistType file_type c = Config_Exist file_type c"

definition FType_GetType :: "string \<Rightarrow> config \<Rightarrow> string" where
  "FType_GetType file_type c =
     (if FType_ExistType file_type c then Config_GetString file_type c else ''application/x-gzip'')"

definition Http_CGI :: "config \<Rightarrow> string" where "Http_CGI c = Config_GetString ''cgi'' c"
definition Http_Tmp :: "config \<Rightarrow> string" where "Http_Tmp c = Config_GetString ''tmp'' c"
definition Http_Port :: "config \<Rightarrow> int option" where "Http_Port c = Config_GetInt ''PORT'' c"
definition Http_Thread_num :: "config \<Rightarrow> int option" where "Http_Thread_num c = Config_GetInt ''thread_num'' c"

section \<open>Helpers\<close>

definition HasFile :: "fsys \<Rightarrow> string \<Rightarrow> bool" where
  "HasFile fs path \<longleftrightarrow> fopen_read fs path \<noteq> None"

text \<open>
  The search for the last dot from place \<open>i\<close> down.  \<open>i\<close> is unsigned, so \<open>i >= 0\<close> never ends the loop:
  without a dot it goes on to read far behind the string.
\<close>

fun last_dot :: "string \<Rightarrow> nat \<Rightarrow> nat option" where
  "last_dot s 0 = (if s ! 0 = CHR ''.'' then Some 0 else None)"
| "last_dot s (Suc i) = (if s ! Suc i = CHR ''.'' then Some (Suc i) else last_dot s i)"

definition Util_FielType :: "string \<Rightarrow> string option" where
  "Util_FielType file_name =
     (if file_name = '''' then Some ''''
      else do {
        i \<leftarrow> last_dot file_name (length file_name - 1);
        Some (if i = 0 then '''' else drop (i + 1) file_name)
      })"

definition SendFileHead :: "string \<Rightarrow> string" where
  "SendFileHead type = (if type = ''jpg'' then ''jpg'' else '''')"

text \<open>
  A connection: what each \<open>send\<close> on it does, \<open>None\<close> for an error and \<open>Some k\<close> for at most \<open>k\<close> bytes
  taken, everything after the end of the list; and the bytes that went out.
\<close>

record http_conn =
  hc_sched :: "nat option list"
  hc_sent :: "byte list"

fun send_loop :: "nat option list \<Rightarrow> byte list \<Rightarrow> bool \<times> byte list \<times> nat option list" where
  "send_loop sched [] = (True, [], sched)"
| "send_loop [] dat = (True, dat, [])"
| "send_loop (None # sched) dat = (False, [], sched)"
| "send_loop (Some k # sched) dat =
     (let (ok, out, sched) = send_loop sched (drop k dat) in (ok, take k dat @ out, sched))"

definition SafeSendFile :: "byte list \<Rightarrow> nat \<Rightarrow> http_conn \<Rightarrow> (bool \<times> http_conn) option" where
  "SafeSendFile buff len c = do {
     dat \<leftarrow> load buff 0 len;
     let (ok, out, sched) = send_loop (hc_sched c) dat;
     Some (ok, c\<lparr>hc_sched := sched, hc_sent := hc_sent c @ out\<rparr>)
   }"

section \<open>The answer to a request\<close>

record response =
  rs_ftype :: config
  rs_conf :: config

definition FileEnd :: "string \<Rightarrow> string option" where
  "FileEnd file_name =
     (if file_name = '''' then Some ''''
      else do {
        i \<leftarrow> last_dot file_name (length file_name - 1);
        Some (drop (i + 1) file_name)
      })"

text \<open>\<open>%s\<close> of \<open>sscanf\<close>: the next word, after white space, and what follows it.\<close>

definition scan_word :: "string \<Rightarrow> string \<times> string" where
  "scan_word s = (let t = dropWhile is_space s
                  in (takeWhile (\<lambda>c. \<not> is_space c) t, dropWhile (\<lambda>c. \<not> is_space c) t))"

text \<open>
  \<open>sscanf(data, "%s /%s", request, buf + 2)\<close> and the test for \<open>GET\<close>: \<open>Some None\<close> where a branch that
  reports an error is taken; a word that does not fit its array is a fault.
\<close>

definition request_file :: "string \<Rightarrow> string option option" where
  "request_file dat =
     (let (request, rest) = scan_word dat in
      if request = '''' then Some None
      else do {
        require (length request < 10);
        case dropWhile is_space rest of
          CHR ''/'' # rest \<Rightarrow>
            (let (path, _) = scan_word rest in
             if path = '''' then Some None
             else do {
               require (length path < 998);
               Some (if request \<noteq> ''GET'' then None else Some (''./'' @ path))
             })
        | _ \<Rightarrow> Some None
      })"

definition RequestFeile :: "string \<Rightarrow> string option" where
  "RequestFeile dat = map_option (\<lambda>r. case r of None \<Rightarrow> ''default.html'' | Some f \<Rightarrow> f) (request_file dat)"

text \<open>\<open>http_server.1.0.0\<close> leaves with \<open>exit(1)\<close> instead.\<close>

definition RequestFeile_1_0 :: "string \<Rightarrow> (int + string) option" where
  "RequestFeile_1_0 dat = map_option (\<lambda>r. case r of None \<Rightarrow> Inl 1 | Some f \<Rightarrow> Inr f) (request_file dat)"

definition CRLF :: string where
  "CRLF = [CHR 0x0D, CHR 0x0A]"

definition SendHead :: "(nat \<Rightarrow> byte list) \<Rightarrow> response \<Rightarrow> string \<Rightarrow> http_conn \<Rightarrow> http_conn option" where
  "SendHead fresh r file_name c = do {
     (buff, len) \<leftarrow> c_snprintf (fresh 1000) 0 1000 (str_bytes (''HTTP/1.0 200 OK'' @ CRLF));
     end \<leftarrow> FileEnd file_name;
     let line = ''Content-type: '' @ FType_GetType end (rs_ftype r) @ CRLF;
     (buff, n) \<leftarrow> c_snprintf buff len (1000 - len) (str_bytes line);
     (_, c) \<leftarrow> SafeSendFile buff (len + n) c;
     Some c
   }"

definition Response_GetType :: "string \<Rightarrow> response \<Rightarrow> string" where
  "Response_GetType type r = FType_GetType type (rs_ftype r)"

definition SendFileSize :: "(nat \<Rightarrow> byte list) \<Rightarrow> fsys \<Rightarrow> string \<Rightarrow> http_conn \<Rightarrow> http_conn option" where
  "SendFileSize fresh fs file_name c =
     (case fs_files fs file_name of
        None \<Rightarrow> Some c
      | Some content \<Rightarrow> do {
          (buff, len) \<leftarrow> c_snprintf (fresh 100) 0 100
             (str_bytes (''Content-Length: '' @ nat_dec (length content) @ CRLF @ [CHR 0x0A]));
          (_, c) \<leftarrow> SafeSendFile buff len c;
          Some c
        })"

text \<open>A file that cannot be opened is read from descriptor -1, which ends the loop at once.\<close>

function send_file_loop :: "byte list \<Rightarrow> http_conn \<Rightarrow> http_conn option" where
  "send_file_loop content c =
     (if content = [] then Some c
      else do {
        let buff = take 10000 content;
        (_, c) \<leftarrow> SafeSendFile buff (length buff) c;
        send_file_loop (drop 10000 content) c
      })"
  by pat_completeness auto
termination
  by (relation "measure (length \<circ> fst)") auto

declare send_file_loop.simps [simp del]

definition SendFile :: "fsys \<Rightarrow> string \<Rightarrow> http_conn \<Rightarrow> http_conn option" where
  "SendFile fs file_name c =
     (case fopen_read fs file_name of None \<Rightarrow> Some c | Some content \<Rightarrow> send_file_loop content c)"

text \<open>The commands for \<open>php\<close>; a command is cut off after 255 characters.\<close>

definition GenerateSendFile :: "(string \<Rightarrow> fsys \<Rightarrow> fsys) \<Rightarrow> string \<Rightarrow> string \<Rightarrow> fsys \<Rightarrow> fsys" where
  "GenerateSendFile sys src dis fs = sys (take 255 (''php '' @ src @ '' > '' @ dis)) fs"

definition SafeRemoveFile :: "(string \<Rightarrow> fsys \<Rightarrow> fsys) \<Rightarrow> string \<Rightarrow> fsys \<Rightarrow> fsys" where
  "SafeRemoveFile sys dis fs = (if HasFile fs dis then sys (take 255 (''rm '' @ dis)) fs else fs)"

definition send_answer ::
  "(nat \<Rightarrow> byte list) \<Rightarrow> response \<Rightarrow> fsys \<Rightarrow> string \<Rightarrow> http_conn \<Rightarrow> http_conn option" where
  "send_answer fresh r fs file_name c = do {
     c \<leftarrow> SendHead fresh r file_name c;
     c \<leftarrow> SendFileSize fresh fs file_name c;
     SendFile fs file_name c
   }"

definition DealWithRequest ::
  "(string \<Rightarrow> fsys \<Rightarrow> fsys) \<Rightarrow> (nat \<Rightarrow> byte list) \<Rightarrow> nat \<Rightarrow> response \<Rightarrow> fsys \<Rightarrow> string \<Rightarrow> http_conn \<Rightarrow>
   (fsys \<times> http_conn) option" where
  "DealWithRequest sys fresh now r fs dat c = do {
     file \<leftarrow> RequestFeile dat;
     let file_name = Http_CGI (rs_conf r) @ file;
     if \<not> HasFile fs file_name
     then map_option (\<lambda>c. (fs, c)) (send_answer fresh r fs (Http_CGI (rs_conf r) @ ''./default.html'') c)
     else do {
       file_end \<leftarrow> FileEnd file_name;
       if file_end = ''php''
       then do {
         let new_name = take 19 (nat_dec now @ ''.html'');
         let send_file = Http_CGI (rs_conf r) @ Http_Tmp (rs_conf r) @ new_name;
         let fs = GenerateSendFile sys file_name send_file fs;
         c \<leftarrow> send_answer fresh r fs send_file c;
         Some (SafeRemoveFile sys send_file fs, c)
       }
       else map_option (\<lambda>c. (fs, c)) (send_answer fresh r fs file_name c)
     }
   }"

text \<open>Version 1.0.0 has no \<open>php\<close>.\<close>

definition DealWithRequest_1_0 ::
  "(nat \<Rightarrow> byte list) \<Rightarrow> response \<Rightarrow> fsys \<Rightarrow> string \<Rightarrow> http_conn \<Rightarrow> (int + http_conn) option" where
  "DealWithRequest_1_0 fresh r fs dat c = do {
     file \<leftarrow> RequestFeile_1_0 dat;
     case file of
       Inl code \<Rightarrow> Some (Inl code)
     | Inr file \<Rightarrow>
         let file_name = Http_CGI (rs_conf r) @ file;
             shown = (if HasFile fs file_name then file_name else Http_CGI (rs_conf r) @ ''./default.html'')
         in map_option Inr (send_answer fresh r fs shown c)
   }"

section \<open>The turn of a worker\<close>

text \<open>
  \<open>received\<close> is what \<open>recv\<close> returns for a buffer of 10240 bytes, \<open>None\<close> for an error.  The zero
  behind the request has no room after a full buffer, and stands before the buffer after an error.
\<close>

definition HttpWorkFlow_Response ::
  "(string \<Rightarrow> fsys \<Rightarrow> fsys) \<Rightarrow> (nat \<Rightarrow> byte list) \<Rightarrow> nat \<Rightarrow> response \<Rightarrow> fsys \<Rightarrow> byte list option \<Rightarrow>
   http_conn \<Rightarrow> (fsys \<times> http_conn) option" where
  "HttpWorkFlow_Response sys fresh now r fs received c = do {
     dat \<leftarrow> received;
     buff \<leftarrow> store (fresh 10240) 0 dat;
     if dat = [] then Some (fs, c)
     else do {
       buff \<leftarrow> store buff (length dat) [0];
       DealWithRequest sys fresh now r fs (bytes_str buff) c
     }
   }"

text \<open>
  The destructor of the queue of version 1.1.0 takes the lock and calls \<open>Pop\<close>, which takes it again:
  it returns, as \<open>Some ()\<close>, for an empty queue only.
\<close>

definition HttpTaskQueue_delete :: "'a task_queue \<Rightarrow> unit option" where
  "HttpTaskQueue_delete q = (if TaskQueue_Empty q then Some () else None)"

end
