(* ===== verification/HttpFacts.thy ===== *)
theory HttpFacts
  imports HttpCore RemoteFacts
begin

text \<open>
  What the http servers read in configuration files and requests and what they put on the wire.
\<close>

section \<open>Configuration files\<close>

lemma byte_char_eq: "(of_nat (of_char c) :: byte) = of_nat (of_char d) \<longleftrightarrow> c = d"
  by (metis unat_of_char of_char_eq_iff)

lemma newline_byte:
  "(of_nat (of_char c) :: byte) = 10 \<longleftrightarrow> c = CHR 0x0A" "10 = (of_nat (of_char c) :: byte) \<longleftrightarrow> c = CHR 0x0A"
  using byte_char_eq [of c "CHR 0x0A"] by auto

lemma file_lines_line: "10 \<notin> set l \<Longrightarrow> file_lines (l @ 10 # bs) = (l @ [10]) # file_lines bs"
  by (induction l) auto

definition config_line :: "char \<Rightarrow> string \<times> string \<Rightarrow> string" where
  "config_line mode kv = fst kv @ mode # snd kv @ [CHR 0x0A]"

definition config_text :: "char \<Rightarrow> (string \<times> string) list \<Rightarrow> string" where
  "config_text mode kvs = concat (map (config_line mode) kvs)"

definition config_entry :: "char \<Rightarrow> string \<times> string \<Rightarrow> bool" where
  "config_entry mode kv \<longleftrightarrow>
     mode \<notin> set (fst kv) \<and> CHR 0x0A \<notin> set (fst kv @ snd kv) \<and> c_path (fst kv @ snd kv)"

lemma takeWhile_until: "\<forall>x \<in> set xs. P x \<Longrightarrow> \<not> P y \<Longrightarrow> takeWhile P (xs @ y # ys) = xs"
  by (induction xs) simp_all

lemma dropWhile_until: "\<forall>x \<in> set xs. P x \<Longrightarrow> \<not> P y \<Longrightarrow> dropWhile P (xs @ y # ys) = y # ys"
  by (induction xs) simp_all

lemma Config_Parse_line:
  assumes "config_entry mode kv"
  shows "Config_Parse mode (config_line mode kv) = kv"
proof -
  have k: "takeWhile (\<lambda>c. c \<noteq> mode) (config_line mode kv) = fst kv"
    unfolding config_line_def by (rule takeWhile_until) (use assms in \<open>auto simp: config_entry_def\<close>)
  have "takeWhile (\<lambda>c. c \<noteq> CHR 0x0A) (snd kv @ [CHR 0x0A]) = snd kv"
    by (rule takeWhile_until) (use assms in \<open>auto simp: config_entry_def\<close>)
  then show ?thesis by (simp add: Config_Parse_def Let_def k) (simp add: config_line_def)
qed

lemma str_bytes_append [simp]: "str_bytes (s @ t) = str_bytes s @ str_bytes t"
  by (simp add: str_bytes_def)

lemma str_bytes_Nil [simp]: "str_bytes '''' = []"
  by (simp add: str_bytes_def)

lemma file_lines_config:
  assumes "\<forall>kv \<in> set kvs. config_entry mode kv" and "mode \<noteq> CHR 0x0A"
  shows "file_lines (str_bytes (config_text mode kvs)) = map (\<lambda>kv. str_bytes (config_line mode kv)) kvs"
  using assms(1)
proof (induction kvs)
  case Nil
  then show ?case by (simp add: config_text_def)
next
  case (Cons kv kvs)
  let ?l = "str_bytes (fst kv @ mode # snd kv)"
  have "10 \<notin> set ?l"
    using Cons.prems assms(2) by (auto simp: str_bytes_def config_entry_def newline_byte)
  moreover have "str_bytes (config_line mode kv) = ?l @ [10]" by (simp add: config_line_def str_bytes_def)
  moreover have "str_bytes (config_text mode (kv # kvs)) = str_bytes (config_line mode kv) @ str_bytes (config_text mode kvs)"
    by (simp add: config_text_def)
  ultimately show ?case using file_lines_line [of ?l "str_bytes (config_text mode kvs)"] Cons by simp
qed

lemma foldl_updates:
  "foldl (\<lambda>c kv. c\<lparr>cf_conf := (cf_conf c)(fst kv \<mapsto> snd kv)\<rparr>) c kvs = c\<lparr>cf_conf := cf_conf c ++ map_of (rev kvs)\<rparr>"
  by (induction kvs arbitrary: c) (simp_all add: map_add_def fun_eq_iff split: option.split)

lemma Config_read_text:
  assumes "\<forall>kv \<in> set kvs. config_entry mode kv" and "mode \<noteq> CHR 0x0A" and "mode \<noteq> CHR 0x00"
  shows "Config_read mode (str_bytes (config_text mode kvs)) = \<lparr>cf_mode = mode, cf_conf = map_of (rev kvs)\<rparr>"
proof -
  have "bytes_str (str_bytes (config_line mode kv)) = config_line mode kv" if "kv \<in> set kvs" for kv
    using assms(1,3) that by (intro bytes_str_bytes) (auto simp: config_line_def config_entry_def c_path_def)
  then have *: "Config_Parse mode (bytes_str (str_bytes (config_line mode kv))) = kv" if "kv \<in> set kvs" for kv
    using assms(1) that Config_Parse_line by simp
  have "Config_read mode (str_bytes (config_text mode kvs)) =
      foldl (\<lambda>c kv. c\<lparr>cf_conf := (cf_conf c)(fst kv \<mapsto> snd kv)\<rparr>) \<lparr>cf_mode = mode, cf_conf = Map.empty\<rparr> kvs"
    unfolding Config_read_def file_lines_config [OF assms(1,2)] foldl_map
    by (rule foldl_cong) (simp_all add: * split_def Let_def)
  then show ?thesis by (simp add: foldl_updates)
qed

section \<open>File ends\<close>

lemma last_dot_found:
  "CHR ''.'' \<notin> set e \<Longrightarrow> k \<le> length e \<Longrightarrow> last_dot (p @ CHR ''.'' # e) (length p + k) = Some (length p)"
proof (induction k)
  case 0
  then show ?case by (cases p rule: rev_cases) (simp_all add: nth_append)
next
  case (Suc k)
  then have "(p @ CHR ''.'' # e) ! (Suc (length p + k)) = e ! k" by (simp add: nth_append)
  moreover have "e ! k \<noteq> CHR ''.''" using Suc.prems by (metis Suc_le_eq nth_mem)
  ultimately show ?case using Suc by simp
qed

lemma last_dot_none: "CHR ''.'' \<notin> set s \<Longrightarrow> i < length s \<Longrightarrow> last_dot s i = None"
proof (induction i)
  case 0
  then have "s ! 0 \<noteq> CHR ''.''" using nth_mem by metis
  then show ?case by simp
next
  case (Suc i)
  have "s ! Suc i \<noteq> CHR ''.''" using Suc.prems nth_mem by metis
  with Suc show ?case by simp
qed

lemma FileEnd_dot: "CHR ''.'' \<notin> set e \<Longrightarrow> FileEnd (p @ CHR ''.'' # e) = Some e"
  using last_dot_found [of e "length e" p] by (simp add: FileEnd_def)

lemma FileEnd_iff: "FileEnd s = None \<longleftrightarrow> s \<noteq> '''' \<and> CHR ''.'' \<notin> set s"
proof (cases "CHR ''.'' \<in> set s")
  case True
  then obtain p e where "s = p @ CHR ''.'' # e" "CHR ''.'' \<notin> set e" by (meson split_list_last)
  with True show ?thesis using FileEnd_dot by simp
next
  case False
  then show ?thesis by (cases s) (simp_all add: FileEnd_def last_dot_none)
qed

section \<open>Requests\<close>

definition word_ok :: "string \<Rightarrow> bool" where
  "word_ok w \<longleftrightarrow> w \<noteq> '''' \<and> (\<forall>c \<in> set w. \<not> is_space c)"

lemma scan_word_ok: "word_ok w \<Longrightarrow> is_space c \<Longrightarrow> scan_word (w @ c # s) = (w, c # s)"
proof -
  assume w: "word_ok w" and c: "is_space c"
  then have "dropWhile is_space (w @ c # s) = w @ c # s" by (cases w) (simp_all add: word_ok_def)
  moreover have "takeWhile (\<lambda>c. \<not> is_space c) (w @ c # s) = w"
    by (rule takeWhile_until) (use w c in \<open>simp_all add: word_ok_def\<close>)
  moreover have "dropWhile (\<lambda>c. \<not> is_space c) (w @ c # s) = c # s"
    by (rule dropWhile_until) (use w c in \<open>simp_all add: word_ok_def\<close>)
  ultimately show ?thesis by (simp add: scan_word_def Let_def)
qed

lemma space_simps [simp]:
  "is_space CHR '' ''" "\<not> is_space CHR ''/''" "\<not> is_space CHR ''G''" "\<not> is_space CHR ''E''"
  "\<not> is_space CHR ''T''" "is_space CHR 0x0D"
  by (simp_all add: is_space_def)

lemma request_file_get:
  assumes "word_ok path" and "length path < 998" and "is_space c"
  shows "request_file (''GET /'' @ path @ c # rest) = Some (Some (''./'' @ path))"
proof -
  have "scan_word (''GET'' @ CHR '' '' # (CHR ''/'' # path @ c # rest)) = (''GET'', CHR '' '' # (CHR ''/'' # path @ c # rest))"
    by (rule scan_word_ok) (simp_all add: word_ok_def)
  then show ?thesis
    using assms scan_word_ok [OF assms(1,3), of rest]
    by (simp add: request_file_def Let_def) (simp add: word_ok_def)
qed

lemma request_file_root:
  assumes "word_ok w" and "length w < 998" and "is_space c"
  shows "request_file (''GET / '' @ w @ c # rest) = Some (Some (''./'' @ w))"
proof -
  have "scan_word (''GET'' @ CHR '' '' # (''/ '' @ w @ c # rest)) = (''GET'', CHR '' '' # (''/ '' @ w @ c # rest))"
    by (rule scan_word_ok) (simp_all add: word_ok_def)
  moreover have "scan_word (CHR '' '' # w @ c # rest) = (w, c # rest)"
    using scan_word_ok [OF assms(1,3), of rest] by (simp add: scan_word_def)
  ultimately show ?thesis using assms(1,2) by (simp add: request_file_def Let_def) (simp add: word_ok_def)
qed

text \<open>Which requests do not fit their arrays.\<close>

lemma request_file_fault:
  "request_file s = None \<longleftrightarrow>
   10 \<le> length (fst (scan_word s)) \<or>
   (fst (scan_word s) \<noteq> '''' \<and>
    (\<exists>t. dropWhile is_space (snd (scan_word s)) = CHR ''/'' # t \<and> 998 \<le> length (fst (scan_word t))))"
proof -
  obtain w b where "scan_word s = (w, b)" by (cases "scan_word s")
  then show ?thesis
    by (cases "dropWhile is_space b")
      (auto simp: request_file_def Let_def split_def require_def simp del: dropWhile_eq_Nil_conv
        split: char.splits if_splits bool.splits)
qed

section \<open>Sending\<close>

definition calm :: "http_conn \<Rightarrow> bool" where
  "calm c \<longleftrightarrow> None \<notin> set (hc_sched c)"

lemma send_loop_calm: "None \<notin> set sched \<Longrightarrow>
   \<exists>sched'. send_loop sched dat = (True, dat, sched') \<and> None \<notin> set sched'"
proof (induction sched dat rule: send_loop.induct)
  case (4 k sched v va)
  then show ?case by (auto simp: Let_def)
qed simp_all

lemma SafeSendFile_calm:
  assumes "calm c" and "len \<le> length buff"
  shows "\<exists>c'. SafeSendFile buff len c = Some (True, c') \<and> calm c' \<and> hc_sent c' = hc_sent c @ take len buff"
  using assms send_loop_calm [of "hc_sched c" "take len buff"]
  by (auto simp: SafeSendFile_def load_def calm_def)

lemma SafeSendFile_defined: "SafeSendFile buff len c = None \<longleftrightarrow> length buff < len"
  by (auto simp: SafeSendFile_def load_def split_def Let_def)

lemma snprintf_fits:
  assumes "off + length s < length m" and "length s < room"
  shows "c_snprintf m off room s = Some (take off m @ s @ 0 # drop (off + length s + 1) m, length s)"
  using assms by (simp add: c_snprintf_def store_def)

section \<open>Answers\<close>

definition status_line :: "string \<Rightarrow> byte list" where
  "status_line type = str_bytes (''HTTP/1.0 200 OK'' @ CRLF @ ''Content-type: '' @ type @ CRLF)"

definition length_line :: "nat \<Rightarrow> byte list" where
  "length_line n = str_bytes (''Content-Length: '' @ nat_dec n @ CRLF @ [CHR 0x0A])"

definition type_of :: "response \<Rightarrow> string \<Rightarrow> string" where
  "type_of r file_end = FType_GetType file_end (rs_ftype r)"

text \<open>The head has room for a type of 966 characters.\<close>

lemma SendHead_bytes:
  assumes "fresh_ok fresh" and "FileEnd name = Some e" and "length (type_of r e) \<le> 966"
  shows "\<exists>buff. length buff = 1000 \<and> take (length (status_line (type_of r e))) buff = status_line (type_of r e) \<and>
    length (status_line (type_of r e)) \<le> 1000 \<and>
    SendHead fresh r name c = map_option snd (SafeSendFile buff (length (status_line (type_of r e))) c)"
proof -
  let ?a = "str_bytes (''HTTP/1.0 200 OK'' @ CRLF)"
  let ?b = "str_bytes (''Content-type: '' @ FType_GetType e (rs_ftype r) @ CRLF)"
  have a: "length ?a = 17" by (simp add: CRLF_def)
  have b: "length ?b = 16 + length (type_of r e)" by (simp add: CRLF_def type_of_def)
  have line: "status_line (type_of r e) = ?a @ ?b"
    by (simp only: status_line_def type_of_def str_bytes_append append_assoc)
  define m where "m = ?a @ 0 # drop 18 (fresh 1000)"
  have m: "c_snprintf (fresh 1000) 0 1000 ?a = Some (m, 17)" "length m = 1000"
    using snprintf_fits [of 0 ?a "fresh 1000" 1000] assms(1) a by (simp_all add: fresh_ok_def m_def)
  define m' where "m' = take 17 m @ ?b @ 0 # drop (17 + length ?b + 1) m"
  have fits: "17 + length ?b < length m" "length ?b < 1000 - 17" unfolding b m(2) using assms(3) by simp_all
  have m': "c_snprintf m 17 (1000 - 17) ?b = Some (m', length ?b)"
    using snprintf_fits [OF fits] by (simp only: m'_def)
  have tm: "take 17 m = ?a" using a by (simp add: m_def)
  have "take (17 + length ?b) m' = ?a @ ?b" "length m' = 1000"
    using a fits m(2) by (simp_all add: m'_def tm)
  moreover have "SendHead fresh r name c = map_option snd (SafeSendFile m' (17 + length ?b) c)"
    using m(1) m' assms(2) by (simp add: SendHead_def Let_def map_option_case split_def split: option.split)
  moreover have "length (status_line (type_of r e)) = 17 + length ?b" unfolding line using a by simp
  ultimately show ?thesis using line fits(1) m(2) by (intro exI [of _ m']) simp
qed

lemma SendHead_ok:
  assumes "fresh_ok fresh" and "FileEnd name = Some e" and "length (type_of r e) \<le> 966" and "calm c"
  shows "\<exists>c'. SendHead fresh r name c = Some c' \<and> calm c' \<and> hc_sent c' = hc_sent c @ status_line (type_of r e)"
proof -
  let ?n = "length (status_line (type_of r e))"
  from SendHead_bytes [OF assms(1-3)] obtain buff where
    b: "?n \<le> length buff" "take ?n buff = status_line (type_of r e)"
      "SendHead fresh r name c = map_option snd (SafeSendFile buff ?n c)" by metis
  from SafeSendFile_calm [OF assms(4) b(1)] b(2,3) show ?thesis by auto
qed

lemma SendFileSize_bytes:
  assumes "fresh_ok fresh" and "fs_files fs name = Some content" and "length content < 2 ^ 63"
  shows "\<exists>buff. length buff = 100 \<and> take (length (length_line (length content))) buff = length_line (length content) \<and>
    length (length_line (length content)) \<le> 100 \<and>
    SendFileSize fresh fs name c = map_option snd (SafeSendFile buff (length (length_line (length content))) c)"
proof -
  let ?s = "length_line (length content)"
  have "length content < 10 ^ 19" using assms(3) by (rule less_trans) simp
  from length_nat_dec [OF this] have short: "length ?s < 100" by (simp add: length_line_def CRLF_def)
  define m where "m = ?s @ 0 # drop (length ?s + 1) (fresh 100)"
  have "c_snprintf (fresh 100) 0 100 ?s = Some (m, length ?s)"
    using snprintf_fits [of 0 ?s "fresh 100" 100] short assms(1) by (simp add: fresh_ok_def m_def)
  then have "SendFileSize fresh fs name c = map_option snd (SafeSendFile m (length ?s) c)"
    unfolding SendFileSize_def length_line_def [symmetric] using assms(2)
    by (simp add: map_option_case split_def split: option.split)
  moreover have "length m = 100" using short assms(1) by (simp add: m_def fresh_ok_def)
  ultimately show ?thesis using short by (intro exI [of _ m]) (simp add: m_def)
qed

lemma SendFileSize_ok:
  assumes "fresh_ok fresh" and "fs_files fs name = Some content" and "length content < 2 ^ 63" and "calm c"
  shows "\<exists>c'. SendFileSize fresh fs name c = Some c' \<and> calm c' \<and> hc_sent c' = hc_sent c @ length_line (length content)"
proof -
  let ?n = "length (length_line (length content))"
  from SendFileSize_bytes [OF assms(1-3)] obtain buff where
    b: "?n \<le> length buff" "take ?n buff = length_line (length content)"
      "SendFileSize fresh fs name c = map_option snd (SafeSendFile buff ?n c)" by metis
  from SafeSendFile_calm [OF assms(4) b(1)] b(2,3) show ?thesis by auto
qed

lemma SafeSendFile_all:
  "calm c \<Longrightarrow> \<exists>c'. SafeSendFile b (length b) c = Some (True, c') \<and> calm c' \<and> hc_sent c' = hc_sent c @ b"
  using SafeSendFile_calm [of c "length b" b] by simp

lemma send_file_loop_ok:
  "calm c \<Longrightarrow> \<exists>c'. send_file_loop content c = Some c' \<and> calm c' \<and> hc_sent c' = hc_sent c @ content"
proof (induction content c rule: send_file_loop.induct)
  case (1 content c)
  show ?case
  proof (cases "content = []")
    case True
    with 1 show ?thesis by (simp add: send_file_loop.simps)
  next
    case False
    let ?b = "take 10000 content"
    from SafeSendFile_all [OF "1.prems", of ?b] obtain c1 where
      c1: "SafeSendFile ?b (length ?b) c = Some (True, c1)" "calm c1" "hc_sent c1 = hc_sent c @ ?b" by blast
    from "1.IH" [OF False refl c1(1) refl c1(2)] obtain c2 where
      "send_file_loop (drop 10000 content) c1 = Some c2" "calm c2"
      "hc_sent c2 = hc_sent c1 @ drop 10000 content" by auto
    with c1 False show ?thesis by (subst send_file_loop.simps) (simp add: Let_def del: length_take)
  qed
qed

lemma SendFile_ok:
  "fopen_read fs name = Some content \<Longrightarrow> calm c \<Longrightarrow>
   \<exists>c'. SendFile fs name c = Some c' \<and> calm c' \<and> hc_sent c' = hc_sent c @ content"
  by (simp add: SendFile_def send_file_loop_ok)

lemma fopen_read_files: "fopen_read fs name = Some content \<Longrightarrow> fs_files fs name = Some content"
  by (simp add: fopen_read_def split: if_splits)

lemma send_answer_ok:
  assumes "fresh_ok fresh" and "fopen_read fs name = Some content" and "length content < 2 ^ 63"
    and "FileEnd name = Some e" and "length (type_of r e) \<le> 966" and "calm c"
  shows "\<exists>c'. send_answer fresh r fs name c = Some c' \<and>
    hc_sent c' = hc_sent c @ status_line (type_of r e) @ length_line (length content) @ content"
proof -
  from SendHead_ok [OF assms(1,4,5,6)] obtain c1 where
    c1: "SendHead fresh r name c = Some c1" "calm c1" "hc_sent c1 = hc_sent c @ status_line (type_of r e)" by blast
  from SendFileSize_ok [OF assms(1) fopen_read_files [OF assms(2)] assms(3) c1(2)] obtain c2 where
    c2: "SendFileSize fresh fs name c1 = Some c2" "calm c2"
      "hc_sent c2 = hc_sent c1 @ length_line (length content)" by blast
  from SendFile_ok [OF assms(2) c2(2)] obtain c3 where
    "SendFile fs name c2 = Some c3" "hc_sent c3 = hc_sent c2 @ content" by blast
  with c1 c2 show ?thesis by (simp add: send_answer_def)
qed

text \<open>A page that is not there: the head, and nothing behind it.\<close>

lemma send_answer_missing:
  assumes "fresh_ok fresh" and "fs_files fs name = None"
    and "FileEnd name = Some e" and "length (type_of r e) \<le> 966" and "calm c"
  shows "\<exists>c'. send_answer fresh r fs name c = Some c' \<and> hc_sent c' = hc_sent c @ status_line (type_of r e)"
proof -
  from SendHead_ok [OF assms(1,3,4,5)] obtain c1 where
    "SendHead fresh r name c = Some c1" "hc_sent c1 = hc_sent c @ status_line (type_of r e)" by blast
  moreover have "fopen_read fs name = None" using assms(2) by (simp add: fopen_read_def)
  ultimately show ?thesis using assms(2) by (simp add: send_answer_def SendFileSize_def SendFile_def)
qed

text \<open>What is sent does not matter for whether the answer is defined.\<close>

lemma send_answer_defined:
  assumes "fresh_ok fresh" and "\<forall>name content. fs_files fs name = Some content \<longrightarrow> length content < 2 ^ 63"
    and "FileEnd name = Some e" and "length (type_of r e) \<le> 966"
  shows "send_answer fresh r fs name c \<noteq> None"
proof -
  have loop: "send_file_loop content c \<noteq> None" for content c
  proof (induction content c rule: send_file_loop.induct)
    case (1 content c)
    obtain ok c1 where "SafeSendFile (take 10000 content) (length (take 10000 content)) c = Some (ok, c1)"
      using SafeSendFile_defined [of "take 10000 content" "length (take 10000 content)" c]
      by (cases "SafeSendFile (take 10000 content) (length (take 10000 content)) c") auto
    with 1 show ?case by (subst send_file_loop.simps) (simp add: Let_def)
  qed
  have "SendHead fresh r name c \<noteq> None" for c
  proof -
    from SendHead_bytes [OF assms(1,3,4)] obtain buff where
      "length (status_line (type_of r e)) \<le> length buff"
      "SendHead fresh r name c = map_option snd (SafeSendFile buff (length (status_line (type_of r e))) c)" by metis
    then show ?thesis using SafeSendFile_defined [of buff "length (status_line (type_of r e))" c] by auto
  qed
  moreover have "SendFileSize fresh fs name c \<noteq> None" for c
  proof (cases "fs_files fs name")
    case (Some content)
    with assms(2) have "length content < 2 ^ 63" by blast
    from SendFileSize_bytes [OF assms(1) Some this] obtain buff where
      "length (length_line (length content)) \<le> length buff"
      "SendFileSize fresh fs name c = map_option snd (SafeSendFile buff (length (length_line (length content))) c)"
      by metis
    then show ?thesis using SafeSendFile_defined [of buff "length (length_line (length content))" c] by auto
  qed (simp add: SendFileSize_def)
  moreover have "SendFile fs name c \<noteq> None" for c
    using loop by (simp add: SendFile_def split: option.split)
  ultimately show ?thesis unfolding send_answer_def by (metis bind.bind_lunit not_None_eq)
qed

section \<open>What a worker reads\<close>

lemma worker_request:
  assumes "fresh_ok fresh" and "c_path req" and "req \<noteq> ''''" and "length req < 10240"
  shows "HttpWorkFlow_Response sys fresh now r fs (Some (str_bytes req)) c = DealWithRequest sys fresh now r fs req c"
proof -
  let ?d = "str_bytes req" and ?t = "drop (length req) (fresh 10240)"
  have t: "length ?t = 10240 - length req" using assms(1) by (simp add: fresh_ok_def)
  with assms(4) obtain b r' where tl: "?t = b # r'" by (cases ?t) auto
  have "store (fresh 10240) 0 ?d = Some (?d @ b # r')"
    using assms(1,4) tl by (simp add: store_def fresh_ok_def)
  moreover have "store (?d @ b # r') (length ?d) [0] = Some (?d @ 0 # r')" by (simp add: store_def)
  moreover have "?d \<noteq> []" using assms(3) by (simp add: str_bytes_def)
  ultimately show ?thesis
    using bytes_str_zero [OF assms(2), of r'] by (simp add: HttpWorkFlow_Response_def del: length_str_bytes)
qed

text \<open>An answer is defined whenever the request could be read.\<close>

lemma bytes_str_stop: "bytes_str (dat @ 0 # r) = bytes_str (dat @ [0])"
proof -
  have "takeWhile (\<lambda>b. b \<noteq> 0) (xs @ 0 # r) = takeWhile (\<lambda>b. b \<noteq> 0) (xs @ [0])" for xs :: "byte list"
    by (induction xs) simp_all
  then show ?thesis by (simp add: bytes_str_def)
qed

lemma deal_defined:
  assumes "fresh_ok fresh" and "\<forall>e. length (type_of r e) \<le> 966" and "now < 10 ^ 14"
    and "\<forall>name content. fs_files fs name = Some content \<longrightarrow> length content < 2 ^ 63"
    and "\<forall>cmd name content. fs_files (sys cmd fs) name = Some content \<longrightarrow> length content < 2 ^ 63"
  shows "DealWithRequest sys fresh now r fs req c = None \<longleftrightarrow> RequestFeile req = None"
proof (cases "RequestFeile req")
  case (Some f)
  let ?cgi = "Http_CGI (rs_conf r)"
  have answer: "send_answer fresh r fs' name c \<noteq> None"
    if "FileEnd name \<noteq> None" and "\<forall>name content. fs_files fs' name = Some content \<longrightarrow> length content < 2 ^ 63" for name fs'
  proof -
    from that(1) obtain e where "FileEnd name = Some e" by blast
    with send_answer_defined [OF assms(1) that(2)] assms(2) show ?thesis by blast
  qed
  have "f = ''default.html'' \<or> (\<exists>p. f = ''./'' @ p)"
    using Some by (auto simp: RequestFeile_def request_file_def Let_def split_def require_def bind_eq_Some_conv
        split: if_splits list.splits char.splits bool.splits)
  then have name: "FileEnd (?cgi @ f) \<noteq> None" by (auto simp: FileEnd_iff)
  have "length (nat_dec now) \<le> 14" using length_nat_dec [OF assms(3)] by simp
  then have "CHR ''.'' \<in> set (take 19 (nat_dec now @ ''.html''))" by (simp add: take_append)
  then have tmp: "FileEnd (?cgi @ Http_Tmp (rs_conf r) @ take 19 (nat_dec now @ ''.html'')) \<noteq> None"
    by (simp add: FileEnd_iff)
  have page: "FileEnd (?cgi @ ''./default.html'') \<noteq> None" by (simp add: FileEnd_iff)
  obtain e where "FileEnd (?cgi @ f) = Some e" using name by blast
  then show ?thesis
    using answer [OF page assms(4)] answer [OF name assms(4)]
      answer [OF tmp, of "GenerateSendFile sys (?cgi @ f) (?cgi @ Http_Tmp (rs_conf r) @ take 19 (nat_dec now @ ''.html'')) fs"]
      assms(5) Some
    by (auto simp: DealWithRequest_def Let_def GenerateSendFile_def)
qed (simp add: DealWithRequest_def)

end
