(* ===== verification/HttpProperties.thy ===== *)
theory HttpProperties
  imports HttpFacts
begin

text \<open>
  What the http servers promise, and the requests that break them.
\<close>

section \<open>Answers\<close>

text \<open>
  C9. A \<open>GET\<close> for a file below the \<open>cgi\<close> directory is answered with exactly a status line, the type
  configured for the end of its name, its length and its content, in whatever pieces the connection
  takes them; the path goes to the file system as it is.  The file is not a \<open>php\<close> page, the request
  fits the arrays of the server, the type fits its buffer, and no \<open>send\<close> fails.
\<close>

theorem http_get_serves_file:
  assumes "fresh_ok fresh" and "word_ok path" and "length path < 998"
    and "req = ''GET /'' @ path @ '' '' @ rest" and "c_path req" and "length req < 10240"
    and "name = Http_CGI (rs_conf r) @ ''./'' @ path" and "fopen_read fs name = Some content"
    and "length content < 2 ^ 63" and "FileEnd name = Some e" and "e \<noteq> ''php''"
    and "length (type_of r e) \<le> 966" and "calm c"
  shows "\<exists>c'. HttpWorkFlow_Response sys fresh now r fs (Some (str_bytes req)) c = Some (fs, c') \<and>
    hc_sent c' = hc_sent c @ str_bytes (''HTTP/1.0 200 OK'' @ CRLF @ ''Content-type: '' @ type_of r e @ CRLF @
      ''Content-Length: '' @ nat_dec (length content) @ CRLF @ [CHR 0x0A]) @ content"
proof -
  have req: "RequestFeile req = Some (''./'' @ path)"
    using request_file_get [OF assms(2,3), of "CHR '' ''" rest] assms(4) by (simp add: RequestFeile_def)
  have there: "HasFile fs name" using assms(8) by (simp add: HasFile_def)
  from send_answer_ok [OF assms(1,8,9,10,12,13)] obtain c' where
    c': "send_answer fresh r fs name c = Some c'"
      "hc_sent c' = hc_sent c @ status_line (type_of r e) @ length_line (length content) @ content" by blast
  have "DealWithRequest sys fresh now r fs req c = Some (fs, c')"
    using there assms(10,11) c'(1)
    unfolding DealWithRequest_def req bind.bind_lunit assms(7) [symmetric] Let_def by simp
  moreover have "req \<noteq> ''''" using assms(4) by simp
  moreover have "hc_sent c' = hc_sent c @ str_bytes (''HTTP/1.0 200 OK'' @ CRLF @ ''Content-type: '' @ type_of r e @ CRLF @
      ''Content-Length: '' @ nat_dec (length content) @ CRLF @ [CHR 0x0A]) @ content"
    unfolding c'(2) status_line_def length_line_def by (simp only: str_bytes_append append_assoc)
  ultimately show ?thesis using worker_request [OF assms(1,5) _ assms(6)] by simp
qed

definition demo_response :: response where
  "demo_response = \<lparr>rs_ftype = Config_read CHR ''='' (str_bytes (''gif=image/gif'' @ [CHR 0x0A])),
     rs_conf = Config_read CHR ''='' (str_bytes (''cgi=www/'' @ [CHR 0x0A]))\<rparr>"

definition demo_http_fs :: fsys where
  "demo_http_fs = \<lparr>fs_files = [''www/./../a.gif'' \<mapsto> [1, 2]], fs_denied = (\<lambda>_. False)\<rparr>"

lemma demo_response_conf: "rs_conf demo_response = \<lparr>cf_mode = CHR ''='', cf_conf = [''cgi'' \<mapsto> ''www/'']\<rparr>"
  using Config_read_text [of "[(''cgi'', ''www/'')]" "CHR ''=''"]
  by (simp add: demo_response_def config_text_def config_line_def config_entry_def c_path_def)

lemma demo_response_ftype: "rs_ftype demo_response = \<lparr>cf_mode = CHR ''='', cf_conf = [''gif'' \<mapsto> ''image/gif'']\<rparr>"
  using Config_read_text [of "[(''gif'', ''image/gif'')]" "CHR ''=''"]
  by (simp add: demo_response_def config_text_def config_line_def config_entry_def c_path_def)

lemma demo_cgi: "Http_CGI (rs_conf demo_response) = ''www/''"
  by (simp add: Http_CGI_def Config_GetString_def demo_response_conf)

lemma demo_type: "type_of demo_response ''gif'' = ''image/gif''"
  by (simp add: type_of_def FType_GetType_def FType_ExistType_def Config_Exist_def Config_GetString_def
      demo_response_ftype)

lemma http_get_serves_file_witness:
  "\<exists>c'. HttpWorkFlow_Response (\<lambda>_ fs. fs) (\<lambda>n. replicate n 0) 0 demo_response demo_http_fs
      (Some (str_bytes ''GET /../a.gif HTTP/1.1'')) \<lparr>hc_sched = [Some 3], hc_sent = []\<rparr> = Some (demo_http_fs, c') \<and>
    drop (length (hc_sent c') - 2) (hc_sent c') = [1, 2]"
proof -
  have e: "FileEnd ''www/./../a.gif'' = Some ''gif''"
    using FileEnd_dot [of "''gif''" "''www/./../a''"] by simp
  have p: "word_ok ''../a.gif''" by (simp add: word_ok_def is_space_def)
  have f: "fopen_read demo_http_fs ''www/./../a.gif'' = Some [1, 2]" by (simp add: fopen_read_def demo_http_fs_def)
  from http_get_serves_file [OF fresh_ok_replicate p, where r = demo_response and fs = demo_http_fs and
      content = "[1, 2]" and e = "''gif''" and rest = "''HTTP/1.1''" and req = "''GET /../a.gif HTTP/1.1''" and
      name = "''www/./../a.gif''" and c = "\<lparr>hc_sched = [Some 3], hc_sent = []\<rparr>" and sys = "\<lambda>_ fs. fs" and now = 0]
  show ?thesis using e f by (auto simp: demo_cgi demo_type c_path_def calm_def)
qed





section \<open>Configuration\<close>

text \<open>
  C39. A configuration file holds what was written into it: from the text of a list of entries, one to a
  line, the reader gets back the value of every key - of a repeated key the last one - and nothing for a
  key that is not there, provided that no key holds the separator and neither part a line end or a zero.
\<close>

theorem config_round_trip:
  assumes "\<forall>kv \<in> set kvs. config_entry mode kv" and "mode \<noteq> CHR 0x0A" and "mode \<noteq> CHR 0x00"
    and "fopen_read fs path = Some (str_bytes (config_text mode kvs))"
  shows "\<exists>c. Config_new fs path mode = Inr c \<and>
    (\<forall>key. Config_GetString key c = (case map_of (rev kvs) key of None \<Rightarrow> '''' | Some v \<Rightarrow> v)) \<and>
    (\<forall>key. Config_Exist key c \<longleftrightarrow> key \<noteq> '''' \<and> key \<in> fst ` set kvs) \<and>
    (\<forall>key. FType_GetType key c = (if key \<noteq> '''' \<and> key \<in> fst ` set kvs then the (map_of (rev kvs) key)
      else ''application/x-gzip''))"
proof -
  have dom: "key \<in> fst ` set kvs \<longleftrightarrow> map_of (rev kvs) key \<noteq> None" for key
    by (simp add: map_of_eq_None_iff)
  show ?thesis
    using assms(4)
    by (auto simp: Config_new_def Config_read_text [OF assms(1-3)] Config_GetString_def Config_Exist_def
        FType_GetType_def FType_ExistType_def dom simp del: set_rev)
qed

lemma config_round_trip_witness:
  "\<exists>c. Config_new \<lparr>fs_files = [''conf'' \<mapsto> str_bytes (''PORT=80'' @ [CHR 0x0A] @ ''PORT=8080'' @ [CHR 0x0A])],
      fs_denied = (\<lambda>_. False)\<rparr> ''conf'' CHR ''='' = Inr c \<and>
    Config_GetString ''PORT'' c = ''8080'' \<and> \<not> Config_Exist ''tmp'' c \<and> FType_GetType ''html'' c = ''application/x-gzip''"
  using config_round_trip [of "[(''PORT'', ''80''), (''PORT'', ''8080'')]" "CHR ''=''"
      "\<lparr>fs_files = [''conf'' \<mapsto> str_bytes (''PORT=80'' @ [CHR 0x0A] @ ''PORT=8080'' @ [CHR 0x0A])],
      fs_denied = (\<lambda>_. False)\<rparr>" "''conf''"]
  by (auto simp: config_text_def config_line_def config_entry_def c_path_def fopen_read_def)

end
