(* ===== verification/NetLoop.thy ===== *)
theory NetLoop
  imports StreamSocket LogTime
begin

text \<open>
  The event loop of the network library: \<open>communicate_loop\<close>, \<open>listen_socket_context\<close>, \<open>socket_context\<close>,
  \<open>net_machine\<close> of \<open>depends/net\<close> (the same files in \<open>depends/net.v1\<close>) and the life of a
  \<open>StreamSocketContext\<close> of either version.

  A context is a number, and an end point has the number of the context it was made for.  The kernel
  is what its documentation says of \<open>epoll_ctl\<close> and \<open>close\<close>: a table of open descriptors and one of
  registered ones; what \<open>accept\<close>, \<open>connect\<close> and \<open>recv\<close> meet comes with the event.  The virtual
  calls of the loop dispatch on the kind of a context.  Other threads only push packets; that and the
  handlers of the user, which are recorded as \<open>nl_calls\<close>, happen between the operations modelled here.
\<close>

section \<open>Contexts\<close>

datatype net_kind =
  Listener
| Stream0 stream0
| Stream1 stream1

text \<open>
  \<open>nc_ip\<close> is indeterminate for a listener and the null pointer, \<open>Some None\<close>, for a new stream.
  \<open>nc_loop\<close> says whether \<open>communicate_loop_\<close> is set, \<open>nc_machine\<close> whether \<open>net_machine_\<close> is.
\<close>

record net_ctx =
  nc_kind :: net_kind
  nc_ip_port :: string
  nc_ip :: "string option option"
  nc_port :: int
  nc_fd :: int
  nc_loop :: bool
  nc_machine :: bool
  nc_node :: "sl_addr option"
  nc_end_point :: "nat option"
  nc_queue :: "nat packet task_queue"

definition Stream_new_client :: "net_kind \<Rightarrow> string \<Rightarrow> net_ctx" where
  "Stream_new_client kind ip_port =
     \<lparr>nc_kind = kind, nc_ip_port = ip_port, nc_ip = Some None, nc_port = - 1, nc_fd = - 1,
      nc_loop = False, nc_machine = True, nc_node = None, nc_end_point = None,
      nc_queue = TaskQueue_default\<rparr>"

definition Stream_new_loop :: "net_kind \<Rightarrow> string \<Rightarrow> net_ctx" where
  "Stream_new_loop kind ip_port =
     \<lparr>nc_kind = kind, nc_ip_port = ip_port, nc_ip = Some None, nc_port = - 1, nc_fd = - 1,
      nc_loop = True, nc_machine = False, nc_node = None, nc_end_point = None,
      nc_queue = TaskQueue_default\<rparr>"

definition Listen_new :: "int \<Rightarrow> net_ctx" where
  "Listen_new server_port =
     \<lparr>nc_kind = Listener, nc_ip_port = '''', nc_ip = None, nc_port = server_port, nc_fd = - 1,
      nc_loop = True, nc_machine = False, nc_node = None, nc_end_point = None,
      nc_queue = TaskQueue_default\<rparr>"

text \<open>The address has room for 15 characters, the port for 9.\<close>

definition ParseIpPort :: "net_ctx \<Rightarrow> net_ctx option" where
  "ParseIpPort c = do {
     let ip = takeWhile (\<lambda>x. x \<noteq> CHR '':'') (nc_ip_port c);
     require (length ip < 16);
     let buff = drop (length ip + 1) (nc_ip_port c);
     require (length buff < 10);
     port \<leftarrow> atoi buff;
     Some (c\<lparr>nc_ip := Some (Some ip), nc_port := port\<rparr>)
   }"

section \<open>The loop\<close>

datatype net_call =
  OnAccepted int
| OnConnected int
| OnClose nat
| OnDisconnected int

record net_loop =
  nl_ctx :: "nat \<rightharpoonup> net_ctx"
  nl_fresh :: nat
  nl_list :: "nat simple_list"
  nl_epoll :: "int \<rightharpoonup> (nat \<times> bool \<times> bool)"
  nl_open :: "int set"
  nl_is_run :: bool
  nl_threads :: nat
  nl_calls :: "net_call list"
  nl_sent :: "(int \<times> byte list) list"
  nl_exit :: "int option"

text \<open>\<open>is_run_\<close> is not initialised: \<open>garbage\<close>.\<close>

definition CommunicateLoop_new :: "bool \<Rightarrow> net_loop" where
  "CommunicateLoop_new garbage =
     \<lparr>nl_ctx = Map.empty, nl_fresh = 0, nl_list = SimpleList_new, nl_epoll = Map.empty, nl_open = {},
      nl_is_run = garbage, nl_threads = 0, nl_calls = [], nl_sent = [], nl_exit = None\<rparr>"

definition CommunicateLoop_Start :: "net_loop \<Rightarrow> net_loop" where
  "CommunicateLoop_Start s =
     (if nl_is_run s then s else s\<lparr>nl_is_run := True, nl_threads := nl_threads s + 1\<rparr>)"

text \<open>Without a thread that was started \<open>event_loop_thread_\<close> is indeterminate.\<close>

definition CommunicateLoop_Stop :: "net_loop \<Rightarrow> net_loop option" where
  "CommunicateLoop_Stop s = do {
     require (0 < nl_threads s);
     Some (s\<lparr>nl_is_run := False\<rparr>)
   }"

subsection \<open>The kernel\<close>

definition epoll_add :: "int \<Rightarrow> nat \<times> bool \<times> bool \<Rightarrow> net_loop \<Rightarrow> int \<times> net_loop" where
  "epoll_add fd ev s =
     (if fd \<in> nl_open s \<and> nl_epoll s fd = None then (0, s\<lparr>nl_epoll := (nl_epoll s)(fd \<mapsto> ev)\<rparr>)
      else (- 1, s))"

definition epoll_mod :: "int \<Rightarrow> nat \<times> bool \<times> bool \<Rightarrow> net_loop \<Rightarrow> int \<times> net_loop" where
  "epoll_mod fd ev s =
     (if nl_epoll s fd = None then (- 1, s) else (0, s\<lparr>nl_epoll := (nl_epoll s)(fd \<mapsto> ev)\<rparr>))"

definition epoll_del :: "int \<Rightarrow> net_loop \<Rightarrow> int \<times> net_loop" where
  "epoll_del fd s =
     (if nl_epoll s fd = None then (- 1, s) else (0, s\<lparr>nl_epoll := (nl_epoll s)(fd := None)\<rparr>))"

text \<open>A descriptor that is closed leaves the table of registered ones.\<close>

definition close_fd :: "int \<Rightarrow> net_loop \<Rightarrow> net_loop" where
  "close_fd fd s = s\<lparr>nl_open := nl_open s - {fd}, nl_epoll := (nl_epoll s)(fd := None)\<rparr>"

subsection \<open>Registration\<close>

definition set_ctx :: "nat \<Rightarrow> net_ctx \<Rightarrow> net_loop \<Rightarrow> net_loop" where
  "set_ctx cid c s = s\<lparr>nl_ctx := (nl_ctx s)(cid \<mapsto> c)\<rparr>"

definition AddEvent :: "nat \<Rightarrow> bool \<Rightarrow> bool \<Rightarrow> net_loop \<Rightarrow> (int \<times> net_loop) option" where
  "AddEvent cid readable writable s = do {
     c \<leftarrow> nl_ctx s cid;
     (node, l) \<leftarrow> push_back cid (nl_list s);
     Some (epoll_add (nc_fd c) (cid, readable, writable)
       (set_ctx cid (c\<lparr>nc_node := Some node\<rparr>) (s\<lparr>nl_list := l\<rparr>)))
   }"

definition SetEvent :: "nat \<Rightarrow> bool \<Rightarrow> bool \<Rightarrow> net_loop \<Rightarrow> (int \<times> net_loop) option" where
  "SetEvent cid writable readable s = do {
     c \<leftarrow> nl_ctx s cid;
     Some (epoll_mod (nc_fd c) (cid, readable, writable) s)
   }"

definition ClearEvent :: "nat \<Rightarrow> net_loop \<Rightarrow> (int \<times> net_loop) option" where
  "ClearEvent cid s = do {
     c \<leftarrow> nl_ctx s cid;
     let (ret, s) = epoll_del (nc_fd c) s;
     node \<leftarrow> nc_node c;
     l \<leftarrow> remove_node node (nl_list s);
     Some (ret, s\<lparr>nl_list := l\<rparr>)
   }"

section \<open>The life of a connection\<close>

definition call :: "net_call \<Rightarrow> net_loop \<Rightarrow> net_loop" where
  "call k s = s\<lparr>nl_calls := nl_calls s @ [k]\<rparr>"

text \<open>
  \<open>Init\<close> of a stream; \<open>fd\<close> is the descriptor \<open>socket\<close> makes and \<open>reached\<close> the success of
  \<open>connect\<close>.  The context is registered, for reading and writing, with the loop of its machine.
\<close>

definition Stream_Init :: "int \<Rightarrow> bool \<Rightarrow> nat \<Rightarrow> net_loop \<Rightarrow> (int \<times> net_loop) option" where
  "Stream_Init fd reached cid s = do {
     c \<leftarrow> nl_ctx s cid;
     ip \<leftarrow> nc_ip c;
     if ip \<noteq> None then Some (0, s)
     else do {
       c \<leftarrow> ParseIpPort c;
       let c = c\<lparr>nc_fd := fd\<rparr>;
       let s = set_ctx cid c (s\<lparr>nl_open := insert fd (nl_open s)\<rparr>);
       if \<not> reached then Some (- 1, s)
       else do {
         let s = call (OnConnected fd) s;
         require (nc_machine c);
         (_, s) \<leftarrow> AddEvent cid True True s;
         Some (0, s)
       }
     }
   }"

text \<open>
  The destructor.  The pointers to the loop and to the end point may not have been set.
\<close>

definition Stream_delete :: "nat \<Rightarrow> net_loop \<Rightarrow> net_loop option" where
  "Stream_delete cid s = do {
     c \<leftarrow> nl_ctx s cid;
     end_point \<leftarrow> nc_end_point c;
     let s = call (OnClose end_point) s;
     require (nc_loop c);
     (_, s) \<leftarrow> ClearEvent cid s;
     let s = call (OnDisconnected (nc_fd c)) (close_fd (nc_fd c) s);
     _ \<leftarrow> nc_ip c;
     Some (s\<lparr>nl_ctx := (nl_ctx s)(cid := None)\<rparr>)
   }"

text \<open>A listener has only the destructor of \<open>SocketContext\<close>, which frees the indeterminate \<open>ip_\<close>.\<close>

definition ctx_delete :: "nat \<Rightarrow> net_loop \<Rightarrow> net_loop option" where
  "ctx_delete cid s = do {
     c \<leftarrow> nl_ctx s cid;
     if nc_kind c = Listener then do {
       _ \<leftarrow> nc_ip c;
       Some (s\<lparr>nl_ctx := (nl_ctx s)(cid := None)\<rparr>)
     } else Stream_delete cid s
   }"

text \<open>
  \<open>Some (_, None)\<close>: the queue is full, and \<open>Push\<close> goes on trying.  \<open>None\<close> as the packet is the null
  pointer.
\<close>

definition Stream_AsyncSendPacket ::
  "nat packet option \<Rightarrow> nat \<Rightarrow> net_loop \<Rightarrow> (int \<times> net_loop option) option" where
  "Stream_AsyncSendPacket packet cid s =
     (case packet of
        None \<Rightarrow> Some (- 1, Some s)
      | Some packet \<Rightarrow> do {
          c \<leftarrow> nl_ctx s cid;
          let (pushed, q) = try_push packet (nc_queue c);
          if \<not> pushed then Some (0, None)
          else do {
            require (nc_loop c);
            (_, s) \<leftarrow> SetEvent cid True True (set_ctx cid (c\<lparr>nc_queue := q\<rparr>) s);
            Some (0, Some s)
          }
        })"

section \<open>Events\<close>

text \<open>
  \<open>ne_in\<close>, \<open>ne_out\<close>: the bits of the event.  \<open>ne_accept\<close>: the result of \<open>accept\<close>, with the address and
  the port of the peer, if \<open>getpeername\<close> has them.  \<open>ne_segs\<close>, \<open>ne_evs\<close>: what \<open>recv\<close> meets on a stream of
  version 0 or 1.  \<open>ne_sched\<close>: what \<open>send\<close> does.
\<close>

record net_event =
  ne_ctx :: nat
  ne_in :: bool
  ne_out :: bool
  ne_accept :: "(int \<times> (string \<times> int) option) option"
  ne_segs :: "byte list list"
  ne_evs :: "sock_event list"
  ne_sched :: "nat option list"

definition Listen_Init :: "int option \<Rightarrow> bool \<Rightarrow> bool \<Rightarrow> nat \<Rightarrow> net_loop \<Rightarrow> net_loop option" where
  "Listen_Init sock bound listening cid s = do {
     c \<leftarrow> nl_ctx s cid;
     case sock of
       None \<Rightarrow> Some (s\<lparr>nl_exit := Some 0\<rparr>)
     | Some fd \<Rightarrow>
         let s = set_ctx cid (c\<lparr>nc_fd := fd\<rparr>) (s\<lparr>nl_open := insert fd (nl_open s)\<rparr>)
         in if \<not> bound \<or> \<not> listening then Some (s\<lparr>nl_exit := Some 0\<rparr>)
            else do {
              (_, s) \<leftarrow> AddEvent cid True False s;
              Some s
            }
   }"

text \<open>\<open>kind\<close> is a stream as its constructor makes it.  A null pointer for \<open>%s\<close> is a fault.\<close>

definition Listen_HandleInput ::
  "net_kind \<Rightarrow> (int \<times> (string \<times> int) option) option \<Rightarrow> net_loop \<Rightarrow> (int \<times> net_loop) option" where
  "Listen_HandleInput kind accepted s =
     (case accepted of
        None \<Rightarrow> Some (0, s\<lparr>nl_exit := Some 1\<rparr>)
      | Some (connfd, peer) \<Rightarrow> do {
          (ip, port) \<leftarrow> peer;
          let ip_port = take 29 (ip @ CHR '':'' # int_dec port);
          let cid = nl_fresh s;
          let c = (Stream_new_loop kind ip_port)\<lparr>nc_end_point := Some cid\<rparr>;
          c \<leftarrow> ParseIpPort c;
          let c = c\<lparr>nc_fd := connfd\<rparr>;
          let s = set_ctx cid c (s\<lparr>nl_fresh := cid + 1, nl_open := insert connfd (nl_open s)\<rparr>);
          (_, s) \<leftarrow> AddEvent cid True False (call (OnAccepted connfd) s);
          Some (0, s)
        })"

definition ctx_HandleInput ::
  "(nat \<Rightarrow> byte list) \<Rightarrow> u32 \<Rightarrow> net_kind \<Rightarrow> net_event \<Rightarrow> net_loop \<Rightarrow> (int \<times> net_loop) option" where
  "ctx_HandleInput fresh max_id kind ev s = do {
     c \<leftarrow> nl_ctx s (ne_ctx ev);
     case nc_kind c of
       Listener \<Rightarrow> Listen_HandleInput kind (ne_accept ev) s
     | Stream0 st \<Rightarrow> do {
         (ret, _, _, st) \<leftarrow> stream0_HandleInput fresh max_id (nc_end_point c) (ne_segs ev) st;
         Some (ret, set_ctx (ne_ctx ev) (c\<lparr>nc_kind := Stream0 st\<rparr>) s)
       }
     | Stream1 st \<Rightarrow> do {
         r \<leftarrow> HandleInputImpl (ne_evs ev) st;
         s \<leftarrow> (case r of
             None \<Rightarrow> Stream_delete (ne_ctx ev) s
           | Some st \<Rightarrow> Some (set_ctx (ne_ctx ev) (c\<lparr>nc_kind := Stream1 st\<rparr>) s));
         Some (0, s)
       }
   }"

definition ctx_HandleOutput :: "net_event \<Rightarrow> net_loop \<Rightarrow> (int \<times> net_loop) option" where
  "ctx_HandleOutput ev s = do {
     c \<leftarrow> nl_ctx s (ne_ctx ev);
     case nc_kind c of
       Listener \<Rightarrow> Some (0, s)
     | Stream0 _ \<Rightarrow> do {
         let (popped, q) = try_pop (nc_queue c);
         (ret, out, _) \<leftarrow> stream0_HandleOutput (ne_sched ev) popped;
         Some (ret, (set_ctx (ne_ctx ev) (c\<lparr>nc_queue := q\<rparr>) s)\<lparr>nl_sent := nl_sent s @ [(nc_fd c, out)]\<rparr>)
       }
     | Stream1 _ \<Rightarrow> do {
         (ret, out, _) \<leftarrow> stream1_HandleOutput (ne_sched ev) (tq_data (nc_queue c));
         Some (ret, (set_ctx (ne_ctx ev) (c\<lparr>nc_queue := (nc_queue c)\<lparr>tq_data := []\<rparr>\<rparr>) s)
           \<lparr>nl_sent := nl_sent s @ [(nc_fd c, out)]\<rparr>)
       }
   }"

definition handle_event ::
  "(nat \<Rightarrow> byte list) \<Rightarrow> u32 \<Rightarrow> net_kind \<Rightarrow> net_event \<Rightarrow> net_loop \<Rightarrow> net_loop option" where
  "handle_event fresh max_id kind ev s =
     (if nl_exit s \<noteq> None then Some s
      else if ne_in ev then do {
        (ret, s) \<leftarrow> ctx_HandleInput fresh max_id kind ev s;
        if ret < 0 then ctx_delete (ne_ctx ev) s else Some s
      }
      else if ne_out ev then do {
        (_, s) \<leftarrow> ctx_HandleOutput ev s;
        Some s
      }
      else Some s)"

text \<open>The events of one \<open>epoll_wait\<close>.\<close>

definition HandleEvent ::
  "(nat \<Rightarrow> byte list) \<Rightarrow> u32 \<Rightarrow> net_kind \<Rightarrow> net_event list \<Rightarrow> net_loop \<Rightarrow> net_loop option" where
  "HandleEvent fresh max_id kind evs s = foldM (handle_event fresh max_id kind) evs s"

text \<open>The thread: one poll after the other, until \<open>is_run_\<close> is cleared.\<close>

definition CommunicateLoop_Process ::
  "(nat \<Rightarrow> byte list) \<Rightarrow> u32 \<Rightarrow> net_kind \<Rightarrow> net_event list list \<Rightarrow> net_loop \<Rightarrow> net_loop option" where
  "CommunicateLoop_Process fresh max_id kind batches s =
     foldM (\<lambda>evs s. if nl_is_run s then HandleEvent fresh max_id kind evs s else Some s) batches s"

section \<open>The end of the loop\<close>

text \<open>
  \<open>IteratorDel\<close>: the context is deleted and then the node it was in is written to.  The traversal works
  on the list of the loop, from which \<open>ClearEvent\<close> removes nodes meanwhile.
\<close>

definition loop_del_action ::
  "sl_addr \<Rightarrow> nat simple_list \<Rightarrow> net_loop \<Rightarrow> (nat simple_list \<times> net_loop) option" where
  "loop_del_action node l s = do {
     n \<leftarrow> sl_heap l node;
     cid \<leftarrow> nd_data n;
     c \<leftarrow> nl_ctx s cid;
     let (_, s) = epoll_del (nc_fd c) s;
     s \<leftarrow> ctx_delete cid (close_fd (nc_fd c) (s\<lparr>nl_list := l\<rparr>));
     let l = nl_list s;
     n \<leftarrow> sl_heap l node;
     let l = l\<lparr>sl_heap := (sl_heap l)(node \<mapsto> n\<lparr>nd_data := None\<rparr>)\<rparr>;
     Some (l, s\<lparr>nl_list := l\<rparr>)
   }"

definition CommunicateLoop_delete :: "net_loop \<Rightarrow> net_loop option" where
  "CommunicateLoop_delete s = do {
     s \<leftarrow> CommunicateLoop_Stop s;
     (l, s) \<leftarrow> HandleEveryNode loop_del_action (nl_list s) s;
     l \<leftarrow> SimpleList_delete l;
     Some (s\<lparr>nl_list := l\<rparr>)
   }"

section \<open>NetMachine\<close>

definition NetMachine_Init :: "net_loop \<Rightarrow> net_loop" where
  "NetMachine_Init s = CommunicateLoop_Start s"

definition new_ctx :: "net_ctx \<Rightarrow> net_loop \<Rightarrow> nat \<times> net_loop" where
  "new_ctx c s = (nl_fresh s, set_ctx (nl_fresh s) c (s\<lparr>nl_fresh := nl_fresh s + 1\<rparr>))"

definition NetMachine_AsyncListen ::
  "int \<Rightarrow> int option \<Rightarrow> bool \<Rightarrow> bool \<Rightarrow> net_loop \<Rightarrow> net_loop option" where
  "NetMachine_AsyncListen port sock bound listening s = do {
     let (cid, s) = new_ctx (Listen_new port) s;
     s \<leftarrow> Listen_Init sock bound listening cid s;
     Some (if nl_exit s = None then CommunicateLoop_Start s else s)
   }"

text \<open>
  Sending to an address: the context is made without a machine, \<open>Init\<close> is not asked whether it
  succeeded, and the same packet is pushed three times.  A full queue cannot occur.
\<close>

definition NetMachine_AsyncSendPacket_to ::
  "net_kind \<Rightarrow> int \<Rightarrow> bool \<Rightarrow> string \<Rightarrow> nat packet \<Rightarrow> net_loop \<Rightarrow> (int \<times> net_loop) option" where
  "NetMachine_AsyncSendPacket_to kind fd reached ip_port packet s = do {
     let (cid, s) = new_ctx (Stream_new_loop kind ip_port) s;
     (_, s) \<leftarrow> Stream_Init fd reached cid s;
     let s = CommunicateLoop_Start s;
     s \<leftarrow> foldM (\<lambda>_ s. do {
       (_, r) \<leftarrow> Stream_AsyncSendPacket (Some packet) cid s;
       r
     }) [0..<3] s;
     Some (0, s)
   }"

definition NetMachine_AsyncSendPacket ::
  "nat \<Rightarrow> nat packet option \<Rightarrow> net_loop \<Rightarrow> (int \<times> net_loop option) option" where
  "NetMachine_AsyncSendPacket cid packet s = do {
     let s = CommunicateLoop_Start s;
     c \<leftarrow> nl_ctx s cid;
     (_, r) \<leftarrow> Stream_AsyncSendPacket packet cid (set_ctx cid (c\<lparr>nc_loop := True\<rparr>) s);
     Some (0, r)
   }"

fun kind_set_sync :: "net_kind \<Rightarrow> net_kind" where
  "kind_set_sync (Stream0 st) = Stream0 (st\<lparr>s0_replied := False, s0_need_ack := True\<rparr>)"
| "kind_set_sync (Stream1 st) = Stream1 (st\<lparr>s1_replied := False, s1_need_ack := True\<rparr>)"
| "kind_set_sync Listener = Listener"

fun kind_replied :: "net_kind \<Rightarrow> bool" where
  "kind_replied (Stream0 st) = s0_replied st"
| "kind_replied (Stream1 st) = s1_replied st"
| "kind_replied Listener = False"

text \<open>\<open>SyncSendPacket\<close> up to its loop, and the question the loop asks until the answer is yes.\<close>

definition NetMachine_SyncSendPacket ::
  "nat \<Rightarrow> nat packet option \<Rightarrow> net_loop \<Rightarrow> (int \<times> net_loop option) option" where
  "NetMachine_SyncSendPacket cid packet s = do {
     let s = CommunicateLoop_Start s;
     c \<leftarrow> nl_ctx s cid;
     Stream_AsyncSendPacket packet cid (set_ctx cid (c\<lparr>nc_kind := kind_set_sync (nc_kind c), nc_loop := True\<rparr>) s)
   }"

definition sync_done :: "nat \<Rightarrow> net_loop \<Rightarrow> bool option" where
  "sync_done cid s = map_option (\<lambda>c. kind_replied (nc_kind c)) (nl_ctx s cid)"

end
