(* ===== verification/NetLoopFacts.thy ===== *)
theory NetLoopFacts
  imports NetLoop
begin

text \<open>
  The registry of the event loop: the list of contexts, the table of the kernel and the contexts agree,
  and every operation keeps it so.  The locale \<open>event_batch\<close> is what a loop over the events of one poll
  needs of its handler; it is interpreted on \<open>handle_event\<close>.
\<close>

section \<open>Batches of events\<close>

text \<open>
  The events of a batch are for different targets and were found together.  A handler must leave the
  other targets ready, and what it will do with them unchanged; it may see targets come and go.
\<close>

locale event_batch =
  fixes handle :: "'e \<Rightarrow> 's \<Rightarrow> 's option"
    and target :: "'e \<Rightarrow> 'k"
    and inv :: "'s \<Rightarrow> bool"
    and ready :: "'s \<Rightarrow> 'e \<Rightarrow> bool"
    and able :: "'s \<Rightarrow> 'e \<Rightarrow> bool"
    and known :: "'s \<Rightarrow> 'k \<Rightarrow> bool"
    and gone :: "'s \<Rightarrow> 'k \<Rightarrow> bool"
    and ends :: "'s \<Rightarrow> 'e \<Rightarrow> bool"
    and log :: "'s \<Rightarrow> 'l list"
    and effect :: "'s \<Rightarrow> 'e \<Rightarrow> 'l list"
  assumes ready_known: "inv s \<Longrightarrow> ready s e \<Longrightarrow> known s (target e)"
    and handle_ok: "inv s \<Longrightarrow> ready s e \<Longrightarrow> able s e \<Longrightarrow>
      \<exists>s'. handle e s = Some s' \<and> inv s' \<and> log s' = log s @ effect s e \<and>
        known s' (target e) \<and> gone s' (target e) = ends s e \<and>
        (\<forall>k. k \<noteq> target e \<longrightarrow> known s k \<longrightarrow> known s' k \<and> gone s' k = gone s k) \<and>
        (\<forall>f. target f \<noteq> target e \<longrightarrow> ready s f \<longrightarrow>
           ready s' f \<and> effect s' f = effect s f \<and> ends s' f = ends s f)"
begin

text \<open>\<open>able\<close> is what must hold of an event when its turn comes.\<close>

primrec ables :: "'e list \<Rightarrow> 's \<Rightarrow> bool" where
  "ables [] s = True"
| "ables (e # es) s = (able s e \<and> (\<forall>s'. handle e s = Some s' \<longrightarrow> ables es s'))"

lemma batch_ok:
  assumes "inv s" and "distinct (map target es)" and "\<forall>e \<in> set es. ready s e" and "ables es s"
  shows "\<exists>s'. foldM handle es s = Some s' \<and> inv s' \<and> log s' = log s @ concat (map (effect s) es) \<and>
    (\<forall>e \<in> set es. known s' (target e) \<and> gone s' (target e) = ends s e) \<and>
    (\<forall>k. k \<notin> target ` set es \<longrightarrow> known s k \<longrightarrow> known s' k \<and> gone s' k = gone s k)"
  using assms
proof (induction es arbitrary: s)
  case Nil
  then show ?case by simp
next
  case (Cons e es)
  from handle_ok [of s e] Cons.prems obtain s1 where
    s1: "handle e s = Some s1" "inv s1" "log s1 = log s @ effect s e"
      "known s1 (target e)" "gone s1 (target e) = ends s e"
      "\<And>k. k \<noteq> target e \<Longrightarrow> known s k \<Longrightarrow> known s1 k \<and> gone s1 k = gone s k"
      "\<And>f. target f \<noteq> target e \<Longrightarrow> ready s f \<Longrightarrow> ready s1 f \<and> effect s1 f = effect s f \<and> ends s1 f = ends s f"
    by auto
  have other: "target f \<noteq> target e" "ready s f" if "f \<in> set es" for f
    using Cons.prems(2,3) that by (simp_all, metis imageI)
  with s1(7) have es: "ready s1 f" "effect s1 f = effect s f" "ends s1 f = ends s f" if "f \<in> set es" for f
    using that by blast+
  have "ables es s1" using Cons.prems(4) s1(1) by simp
  with Cons.IH [OF s1(2)] Cons.prems(2) es(1) obtain s2 where
    s2: "foldM handle es s1 = Some s2" "inv s2" "log s2 = log s1 @ concat (map (effect s1) es)"
      "\<And>f. f \<in> set es \<Longrightarrow> known s2 (target f) \<and> gone s2 (target f) = ends s1 f"
      "\<And>k. k \<notin> target ` set es \<Longrightarrow> known s1 k \<Longrightarrow> known s2 k \<and> gone s2 k = gone s1 k"
    by auto
  have "concat (map (effect s1) es) = concat (map (effect s) es)" using es(2) by (auto intro!: arg_cong [of _ _ concat])
  moreover have "target e \<notin> target ` set es" using Cons.prems(2) by simp
  ultimately show ?case using s1 s2 es(3) by (intro exI [of _ s2]) auto
qed

end

section \<open>The registry\<close>

definition holds_ctx :: "net_loop \<Rightarrow> sl_addr \<Rightarrow> nat \<Rightarrow> bool" where
  "holds_ctx s a i \<longleftrightarrow> (\<exists>c r w. nl_ctx s i = Some c \<and> nc_node c = Some a \<and> nc_fd c \<in> nl_open s \<and>
     nl_epoll s (nc_fd c) = Some (i, r, w))"

definition registered :: "net_loop \<Rightarrow> sl_addr list \<Rightarrow> nat list \<Rightarrow> bool" where
  "registered s as is \<longleftrightarrow> sl_holds (nl_list s) as is \<and> distinct is \<and> list_all2 (holds_ctx s) as is \<and>
     (\<forall>fd i r w. nl_epoll s fd = Some (i, r, w) \<longrightarrow> i \<in> set is \<and> (\<exists>c. nl_ctx s i = Some c \<and> nc_fd c = fd)) \<and>
     (\<forall>i. nl_ctx s i \<noteq> None \<longrightarrow> i < nl_fresh s)"

definition net_ok :: "net_loop \<Rightarrow> bool" where
  "net_ok s \<longleftrightarrow> (\<exists>as is. registered s as is)"

lemma net_okI: "registered s as is \<Longrightarrow> net_ok s"
  unfolding net_ok_def by blast

lemma registered_split:
  assumes "registered s as is" and "i \<in> set is"
  shows "\<exists>as1 a as2 is1 is2. as = as1 @ a # as2 \<and> is = is1 @ i # is2 \<and> length as1 = length is1 \<and> holds_ctx s a i"
proof -
  from assms(2) obtain is1 is2 where i: "is = is1 @ i # is2" by (meson split_list)
  with assms(1) have "list_all2 (holds_ctx s) as (is1 @ i # is2)" by (simp add: registered_def)
  then show ?thesis using i by (auto simp: list_all2_append2 list_all2_Cons2 dest: list_all2_lengthD)
qed

lemma epoll_iff:
  assumes "registered s as is" and "nl_ctx s i = Some c" and "i \<in> set is"
  shows "\<exists>r w. nl_epoll s (nc_fd c) = Some (i, r, w)" and "nc_fd c \<in> nl_open s" and "\<exists>a. nc_node c = Some a"
  using registered_split [OF assms(1,3)] assms(2) by (auto simp: holds_ctx_def)

lemma epoll_open: "registered s as is \<Longrightarrow> fd \<notin> nl_open s \<Longrightarrow> nl_epoll s fd = None"
proof (rule ccontr)
  assume r: "registered s as is" and f: "fd \<notin> nl_open s" and e: "nl_epoll s fd \<noteq> None"
  then obtain i r w where "nl_epoll s fd = Some (i, r, w)" by auto
  with r obtain c where "i \<in> set is" "nl_ctx s i = Some c" "nc_fd c = fd"
    unfolding registered_def by blast
  with epoll_iff(2) [OF r] f show False by blast
qed

lemma registered_new: "registered (CommunicateLoop_new g) [] []"
  by (simp add: registered_def CommunicateLoop_new_def sl_holds_new)

text \<open>A context may change in anything but its descriptor and its node.\<close>

lemma registered_set:
  assumes "registered s as is" and "nl_ctx s i = Some c" and "nc_fd c' = nc_fd c" and "nc_node c' = nc_node c"
  shows "registered (set_ctx i c' s) as is"
proof -
  have "holds_ctx (set_ctx i c' s) = holds_ctx s"
    using assms(2-4) by (auto simp: holds_ctx_def set_ctx_def fun_eq_iff)
  moreover have "(\<exists>d. nl_ctx (set_ctx i c' s) k = Some d \<and> nc_fd d = fd) \<longleftrightarrow> (\<exists>d. nl_ctx s k = Some d \<and> nc_fd d = fd)" for k fd
    using assms(2,3) by (simp add: set_ctx_def)
  moreover have "nl_list (set_ctx i c' s) = nl_list s" "nl_epoll (set_ctx i c' s) = nl_epoll s"
    "nl_fresh (set_ctx i c' s) = nl_fresh s" "nl_ctx (set_ctx i c' s) k = None \<longleftrightarrow> nl_ctx s k = None" for k
    using assms(2) by (simp_all add: set_ctx_def)
  ultimately show ?thesis using assms(1) unfolding registered_def by simp
qed

text \<open>Fields the registry does not look at.\<close>

lemma registered_cong:
  assumes "nl_ctx s' = nl_ctx s" and "nl_list s' = nl_list s" and "nl_epoll s' = nl_epoll s"
    and "nl_open s' = nl_open s" and "nl_fresh s' = nl_fresh s"
  shows "registered s' as is = registered s as is"
proof -
  have "holds_ctx s' = holds_ctx s" by (intro ext) (simp add: holds_ctx_def assms)
  then show ?thesis by (simp add: registered_def assms)
qed

lemma registered_call [simp]: "registered (call k s) as is = registered s as is"
  by (rule registered_cong) (simp_all add: call_def)

lemma list_all2_on:
  "list_all2 P xs ys \<Longrightarrow> (\<And>x y. P x y \<Longrightarrow> y \<in> set ys \<Longrightarrow> Q x y) \<Longrightarrow> list_all2 Q xs ys"
  by (auto simp: list_all2_conv_all_nth)

section \<open>Adding and deleting\<close>

lemma AddEvent_ok:
  assumes r: "registered s as is" and c: "nl_ctx s i = Some c" and i: "i \<notin> set is"
    and fd: "nc_fd c \<in> nl_open s" "nl_epoll s (nc_fd c) = None"
  shows "\<exists>a l. AddEvent i rd wr s = Some (0, s\<lparr>nl_list := l, nl_ctx := (nl_ctx s)(i \<mapsto> c\<lparr>nc_node := Some a\<rparr>),
      nl_epoll := (nl_epoll s)(nc_fd c \<mapsto> (i, rd, wr))\<rparr>) \<and>
    registered (s\<lparr>nl_list := l, nl_ctx := (nl_ctx s)(i \<mapsto> c\<lparr>nc_node := Some a\<rparr>),
      nl_epoll := (nl_epoll s)(nc_fd c \<mapsto> (i, rd, wr))\<rparr>) (as @ [a]) (is @ [i])"
proof -
  have "sl_holds (nl_list s) as is" using r by (simp add: registered_def)
  from push_back_ok [OF this, of i] obtain a l where
    l: "push_back i (nl_list s) = Some (a, l)" "sl_holds l (as @ [a]) (is @ [i])" by blast
  let ?s = "s\<lparr>nl_list := l, nl_ctx := (nl_ctx s)(i \<mapsto> c\<lparr>nc_node := Some a\<rparr>),
      nl_epoll := (nl_epoll s)(nc_fd c \<mapsto> (i, rd, wr))\<rparr>"
  have add: "AddEvent i rd wr s = Some (0, ?s)"
    using c l(1) fd by (simp add: AddEvent_def epoll_add_def set_ctx_def)
  have "holds_ctx ?s b k" if "holds_ctx s b k" "k \<in> set is" for b k
  proof -
    from that(1) obtain d x y where d: "nl_ctx s k = Some d" "nl_epoll s (nc_fd d) = Some (k, x, y)"
      by (auto simp: holds_ctx_def)
    then have "nc_fd d \<noteq> nc_fd c" using fd(2) by auto
    moreover from that(2) i have "k \<noteq> i" by blast
    ultimately show ?thesis using that(1) d by (simp add: holds_ctx_def)
  qed
  then have "list_all2 (holds_ctx ?s) as is" using r by (auto simp: registered_def elim!: list_all2_on)
  moreover have "holds_ctx ?s a i" using fd(1) by (auto simp: holds_ctx_def)
  ultimately have "list_all2 (holds_ctx ?s) (as @ [a]) (is @ [i])" by (intro list_all2_appendI) simp_all
  moreover have "k \<in> set (is @ [i]) \<and> (\<exists>d. nl_ctx ?s k = Some d \<and> nc_fd d = f)"
    if "nl_epoll ?s f = Some (k, x, y)" for f k x y
  proof (cases "f = nc_fd c")
    case True
    with that show ?thesis by auto
  next
    case False
    with that have "nl_epoll s f = Some (k, x, y)" by simp
    with r have "k \<in> set is" "\<exists>d. nl_ctx s k = Some d \<and> nc_fd d = f" unfolding registered_def by blast+
    with i show ?thesis by auto
  qed
  moreover have "k < nl_fresh ?s" if "nl_ctx ?s k \<noteq> None" for k
    using that r c by (auto simp: registered_def split: if_splits)
  ultimately have "registered ?s (as @ [a]) (is @ [i])"
    using r i l(2) unfolding registered_def by (intro conjI allI impI) auto
  with add show ?thesis by blast
qed

text \<open>A stream that can be closed: its pointers were set.\<close>

definition closable :: "net_ctx \<Rightarrow> bool" where
  "closable c \<longleftrightarrow> nc_end_point c \<noteq> None \<and> nc_loop c \<and> nc_ip c \<noteq> None"

lemma Stream_delete_ok:
  assumes r: "registered s as is" and c: "nl_ctx s i = Some c" and i: "i \<in> set is"
    and e: "nc_end_point c = Some e" "nc_loop c" "nc_ip c \<noteq> None"
  shows "\<exists>l as' is'. Stream_delete i s = Some (s\<lparr>nl_calls := nl_calls s @ [OnClose e, OnDisconnected (nc_fd c)],
      nl_list := l, nl_open := nl_open s - {nc_fd c}, nl_epoll := (nl_epoll s)(nc_fd c := None),
      nl_ctx := (nl_ctx s)(i := None)\<rparr>) \<and>
    registered (s\<lparr>nl_calls := nl_calls s @ [OnClose e, OnDisconnected (nc_fd c)],
      nl_list := l, nl_open := nl_open s - {nc_fd c}, nl_epoll := (nl_epoll s)(nc_fd c := None),
      nl_ctx := (nl_ctx s)(i := None)\<rparr>) as' is' \<and> set is' = set is - {i}"
proof -
  from registered_split [OF r i] obtain as1 a as2 is1 is2 where
    sp: "as = as1 @ a # as2" "is = is1 @ i # is2" "length as1 = length is1" "holds_ctx s a i" by blast
  have "sl_holds (nl_list s) (as1 @ a # as2) (is1 @ i # is2)" using r sp(1,2) by (simp add: registered_def)
  from remove_node_ok [OF this sp(3)] obtain l where
    l: "remove_node a (nl_list s) = Some l" "sl_holds l (as1 @ as2) (is1 @ is2)" by blast
  have node: "nc_node c = Some a" using sp(4) c by (simp add: holds_ctx_def)
  from epoll_iff(1) [OF r c i] obtain x y where ep: "nl_epoll s (nc_fd c) = Some (i, x, y)" by blast
  let ?s = "s\<lparr>nl_calls := nl_calls s @ [OnClose e, OnDisconnected (nc_fd c)],
      nl_list := l, nl_open := nl_open s - {nc_fd c}, nl_epoll := (nl_epoll s)(nc_fd c := None),
      nl_ctx := (nl_ctx s)(i := None)\<rparr>"
  obtain ip where "nc_ip c = Some ip" using e(3) by blast
  then have del: "Stream_delete i s = Some ?s"
    using c e node l(1) ep
    by (simp add: Stream_delete_def ClearEvent_def epoll_del_def close_fd_def call_def)
  have dist: "i \<notin> set (is1 @ is2)" using r sp(2) by (simp add: registered_def)
  have keep: "holds_ctx ?s b k" if "holds_ctx s b k" "k \<noteq> i" for b k
  proof -
    from that(1) obtain d x' y' where d: "nl_ctx s k = Some d" "nl_epoll s (nc_fd d) = Some (k, x', y')"
      by (auto simp: holds_ctx_def)
    then have "nc_fd d \<noteq> nc_fd c" using ep that(2) by auto
    with that d show ?thesis by (simp add: holds_ctx_def)
  qed
  have "list_all2 (holds_ctx s) as1 is1" "list_all2 (holds_ctx s) as2 is2"
    using r sp(1-3) by (simp_all add: registered_def list_all2_append)
  then have "list_all2 (holds_ctx ?s) (as1 @ as2) (is1 @ is2)"
    using keep dist by (intro list_all2_appendI) (auto elim!: list_all2_on)
  moreover have "k \<in> set (is1 @ is2) \<and> (\<exists>d. nl_ctx ?s k = Some d \<and> nc_fd d = f)"
    if "nl_epoll ?s f = Some (k, x, y)" for f k x y
  proof -
    from that have f: "f \<noteq> nc_fd c" and "nl_epoll s f = Some (k, x, y)" by (auto split: if_splits)
    with r obtain d where d: "k \<in> set is" "nl_ctx s k = Some d" "nc_fd d = f" unfolding registered_def by blast
    with f c have "k \<noteq> i" by auto
    with d sp(2) show ?thesis by auto
  qed
  moreover have "k < nl_fresh ?s" if "nl_ctx ?s k \<noteq> None" for k
    using that r by (auto simp: registered_def split: if_splits)
  ultimately have "registered ?s (as1 @ as2) (is1 @ is2)"
    using r sp(2) l(2) unfolding registered_def by (intro conjI allI impI) auto
  moreover have "set (is1 @ is2) = set is - {i}" using dist sp(2) by auto
  ultimately show ?thesis using del by blast
qed

end
