(* ===== verification/NetLoopSafety.thy ===== *)
theory NetLoopSafety
  imports NetLoopFacts
begin

text \<open>
  What one event does to the registry and to the other contexts, and the interpretation of
  \<open>event_batch\<close>; addresses as text; the destructor of the loop; sending to an address.
\<close>

section \<open>Addresses\<close>

lemma digit_char:
  assumes "d < 10"
  shows "is_digit (char_of (48 + d))" and "digit_val (char_of (48 + d)) = int d"
  using assms by (simp_all add: is_digit_def digit_val_def)

lemma nat_dec_digits: "c \<in> set (nat_dec n) \<Longrightarrow> is_digit c"
proof (induction n rule: nat_dec.induct)
  case (1 n)
  then show ?case
    using digit_char(1) [of "n mod 10"] digit_char(1) [of n] by (subst (asm) nat_dec.simps) (auto split: if_splits)
qed

lemma digits_val_snoc: "digits_val (s @ [c]) = 10 * digits_val s + digit_val c"
  by (simp add: digits_val_def)

lemma digits_val_nat_dec: "digits_val (nat_dec n) = int n"
proof (induction n rule: nat_dec.induct)
  case (1 n)
  show ?case
  proof (cases "n < 10")
    case True
    then show ?thesis using digit_char(2) [of n] by (simp add: nat_dec.simps [of n] digits_val_def)
  next
    case False
    then show ?thesis
      using 1 digit_char(2) [of "n mod 10"]
      by (simp add: nat_dec.simps [of n] digits_val_snoc zdiv_int zmod_int)
  qed
qed

lemma nat_dec_not_Nil: "nat_dec n \<noteq> []"
  by (subst nat_dec.simps) simp

lemma digit_not_space: "is_digit c \<Longrightarrow> \<not> is_space c \<and> c \<noteq> CHR ''-'' \<and> c \<noteq> CHR ''+'' \<and> c \<noteq> CHR '':''"
  by (auto simp: is_digit_def is_space_def)

lemma atoi_nat_dec: "n < 2 ^ 31 \<Longrightarrow> atoi (nat_dec n) = Some (int n)"
proof -
  assume n: "n < 2 ^ 31"
  obtain c s where cs: "nat_dec n = c # s" using nat_dec_not_Nil by (cases "nat_dec n") auto
  then have "is_digit c" using nat_dec_digits [of c n] by simp
  moreover have "takeWhile is_digit (nat_dec n) = nat_dec n"
    using nat_dec_digits by (simp add: takeWhile_eq_all_conv)
  ultimately show ?thesis
    using n digit_not_space [of c] digits_val_nat_dec [of n]
    by (simp add: atoi_def cs i32_ok_def takeWhile_eq_all_conv [THEN iffD2])
qed

lemma ParseIpPort_text:
  assumes "nc_ip_port c = ip @ CHR '':'' # int_dec port" and "CHR '':'' \<notin> set ip"
    and "0 \<le> port" and "port < 10 ^ 9"
  shows "ParseIpPort c = (if length ip < 16 then Some (c\<lparr>nc_ip := Some (Some ip), nc_port := port\<rparr>) else None)"
proof -
  have ip: "takeWhile (\<lambda>x. x \<noteq> CHR '':'') (ip @ CHR '':'' # t) = ip" for t
    using assms(2) by (induction ip) auto
  have "int_dec port = nat_dec (nat port)" using assms(3) by (simp add: int_dec_def)
  moreover have "length (nat_dec (nat port)) \<le> 9" using assms(3,4) by (intro length_nat_dec) simp_all
  moreover have "atoi (nat_dec (nat port)) = Some port" using assms(3,4) atoi_nat_dec [of "nat port"] by simp
  ultimately show ?thesis by (simp add: ParseIpPort_def assms(1) ip require_def)
qed

section \<open>One event\<close>

definition input_ok :: "(nat \<Rightarrow> byte list) \<Rightarrow> u32 \<Rightarrow> net_event \<Rightarrow> net_ctx \<Rightarrow> bool" where
  "input_ok fresh max_id ev c \<longleftrightarrow>
     (case nc_kind c of
        Listener \<Rightarrow> (\<exists>fd ip port. ne_accept ev = Some (fd, Some (ip, port)) \<and> length ip < 16 \<and>
          CHR '':'' \<notin> set ip \<and> 0 \<le> port \<and> port < 65536)
      | Stream0 st \<Rightarrow> (\<exists>r. stream0_HandleInput fresh max_id (nc_end_point c) (ne_segs ev) st = Some r \<and>
          (fst r < 0 \<longrightarrow> closable c))
      | Stream1 st \<Rightarrow> (\<exists>r. HandleInputImpl (ne_evs ev) st = Some r \<and> (r = None \<longrightarrow> closable c)))"

definition output_ok :: "net_event \<Rightarrow> net_ctx \<Rightarrow> bool" where
  "output_ok ev c \<longleftrightarrow>
     (case nc_kind c of
        Listener \<Rightarrow> True
      | Stream0 _ \<Rightarrow> stream0_HandleOutput (ne_sched ev) (fst (try_pop (nc_queue c))) \<noteq> None
      | Stream1 _ \<Rightarrow> stream1_HandleOutput (ne_sched ev) (tq_data (nc_queue c)) \<noteq> None)"

text \<open>Events after which a connection is over, and what the user hears of an event.\<close>

definition closes :: "(nat \<Rightarrow> byte list) \<Rightarrow> u32 \<Rightarrow> net_event \<Rightarrow> net_ctx \<Rightarrow> bool" where
  "closes fresh max_id ev c \<longleftrightarrow> ne_in ev \<and>
     (case nc_kind c of
        Listener \<Rightarrow> False
      | Stream0 st \<Rightarrow> (case stream0_HandleInput fresh max_id (nc_end_point c) (ne_segs ev) st of
          None \<Rightarrow> False | Some r \<Rightarrow> fst r < 0)
      | Stream1 st \<Rightarrow> HandleInputImpl (ne_evs ev) st = Some None)"

definition ctx_calls :: "(nat \<Rightarrow> byte list) \<Rightarrow> u32 \<Rightarrow> net_event \<Rightarrow> net_ctx \<Rightarrow> net_call list" where
  "ctx_calls fresh max_id ev c =
     (if ne_in ev \<and> nc_kind c = Listener then (case ne_accept ev of None \<Rightarrow> [] | Some (fd, _) \<Rightarrow> [OnAccepted fd])
      else if closes fresh max_id ev c then [OnClose (the (nc_end_point c)), OnDisconnected (nc_fd c)]
      else [])"

definition polled :: "(nat \<Rightarrow> byte list) \<Rightarrow> u32 \<Rightarrow> net_loop \<Rightarrow> net_event \<Rightarrow> bool" where
  "polled fresh max_id s ev \<longleftrightarrow> (\<exists>c r w. nl_ctx s (ne_ctx ev) = Some c \<and>
     nl_epoll s (nc_fd c) = Some (ne_ctx ev, r, w) \<and> (ne_in ev \<longrightarrow> input_ok fresh max_id ev c) \<and>
     (\<not> ne_in ev \<and> ne_out ev \<longrightarrow> output_ok ev c))"

text \<open>The kernel gives a new connection a descriptor that is not open.\<close>

definition new_fd :: "net_loop \<Rightarrow> net_event \<Rightarrow> bool" where
  "new_fd s ev \<longleftrightarrow> (case ne_accept ev of None \<Rightarrow> True | Some (fd, _) \<Rightarrow> fd \<notin> nl_open s)"

text \<open>The open descriptors, as the calls of the user tell.\<close>

primrec opened :: "net_call \<Rightarrow> int set \<Rightarrow> int set" where
  "opened (OnAccepted fd) fds = insert fd fds"
| "opened (OnConnected fd) fds = insert fd fds"
| "opened (OnClose e) fds = fds"
| "opened (OnDisconnected fd) fds = fds - {fd}"

definition event_step :: "net_loop \<Rightarrow> net_loop \<Rightarrow> nat \<Rightarrow> net_call list \<Rightarrow> bool \<Rightarrow> bool" where
  "event_step s s' i calls gone \<longleftrightarrow> net_ok s' \<and> nl_exit s' = nl_exit s \<and> nl_calls s' = nl_calls s @ calls \<and>
     nl_open s' = fold opened calls (nl_open s) \<and> nl_fresh s \<le> nl_fresh s' \<and> (nl_ctx s' i = None \<longleftrightarrow> gone) \<and>
     (\<forall>k. k \<noteq> i \<longrightarrow> k < nl_fresh s \<longrightarrow> nl_ctx s' k = nl_ctx s k) \<and>
     (\<forall>fd k r w. k \<noteq> i \<longrightarrow> nl_epoll s fd = Some (k, r, w) \<longrightarrow> nl_epoll s' fd = Some (k, r, w))"

lemma step_same:
  assumes "registered s as is" and "nl_ctx s i = Some c" and "nc_fd c' = nc_fd c" and "nc_node c' = nc_node c"
  shows "event_step s (set_ctx i c' s) i [] False"
    and "event_step s ((set_ctx i c' s)\<lparr>nl_sent := out\<rparr>) i [] False"
proof -
  have r: "registered (set_ctx i c' s) as is" by (rule registered_set [OF assms])
  then have "registered ((set_ctx i c' s)\<lparr>nl_sent := out\<rparr>) as is" by (subst registered_cong) simp_all
  with r show "event_step s (set_ctx i c' s) i [] False"
    "event_step s ((set_ctx i c' s)\<lparr>nl_sent := out\<rparr>) i [] False"
    unfolding event_step_def net_ok_def by (auto simp: set_ctx_def)
qed

lemma step_deleted:
  assumes "registered s as is" and "nl_ctx s i = Some c" and "i \<in> set is" and "closable c"
  shows "\<exists>s'. Stream_delete i s = Some s' \<and>
    event_step s s' i [OnClose (the (nc_end_point c)), OnDisconnected (nc_fd c)] True"
proof -
  from assms(4) obtain e where e: "nc_end_point c = Some e" "nc_loop c" "nc_ip c \<noteq> None"
    by (auto simp: closable_def)
  from epoll_iff(1) [OF assms(1-3)] obtain x y where ep: "nl_epoll s (nc_fd c) = Some (i, x, y)" by blast
  from Stream_delete_ok [OF assms(1-3) e] obtain l as' is' where
    d: "Stream_delete i s = Some (s\<lparr>nl_calls := nl_calls s @ [OnClose e, OnDisconnected (nc_fd c)],
      nl_list := l, nl_open := nl_open s - {nc_fd c}, nl_epoll := (nl_epoll s)(nc_fd c := None),
      nl_ctx := (nl_ctx s)(i := None)\<rparr>)"
    and r: "registered (s\<lparr>nl_calls := nl_calls s @ [OnClose e, OnDisconnected (nc_fd c)],
      nl_list := l, nl_open := nl_open s - {nc_fd c}, nl_epoll := (nl_epoll s)(nc_fd c := None),
      nl_ctx := (nl_ctx s)(i := None)\<rparr>) as' is'"
    by blast
  then have "net_ok (s\<lparr>nl_calls := nl_calls s @ [OnClose e, OnDisconnected (nc_fd c)],
      nl_list := l, nl_open := nl_open s - {nc_fd c}, nl_epoll := (nl_epoll s)(nc_fd c := None),
      nl_ctx := (nl_ctx s)(i := None)\<rparr>)"
    unfolding net_ok_def by blast
  then show ?thesis unfolding d event_step_def using e ep by auto
qed

text \<open>A new context that is not registered yet.\<close>

lemma registered_fresh:
  assumes "registered s as is" and "nl_ctx s' = (nl_ctx s)(nl_fresh s \<mapsto> c)" and "nl_fresh s' = nl_fresh s + 1"
    and "nl_list s' = nl_list s" and "nl_epoll s' = nl_epoll s" and "nl_open s \<subseteq> nl_open s'"
  shows "registered s' as is" and "nl_fresh s \<notin> set is"
proof -
  let ?k = "nl_fresh s"
  have bound: "nl_ctx s k \<noteq> None \<Longrightarrow> k < ?k" for k using assms(1) by (simp add: registered_def)
  have free: "nl_ctx s ?k = None" using bound [of ?k] by blast
  then show new: "?k \<notin> set is" using registered_split [OF assms(1), of ?k] by (auto simp: holds_ctx_def)
  have "holds_ctx s' a k" if "holds_ctx s a k" for a k
    using that free assms(6) by (auto simp: holds_ctx_def assms(2,5))
  then have "list_all2 (holds_ctx s') as is" using assms(1) by (auto simp: registered_def elim!: list_all2_on)
  moreover have "k < ?k + 1" if "nl_ctx s' k \<noteq> None" for k
    using that bound [of k] by (cases "k = ?k") (simp_all add: assms(2))
  moreover have "k \<in> set is \<and> (\<exists>d. nl_ctx s' k = Some d \<and> nc_fd d = f)" if "nl_epoll s' f = Some (k, x, y)" for f k x y
  proof -
    from that assms(1) obtain d where "k \<in> set is" "nl_ctx s k = Some d" "nc_fd d = f"
      unfolding registered_def assms(5) by blast
    with free new show ?thesis by (auto simp: assms(2))
  qed
  ultimately show "registered s' as is"
    using assms(1) unfolding registered_def assms(3,4) by (intro conjI allI impI) auto
qed

lemma step_accepted:
  assumes "registered s as is" and "fd \<notin> nl_open s" and "length ip < 16" and "CHR '':'' \<notin> set ip"
    and "0 \<le> port" and "port < 65536" and "i < nl_fresh s" and "nl_ctx s i \<noteq> None"
  shows "\<exists>s'. Listen_HandleInput kind (Some (fd, Some (ip, port))) s = Some (0, s') \<and>
    event_step s s' i [OnAccepted fd] False \<and>
    (\<exists>c. nl_ctx s' = (nl_ctx s)(nl_fresh s \<mapsto> c) \<and> nc_kind c = kind \<and> nc_ip c = Some (Some ip) \<and>
      nc_port c = port \<and> nc_fd c = fd \<and> nc_end_point c = Some (nl_fresh s) \<and> closable c) \<and>
    nl_epoll s' = (nl_epoll s)(fd \<mapsto> (nl_fresh s, True, False)) \<and> nl_fresh s' = nl_fresh s + 1"
proof -
  let ?k = "nl_fresh s"
  define c0 where "c0 = (Stream_new_loop kind (ip @ CHR '':'' # int_dec port))\<lparr>nc_end_point := Some ?k\<rparr>"
  define c where "c = c0\<lparr>nc_ip := Some (Some ip), nc_port := port, nc_fd := fd\<rparr>"
  have "length (nat_dec (nat port)) \<le> 5" using assms(5,6) by (intro length_nat_dec) simp_all
  then have "length (ip @ CHR '':'' # int_dec port) \<le> 29" using assms(3,5) by (simp add: int_dec_def)
  then have cut: "take 29 (ip @ CHR '':'' # int_dec port) = ip @ CHR '':'' # int_dec port" by (rule take_all)
  have parse: "ParseIpPort c0 = Some (c0\<lparr>nc_ip := Some (Some ip), nc_port := port\<rparr>)"
    using ParseIpPort_text [of c0 ip port] assms(3-6) by (simp add: c0_def Stream_new_loop_def)
  define s1 where "s1 = call (OnAccepted fd) (set_ctx ?k c (s\<lparr>nl_fresh := ?k + 1, nl_open := insert fd (nl_open s)\<rparr>))"
  have s1: "nl_ctx s1 = (nl_ctx s)(?k \<mapsto> c)" "nl_list s1 = nl_list s" "nl_epoll s1 = nl_epoll s"
    "nl_open s1 = insert fd (nl_open s)" "nl_fresh s1 = ?k + 1" "nl_calls s1 = nl_calls s @ [OnAccepted fd]"
    "nl_exit s1 = nl_exit s"
    by (simp_all add: s1_def call_def set_ctx_def)
  have "nl_open s \<subseteq> nl_open s1" by (auto simp: s1)
  note r1 = registered_fresh [OF assms(1) s1(1,5,2,3) this]
  have ctx: "nl_ctx s1 ?k = Some c" "nc_fd c = fd" by (simp_all add: s1 c_def)
  have ep: "nl_epoll s1 (nc_fd c) = None" using epoll_open [OF assms(1,2)] by (simp add: s1 ctx(2))
  have "nc_fd c \<in> nl_open s1" by (simp add: s1 ctx(2))
  from AddEvent_ok [OF r1(1) ctx(1) r1(2) this ep, of True False] obtain a l where
    add: "AddEvent ?k True False s1 = Some (0, s1\<lparr>nl_list := l, nl_ctx := (nl_ctx s1)(?k \<mapsto> c\<lparr>nc_node := Some a\<rparr>),
      nl_epoll := (nl_epoll s1)(fd \<mapsto> (?k, True, False))\<rparr>)"
    and r2: "registered (s1\<lparr>nl_list := l, nl_ctx := (nl_ctx s1)(?k \<mapsto> c\<lparr>nc_node := Some a\<rparr>),
      nl_epoll := (nl_epoll s1)(fd \<mapsto> (?k, True, False))\<rparr>) (as @ [a]) (is @ [?k])"
    unfolding ctx(2) by blast
  define s2 where "s2 = s1\<lparr>nl_list := l, nl_ctx := (nl_ctx s1)(?k \<mapsto> c\<lparr>nc_node := Some a\<rparr>),
      nl_epoll := (nl_epoll s1)(fd \<mapsto> (?k, True, False))\<rparr>"
  have s1': "call (OnAccepted fd) (set_ctx ?k (c0\<lparr>nc_ip := Some (Some ip), nc_port := port, nc_fd := fd\<rparr>)
      (s\<lparr>nl_fresh := Suc ?k, nl_open := insert fd (nl_open s)\<rparr>)) = s1"
    by (simp add: s1_def c_def)
  have run: "Listen_HandleInput kind (Some (fd, Some (ip, port))) s = Some (0, s2)"
    unfolding Listen_HandleInput_def
    by (simp add: Let_def cut c0_def [symmetric] parse s1' add s2_def del: take_append)
  have "net_ok s2" using r2 unfolding net_ok_def s2_def by blast
  moreover have "nl_epoll s2 f = Some (k, x, y)" if "nl_epoll s f = Some (k, x, y)" for f k x y
    using that ep by (auto simp: s2_def s1 ctx(2))
  ultimately have "event_step s s2 i [OnAccepted fd] False"
    using assms(7,8) unfolding event_step_def by (auto simp: s2_def s1)
  moreover have "closable c" by (simp add: closable_def c_def c0_def Stream_new_loop_def)
  ultimately show ?thesis
    using run by (intro exI [of _ s2] conjI exI [of _ "c\<lparr>nc_node := Some a\<rparr>"])
      (simp_all add: s2_def s1 closable_def c_def c0_def Stream_new_loop_def)
qed

text \<open>A listener that could be set up is registered.\<close>

lemma AsyncListen_ok:
  assumes r: "registered s as is" and fd: "fd \<notin> nl_open s" and x: "nl_exit s = None"
  shows "\<exists>s' as' c. NetMachine_AsyncListen port (Some fd) True True s = Some s' \<and>
    registered s' as' (is @ [nl_fresh s]) \<and> nl_ctx s' = (nl_ctx s)(nl_fresh s \<mapsto> c) \<and> nc_kind c = Listener \<and>
    nc_fd c = fd \<and> nc_ip c = None \<and> nl_epoll s' = (nl_epoll s)(fd \<mapsto> (nl_fresh s, True, False)) \<and>
    nl_calls s' = nl_calls s \<and> nl_open s' = insert fd (nl_open s) \<and> nl_exit s' = None \<and>
    nl_fresh s' = nl_fresh s + 1 \<and> nl_is_run s'"
proof -
  let ?k = "nl_fresh s"
  define c where "c = (Listen_new port)\<lparr>nc_fd := fd\<rparr>"
  define s1 where "s1 = s\<lparr>nl_fresh := ?k + 1, nl_open := insert fd (nl_open s), nl_ctx := (nl_ctx s)(?k \<mapsto> c)\<rparr>"
  have "registered s1 as is" "?k \<notin> set is"
    using registered_fresh [OF r, of s1 c] by (auto simp: s1_def)
  moreover have "nl_ctx s1 ?k = Some c" "nc_fd c = fd" by (simp_all add: s1_def c_def)
  moreover have "nl_epoll s1 (nc_fd c) = None" "nc_fd c \<in> nl_open s1"
    using epoll_open [OF r fd] by (simp_all add: s1_def c_def)
  ultimately obtain a l where
    add: "AddEvent ?k True False s1 = Some (0, s1\<lparr>nl_list := l, nl_ctx := (nl_ctx s1)(?k \<mapsto> c\<lparr>nc_node := Some a\<rparr>),
      nl_epoll := (nl_epoll s1)(fd \<mapsto> (?k, True, False))\<rparr>)"
    and r2: "registered (s1\<lparr>nl_list := l, nl_ctx := (nl_ctx s1)(?k \<mapsto> c\<lparr>nc_node := Some a\<rparr>),
      nl_epoll := (nl_epoll s1)(fd \<mapsto> (?k, True, False))\<rparr>) (as @ [a]) (is @ [?k])"
    using AddEvent_ok [of s1 "as" "is" ?k c True False] by auto
  define s2 where "s2 = s1\<lparr>nl_list := l, nl_ctx := (nl_ctx s1)(?k \<mapsto> c\<lparr>nc_node := Some a\<rparr>),
      nl_epoll := (nl_epoll s1)(fd \<mapsto> (?k, True, False))\<rparr>"
  have run: "NetMachine_AsyncListen port (Some fd) True True s = Some (CommunicateLoop_Start s2)"
    using x by (simp add: NetMachine_AsyncListen_def Listen_Init_def new_ctx_def set_ctx_def [of ?k "Listen_new port"]
        c_def [symmetric]) (use add in \<open>simp add: set_ctx_def s2_def s1_def\<close>)
  have "registered (CommunicateLoop_Start s2) (as @ [a]) (is @ [?k])"
    using r2 by (subst registered_cong [of _ s2]) (simp_all add: CommunicateLoop_Start_def s2_def)
  then show ?thesis
    using run x by (intro exI [of _ "CommunicateLoop_Start s2"] exI [of _ "as @ [a]"] exI [of _ "c\<lparr>nc_node := Some a\<rparr>"])
      (auto simp: CommunicateLoop_Start_def s2_def s1_def c_def Listen_new_def)
qed

lemma event_step_set:
  "event_step (set_ctx i c s) s' i calls gone \<Longrightarrow> event_step s s' i calls gone"
  unfolding event_step_def set_ctx_def by simp

lemma polled_listed:
  assumes "registered s as is" and "nl_epoll s fd = Some (i, r, w)"
  shows "i \<in> set is" and "i < nl_fresh s"
  using assms unfolding registered_def by blast+

lemma stream0_step:
  assumes r: "registered s as is" and c: "nl_ctx s (ne_ctx ev) = Some c" and i: "ne_ctx ev \<in> set is"
    and k: "nc_kind c = Stream0 st" "ne_in ev" "nl_exit s = None" and ok: "input_ok fresh max_id ev c"
  shows "\<exists>s'. handle_event fresh max_id kind ev s = Some s' \<and>
    event_step s s' (ne_ctx ev) (ctx_calls fresh max_id ev c) (closes fresh max_id ev c)"
proof -
  from ok k(1) obtain ret p segs st' where
    st': "stream0_HandleInput fresh max_id (nc_end_point c) (ne_segs ev) st = Some (ret, p, segs, st')"
      "ret < 0 \<longrightarrow> closable c"
    by (auto simp: input_ok_def)
  let ?c = "c\<lparr>nc_kind := Stream0 st'\<rparr>" and ?s = "set_ctx (ne_ctx ev) (c\<lparr>nc_kind := Stream0 st'\<rparr>) s"
  have calls: "closes fresh max_id ev c = (ret < 0)"
    "ctx_calls fresh max_id ev c = (if ret < 0 then [OnClose (the (nc_end_point c)), OnDisconnected (nc_fd c)] else [])"
    using k st'(1) by (simp_all add: closes_def ctx_calls_def)
  have input: "ctx_HandleInput fresh max_id kind ev s = Some (ret, ?s)"
    using c k(1) st'(1) by (simp add: ctx_HandleInput_def)
  show ?thesis
  proof (cases "ret < 0")
    case True
    have "registered ?s as is" by (rule registered_set [OF r c]) simp_all
    moreover have "nl_ctx ?s (ne_ctx ev) = Some ?c" "closable ?c"
      using st'(2) True by (simp_all add: set_ctx_def closable_def)
    ultimately obtain s' where s': "Stream_delete (ne_ctx ev) ?s = Some s'"
      "event_step ?s s' (ne_ctx ev) [OnClose (the (nc_end_point ?c)), OnDisconnected (nc_fd ?c)] True"
      using step_deleted i by blast
    have "handle_event fresh max_id kind ev s = Some s'"
      using k input True s'(1) by (simp add: handle_event_def ctx_delete_def set_ctx_def)
    then show ?thesis using event_step_set [OF s'(2)] True by (simp add: calls)
  next
    case False
    then show ?thesis using k input step_same(1) [OF r c, of ?c] by (simp add: handle_event_def calls)
  qed
qed

lemma stream1_step:
  assumes r: "registered s as is" and c: "nl_ctx s (ne_ctx ev) = Some c" and i: "ne_ctx ev \<in> set is"
    and k: "nc_kind c = Stream1 st" "ne_in ev" "nl_exit s = None" and ok: "input_ok fresh max_id ev c"
  shows "\<exists>s'. handle_event fresh max_id kind ev s = Some s' \<and>
    event_step s s' (ne_ctx ev) (ctx_calls fresh max_id ev c) (closes fresh max_id ev c)"
proof -
  from ok k(1) obtain res where res: "HandleInputImpl (ne_evs ev) st = Some res" "res = None \<longrightarrow> closable c"
    by (auto simp: input_ok_def)
  have calls: "closes fresh max_id ev c = (res = None)"
    "ctx_calls fresh max_id ev c = (if res = None then [OnClose (the (nc_end_point c)), OnDisconnected (nc_fd c)] else [])"
    using k res(1) by (simp_all add: closes_def ctx_calls_def)
  show ?thesis
  proof (cases res)
    case None
    with res(2) step_deleted [OF r c i] obtain s' where s': "Stream_delete (ne_ctx ev) s = Some s'"
      "event_step s s' (ne_ctx ev) [OnClose (the (nc_end_point c)), OnDisconnected (nc_fd c)] True" by blast
    then have "handle_event fresh max_id kind ev s = Some s'"
      using k c res(1) None by (simp add: handle_event_def ctx_HandleInput_def)
    then show ?thesis using s'(2) None by (simp add: calls)
  next
    case (Some st')
    then show ?thesis
      using k c res(1) step_same(1) [OF r c, of "c\<lparr>nc_kind := Stream1 st'\<rparr>"]
      by (simp add: handle_event_def ctx_HandleInput_def calls)
  qed
qed

lemma output_step:
  assumes r: "registered s as is" and c: "nl_ctx s (ne_ctx ev) = Some c"
    and k: "\<not> ne_in ev" "ne_out ev" "nl_exit s = None" and ok: "output_ok ev c"
  shows "\<exists>s'. handle_event fresh max_id kind ev s = Some s' \<and>
    event_step s s' (ne_ctx ev) (ctx_calls fresh max_id ev c) (closes fresh max_id ev c)"
proof -
  have calls: "closes fresh max_id ev c = False" "ctx_calls fresh max_id ev c = []"
    using k by (simp_all add: closes_def ctx_calls_def)
  have same: "event_step s s (ne_ctx ev) [] False"
    using step_same(1) [OF r c, of c] c by (simp add: set_ctx_def fun_upd_idem)
  show ?thesis
  proof (cases "nc_kind c")
    case Listener
    then show ?thesis using k c same by (simp add: handle_event_def ctx_HandleOutput_def calls)
  next
    case (Stream0 st)
    obtain popped q where q: "try_pop (nc_queue c) = (popped, q)" by fastforce
    with ok Stream0 obtain x y z where "stream0_HandleOutput (ne_sched ev) popped = Some (x, y, z)"
      by (auto simp: output_ok_def)
    with q Stream0 show ?thesis
      using k c step_same(2) [OF r c, of "c\<lparr>nc_queue := q\<rparr>" "nl_sent s @ [(nc_fd c, y)]"]
      by (simp add: handle_event_def ctx_HandleOutput_def calls)
  next
    case (Stream1 st)
    with ok obtain x y z where "stream1_HandleOutput (ne_sched ev) (tq_data (nc_queue c)) = Some (x, y, z)"
      by (auto simp: output_ok_def)
    with Stream1 show ?thesis
      using k c step_same(2) [OF r c, of "c\<lparr>nc_queue := (nc_queue c)\<lparr>tq_data := []\<rparr>\<rparr>" "nl_sent s @ [(nc_fd c, y)]"]
      by (simp add: handle_event_def ctx_HandleOutput_def calls)
  qed
qed

lemma handle_event_step:
  assumes r: "registered s as is" and x: "nl_exit s = None" and p: "polled fresh max_id s ev" and n: "new_fd s ev"
    and c: "nl_ctx s (ne_ctx ev) = Some c"
  shows "\<exists>s'. handle_event fresh max_id kind ev s = Some s' \<and>
    event_step s s' (ne_ctx ev) (ctx_calls fresh max_id ev c) (closes fresh max_id ev c)"
proof -
  from p c obtain rd wr where ep: "nl_epoll s (nc_fd c) = Some (ne_ctx ev, rd, wr)"
    and ok: "ne_in ev \<longrightarrow> input_ok fresh max_id ev c" "\<not> ne_in ev \<and> ne_out ev \<longrightarrow> output_ok ev c"
    by (auto simp: polled_def)
  note i = polled_listed [OF r ep]
  show ?thesis
  proof (cases "ne_in ev")
    case inp: True
    show ?thesis
    proof (cases "nc_kind c")
      case Listener
      with inp ok(1) obtain fd ip port where
        a: "ne_accept ev = Some (fd, Some (ip, port))" "length ip < 16" "CHR '':'' \<notin> set ip" "0 \<le> port" "port < 65536"
        by (auto simp: input_ok_def)
      from n a(1) have "fd \<notin> nl_open s" by (simp add: new_fd_def)
      from step_accepted [OF r this a(2-5) i(2), of kind] c Listener x inp a(1) show ?thesis
        by (auto simp: handle_event_def ctx_HandleInput_def ctx_calls_def closes_def)
    next
      case (Stream0 st)
      then show ?thesis using stream0_step [OF r c i(1) Stream0 inp x] ok(1) inp by blast
    next
      case (Stream1 st)
      then show ?thesis using stream1_step [OF r c i(1) Stream1 inp x] ok(1) inp by blast
    qed
  next
    case noinp: False
    show ?thesis
    proof (cases "ne_out ev")
      case True
      then show ?thesis using output_step [OF r c noinp True x] ok(2) noinp by blast
    next
      case False
      have "event_step s s (ne_ctx ev) [] False"
        using step_same(1) [OF r c, of c] c by (simp add: set_ctx_def fun_upd_idem)
      then show ?thesis using noinp False x by (simp add: handle_event_def ctx_calls_def closes_def)
    qed
  qed
qed

section \<open>A batch of events\<close>

definition ev_calls :: "(nat \<Rightarrow> byte list) \<Rightarrow> u32 \<Rightarrow> net_loop \<Rightarrow> net_event \<Rightarrow> net_call list" where
  "ev_calls fresh max_id s ev =
     (case nl_ctx s (ne_ctx ev) of None \<Rightarrow> [] | Some c \<Rightarrow> ctx_calls fresh max_id ev c)"

definition ev_closes :: "(nat \<Rightarrow> byte list) \<Rightarrow> u32 \<Rightarrow> net_loop \<Rightarrow> net_event \<Rightarrow> bool" where
  "ev_closes fresh max_id s ev =
     (case nl_ctx s (ne_ctx ev) of None \<Rightarrow> False | Some c \<Rightarrow> closes fresh max_id ev c)"

interpretation net: event_batch "handle_event fresh max_id kind" ne_ctx "\<lambda>s. net_ok s \<and> nl_exit s = None"
  "polled fresh max_id" new_fd "\<lambda>s k. k < nl_fresh s" "\<lambda>s k. nl_ctx s k = None" "ev_closes fresh max_id"
  nl_calls "ev_calls fresh max_id"
  for fresh max_id kind
proof unfold_locales
  fix s e
  assume "net_ok s \<and> nl_exit s = None" "polled fresh max_id s e"
  then show "ne_ctx e < nl_fresh s" using polled_listed(2) by (auto simp: net_ok_def polled_def)
next
  fix s e
  assume inv: "net_ok s \<and> nl_exit s = None" and p: "polled fresh max_id s e" and n: "new_fd s e"
  from inv obtain "as" "is" where r: "registered s as is" by (auto simp: net_ok_def)
  from p obtain c rd wr where c: "nl_ctx s (ne_ctx e) = Some c" "nl_epoll s (nc_fd c) = Some (ne_ctx e, rd, wr)"
    by (auto simp: polled_def)
  have x: "nl_exit s = None" using inv by simp
  from handle_event_step [OF r x p n c(1), of kind] obtain s' where
    h: "handle_event fresh max_id kind e s = Some s'"
    and st: "event_step s s' (ne_ctx e) (ctx_calls fresh max_id e c) (closes fresh max_id e c)" by blast
  have "polled fresh max_id s' f \<and> ev_calls fresh max_id s' f = ev_calls fresh max_id s f \<and>
      ev_closes fresh max_id s' f = ev_closes fresh max_id s f" if "ne_ctx f \<noteq> ne_ctx e" "polled fresh max_id s f" for f
  proof -
    from that(2) obtain d x y where d: "nl_ctx s (ne_ctx f) = Some d" "nl_epoll s (nc_fd d) = Some (ne_ctx f, x, y)"
      by (auto simp: polled_def)
    from polled_listed(2) [OF r d(2)] have "nl_ctx s' (ne_ctx f) = nl_ctx s (ne_ctx f)"
      using st that(1) unfolding event_step_def by blast
    moreover have "nl_epoll s' (nc_fd d) = Some (ne_ctx f, x, y)"
      using st that(1) d(2) unfolding event_step_def by blast
    ultimately show ?thesis using that(2) d by (auto simp: polled_def ev_calls_def ev_closes_def)
  qed
  moreover have "ne_ctx e < nl_fresh s'"
    using polled_listed(2) [OF r c(2)] st unfolding event_step_def by linarith
  ultimately show "\<exists>s'. handle_event fresh max_id kind e s = Some s' \<and> (net_ok s' \<and> nl_exit s' = None) \<and>
      nl_calls s' = nl_calls s @ ev_calls fresh max_id s e \<and> ne_ctx e < nl_fresh s' \<and>
      (nl_ctx s' (ne_ctx e) = None) = ev_closes fresh max_id s e \<and>
      (\<forall>k. k \<noteq> ne_ctx e \<longrightarrow> k < nl_fresh s \<longrightarrow> k < nl_fresh s' \<and> (nl_ctx s' k = None) = (nl_ctx s k = None)) \<and>
      (\<forall>f. ne_ctx f \<noteq> ne_ctx e \<longrightarrow> polled fresh max_id s f \<longrightarrow>
        polled fresh max_id s' f \<and> ev_calls fresh max_id s' f = ev_calls fresh max_id s f \<and>
        ev_closes fresh max_id s' f = ev_closes fresh max_id s f)"
    using h st inv c(1) unfolding event_step_def by (intro exI [of _ s']) (auto simp: ev_calls_def ev_closes_def)
qed

section \<open>The end of the loop\<close>

text \<open>A listener is made with an \<open>ip_\<close> that is not set.\<close>

lemma CommunicateLoop_delete_faults:
  assumes r: "registered s as is" and i: "is \<noteq> []"
    and l: "\<forall>i c. nl_ctx s i = Some c \<and> nc_kind c = Listener \<longrightarrow> nc_ip c = None"
  shows "CommunicateLoop_delete s = None"
proof -
  from i obtain i js where js: "is = i # js" by (cases "is") auto
  with r obtain a bs where bs: "as = a # bs" "holds_ctx s a i" by (auto simp: registered_def list_all2_Cons2)
  then obtain c where c: "nl_ctx s i = Some c" "nc_node c = Some a" by (auto simp: holds_ctx_def)
  have h: "sl_holds (nl_list s) ([] @ a # bs) ([] @ i # js)" using r js bs(1) by (simp add: registered_def)
  from remove_node_ok [OF h] obtain l' where l': "remove_node a (nl_list s) = Some l'" "sl_heap l' a = None" by auto
  obtain n where n: "sl_heap (nl_list s) a = Some n" "nd_data n = Some i"
    using h by (auto simp: sl_holds_def sl_items_def bind_eq_Some_conv)
  define s0 where "s0 = s\<lparr>nl_is_run := False\<rparr>"
  define s1 where "s1 = close_fd (nc_fd c) ((snd (epoll_del (nc_fd c) s0))\<lparr>nl_list := nl_list s\<rparr>)"
  have s1: "nl_ctx s1 = nl_ctx s" "nl_list s1 = nl_list s"
    by (simp_all add: s1_def s0_def close_fd_def epoll_del_def)
  have "ctx_delete i s1 = None \<or> (\<exists>s2. ctx_delete i s1 = Some s2 \<and> nl_list s2 = l')"
  proof (cases "nc_kind c = Listener")
    case True
    with l c(1) show ?thesis by (simp add: ctx_delete_def s1)
  next
    case False
    have "nl_list s2 = l'" if "Stream_delete i s1 = Some s2" for s2
      using that c l'(1) s1
      by (auto simp: Stream_delete_def ClearEvent_def epoll_del_def close_fd_def call_def bind_eq_Some_conv Let_def
          split: prod.splits if_splits)
    with False c(1) show ?thesis by (cases "Stream_delete i s1") (auto simp: ctx_delete_def s1)
  qed
  then have act: "loop_del_action a (nl_list s) s0 = None"
    using n c(1) l'(2) by (auto simp: loop_del_action_def split_def Let_def s1_def s0_def)
  have ends: "sl_next (nl_list s) Head = Some a" "a \<noteq> Tail" "\<exists>b. sl_next (nl_list s) a = Some b"
    using h by (auto simp: sl_holds_def sl_cells_def) (cases bs; auto)
  then have "HandleEveryNode loop_del_action (nl_list s) s0 = None"
    using act by (auto simp: HandleEveryNode_def each_node.simps [of _ a])
  then show ?thesis by (cases "0 < nl_threads s") (simp_all add: CommunicateLoop_delete_def CommunicateLoop_Stop_def s0_def)
qed

lemma CommunicateLoop_delete_empty:
  assumes "registered s [] []"
  shows "CommunicateLoop_delete s \<noteq> None \<longleftrightarrow> 0 < nl_threads s"
proof -
  have h: "sl_holds (nl_list s) [] []" using assms by (simp add: registered_def)
  then have "HandleEveryNode loop_del_action (nl_list s) t = Some (nl_list s, t)" for t
    using HandleEveryNode_visits [OF h, of loop_del_action] by simp
  moreover from SimpleList_delete_ok [OF h] obtain l where "SimpleList_delete (nl_list s) = Some l" by blast
  ultimately show ?thesis by (auto simp: CommunicateLoop_delete_def CommunicateLoop_Stop_def require_def)
qed

section \<open>Sending to an address\<close>

lemma send_to_address:
  assumes r: "registered s as is" and fd: "fd \<notin> nl_open s" and addr: "ip_port = ip @ CHR '':'' # int_dec port"
    and ip: "length ip < 16" "CHR '':'' \<notin> set ip" "0 \<le> port" "port < 65536"
  shows "NetMachine_AsyncSendPacket_to kind fd True ip_port packet s = None"
    and "\<exists>s' c. NetMachine_AsyncSendPacket_to kind fd False ip_port packet s = Some (0, s') \<and>
      nl_epoll s' = nl_epoll s \<and> nl_sent s' = nl_sent s \<and> nl_open s' = insert fd (nl_open s) \<and>
      nl_ctx s' (nl_fresh s) = Some c \<and> tq_data (nc_queue c) = [packet, packet, packet]"
proof -
  let ?k = "nl_fresh s"
  define c0 where "c0 = Stream_new_loop kind ip_port"
  define c1 where "c1 = c0\<lparr>nc_ip := Some (Some ip), nc_port := port, nc_fd := fd\<rparr>"
  have parse: "ParseIpPort c0 = Some (c0\<lparr>nc_ip := Some (Some ip), nc_port := port\<rparr>)"
    using ParseIpPort_text [of c0 ip port] ip by (simp add: c0_def Stream_new_loop_def addr)
  have c0: "nc_ip c0 = Some None" "nc_machine c0 = False" by (simp_all add: c0_def Stream_new_loop_def)
  define s1 where "s1 = snd (new_ctx c0 s)"
  have new: "new_ctx c0 s = (?k, s1)" "nl_ctx s1 ?k = Some c0" "nl_open s1 = nl_open s" "nl_epoll s1 = nl_epoll s"
    "nl_sent s1 = nl_sent s"
    by (simp_all add: new_ctx_def s1_def set_ctx_def)
  show "NetMachine_AsyncSendPacket_to kind fd True ip_port packet s = None"
    using parse new c0 by (simp add: NetMachine_AsyncSendPacket_to_def c0_def [symmetric] Stream_Init_def)
  define s2 where "s2 = set_ctx ?k c1 (s1\<lparr>nl_open := insert fd (nl_open s1)\<rparr>)"
  have init: "Stream_Init fd False ?k s1 = Some (- 1, s2)"
    using parse new c0 by (simp add: Stream_Init_def s2_def c1_def)
  define s3 where "s3 = CommunicateLoop_Start s2"
  have s3: "nl_ctx s3 ?k = Some c1" "nl_epoll s3 = nl_epoll s" "nl_open s3 = insert fd (nl_open s)" "nl_sent s3 = nl_sent s"
    using new by (simp_all add: s3_def s2_def CommunicateLoop_Start_def set_ctx_def)
  have unreg: "nl_epoll s fd = None" using epoll_open [OF r fd] .
  have q: "nc_queue c1 = TaskQueue_default" "nc_loop c1" "nc_fd c1 = fd"
    by (simp_all add: c1_def c0_def Stream_new_loop_def)
  define send where "send n t = (\<exists>c. nl_ctx t ?k = Some c \<and> nc_loop c \<and> nc_fd c = fd \<and>
      nc_queue c = TaskQueue_default\<lparr>tq_data := replicate n packet\<rparr> \<and> nl_epoll t = nl_epoll s \<and>
      nl_sent t = nl_sent s \<and> nl_open t = insert fd (nl_open s))" for n and t :: net_loop
  have step: "\<exists>t'. Stream_AsyncSendPacket (Some packet) ?k t = Some (0, Some t') \<and> send (Suc n) t'"
    if "send n t" "n < 10" for n t
    using that unreg
    by (auto simp: send_def Stream_AsyncSendPacket_def try_push_def TaskQueue_default_def TaskQueue_new_def
        SetEvent_def epoll_mod_def set_ctx_def replicate_append_same)
  have "send 0 s3" using s3 q by (simp add: send_def TaskQueue_default_def TaskQueue_new_def)
  from step [OF this] obtain t1 where t1: "Stream_AsyncSendPacket (Some packet) ?k s3 = Some (0, Some t1)"
    "send (Suc 0) t1" by auto
  from step [OF t1(2)] obtain t2 where t2: "Stream_AsyncSendPacket (Some packet) ?k t1 = Some (0, Some t2)"
    "send (Suc (Suc 0)) t2" by auto
  from step [OF t2(2)] obtain t3 where t3: "Stream_AsyncSendPacket (Some packet) ?k t2 = Some (0, Some t3)"
    "send (Suc (Suc (Suc 0))) t3" by auto
  have "[0..<3] = [0, 1, 2 :: nat]" by (simp add: upt_rec)
  then have "NetMachine_AsyncSendPacket_to kind fd False ip_port packet s = Some (0, t3)"
    using new(1) init t1(1) t2(1) t3(1)
    by (simp add: NetMachine_AsyncSendPacket_to_def c0_def [symmetric] s3_def [symmetric])
  then show "\<exists>s' c. NetMachine_AsyncSendPacket_to kind fd False ip_port packet s = Some (0, s') \<and>
      nl_epoll s' = nl_epoll s \<and> nl_sent s' = nl_sent s \<and> nl_open s' = insert fd (nl_open s) \<and>
      nl_ctx s' ?k = Some c \<and> tq_data (nc_queue c) = [packet, packet, packet]"
    using t3(2) by (auto simp: send_def)
qed

end
