(* ===== verification/NetLoopProperties.thy ===== *)
theory NetLoopProperties
  imports NetLoopSafety
begin

text \<open>
  What the event loop of the network library promises, and three operations of it that cannot work.
\<close>

section \<open>The event loop\<close>

text \<open>Whenever a connection of the batch is accepted its descriptor is not open.\<close>

primrec accepts_new :: "(nat \<Rightarrow> byte list) \<Rightarrow> u32 \<Rightarrow> net_kind \<Rightarrow> net_event list \<Rightarrow> net_loop \<Rightarrow> bool" where
  "accepts_new fresh max_id kind [] s = True"
| "accepts_new fresh max_id kind (ev # evs) s =
     (new_fd s ev \<and> (\<forall>s'. handle_event fresh max_id kind ev s = Some s' \<longrightarrow> accepts_new fresh max_id kind evs s'))"

lemma accepts_new_ables: "accepts_new fresh max_id kind evs s = net.ables fresh max_id kind evs s"
  by (induction evs arbitrary: s) simp_all

text \<open>
  C3. The list of contexts, the table of the kernel and the contexts themselves stay in step: whatever
  mixture of events one poll returns, new connections, data, broken and finished connections on streams of
  both versions, \<open>HandleEvent\<close> touches no deleted context, keeps the registry well-formed, deletes exactly
  the contexts whose connections are over, tells the user of each new and each lost connection once and
  in the order of the events, and leaves all other contexts alone.  Descriptors may be used again within
  the batch.  The events are for registered contexts, one each; what arrives does not fault in the
  parser of the stream; connections that end have their pointers set.
\<close>

theorem event_loop_registry:
  assumes "net_ok s" and "nl_exit s = None" and "distinct (map ne_ctx evs)"
    and "\<forall>ev \<in> set evs. polled fresh max_id s ev" and "accepts_new fresh max_id kind evs s"
  shows "\<exists>s'. HandleEvent fresh max_id kind evs s = Some s' \<and> net_ok s' \<and> nl_exit s' = None \<and>
    nl_calls s' = nl_calls s @ concat (map (ev_calls fresh max_id s) evs) \<and>
    (\<forall>ev \<in> set evs. nl_ctx s' (ne_ctx ev) = None \<longleftrightarrow> ev_closes fresh max_id s ev) \<and>
    (\<forall>i. i \<notin> ne_ctx ` set evs \<longrightarrow> i < nl_fresh s \<longrightarrow> (nl_ctx s' i = None \<longleftrightarrow> nl_ctx s i = None))"
proof -
  have "net_ok s \<and> nl_exit s = None" using assms(1,2) by simp
  from net.batch_ok [OF this assms(3,4) assms(5) [unfolded accepts_new_ables]] show ?thesis
    unfolding HandleEvent_def by blast
qed

definition demo_accept :: "nat \<Rightarrow> int \<Rightarrow> net_event" where
  "demo_accept i fd = \<lparr>ne_ctx = i, ne_in = True, ne_out = False, ne_accept = Some (fd, Some (''1.2.3.4'', 99)),
     ne_segs = [], ne_evs = [], ne_sched = []\<rparr>"

definition demo_lost :: "nat \<Rightarrow> net_event" where
  "demo_lost i = \<lparr>ne_ctx = i, ne_in = True, ne_out = False, ne_accept = None, ne_segs = [], ne_evs = [Closed],
     ne_sched = []\<rparr>"

lemma event_loop_registry_witness:
  "\<exists>s1 s2 s3. NetMachine_AsyncListen 80 (Some 3) True True (CommunicateLoop_new False) = Some s1 \<and>
    HandleEvent (\<lambda>n. replicate n 0) 0 (Stream1 (stream1_new [])) [demo_accept 0 5] s1 = Some s2 \<and>
    HandleEvent (\<lambda>n. replicate n 0) 0 (Stream1 (stream1_new [])) [demo_lost 1, demo_accept 0 5] s2 = Some s3 \<and> net_ok s3 \<and>
    nl_calls s3 = [OnAccepted 5, OnClose 1, OnDisconnected 5, OnAccepted 5] \<and> nl_ctx s3 1 = None"
proof -
  let ?fresh = "\<lambda>n. replicate n 0 :: byte list" and ?st = "stream1_new []"
  from AsyncListen_ok [OF registered_new, of 3 False 80] obtain s1 as1 c where
    s1: "NetMachine_AsyncListen 80 (Some 3) True True (CommunicateLoop_new False) = Some s1" "registered s1 as1 [0]"
      "nl_ctx s1 = [0 \<mapsto> c]" "nc_kind c = Listener" "nc_fd c = 3" "nl_epoll s1 = [3 \<mapsto> (0, True, False)]"
      "nl_calls s1 = []" "nl_open s1 = {3}" "nl_exit s1 = None" "nl_fresh s1 = 1"
    by (auto simp: CommunicateLoop_new_def)
  have "5 \<notin> nl_open s1" by (simp add: s1)
  from step_accepted [OF s1(2) this, of "''1.2.3.4''" 99 0 "Stream1 ?st"] s1 obtain s2 d where
    s2: "Listen_HandleInput (Stream1 ?st) (Some (5, Some (''1.2.3.4'', 99))) s1 = Some (0, s2)"
      "event_step s1 s2 0 [OnAccepted 5] False" "nl_ctx s2 = [0 \<mapsto> c, 1 \<mapsto> d]" "nc_kind d = Stream1 ?st" "nc_fd d = 5"
      "closable d" "nc_end_point d = Some 1" "nl_epoll s2 = [3 \<mapsto> (0, True, False), 5 \<mapsto> (1, True, False)]"
    by auto
  have run2: "HandleEvent ?fresh 0 (Stream1 ?st) [demo_accept 0 5] s1 = Some s2"
    using s1 s2(1) by (simp add: HandleEvent_def handle_event_def ctx_HandleInput_def demo_accept_def)
  have st2: "net_ok s2" "nl_exit s2 = None" "nl_calls s2 = [OnAccepted 5]" "nl_open s2 = {5, 3}"
    using s2(2) s1 by (simp_all add: event_step_def)
  have ctx2: "nl_ctx s2 0 = Some c" "nl_ctx s2 1 = Some d" "nl_epoll s2 3 = Some (0, True, False)"
    "nl_epoll s2 5 = Some (1, True, False)"
    using s2 by simp_all
  have lost: "HandleInputImpl [Closed] ?st = Some None" by (simp add: HandleInputImpl.simps)
  have polled: "polled ?fresh 0 s2 (demo_lost 1)" "polled ?fresh 0 s2 (demo_accept 0 5)"
    using ctx2 s1(4,5) s2(4-6) lost by (auto simp: polled_def demo_lost_def demo_accept_def input_ok_def)
  have calls: "ctx_calls ?fresh 0 (demo_lost 1) d = [OnClose 1, OnDisconnected 5]"
    "closes ?fresh 0 (demo_lost 1) d" "ctx_calls ?fresh 0 (demo_accept 0 5) c = [OnAccepted 5]"
    using s1(4) s2(4-7) lost by (simp_all add: ctx_calls_def closes_def demo_lost_def demo_accept_def)
  have "5 \<notin> nl_open s'" if "handle_event ?fresh 0 (Stream1 ?st) (demo_lost 1) s2 = Some s'" for s'
  proof -
    obtain "as" "is" where "registered s2 as is" using st2(1) by (auto simp: net_ok_def)
    moreover have "new_fd s2 (demo_lost 1)" "ne_ctx (demo_lost 1) = 1" by (simp_all add: new_fd_def demo_lost_def)
    ultimately have "event_step s2 s' 1 [OnClose 1, OnDisconnected 5] True"
      using handle_event_step [OF _ st2(2) polled(1), of "as" "is" d "Stream1 ?st"] ctx2(2) that calls by simp
    then show ?thesis by (simp add: event_step_def st2(4))
  qed
  then have "accepts_new ?fresh 0 (Stream1 ?st) [demo_lost 1, demo_accept 0 5] s2"
    by (simp add: new_fd_def demo_accept_def) (simp add: demo_lost_def)
  from event_loop_registry [OF st2(1,2) _ _ this] polled obtain s3 where
    "HandleEvent ?fresh 0 (Stream1 ?st) [demo_lost 1, demo_accept 0 5] s2 = Some s3" "net_ok s3"
    "nl_calls s3 = nl_calls s2 @ ev_calls ?fresh 0 s2 (demo_lost 1) @ ev_calls ?fresh 0 s2 (demo_accept 0 5)"
    "nl_ctx s3 1 = None \<longleftrightarrow> ev_closes ?fresh 0 s2 (demo_lost 1)"
    by (auto simp: demo_lost_def demo_accept_def)
  then show ?thesis
    using s1(1) run2 calls ctx2 st2(3)
    by (simp add: ev_calls_def ev_closes_def) (simp add: demo_lost_def demo_accept_def)
qed

text \<open>
  C4. Deleting the loop, as the end of the program does through the \<open>Singleton\<close> of \<open>NetMachine\<close>, is undefined
  as soon as one context is registered: the node of a stream is written to after the destructor of the
  stream has deleted it, and a listener frees a pointer that was never set.  Only a loop without
  contexts whose thread was started can be deleted.
\<close>

theorem net_machine_delete:
  assumes "registered s as is"
    and "\<forall>i c. nl_ctx s i = Some c \<and> nc_kind c = Listener \<longrightarrow> nc_ip c = None"
  shows "CommunicateLoop_delete s \<noteq> None \<longleftrightarrow> is = [] \<and> 0 < nl_threads s"
proof (cases "is = []")
  case True
  with assms(1) have "as = []" by (simp add: registered_def)
  with True assms(1) CommunicateLoop_delete_empty [of s] show ?thesis by simp
next
  case False
  with CommunicateLoop_delete_faults [OF assms(1) _ assms(2)] show ?thesis by simp
qed

lemma net_machine_delete_witness:
  "CommunicateLoop_delete (NetMachine_Init (CommunicateLoop_new False)) \<noteq> None \<and>
    CommunicateLoop_delete (CommunicateLoop_new False) = None \<and>
    (\<exists>s. NetMachine_AsyncListen 80 (Some 3) True True (CommunicateLoop_new False) = Some s \<and>
      CommunicateLoop_delete s = None)"
proof -
  have new: "registered (NetMachine_Init (CommunicateLoop_new False)) [] []"
    using registered_new [of False] by (subst registered_cong [of _ "CommunicateLoop_new False"])
      (simp_all add: NetMachine_Init_def CommunicateLoop_Start_def CommunicateLoop_new_def)
  from AsyncListen_ok [OF registered_new, of 3 False 80] obtain s1 as1 c where
    s1: "NetMachine_AsyncListen 80 (Some 3) True True (CommunicateLoop_new False) = Some s1" "registered s1 as1 [0]"
      "nl_ctx s1 = [0 \<mapsto> c]" "nc_ip c = None"
    by (auto simp: CommunicateLoop_new_def)
  have "CommunicateLoop_delete s1 = None" using net_machine_delete [OF s1(2)] s1(3,4) by simp
  then show ?thesis
    using net_machine_delete [OF new] net_machine_delete [OF registered_new, of False] s1(1)
    by (auto simp: NetMachine_Init_def CommunicateLoop_Start_def CommunicateLoop_new_def)
qed

section \<open>Addresses\<close>

text \<open>
  The text of an address and a port is read back as these, whatever stands before the first colon; an
  address of 16 characters or more overruns its array.
\<close>

theorem ip_port_round_trip:
  assumes "nc_ip_port c = ip @ CHR '':'' # int_dec port" and "CHR '':'' \<notin> set ip"
    and "0 \<le> port" and "port < 10 ^ 9"
  shows "ParseIpPort c = (if length ip < 16 then Some (c\<lparr>nc_ip := Some (Some ip), nc_port := port\<rparr>) else None)"
  by (rule ParseIpPort_text [OF assms])

lemma ip_port_round_trip_witness:
  "\<exists>c. ParseIpPort (Stream_new_client (Stream1 (stream1_new [])) ''127.0.0.1:8080'') = Some c \<and> nc_port c = 8080"
proof -
  have "int_dec 8080 = ''8080''" by (simp add: int_dec_def nat_dec.simps, code_simp)
  then show ?thesis
    using ip_port_round_trip [of "Stream_new_client (Stream1 (stream1_new [])) ''127.0.0.1:8080''" "''127.0.0.1''" 8080]
    by (simp add: Stream_new_client_def)
qed

text \<open>
  \<open>AsyncSendPacket\<close> to an address never sends: when the peer can be reached the context is registered
  through a machine that was never set, and when it cannot, 0 is returned although nothing was registered
  and nothing sent, with the packet three times in the queue of a context that nobody serves.
\<close>

theorem send_to_address_never_sends:
  assumes "registered s as is" and "fd \<notin> nl_open s" and "ip_port = ip @ CHR '':'' # int_dec port"
    and "length ip < 16" and "CHR '':'' \<notin> set ip" and "0 \<le> port" and "port < 65536"
  shows "NetMachine_AsyncSendPacket_to kind fd True ip_port packet s = None \<and>
    (\<exists>s' c. NetMachine_AsyncSendPacket_to kind fd False ip_port packet s = Some (0, s') \<and>
      nl_epoll s' = nl_epoll s \<and> nl_sent s' = nl_sent s \<and> nl_open s' = insert fd (nl_open s) \<and>
      nl_ctx s' (nl_fresh s) = Some c \<and> tq_data (nc_queue c) = [packet, packet, packet])"
  using send_to_address [OF assms] by blast

lemma send_to_address_never_sends_witness:
  "NetMachine_AsyncSendPacket_to (Stream1 (stream1_new [])) 4 True ''10.0.0.1:80'' (Packet_new 0) (CommunicateLoop_new False) = None"
proof -
  have "''10.0.0.1:80'' = ''10.0.0.1'' @ CHR '':'' # int_dec 80" by (simp add: int_dec_def nat_dec.simps, code_simp)
  from send_to_address_never_sends [OF registered_new _ this, of 4 False "Stream1 (stream1_new [])" "Packet_new 0"] show ?thesis
    by (simp add: CommunicateLoop_new_def)
qed

text \<open>An event that can be read and written is only read: what waits to be sent goes on waiting.\<close>

lemma readable_event_sends_nothing:
  assumes "ne_in ev" and "nc_kind c = Stream1 st" and "nl_ctx s (ne_ctx ev) = Some c"
    and "handle_event fresh max_id kind ev s = Some s'" and "nl_ctx s' (ne_ctx ev) = Some c'"
    and "HandleInputImpl (ne_evs ev) st = Some (Some st')" and "nl_exit s = None"
  shows "nl_sent s' = nl_sent s \<and> nc_queue c' = nc_queue c"
  using assms by (auto simp: handle_event_def ctx_HandleInput_def set_ctx_def)

end
