(* ===== verification/NetEcho.thy ===== *)
theory NetEcho
  imports StreamSocket RsyncRemote LogTime
begin

text \<open>
  The handlers and the two programs that come with the network library (\<open>listen_handler.cpp\<close>,
  \<open>stream_handler.h\<close>, \<open>server.cpp\<close>, \<open>client.cpp\<close>): a server that sends back what it receives, and a client
  that sends \<open>hello world\<close> and waits for the answer.  One turn of a connection is put together from
  version 0 of the stream protocol, the queue of the connection and the handler.
\<close>

section \<open>Handlers\<close>

text \<open>\<open>data[i] = b\<close>, and \<open>printf\<close> with \<open>%s\<close>, which reads on to the first zero.\<close>

definition put_data :: "nat \<Rightarrow> byte \<Rightarrow> 'e packet \<Rightarrow> 'e packet option" where
  "put_data i b p = do {
     d \<leftarrow> pt_data p;
     d \<leftarrow> store d i [b];
     Some (p\<lparr>pt_data := Some d\<rparr>)
   }"

definition print_data :: "'e packet \<Rightarrow> string option" where
  "print_data p = do {
     d \<leftarrow> pt_data p;
     require (0 \<in> set d);
     Some (bytes_str d)
   }"

definition ListenHandler_OnReceived :: "'e packet \<Rightarrow> 'e packet option" where
  "ListenHandler_OnReceived p = do {
     _ \<leftarrow> pt_end_point p;
     len \<leftarrow> pt_data_length p;
     p \<leftarrow> put_data (unat len) 0 p;
     _ \<leftarrow> print_data p;
     put_data (unat len) 32 p
   }"

definition ListenHandler_OnReceived_from :: "'e packet \<Rightarrow> 'e packet option" where
  "ListenHandler_OnReceived_from p = do {
     _ \<leftarrow> print_data p;
     Some p
   }"

definition ListenHandler_OnSent :: "'e packet \<Rightarrow> 'e packet option" where
  "ListenHandler_OnSent p = do {
     _ \<leftarrow> print_data p;
     Some p
   }"

definition StreamHandler_OnReceived :: "'e packet \<Rightarrow> 'e packet option" where
  "StreamHandler_OnReceived p = do {
     len \<leftarrow> pt_data_length p;
     p \<leftarrow> put_data (unat len) 0 p;
     _ \<leftarrow> print_data p;
     _ \<leftarrow> pt_end_point p;
     put_data (unat len) 32 p
   }"

definition StreamHandler_OnReceived_from :: "'e packet \<Rightarrow> 'e packet option" where
  "StreamHandler_OnReceived_from p = do {
     len \<leftarrow> pt_data_length p;
     p \<leftarrow> put_data (unat len) 10 p;
     _ \<leftarrow> print_data p;
     Some p
   }"

definition StreamHandler_OnSent :: "'e packet \<Rightarrow> 'e packet option" where
  "StreamHandler_OnSent p = StreamHandler_OnReceived_from p"

section \<open>A turn of a connection\<close>

text \<open>\<open>HandleOutput\<close> with its queue and handler: the code, the bytes sent, and the rest of schedule and queue.\<close>

definition output_turn ::
  "('e packet \<Rightarrow> 'e packet option) \<Rightarrow> nat option list \<Rightarrow> 'e packet task_queue \<Rightarrow>
   (int \<times> byte list \<times> nat option list \<times> 'e packet task_queue) option" where
  "output_turn OnSent sched q = do {
     let (popped, q) = TaskQueue_Pop_timeout 1000 0 (\<lambda>_ q. q) 0 q;
     (ret, out, sched) \<leftarrow> stream0_HandleOutput sched popped;
     _ \<leftarrow> (case popped of None \<Rightarrow> Some None | Some p \<Rightarrow> map_option Some (OnSent p));
     Some (ret, out, sched, q)
   }"

text \<open>\<open>HandleInput\<close> with the handler of the server, which sends back, and with that of the client.\<close>

definition echo_turn ::
  "(nat \<Rightarrow> byte list) \<Rightarrow> u32 \<Rightarrow> 'e \<Rightarrow> byte list list \<Rightarrow> stream0 \<Rightarrow> 'e packet task_queue \<Rightarrow>
   (int \<times> byte list list \<times> stream0 \<times> 'e packet task_queue) option" where
  "echo_turn fresh max_id ep segs s q = do {
     (ret, received, segs, s) \<leftarrow> stream0_HandleInput fresh max_id ep segs s;
     case received of
       None \<Rightarrow> Some (ret, segs, s, q)
     | Some p \<Rightarrow> do {
         p \<leftarrow> ListenHandler_OnReceived p;
         let (pushed, q) = try_push p q;
         require pushed;
         Some (ret, segs, s, q)
       }
   }"

definition client_turn ::
  "(nat \<Rightarrow> byte list) \<Rightarrow> u32 \<Rightarrow> 'e \<Rightarrow> byte list list \<Rightarrow> stream0 \<Rightarrow>
   (int \<times> 'e packet option \<times> byte list list \<times> stream0) option" where
  "client_turn fresh max_id ep segs s = do {
     (ret, received, segs, s) \<leftarrow> stream0_HandleInput fresh max_id ep segs s;
     p \<leftarrow> (case received of None \<Rightarrow> Some None | Some p \<Rightarrow> map_option Some (StreamHandler_OnReceived p));
     Some (ret, p, segs, s)
   }"

section \<open>The client program\<close>

definition syncclient_packet :: "(nat \<Rightarrow> byte list) \<Rightarrow> u32 \<Rightarrow> 'e \<Rightarrow> 'e packet option" where
  "syncclient_packet fresh max_id ep = do {
     (dat, len) \<leftarrow> c_snprintf (fresh 100) 0 100 (str_bytes ''hello world'');
     Some ((Packet_set_packet dat (of_nat len) (Packet_new max_id))\<lparr>pt_end_point := Some ep\<rparr>)
   }"

text \<open>
  After the answer: the text that is logged, and a write into the data of the packet that was sent.  That
  packet is \<open>None\<close> once \<open>HandleOutput\<close> has deleted it.
\<close>

definition syncclient_end :: "'e packet option \<Rightarrow> 'e packet \<Rightarrow> string option" where
  "syncclient_end sent packet1 = do {
     len \<leftarrow> pt_data_length packet1;
     packet1 \<leftarrow> put_data (unat len) 0 packet1;
     logged \<leftarrow> print_data packet1;
     packet \<leftarrow> sent;
     len \<leftarrow> pt_data_length packet;
     _ \<leftarrow> put_data (unat len) 32 packet;
     Some logged
   }"

text \<open>The client in \<open>test/client.cpp\<close> ends the text nowhere, and leaves the deleted packet alone.\<close>

definition test_syncclient_end :: "'e packet \<Rightarrow> string option" where
  "test_syncclient_end packet1 = print_data packet1"

section \<open>Facts\<close>

lemma put_data_ok:
  "pt_data p = Some (d @ x # ds) \<Longrightarrow> put_data (length d) b p = Some (p\<lparr>pt_data := Some (d @ b # ds)\<rparr>)"
  by (simp add: put_data_def store_def)

lemma print_data_ok: "pt_data p = Some d \<Longrightarrow> 0 \<in> set d \<Longrightarrow> print_data p = Some (bytes_str d)"
  by (simp add: print_data_def)

text \<open>A packet whose data \<open>d\<close> is followed by \<open>x\<close> and \<open>ds\<close>.\<close>

definition holds_before :: "byte list \<Rightarrow> byte list \<Rightarrow> byte \<Rightarrow> byte list \<Rightarrow> 'e packet \<Rightarrow> bool" where
  "holds_before h d x ds p \<longleftrightarrow> packet_holds h d p \<and> pt_data p = Some (d @ x # ds) \<and> pt_end_point p \<noteq> None"

lemma holds_before_length:
  assumes "holds_before h d x ds p"
  obtains len where "pt_data_length p = Some len" and "unat len = length d"
  using assms unat_of_nat_u32 [of "length d"] by (auto simp: holds_before_def packet_holds_def)

lemma holds_before_put:
  assumes "holds_before h d x ds p"
  shows "\<exists>q. put_data (length d) b p = Some q \<and> holds_before h d b ds q \<and> pt_channel q = pt_channel p"
proof -
  have "put_data (length d) b p = Some (p\<lparr>pt_data := Some (d @ b # ds)\<rparr>)"
    using assms by (intro put_data_ok [of _ _ x]) (simp add: holds_before_def)
  moreover have "holds_before h d b ds (p\<lparr>pt_data := Some (d @ b # ds)\<rparr>)"
    using assms by (auto simp: holds_before_def packet_holds_def)
  ultimately show ?thesis by simp
qed

lemma holds_before_print:
  "holds_before h d x ds p \<Longrightarrow> 0 \<in> set (x # ds) \<Longrightarrow> print_data p = Some (bytes_str (d @ x # ds))"
  by (rule print_data_ok) (auto simp: holds_before_def)

lemma OnReceived_ok:
  assumes "holds_before h d x ds p"
  shows "\<exists>q. ListenHandler_OnReceived p = Some q \<and> holds_before h d 32 ds q \<and> pt_channel q = pt_channel p"
    and "\<exists>q. StreamHandler_OnReceived p = Some q \<and> holds_before h d 32 ds q \<and> pt_channel q = pt_channel p"
proof -
  obtain len where len: "pt_data_length p = Some len" "unat len = length d" by (rule holds_before_length [OF assms])
  obtain ep where ep: "pt_end_point p = Some ep" using assms by (auto simp: holds_before_def)
  from holds_before_put [OF assms, of 0] obtain p1 where
    p1: "put_data (length d) 0 p = Some p1" "holds_before h d 0 ds p1" "pt_channel p1 = pt_channel p" by blast
  obtain ep1 where ep1: "pt_end_point p1 = Some ep1" using p1(2) by (auto simp: holds_before_def)
  from holds_before_put [OF p1(2), of 32] obtain q where
    q: "put_data (length d) 32 p1 = Some q" "holds_before h d 32 ds q" "pt_channel q = pt_channel p1" by blast
  have "print_data p1 = Some (bytes_str (d @ 0 # ds))" using holds_before_print [OF p1(2)] by simp
  with len ep ep1 p1 q show "\<exists>q. ListenHandler_OnReceived p = Some q \<and> holds_before h d 32 ds q \<and> pt_channel q = pt_channel p"
    and "\<exists>q. StreamHandler_OnReceived p = Some q \<and> holds_before h d 32 ds q \<and> pt_channel q = pt_channel p"
    by (simp_all add: ListenHandler_OnReceived_def StreamHandler_OnReceived_def)
qed

lemma OnSent_ok:
  assumes "holds_before h d x ds p" and "0 \<in> set ds"
  shows "ListenHandler_OnSent p \<noteq> None" and "StreamHandler_OnSent p \<noteq> None"
proof -
  obtain len where len: "pt_data_length p = Some len" "unat len = length d"
    by (rule holds_before_length [OF assms(1)])
  from holds_before_put [OF assms(1), of 10] obtain p1 where
    p1: "put_data (length d) 10 p = Some p1" "holds_before h d 10 ds p1" by blast
  show "ListenHandler_OnSent p \<noteq> None" and "StreamHandler_OnSent p \<noteq> None"
    using len p1 holds_before_print [OF assms(1)] holds_before_print [OF p1(2)] assms(2)
    by (simp_all add: ListenHandler_OnSent_def StreamHandler_OnSent_def StreamHandler_OnReceived_from_def)
qed

lemma output_turn_ok:
  assumes "tq_data q = [p]" and "packet_holds h d p" and "OnSent p \<noteq> None"
  shows "\<exists>sch. output_turn OnSent sched q = Some (0, wire0 (pt_channel p, h, d), sch, q\<lparr>tq_data := []\<rparr>)"
proof -
  from stream0_HandleOutput_wire [OF assms(2), of sched] obtain sch where
    "stream0_HandleOutput sched (Some p) = Some (0, wire0 (pt_channel p, h, d), sch)" by blast
  with assms(1,3) show ?thesis by (auto simp: output_turn_def Pop_timeout_full [OF assms(1)])
qed

lemma stream0_packet_before:
  assumes "ok0 (c, h, d)" and "\<And>n. length (fresh n) = n"
  shows "\<exists>x. holds_before h d x (drop (length d + 1) (fresh (length d + 5))) (stream0_packet fresh max_id ep h d)"
proof -
  let ?m = "fresh (length d + 5)"
  have "drop (length d) ?m = ?m ! length d # drop (length d + 1) ?m"
    using assms(2) by (simp add: Cons_nth_drop_Suc)
  with stream0_packet_holds [OF assms(1), of fresh max_id ep] show ?thesis
    by (auto simp: holds_before_def) (simp add: stream0_packet_def Packet_set_packet_def)
qed

text \<open>A frame that arrives in pieces, with a pause behind it.\<close>

definition in_pieces :: "byte list \<Rightarrow> byte list list \<Rightarrow> bool" where
  "in_pieces out ps \<longleftrightarrow> (\<exists>x1 xs later. ps = x1 # xs @ [] # later \<and> [] \<notin> set (x1 # xs) \<and>
     concat (x1 # xs) = out \<and> 4 \<le> length x1)"

lemma HandleInput_in_pieces:
  assumes "in_pieces (wire0 (c, h, d)) ps" and "stream0_ok s" and "\<And>n. length (fresh n) = n" and "ok0 (c, h, d)"
  shows "\<exists>s' later. stream0_HandleInput fresh max_id ep ps s =
      Some (0, Some (stream0_packet fresh max_id ep h d), later, s') \<and>
    stream0_ok s' \<and> s0_replied s' = (s0_replied s \<or> s0_need_ack s)"
proof -
  from assms(1) obtain x1 xs later where ps: "ps = x1 # xs @ [] # later" "\<forall>x \<in> set (x1 # xs). x \<noteq> []"
    "concat (x1 # xs) = wire0 (c, h, d)" "4 \<le> length x1"
    unfolding in_pieces_def by metis
  from stream0_HandleInput_packet [OF assms(2-4) ps(2-4), of max_id ep later] show ?thesis
    unfolding ps(1) by blast
qed

lemma echo_turn_ok:
  assumes "in_pieces (wire0 (c, h, d)) ps" and "stream0_ok s" and "\<And>n. length (fresh n) = n" and "ok0 (c, h, d)"
    and "tq_data q = []" and "0 < unat (tq_limit q)"
  shows "\<exists>later s' p. echo_turn fresh max_id ep ps s q = Some (0, later, s', q\<lparr>tq_data := [p]\<rparr>) \<and> stream0_ok s' \<and>
    holds_before h d 32 (drop (length d + 1) (fresh (length d + 5))) p \<and> pt_channel p = max_id"
proof -
  from HandleInput_in_pieces [OF assms(1-4), of max_id ep] obtain s' later where
    s': "stream0_HandleInput fresh max_id ep ps s = Some (0, Some (stream0_packet fresh max_id ep h d), later, s')"
      "stream0_ok s'" by blast
  from stream0_packet_before [OF assms(4,3), of max_id ep] obtain x where
    "holds_before h d x (drop (length d + 1) (fresh (length d + 5))) (stream0_packet fresh max_id ep h d)" by blast
  from OnReceived_ok(1) [OF this] obtain p where
    p: "ListenHandler_OnReceived (stream0_packet fresh max_id ep h d) = Some p"
      "holds_before h d 32 (drop (length d + 1) (fresh (length d + 5))) p"
      "pt_channel p = pt_channel (stream0_packet fresh max_id ep h d)" by blast
  have "try_push p q = (True, q\<lparr>tq_data := [p]\<rparr>)" using assms(5,6) by (simp add: try_push_def)
  with s'(1) p(1) have "echo_turn fresh max_id ep ps s q = Some (0, later, s', q\<lparr>tq_data := [p]\<rparr>)"
    by (simp add: echo_turn_def)
  with s'(2) p(2,3) stream0_packet_holds [OF assms(4), of fresh max_id ep] show ?thesis by auto
qed

lemma client_turn_ok:
  assumes "in_pieces (wire0 (c, h, d)) ps" and "stream0_ok s" and "\<And>n. length (fresh n) = n" and "ok0 (c, h, d)"
  shows "\<exists>later s' p. client_turn fresh max_id ep ps s = Some (0, Some p, later, s') \<and> stream0_ok s' \<and>
    s0_replied s' = (s0_replied s \<or> s0_need_ack s) \<and>
    holds_before h d 32 (drop (length d + 1) (fresh (length d + 5))) p"
proof -
  from HandleInput_in_pieces [OF assms, of max_id ep] obtain s' later where
    s': "stream0_HandleInput fresh max_id ep ps s = Some (0, Some (stream0_packet fresh max_id ep h d), later, s')"
      "stream0_ok s'" "s0_replied s' = (s0_replied s \<or> s0_need_ack s)" by blast
  from stream0_packet_before [OF assms(4,3), of max_id ep] obtain x where
    "holds_before h d x (drop (length d + 1) (fresh (length d + 5))) (stream0_packet fresh max_id ep h d)" by blast
  from OnReceived_ok(2) [OF this] obtain p where
    p: "StreamHandler_OnReceived (stream0_packet fresh max_id ep h d) = Some p"
      "holds_before h d 32 (drop (length d + 1) (fresh (length d + 5))) p" by blast
  from s'(1) p(1) have "client_turn fresh max_id ep ps s = Some (0, Some p, later, s')" by (simp add: client_turn_def)
  with s' p(2) show ?thesis by blast
qed

end
