(* ===== verification/NetEchoProperties.thy ===== *)
theory NetEchoProperties
  imports NetEcho RemoteFacts
begin

text \<open>
  The programs of the network library against each other.
\<close>


text \<open>The packet of \<open>client.cpp\<close>, in memory that is zero.\<close>

lemma syncclient_packet_zero:
  fixes ep :: 'e
  shows "\<exists>p. syncclient_packet (\<lambda>n. replicate n 0) 7 ep = Some p \<and>
    holds_before [] (str_bytes ''hello world'') 0 (replicate 88 0) p \<and> pt_channel p = 7"
proof -
  let ?d = "str_bytes ''hello world'' :: byte list"
  have len: "length ?d = 11" by (simp add: str_bytes_def)
  have "c_snprintf (replicate 100 0) 0 100 ?d = Some (?d @ 0 # replicate 88 0, 11)"
    using len by (simp add: c_snprintf_def store_def)
  then show ?thesis
    using len by (auto simp: syncclient_packet_def holds_before_def packet_holds_def Packet_set_packet_def Packet_new_def)
qed


end
