(* ===== verification/Singleton.thy ===== *)
theory Singleton
  imports Prelude
begin

text \<open>
  \<open>single_fs/depends/net/singleton.h\<close>: \<open>Instance\<close> tests the pointer, takes the mutex of
  \<open>cthread_mutex.cpp\<close> and tests again.  Any number of threads run it, and each step is one access to the
  pointer or to the mutex; the accesses happen in one order (the code has no barriers that ask for it).
\<close>

datatype instance_place =
  AtTest | AtMutex | AtSecondTest | AtUnlock | AtResult | Returned "nat option"

text \<open>\<open>sg_made\<close> counts the objects made so far, which are numbered; \<open>sg_mutex\<close> is the thread that holds it.\<close>

record singleton =
  sg_instance :: "nat option"
  sg_mutex :: "nat option"
  sg_made :: nat
  sg_place :: "nat \<Rightarrow> instance_place"

definition Singleton_start :: singleton where
  "Singleton_start = \<lparr>sg_instance = None, sg_mutex = None, sg_made = 0, sg_place = (\<lambda>_. AtTest)\<rparr>"

definition goes :: "nat \<Rightarrow> instance_place \<Rightarrow> singleton \<Rightarrow> singleton" where
  "goes t p s = s\<lparr>sg_place := (sg_place s)(t := p)\<rparr>"

definition CthreadMutex_Lock :: "nat \<Rightarrow> singleton \<Rightarrow> singleton option" where
  "CthreadMutex_Lock t s = (if sg_mutex s = None then Some (s\<lparr>sg_mutex := Some t\<rparr>) else None)"

definition CthreadMutex_Unlock :: "singleton \<Rightarrow> singleton" where
  "CthreadMutex_Unlock s = s\<lparr>sg_mutex := None\<rparr>"

definition Singleton_Instance :: "nat \<Rightarrow> singleton \<Rightarrow> singleton option" where
  "Singleton_Instance t s =
     (case sg_place s t of
        AtTest \<Rightarrow> Some (goes t (if sg_instance s = None then AtMutex else AtResult) s)
      | AtMutex \<Rightarrow> map_option (goes t AtSecondTest) (CthreadMutex_Lock t s)
      | AtSecondTest \<Rightarrow> Some (goes t AtUnlock
          (if sg_instance s = None then s\<lparr>sg_instance := Some (sg_made s), sg_made := sg_made s + 1\<rparr> else s))
      | AtUnlock \<Rightarrow> Some (goes t AtResult (CthreadMutex_Unlock s))
      | AtResult \<Rightarrow> Some (goes t (Returned (sg_instance s)) s)
      | Returned _ \<Rightarrow> None)"

text \<open>A thread in the critical section holds the mutex, and no object is made twice.\<close>

definition inside :: "instance_place \<Rightarrow> bool" where
  "inside p \<longleftrightarrow> p = AtSecondTest \<or> p = AtUnlock"

definition singleton_ok :: "singleton \<Rightarrow> bool" where
  "singleton_ok s \<longleftrightarrow>
     (\<forall>t. sg_mutex s = Some t \<longleftrightarrow> inside (sg_place s t)) \<and>
     (sg_instance s = None \<and> sg_made s = 0 \<or> sg_instance s = Some 0 \<and> sg_made s = 1) \<and>
     (\<forall>t. sg_place s t \<in> {AtUnlock, AtResult} \<longrightarrow> sg_instance s = Some 0) \<and>
     (\<forall>t r. sg_place s t = Returned r \<longrightarrow> r = Some 0 \<and> sg_instance s = Some 0)"

lemma goes_simps [simp]:
  "sg_instance (goes t p s) = sg_instance s" "sg_mutex (goes t p s) = sg_mutex s" "sg_made (goes t p s) = sg_made s"
  "sg_place (goes t p s) = (sg_place s)(t := p)"
  by (simp_all add: goes_def)

lemma singleton_ok_start: "singleton_ok Singleton_start"
  by (simp add: singleton_ok_def Singleton_start_def inside_def)

lemma singleton_ok_step:
  assumes "singleton_ok s" and "Singleton_Instance t s = Some s'"
  shows "singleton_ok s'"
proof (cases "sg_place s t")
  case AtTest
  with assms show ?thesis
    by (auto simp: Singleton_Instance_def singleton_ok_def inside_def split: if_splits)
next
  case AtMutex
  with assms have free: "sg_mutex s = None" "s' = goes t AtSecondTest (s\<lparr>sg_mutex := Some t\<rparr>)"
    by (auto simp: Singleton_Instance_def CthreadMutex_Lock_def split: if_splits)
  then have "\<not> inside (sg_place s u)" for u using assms(1) by (metis option.distinct(1) singleton_ok_def)
  with assms(1) show ?thesis by (auto simp: free singleton_ok_def inside_def split: if_splits)
next
  case AtSecondTest
  with assms(1) have "sg_mutex s = Some t" by (simp add: singleton_ok_def inside_def)
  with assms AtSecondTest show ?thesis
    by (auto simp: Singleton_Instance_def singleton_ok_def inside_def split: if_splits)
next
  case AtUnlock
  with assms(1) have "sg_mutex s = Some t" by (simp add: singleton_ok_def inside_def)
  with assms AtUnlock show ?thesis
    by (auto simp: Singleton_Instance_def CthreadMutex_Unlock_def singleton_ok_def inside_def split: if_splits)
next
  case AtResult
  with assms show ?thesis by (auto simp: Singleton_Instance_def singleton_ok_def inside_def split: if_splits)
qed (use assms in \<open>simp add: Singleton_Instance_def\<close>)

text \<open>Each step of a thread brings it nearer to its end.\<close>

fun steps_left :: "instance_place \<Rightarrow> nat" where
  "steps_left AtTest = 5"
| "steps_left AtMutex = 4"
| "steps_left AtSecondTest = 3"
| "steps_left AtUnlock = 2"
| "steps_left AtResult = 1"
| "steps_left (Returned r) = 0"

lemma step_counts:
  assumes "Singleton_Instance t s = Some s'"
  shows "steps_left (sg_place s' t) < steps_left (sg_place s t)" and "u \<noteq> t \<Longrightarrow> sg_place s' u = sg_place s u"
  using assms
  by (auto simp: Singleton_Instance_def CthreadMutex_Lock_def CthreadMutex_Unlock_def
      split: instance_place.splits if_splits)

lemma run_counts:
  "foldM Singleton_Instance ts s = Some s' \<Longrightarrow>
    count_list ts t + steps_left (sg_place s' t) \<le> steps_left (sg_place s t)"
proof (induction ts arbitrary: s)
  case (Cons u ts)
  then obtain r where r: "Singleton_Instance u s = Some r" "foldM Singleton_Instance ts r = Some s'"
    by (auto simp: bind_eq_Some_conv)
  from Cons.IH [OF r(2)] step_counts [OF r(1)] show ?case by (cases "u = t") fastforce+
qed simp

lemma run_ok: "foldM Singleton_Instance ts s = Some s' \<Longrightarrow> singleton_ok s \<Longrightarrow> singleton_ok s'"
  by (induction ts arbitrary: s) (auto simp: bind_eq_Some_conv intro: singleton_ok_step)

lemma thread_waits:
  assumes "singleton_ok s" and "Singleton_Instance t s = None"
  shows "sg_place s t = Returned (Some 0) \<or>
    sg_place s t = AtMutex \<and> (\<exists>u. sg_mutex s = Some u \<and> u \<noteq> t \<and> Singleton_Instance u s \<noteq> None)"
proof (cases "sg_place s t")
  case AtMutex
  with assms(2) obtain u where u: "sg_mutex s = Some u"
    by (auto simp: Singleton_Instance_def CthreadMutex_Lock_def split: if_splits)
  with assms(1) have "inside (sg_place s u)" unfolding singleton_ok_def by blast
  then have "u \<noteq> t" "Singleton_Instance u s \<noteq> None" using AtMutex by (auto simp: inside_def Singleton_Instance_def)
  with u AtMutex show ?thesis by blast
next
  case (Returned r)
  then show ?thesis using assms(1) by (simp add: singleton_ok_def)
qed (use assms(2) in \<open>simp_all add: Singleton_Instance_def\<close>)

text \<open>
  C29. However the threads that call \<open>Instance\<close> are interleaved, one object at most is made, every call
  that returns returns that object and no null pointer, no call takes more than five steps, and one that
  cannot go on waits for a thread that can.
\<close>

theorem singleton_once:
  assumes "foldM Singleton_Instance ts Singleton_start = Some s"
  shows "sg_made s \<le> 1 \<and> (\<forall>t r. sg_place s t = Returned r \<longrightarrow> r = Some 0 \<and> sg_instance s = Some 0 \<and> sg_made s = 1) \<and>
    count_list ts t \<le> 5 \<and>
    (Singleton_Instance t s = None \<longrightarrow> sg_place s t = Returned (Some 0) \<or>
      (\<exists>u. sg_mutex s = Some u \<and> u \<noteq> t \<and> Singleton_Instance u s \<noteq> None))"
proof -
  have ok: "singleton_ok s" using run_ok [OF assms singleton_ok_start] .
  have "steps_left (sg_place Singleton_start t) = 5" by (simp add: Singleton_start_def)
  with run_counts [OF assms, of t] thread_waits [OF ok, of t] ok show ?thesis
    by (auto simp: singleton_ok_def)
qed

lemma singleton_once_witness:
  "\<exists>s. foldM Singleton_Instance [1, 2, 1, 1, 1, 2, 2, 2, 2, 1] Singleton_start = Some s \<and>
    sg_made s \<le> 1 \<and> sg_place s 1 = Returned (Some 0) \<and> sg_place s 2 = Returned (Some 0)"
proof -
  let ?run = "foldM Singleton_Instance [1, 2, 1, 1, 1, 2, 2, 2, 2, 1] Singleton_start"
  obtain s where s: "?run = Some s" "\<exists>r. sg_place s 1 = Returned r" "\<exists>r. sg_place s 2 = Returned r"
    by (simp add: Singleton_Instance_def Singleton_start_def CthreadMutex_Lock_def CthreadMutex_Unlock_def goes_def)
  from singleton_once [OF s(1), of 1] s show ?thesis by blast
qed

end
