(* ===== verification/Processor.thy ===== *)
theory Processor
  imports TaskQueue "HOL-Library.Multiset"
begin

text \<open>
  The threads of the server of \<open>simple_rsync\<close> (\<open>server_processor.cpp\<close>).  Other than the workers of the
  http server they ask the queue with a time limit, and look at the flag again after each answer.
\<close>

section \<open>The processor\<close>

text \<open>
  Where a thread is: not started, at the test of the flag, in \<open>Pop(100)\<close> with so many tries left after the
  next one - a try every 10 ms -, at work on a task, or at its end.
\<close>

datatype 'a thread_place = NotStarted | AtFlag | Trying nat | Working 'a | Finished

record 'a processor =
  sp_running :: bool
  sp_threads :: "'a thread_place list"
  sp_queue :: "'a task_queue"
  sp_done :: "'a list"
  sp_join :: "nat option"

definition ServerProcessor_new :: "'a processor" where
  "ServerProcessor_new = \<lparr>sp_running = False, sp_threads = [], sp_queue = TaskQueue_default, sp_done = [], sp_join = None\<rparr>"

definition ServerProcessor_Init :: "int \<Rightarrow> 'a task_queue \<Rightarrow> 'a processor \<Rightarrow> 'a processor" where
  "ServerProcessor_Init thread_num task_queue s =
     s\<lparr>sp_queue := task_queue, sp_threads := sp_threads s @ replicate (nat thread_num) NotStarted\<rparr>"

definition ServerProcessor_Start :: "'a processor \<Rightarrow> 'a processor" where
  "ServerProcessor_Start s =
     (if sp_running s then s
      else s\<lparr>sp_running := True, sp_threads := map (\<lambda>_. AtFlag) (sp_threads s)\<rparr>)"

definition moves :: "nat \<Rightarrow> 'a thread_place \<Rightarrow> 'a processor \<Rightarrow> 'a processor" where
  "moves t p s = s\<lparr>sp_threads := (sp_threads s)[t := p]\<rparr>"

definition ServerProcessor_Run :: "nat \<Rightarrow> 'a processor \<Rightarrow> 'a processor option" where
  "ServerProcessor_Run t s =
     (if t < length (sp_threads s) then
        (case sp_threads s ! t of
           AtFlag \<Rightarrow> Some (moves t (if sp_running s then Trying 9 else Finished) s)
         | Trying k \<Rightarrow>
             (case try_pop (sp_queue s) of
                (Some task, q) \<Rightarrow> Some (moves t (Working task) (s\<lparr>sp_queue := q\<rparr>))
              | (None, q) \<Rightarrow> Some (moves t (case k of 0 \<Rightarrow> AtFlag | Suc k \<Rightarrow> Trying k) (s\<lparr>sp_queue := q\<rparr>)))
         | Working task \<Rightarrow> Some (moves t AtFlag (s\<lparr>sp_done := sp_done s @ [task]\<rparr>))
         | _ \<Rightarrow> None)
      else None)"

text \<open>\<open>Stop\<close>: the flag, then a loop that joins one thread after the other; \<open>sp_join\<close> is its index.\<close>

definition ServerProcessor_Stop :: "'a processor \<Rightarrow> 'a processor" where
  "ServerProcessor_Stop s = s\<lparr>sp_running := False, sp_join := Some 0\<rparr>"

definition ServerProcessor_join :: "'a processor \<Rightarrow> 'a processor option" where
  "ServerProcessor_join s =
     (case sp_join s of
        Some i \<Rightarrow>
          (if i < length (sp_threads s) \<and> sp_threads s ! i = Finished then Some (s\<lparr>sp_join := Some (i + 1)\<rparr>) else None)
      | None \<Rightarrow> None)"

text \<open>The event loop goes on pushing what it receives.\<close>

datatype 'a processor_action = Turn nat | Join | Push 'a

fun processor_exec :: "'a processor_action \<Rightarrow> 'a processor \<Rightarrow> 'a processor option" where
  "processor_exec (Turn t) s = ServerProcessor_Run t s"
| "processor_exec Join s = ServerProcessor_join s"
| "processor_exec (Push x) s =
     (let (pushed, q) = try_push x (sp_queue s) in if pushed then Some (s\<lparr>sp_queue := q\<rparr>) else None)"

section \<open>Stopping\<close>

fun place_effort :: "'a thread_place \<Rightarrow> nat" where
  "place_effort AtFlag = 1"
| "place_effort (Working task) = 2"
| "place_effort (Trying k) = k + 3"
| "place_effort Finished = 0"
| "place_effort NotStarted = 0"

fun work_of :: "'a thread_place \<Rightarrow> 'a multiset" where
  "work_of (Working task) = {#task#}"
| "work_of _ = {#}"

fun pushed_tasks :: "'a processor_action \<Rightarrow> 'a list" where
  "pushed_tasks (Push x) = [x]"
| "pushed_tasks _ = []"

definition effort_left :: "'a processor \<Rightarrow> nat" where
  "effort_left s = sum_list (map place_effort (sp_threads s)) +
     (case sp_join s of None \<Rightarrow> 0 | Some i \<Rightarrow> length (sp_threads s) - i)"

text \<open>All tasks there are: done, at work, or in the queue.\<close>

definition all_tasks :: "'a processor \<Rightarrow> 'a multiset" where
  "all_tasks s = mset (sp_done s) + sum_list (map work_of (sp_threads s)) + mset (tq_data (sp_queue s))"

lemma sum_list_update_add:
  fixes f :: "'b \<Rightarrow> 'c :: comm_monoid_add"
  assumes "i < length xs"
  shows "sum_list (map f (xs[i := x])) + f (xs ! i) = sum_list (map f xs) + f x"
proof -
  have xs: "xs = take i xs @ xs ! i # drop (Suc i) xs" using assms by (rule id_take_nth_drop)
  have "sum_list (map f (xs[i := x])) = sum_list (map f (take i xs)) + (f x + sum_list (map f (drop (Suc i) xs)))"
    using assms by (simp add: upd_conv_take_nth_drop)
  moreover have "sum_list (map f xs) = sum_list (map f (take i xs)) + (f (xs ! i) + sum_list (map f (drop (Suc i) xs)))"
    by (subst xs) simp
  ultimately show ?thesis by (simp add: add_ac)
qed

lemma moves_sums:
  assumes "t < length (sp_threads s)"
  shows "effort_left (moves t p s) + place_effort (sp_threads s ! t) = effort_left s + place_effort p"
    and "all_tasks (moves t p s) + work_of (sp_threads s ! t) = all_tasks s + work_of p"
  using sum_list_update_add [OF assms, of place_effort p] sum_list_update_add [OF assms, of work_of p]
  by (simp_all add: moves_def effort_left_def all_tasks_def add_ac split: option.splits)

lemma moves_simps [simp]:
  "sp_running (moves t p s) = sp_running s" "sp_join (moves t p s) = sp_join s" "sp_queue (moves t p s) = sp_queue s"
  "sp_threads (moves t p s) = (sp_threads s)[t := p]"
  by (simp_all add: moves_def)

text \<open>While \<open>Stop\<close> runs: the joined threads are at their end, and all were started.\<close>

definition halting :: "'a processor \<Rightarrow> bool" where
  "halting s \<longleftrightarrow> \<not> sp_running s \<and> NotStarted \<notin> set (sp_threads s) \<and>
     (\<exists>i \<le> length (sp_threads s). sp_join s = Some i \<and> (\<forall>j < i. sp_threads s ! j = Finished))"

lemma halting_moves:
  assumes "halting s" and "sp_threads s ! t \<noteq> Finished" and "p \<noteq> NotStarted"
  shows "halting (moves t p s)"
proof -
  from assms(1) obtain i where i: "\<not> sp_running s" "NotStarted \<notin> set (sp_threads s)" "i \<le> length (sp_threads s)"
    "sp_join s = Some i" "\<forall>j < i. sp_threads s ! j = Finished" by (auto simp: halting_def)
  from i(5) assms(2) have "\<not> t < i" by auto
  with i assms(3) show ?thesis
    by (auto simp: halting_def nth_list_update dest!: subsetD [OF set_update_subset_insert])
qed

lemma updates_simps [simp]:
  "halting (s\<lparr>sp_queue := q\<rparr>) = halting s" "halting (s\<lparr>sp_done := ds\<rparr>) = halting s"
  "effort_left (s\<lparr>sp_queue := q\<rparr>) = effort_left s" "effort_left (s\<lparr>sp_done := ds\<rparr>) = effort_left s"
  by (simp_all add: halting_def effort_left_def split: option.splits)

lemma Run_counts:
  fixes s :: "'a processor"
  assumes "halting s" and "ServerProcessor_Run t s = Some s'"
  shows "halting s' \<and> effort_left s' < effort_left s \<and> all_tasks s' = all_tasks s \<and>
    length (sp_threads s') = length (sp_threads s)"
proof -
  from assms(2) have t: "t < length (sp_threads s)" by (auto simp: ServerProcessor_Run_def split: if_splits)
  have run: "\<not> sp_running s" using assms(1) by (simp add: halting_def)
  show ?thesis
  proof (cases "sp_threads s ! t")
    case AtFlag
    with assms t run moves_sums [OF t, of Finished] show ?thesis
      by (auto simp: ServerProcessor_Run_def intro: halting_moves)
  next
    case (Working task)
    let ?s = "s\<lparr>sp_done := sp_done s @ [task]\<rparr>"
    have s': "s' = moves t AtFlag ?s" using assms(2) t Working by (simp add: ServerProcessor_Run_def)
    have "all_tasks ?s = add_mset task (all_tasks s)" by (simp add: all_tasks_def)
    moreover have "halting ?s" "effort_left ?s = effort_left s" using assms(1) by simp_all
    ultimately show ?thesis
      using t Working moves_sums [of t ?s AtFlag] halting_moves [of ?s t AtFlag] by (simp add: s')
  next
    case (Trying k)
    show ?thesis
    proof (cases rule: try_pop_cases [of "sp_queue s"])
      case (1 x xs)
      let ?s = "s\<lparr>sp_queue := sp_queue s\<lparr>tq_data := xs\<rparr>\<rparr>"
      have s': "s' = moves t (Working x) ?s" using assms(2) t Trying 1(2) by (simp add: ServerProcessor_Run_def)
      have "add_mset x (all_tasks ?s) = all_tasks s" using 1(1) by (simp add: all_tasks_def)
      moreover have "halting ?s" "effort_left ?s = effort_left s" using assms(1) by simp_all
      ultimately show ?thesis
        using t Trying moves_sums [of t ?s "Working x"] halting_moves [of ?s t "Working x"] by (simp add: s')
    next
      case 2
      let ?p = "(case k of 0 \<Rightarrow> AtFlag | Suc k \<Rightarrow> Trying k) :: 'a thread_place"
      have s': "s' = moves t ?p s" using assms(2) t Trying 2(2) by (simp add: ServerProcessor_Run_def)
      have "place_effort ?p < place_effort (sp_threads s ! t)" "work_of ?p = {#}" "?p \<noteq> NotStarted"
        using Trying by (cases k; simp)+
      then show ?thesis
        using assms(1) t Trying moves_sums [of t s ?p] halting_moves [of s t ?p] by (simp add: s')
    qed
  qed (use assms(2) t in \<open>simp_all add: ServerProcessor_Run_def\<close>)
qed

lemma join_counts:
  assumes "halting s" and "ServerProcessor_join s = Some s'"
  shows "halting s' \<and> effort_left s' < effort_left s \<and> all_tasks s' = all_tasks s \<and> sp_threads s' = sp_threads s"
proof -
  from assms(2) obtain i where i: "sp_join s = Some i" "i < length (sp_threads s)" "sp_threads s ! i = Finished"
    "s' = s\<lparr>sp_join := Some (i + 1)\<rparr>"
    by (auto simp: ServerProcessor_join_def split: option.splits if_splits)
  with assms(1) show ?thesis
    by (auto simp: halting_def effort_left_def all_tasks_def less_Suc_eq)
qed

text \<open>A run after \<open>Stop\<close>: its length without the pushes, and its tasks.\<close>

lemma halting_run:
  assumes "foldM processor_exec as s = Some s'" and "halting s"
  shows "halting s' \<and> length (filter (\<lambda>a. pushed_tasks a = []) as) + effort_left s' \<le> effort_left s \<and>
    all_tasks s' = all_tasks s + mset (concat (map pushed_tasks as)) \<and> length (sp_threads s') = length (sp_threads s)"
  using assms
proof (induction "as" arbitrary: s)
  case (Cons a "as")
  then obtain r where r: "processor_exec a s = Some r" "foldM processor_exec as r = Some s'"
    by (auto simp: bind_eq_Some_conv)
  show ?case
  proof (cases a)
    case (Turn t)
    with r(1) Run_counts [OF Cons.prems(2), of t r] have "halting r" "effort_left r < effort_left s"
      "all_tasks r = all_tasks s" "length (sp_threads r) = length (sp_threads s)" by auto
    with Cons.IH [OF r(2)] Turn show ?thesis by auto
  next
    case Join
    with r(1) join_counts [OF Cons.prems(2), of r] have "halting r" "effort_left r < effort_left s"
      "all_tasks r = all_tasks s" "length (sp_threads r) = length (sp_threads s)" by auto
    with Cons.IH [OF r(2)] Join show ?thesis by auto
  next
    case (Push x)
    with r(1) have p: "r = s\<lparr>sp_queue := (sp_queue s)\<lparr>tq_data := tq_data (sp_queue s) @ [x]\<rparr>\<rparr>"
      by (auto simp: try_push_def split: if_splits)
    then have "halting r" "effort_left r = effort_left s" "all_tasks r = add_mset x (all_tasks s)"
      using Cons.prems(2) by (simp_all add: all_tasks_def)
    with Cons.IH [OF r(2)] Push p show ?thesis by auto
  qed
qed simp

lemma halting_stuck:
  assumes "halting s" and "ServerProcessor_join s = None" and "\<And>t. ServerProcessor_Run t s = None"
  shows "sp_join s = Some (length (sp_threads s)) \<and> set (sp_threads s) \<subseteq> {Finished}"
proof -
  have "p = Finished" if "p \<in> set (sp_threads s)" for p
  proof -
    from that obtain t where t: "t < length (sp_threads s)" "p = sp_threads s ! t" by (auto simp: in_set_conv_nth)
    have "p = Finished \<or> p = NotStarted"
      using assms(3) [of t] t(1) unfolding t(2)
      by (cases rule: try_pop_cases [of "sp_queue s"]; cases "sp_threads s ! t") (simp_all add: ServerProcessor_Run_def)
    with that assms(1) show ?thesis by (auto simp: halting_def)
  qed
  moreover from this assms(1,2) have "sp_join s = Some (length (sp_threads s))"
    by (auto simp: halting_def ServerProcessor_join_def le_less split: if_splits)
  ultimately show ?thesis by blast
qed

text \<open>Running states: every thread was started.\<close>

definition processor_up :: "'a processor \<Rightarrow> bool" where
  "processor_up s \<longleftrightarrow> NotStarted \<notin> set (sp_threads s) \<and> sp_join s = None \<and>
     (\<forall>k. Trying k \<in> set (sp_threads s) \<longrightarrow> k < 10)"

lemma processor_up_Start:
  "sp_join s = None \<Longrightarrow> \<not> sp_running s \<Longrightarrow> processor_up (ServerProcessor_Start s)"
  by (auto simp: processor_up_def ServerProcessor_Start_def)

lemma processor_up_moves:
  assumes "processor_up s" and "p \<noteq> NotStarted" and "\<forall>k. p = Trying k \<longrightarrow> k < 10"
  shows "processor_up (moves t p s)"
  using assms by (auto simp: processor_up_def dest!: subsetD [OF set_update_subset_insert])

lemma processor_up_Run:
  assumes "processor_up s" and "ServerProcessor_Run t s = Some s'"
  shows "processor_up s'"
proof -
  from assms(2) have t: "t < length (sp_threads s)" by (auto simp: ServerProcessor_Run_def split: if_splits)
  then have mem: "sp_threads s ! t \<in> set (sp_threads s)" by simp
  show ?thesis
  proof (cases "sp_threads s ! t")
    case (Trying k)
    with mem assms(1) have "k < 10" by (auto simp: processor_up_def)
    then have "\<forall>j. (case k of 0 \<Rightarrow> AtFlag | Suc k \<Rightarrow> Trying k) = Trying j \<longrightarrow> j < 10" by (auto split: nat.splits)
    moreover have "(case k of 0 \<Rightarrow> AtFlag | Suc k \<Rightarrow> Trying k) \<noteq> NotStarted" by (simp split: nat.splits)
    moreover have "processor_up (s\<lparr>sp_queue := q\<rparr>)" for q using assms(1) by (simp add: processor_up_def)
    ultimately show ?thesis
      using assms(2) t Trying
      by (cases rule: try_pop_cases [of "sp_queue s"])
        (auto simp: ServerProcessor_Run_def simp del: moves_simps intro!: processor_up_moves assms(1))
  next
    case (Working task)
    moreover have "processor_up (s\<lparr>sp_done := ds\<rparr>)" for ds using assms(1) by (simp add: processor_up_def)
    ultimately show ?thesis
      using assms(2) t by (auto simp: ServerProcessor_Run_def intro!: processor_up_moves)
  qed (use assms t in \<open>auto simp: ServerProcessor_Run_def intro!: processor_up_moves split: if_splits\<close>)
qed

lemma halting_Stop: "processor_up s \<Longrightarrow> halting (ServerProcessor_Stop s)"
  by (simp add: processor_up_def halting_def ServerProcessor_Stop_def)

lemma effort_Stop:
  assumes "processor_up s"
  shows "effort_left (ServerProcessor_Stop s) \<le> 13 * length (sp_threads s)"
proof -
  have "sum_list (map place_effort xs) \<le> 12 * length xs" if "\<forall>k. Trying k \<in> set xs \<longrightarrow> k < 10" for xs :: "'a thread_place list"
    using that
  proof (induction xs)
    case (Cons p xs)
    have "place_effort p \<le> 12" using Cons.prems by (cases p) auto
    moreover have "\<forall>k. Trying k \<in> set xs \<longrightarrow> k < 10" using Cons.prems by simp
    ultimately show ?case using Cons.IH by simp
  qed simp
  from this [of "sp_threads s"] assms show ?thesis
    by (simp add: effort_left_def ServerProcessor_Stop_def processor_up_def)
qed

section \<open>The property\<close>


text \<open>Two threads, one waiting for a task that is pushed after \<open>Stop\<close> has begun.\<close>

definition demo_processor :: "int processor option" where
  "demo_processor =
     ServerProcessor_Run 0 (ServerProcessor_Start (ServerProcessor_Init 2 TaskQueue_default ServerProcessor_new))"


end
