(* ===== verification/Workers.thy ===== *)
theory Workers
  imports TaskQueue "HOL-Library.Multiset"
begin

text \<open>
  The threads of \<open>http_server.1.1.0/depend/thread\<close>, with the \<open>Process\<close> of
  \<open>src/http_work_flow.cpp\<close>: each of the threads of a \<open>WorkFlow\<close> takes a task from the queue, serves it
  and starts again until the flow is stopped.

  A \<open>CThread\<close> object is a number.  The place of its thread is kept while the object exists, so that
  \<open>Stop\<close>, which joins and deletes the threads one after the other, is a sequence of steps between
  those of the threads.
\<close>

section \<open>The flow\<close>

text \<open>
  \<open>wf_threads\<close> is the map \<open>thread_\<close>: the object under each of the numbers from 0.  The keys of the map
  are never removed.  \<open>running_\<close> is not initialised.
\<close>

record work_flow =
  wf_thread_num :: int
  wf_threads :: "nat list"
  wf_running :: bool
  wf_next :: nat

definition WorkFlow_new :: "bool \<Rightarrow> work_flow" where
  "WorkFlow_new garbage = \<lparr>wf_thread_num = 0, wf_threads = [], wf_running = garbage, wf_next = 0\<rparr>"

definition WorkFlow_Init :: "int \<Rightarrow> work_flow \<Rightarrow> bool \<times> work_flow" where
  "WorkFlow_Init thread_num w = (True, w\<lparr>wf_thread_num := thread_num\<rparr>)"

definition start_thread :: "nat \<Rightarrow> work_flow \<Rightarrow> work_flow" where
  "start_thread i w = w\<lparr>wf_next := wf_next w + 1,
     wf_threads := (if i < length (wf_threads w) then (wf_threads w)[i := wf_next w]
       else wf_threads w @ [wf_next w])\<rparr>"

definition WorkFlow_Start :: "work_flow \<Rightarrow> work_flow" where
  "WorkFlow_Start w = fold start_thread [0..<nat (wf_thread_num w)] (w\<lparr>wf_running := True\<rparr>)"

text \<open>The first \<open>Start\<close> of a flow fills the map.\<close>

lemma start_threads:
  assumes "wf_threads w = []"
  shows "fold start_thread [0..<n] w = w\<lparr>wf_threads := [wf_next w..<wf_next w + n], wf_next := wf_next w + n\<rparr>"
proof (induction n)
  case 0
  show ?case using assms by simp
next
  case (Suc n)
  have "length [wf_next w..<wf_next w + n] = n" by simp
  then show ?case using Suc.IH by (simp add: start_thread_def)
qed

lemma Start_threads:
  "wf_threads w = [] \<Longrightarrow> wf_next w = 0 \<Longrightarrow> wf_threads (WorkFlow_Start w) = [0..<nat (wf_thread_num w)]"
  by (simp add: WorkFlow_Start_def start_threads)

lemma Start_running: "wf_running (WorkFlow_Start w)"
proof -
  have "wf_running (fold start_thread is w) = wf_running w" for "is" w
    by (induction "is" arbitrary: w) (simp_all add: start_thread_def)
  then show ?thesis by (simp add: WorkFlow_Start_def)
qed

section \<open>The threads\<close>

text \<open>
  Where a thread is: at the test of \<open>running_\<close>, in \<open>Pop\<close>, serving the task it got, or at its end.
\<close>

datatype 'a place = AtLoop | InPop | Serving 'a | Ended

record 'a workers =
  wk_flow :: work_flow
  wk_place :: "nat \<rightharpoonup> 'a place"
  wk_queue :: "'a task_queue"
  wk_served :: "'a list"
  wk_join :: "nat list option"

definition workers_Start :: "'a task_queue \<Rightarrow> work_flow \<Rightarrow> 'a workers" where
  "workers_Start q w = \<lparr>wk_flow = WorkFlow_Start w,
     wk_place = (\<lambda>t. if wf_next w \<le> t \<and> t < wf_next (WorkFlow_Start w) then Some AtLoop else None),
     wk_queue = q, wk_served = [], wk_join = None\<rparr>"

text \<open>
  One step of a thread: the turn of the loop of \<open>Run\<close>, the \<open>Pop\<close> of \<open>Process\<close>, its \<open>Response\<close>.  A
  thread whose \<open>Pop\<close> finds nothing waits.
\<close>

definition WorkFlow_Run :: "nat \<Rightarrow> 'a workers \<Rightarrow> 'a workers option" where
  "WorkFlow_Run t s =
     (case wk_place s t of
        Some AtLoop \<Rightarrow>
          Some (s\<lparr>wk_place := (wk_place s)(t \<mapsto> (if wf_running (wk_flow s) then InPop else Ended))\<rparr>)
      | Some InPop \<Rightarrow>
          (case try_pop (wk_queue s) of
             (None, _) \<Rightarrow> None
           | (Some task, q) \<Rightarrow> Some (s\<lparr>wk_queue := q, wk_place := (wk_place s)(t \<mapsto> Serving task)\<rparr>))
      | Some (Serving task) \<Rightarrow>
          Some (s\<lparr>wk_place := (wk_place s)(t \<mapsto> AtLoop), wk_served := wk_served s @ [task]\<rparr>)
      | _ \<Rightarrow> None)"

text \<open>
  \<open>Stop\<close>: the flag, then the loop that joins and deletes; \<open>Some None\<close> is the use of an object that is
  deleted already.
\<close>

definition WorkFlow_Stop :: "'a workers \<Rightarrow> 'a workers" where
  "WorkFlow_Stop s = s\<lparr>wk_flow := (wk_flow s)\<lparr>wf_running := False\<rparr>, wk_join := Some (wf_threads (wk_flow s))\<rparr>"

definition WorkFlow_join :: "'a workers \<Rightarrow> 'a workers option option" where
  "WorkFlow_join s =
     (case wk_join s of
        Some (t # ts) \<Rightarrow>
          (case wk_place s t of
             None \<Rightarrow> Some None
           | Some Ended \<Rightarrow> Some (Some (s\<lparr>wk_place := (wk_place s)(t := None), wk_join := Some ts\<rparr>))
           | _ \<Rightarrow> None)
      | _ \<Rightarrow> None)"

definition WorkFlow_delete :: "'a workers \<Rightarrow> 'a workers" where
  "WorkFlow_delete s = (if wf_running (wk_flow s) then WorkFlow_Stop s else s)"

text \<open>Steps after \<open>Stop\<close> has begun: a thread moves, or one is joined.\<close>

inductive stop_step :: "'a workers \<Rightarrow> 'a workers \<Rightarrow> bool" where
  runs: "WorkFlow_Run t s = Some s' \<Longrightarrow> stop_step s s'"
| joins: "WorkFlow_join s = Some (Some s') \<Longrightarrow> stop_step s s'"

inductive stop_steps :: "nat \<Rightarrow> 'a workers \<Rightarrow> 'a workers \<Rightarrow> bool" where
  no_step: "stop_steps 0 s s"
| one_more: "stop_steps n s s' \<Longrightarrow> stop_step s' s'' \<Longrightarrow> stop_steps (Suc n) s s''"

inductive_cases stop_stepE: "stop_step s s'"
inductive_cases stop_stepsE: "stop_steps n s s'"
inductive_simps stop_steps_zero: "stop_steps 0 s s'"

section \<open>Stopping\<close>

text \<open>
  While \<open>Stop\<close> runs, with nobody pushing: the threads still to be joined are those that exist.  Sums over
  their places give the steps that are left, the threads in \<open>Pop\<close> and the tasks that are served.
\<close>

definition stopping :: "'a workers \<Rightarrow> nat list \<Rightarrow> bool" where
  "stopping s ts \<longleftrightarrow> \<not> wf_running (wk_flow s) \<and> wk_join s = Some ts \<and> distinct ts \<and> dom (wk_place s) = set ts"

definition sum_over :: "('a place option \<Rightarrow> 'b :: comm_monoid_add) \<Rightarrow> (nat \<rightharpoonup> 'a place) \<Rightarrow> nat list \<Rightarrow> 'b" where
  "sum_over f pl ts = sum_list (map (\<lambda>t. f (pl t)) ts)"

fun effort :: "'a place option \<Rightarrow> nat" where
  "effort (Some AtLoop) = 2"
| "effort (Some InPop) = 4"
| "effort (Some (Serving task)) = 3"
| "effort (Some Ended) = 1"
| "effort None = 0"

fun waits :: "'a place option \<Rightarrow> nat" where
  "waits (Some InPop) = 1"
| "waits _ = 0"

fun served_by :: "'a place option \<Rightarrow> 'a multiset" where
  "served_by (Some (Serving task)) = {#task#}"
| "served_by _ = {#}"

fun_cases waits_posE: "waits p = Suc n"

lemma sum_over_Cons [simp]: "sum_over f pl (t # ts) = f (pl t) + sum_over f pl ts"
  by (simp add: sum_over_def)

lemma sum_over_cong: "(\<And>t. t \<in> set ts \<Longrightarrow> pl t = pl' t) \<Longrightarrow> sum_over f pl ts = sum_over f pl' ts"
  unfolding sum_over_def by (rule arg_cong [where f = sum_list]) simp

lemma sum_over_other [simp]: "t \<notin> set ts \<Longrightarrow> sum_over f (pl(t := p)) ts = sum_over f pl ts"
  by (rule sum_over_cong) auto

lemma sum_over_update:
  assumes "distinct ts" and "t \<in> set ts"
  shows "sum_over f (pl(t := p)) ts + f (pl t) = sum_over f pl ts + f p"
  using assms by (induction ts) (auto simp: add_ac)

lemma sum_over_waits_zero: "sum_over waits pl ts = 0 \<longleftrightarrow> (\<forall>t \<in> set ts. pl t \<noteq> Some InPop)"
proof (induction ts)
  case (Cons t ts)
  have "waits (pl t) = 0 \<longleftrightarrow> pl t \<noteq> Some InPop" by (cases "pl t" rule: waits.cases) simp_all
  with Cons.IH show ?case by auto
qed (simp add: sum_over_def)

text \<open>Every step uses up one of the steps that are left; tasks are taken from the front and none is lost.\<close>

definition stop_progress :: "'a workers \<Rightarrow> nat list \<Rightarrow> nat \<Rightarrow> 'a workers \<Rightarrow> nat list \<Rightarrow> bool" where
  "stop_progress s ts n s' ts' \<longleftrightarrow>
     n + sum_over effort (wk_place s') ts' = sum_over effort (wk_place s) ts \<and>
     (\<exists>k \<le> length (tq_data (wk_queue s)). k + sum_over waits (wk_place s') ts' = sum_over waits (wk_place s) ts \<and>
        tq_data (wk_queue s') = drop k (tq_data (wk_queue s))) \<and>
     mset (wk_served s') + sum_over served_by (wk_place s') ts' + mset (tq_data (wk_queue s')) =
       mset (wk_served s) + sum_over served_by (wk_place s) ts + mset (tq_data (wk_queue s))"

lemma stop_progress_refl: "stop_progress s ts 0 s ts"
  by (auto simp: stop_progress_def intro: exI [of _ 0])

lemma stop_progress_trans:
  assumes "stop_progress s ts n s' ts'" and "stop_progress s' ts' m s'' ts''"
  shows "stop_progress s ts (n + m) s'' ts''"
proof -
  from assms obtain k j where k: "k \<le> length (tq_data (wk_queue s))" "j \<le> length (tq_data (wk_queue s'))"
    "k + sum_over waits (wk_place s') ts' = sum_over waits (wk_place s) ts"
    "j + sum_over waits (wk_place s'') ts'' = sum_over waits (wk_place s') ts'"
    "tq_data (wk_queue s') = drop k (tq_data (wk_queue s))" "tq_data (wk_queue s'') = drop j (tq_data (wk_queue s'))"
    unfolding stop_progress_def by blast
  then have "k + j \<le> length (tq_data (wk_queue s))" "k + j + sum_over waits (wk_place s'') ts'' = sum_over waits (wk_place s) ts"
    "tq_data (wk_queue s'') = drop (k + j) (tq_data (wk_queue s))"
    by (simp_all add: add.commute)
  with assms show ?thesis unfolding stop_progress_def by (metis add.assoc)
qed

lemma Run_progress:
  assumes "stopping s ts" and "WorkFlow_Run t s = Some s'"
  shows "stopping s' ts \<and> stop_progress s ts 1 s' ts"
proof -
  from assms(2) have "t \<in> dom (wk_place s)" by (auto simp: WorkFlow_Run_def split: option.splits)
  with assms(1) have t: "t \<in> set ts" and d: "distinct ts" and r: "\<not> wf_running (wk_flow s)"
    by (auto simp: stopping_def)
  note up = sum_over_update [OF d t, of _ "wk_place s"]
  have stay: "stopping (s\<lparr>wk_place := (wk_place s)(t \<mapsto> p), wk_queue := q, wk_served := xs\<rparr>) ts" for p q xs
    using assms(1) t by (simp add: stopping_def insert_absorb)
  consider "wk_place s t = Some AtLoop" "s' = s\<lparr>wk_place := (wk_place s)(t \<mapsto> Ended)\<rparr>"
    | x where "wk_place s t = Some (Serving x)"
        "s' = s\<lparr>wk_place := (wk_place s)(t \<mapsto> AtLoop), wk_served := wk_served s @ [x]\<rparr>"
    | x xs where "wk_place s t = Some InPop" "tq_data (wk_queue s) = x # xs"
        "s' = s\<lparr>wk_queue := wk_queue s\<lparr>tq_data := xs\<rparr>, wk_place := (wk_place s)(t \<mapsto> Serving x)\<rparr>"
    using assms(2) r
    by (cases rule: try_pop_cases [of "wk_queue s"])
      (auto simp: WorkFlow_Run_def split: option.splits place.splits)
  then show ?thesis
  proof cases
    case 1
    with up [of effort "Some Ended"] up [of waits "Some Ended"] up [of served_by "Some Ended"] stay [where p = Ended and q = "wk_queue s" and xs = "wk_served s"]
    show ?thesis by (auto simp: stop_progress_def intro!: exI [of _ 0])
  next
    case (2 x)
    with up [of effort "Some AtLoop"] up [of waits "Some AtLoop"] up [of served_by "Some AtLoop"] stay [where p = AtLoop and q = "wk_queue s"]
    show ?thesis by (auto simp: stop_progress_def intro!: exI [of _ 0])
  next
    case (3 x xs)
    with up [of effort "Some (Serving x)"] up [of waits "Some (Serving x)"] up [of served_by "Some (Serving x)"]
      stay [where p = "Serving x" and xs = "wk_served s" and q = "wk_queue s\<lparr>tq_data := xs\<rparr>"]
    show ?thesis by (auto simp: stop_progress_def stopping_def intro!: exI [of _ 1])
  qed
qed

lemma join_progress:
  assumes "stopping s ts" and "WorkFlow_join s = Some (Some s')"
  shows "\<exists>ts'. stopping s' ts' \<and> stop_progress s ts 1 s' ts'"
proof (cases ts)
  case (Cons t us)
  from assms(1) Cons have "t \<in> dom (wk_place s)" by (simp add: stopping_def)
  then obtain p where p: "wk_place s t = Some p" by blast
  have "p = Ended" using assms Cons p by (cases p) (simp_all add: WorkFlow_join_def stopping_def)
  with assms Cons p have s: "wk_place s t = Some Ended" "s' = s\<lparr>wk_place := (wk_place s)(t := None), wk_join := Some us\<rparr>"
    "t \<notin> set us" "distinct us" "dom (wk_place s) = insert t (set us)" "\<not> wf_running (wk_flow s)"
    by (simp_all add: WorkFlow_join_def stopping_def)
  then have "stopping s' us" by (simp add: stopping_def)
  moreover have "stop_progress s ts 1 s' us"
    unfolding stop_progress_def Cons using s by (simp add: exI [of _ 0])
  ultimately show ?thesis by blast
qed (use assms in \<open>simp add: WorkFlow_join_def stopping_def\<close>)

lemma stop_step_progress:
  assumes "stop_step s s'" and "stopping s ts"
  shows "\<exists>ts'. stopping s' ts' \<and> stop_progress s ts 1 s' ts'"
  using assms(1)
proof (cases rule: stop_step.cases)
  case (runs t)
  from Run_progress [OF assms(2) this] show ?thesis by (rule exI)
next
  case joins
  from join_progress [OF assms(2) this] show ?thesis .
qed

lemma stop_steps_progress:
  "stop_steps n s s' \<Longrightarrow> stopping s ts \<Longrightarrow> \<exists>ts'. stopping s' ts' \<and> stop_progress s ts n s' ts'"
proof (induction rule: stop_steps.induct)
  case (no_step s)
  then show ?case using stop_progress_refl by (intro exI conjI)
next
  case (one_more n s s' s'')
  from one_more.IH [OF one_more.prems] obtain us where us: "stopping s' us" "stop_progress s ts n s' us" by blast
  from stop_step_progress [OF one_more.hyps(2) us(1)] obtain vs where
    vs: "stopping s'' vs" "stop_progress s' us 1 s'' vs" by blast
  have "stop_progress s ts (Suc n) s'' vs" using stop_progress_trans [OF us(2) vs(2)] by simp
  with vs(1) show ?case by (intro exI conjI)
qed

text \<open>A joined object is there: \<open>Stop\<close> never uses a deleted one in this situation.\<close>

lemma join_defined:
  assumes "stopping s ts"
  shows "WorkFlow_join s \<noteq> Some None"
proof (cases ts)
  case (Cons t us)
  with assms have "t \<in> dom (wk_place s)" by (simp add: stopping_def)
  then obtain p where "wk_place s t = Some p" by blast
  with assms Cons show ?thesis by (cases p) (simp_all add: stopping_def WorkFlow_join_def)
qed (use assms in \<open>simp add: stopping_def WorkFlow_join_def\<close>)

text \<open>Where no step is left, either all threads are joined or the queue is empty and a thread waits.\<close>

lemma stop_stuck:
  assumes "stopping s ts" and "\<nexists>s'. stop_step s s'"
  shows "sum_over served_by (wk_place s) ts = {#} \<and> (sum_over waits (wk_place s) ts = 0 \<longleftrightarrow> ts = []) \<and>
    (ts \<noteq> [] \<longrightarrow> tq_data (wk_queue s) = [])"
proof -
  have run: "WorkFlow_Run t s = None" for t using assms(2) stop_step.runs by (metis option.exhaust)
  have place: "wk_place s t = Some InPop \<or> wk_place s t = Some Ended" if "t \<in> set ts" for t
    using run [of t] that assms(1)
    by (cases "wk_place s t") (auto simp: WorkFlow_Run_def stopping_def split: place.splits)
  have empty: "tq_data (wk_queue s) = []" if "wk_place s t = Some InPop" for t
    using run [of t] that by (cases rule: try_pop_cases [of "wk_queue s"]) (auto simp: WorkFlow_Run_def)
  have first: "wk_place s (hd ts) = Some InPop" if ne: "ts \<noteq> []"
  proof (rule ccontr)
    assume "wk_place s (hd ts) \<noteq> Some InPop"
    with place [of "hd ts"] ne have "wk_place s (hd ts) = Some Ended" by simp
    with assms(1) ne obtain s' where "WorkFlow_join s = Some (Some s')"
      by (cases ts) (auto simp: WorkFlow_join_def stopping_def)
    with assms(2) stop_step.joins show False by blast
  qed
  have "sum_over served_by (wk_place s) us = {#}" if "set us \<subseteq> set ts" for us
    using that by (induction us) (use place in \<open>force simp: sum_over_def\<close>)+
  moreover have "sum_over waits (wk_place s) ts = 0 \<longleftrightarrow> ts = []"
    using first hd_in_set [of ts] by (cases "ts = []") (auto simp: sum_over_waits_zero simp del: hd_in_set)
  ultimately show ?thesis using empty [OF first] by auto
qed

text \<open>The states between \<open>Start\<close> and \<open>Stop\<close>: there is one object for each thread of the flow.\<close>

definition joinable :: "'a workers \<Rightarrow> bool" where
  "joinable s \<longleftrightarrow> distinct (wf_threads (wk_flow s)) \<and> dom (wk_place s) = set (wf_threads (wk_flow s))"

lemma joinable_Start:
  assumes "wf_threads w = []"
  shows "joinable (workers_Start q w)"
proof -
  have "wf_threads (WorkFlow_Start w) = [wf_next w..<wf_next w + nat (wf_thread_num w)] \<and>
      wf_next (WorkFlow_Start w) = wf_next w + nat (wf_thread_num w)"
    using assms by (simp add: WorkFlow_Start_def start_threads)
  then show ?thesis by (auto simp: joinable_def workers_Start_def split: if_splits)
qed

lemma joinable_Run:
  assumes "joinable s" and "WorkFlow_Run t s = Some s'"
  shows "joinable s'"
proof -
  from assms(2) have "t \<in> dom (wk_place s)" "wk_flow s' = wk_flow s" "dom (wk_place s') = insert t (dom (wk_place s))"
    by (auto simp: WorkFlow_Run_def split: option.splits place.splits prod.splits)
  with assms(1) show ?thesis by (auto simp: joinable_def insert_absorb)
qed

lemma joinable_queue: "joinable (s\<lparr>wk_queue := q\<rparr>) = joinable s"
  by (simp add: joinable_def)

lemma stopping_Stop: "joinable s \<Longrightarrow> stopping (WorkFlow_Stop s) (wf_threads (wk_flow s))"
  by (simp add: joinable_def stopping_def WorkFlow_Stop_def)

text \<open>The numbers of the threads in \<open>Pop\<close> and of the steps that are left.\<close>

lemma sum_over_waits_card:
  assumes "distinct ts" and "dom pl = set ts"
  shows "sum_over waits pl ts = card {t. pl t = Some InPop}"
proof -
  have "sum_over waits pl us = card {t \<in> set us. pl t = Some InPop}" if "distinct us" for us
    using that
  proof (induction us)
    case (Cons t us)
    have "{u \<in> set (t # us). pl u = Some InPop} =
        (if pl t = Some InPop then insert t {u \<in> set us. pl u = Some InPop} else {u \<in> set us. pl u = Some InPop})"
      by auto
    moreover have "waits (pl t) = (if pl t = Some InPop then 1 else 0)" by (cases "pl t" rule: waits.cases) simp_all
    ultimately show ?case using Cons by simp
  qed (simp add: sum_over_def)
  moreover have "{t \<in> set ts. pl t = Some InPop} = {t. pl t = Some InPop}" using assms(2) by blast
  ultimately show ?thesis using assms(1) by simp
qed

lemma sum_over_effort_le: "sum_over effort pl ts \<le> 4 * length ts"
proof (induction ts)
  case (Cons t ts)
  have "effort (pl t) \<le> 4" by (cases "pl t" rule: effort.cases) simp_all
  with Cons show ?case by simp
qed (simp add: sum_over_def)

end
