(* ===== verification/HttpLoop.thy ===== *)
theory HttpLoop
  imports HttpFacts Workers
begin

text \<open>
  The event loops of the http servers (\<open>depend/epoll\<close>), their threads (\<open>depend/thread\<close>) and the set-up
  of version 1.1.0 (\<open>src/http_server.cpp\<close>).

  In version 1.0.0 one thread accepts connections, registers them and answers them.  In version 1.1.0 it
  only puts new descriptors into a queue of 100, and workers answer and close them.  A
  \<open>SocketContent\<close> is a number; what the kernel finds comes with an event, as in the network library.
\<close>

section \<open>Sockets and contents\<close>

text \<open>\<open>BuildListen\<close>: what \<open>socket\<close>, \<open>bind\<close>, \<open>listen\<close> and \<open>fcntl\<close> return; \<open>Inl\<close> is \<open>exit\<close>.\<close>

definition Socket_BuildListen :: "int option \<Rightarrow> bool \<Rightarrow> bool \<Rightarrow> bool \<Rightarrow> int + int" where
  "Socket_BuildListen sock bound listening nonblocking =
     (case sock of
        None \<Rightarrow> Inl 1
      | Some fd \<Rightarrow> if \<not> bound then Inl 1 else if \<not> listening then Inl 1 else if \<not> nonblocking then Inl 1 else Inr fd)"

text \<open>A content without a socket has the descriptor -1.\<close>

type_synonym socket_content = "int option"

definition SocketContent_GetFd :: "socket_content \<Rightarrow> int" where
  "SocketContent_GetFd c = (case c of None \<Rightarrow> - 1 | Some fd \<Rightarrow> fd)"

datatype event_code = OtherThing | IoWritable | IoClosed | IoReadable | NewConnect

record http_event =
  he_content :: nat
  he_in :: bool
  he_out :: bool
  he_hup :: bool
  he_accept :: int
  he_recv :: "byte list option"
  he_sched :: "nat option list"

record http_loop =
  hl_contents :: "nat \<rightharpoonup> socket_content"
  hl_next :: nat
  hl_listen :: nat
  hl_epoll :: "int \<rightharpoonup> (nat \<times> bool \<times> bool)"
  hl_open :: "int set"
  hl_fd_num :: int
  hl_fs :: fsys
  hl_queue :: "int task_queue"
  hl_sent :: "(int \<times> byte list) list"

definition MAX_EVENT_NUM :: int where "MAX_EVENT_NUM = 255"
definition MAX_RECV_LENGTH :: nat where "MAX_RECV_LENGTH = 10000"

section \<open>EpollEventPoller\<close>

definition content_fd :: "nat \<Rightarrow> http_loop \<Rightarrow> int option" where
  "content_fd content s = map_option SocketContent_GetFd (hl_contents s content)"

text \<open>\<open>ev.events\<close> is not initialised: \<open>garbage\<close> has the bits that are set beforehand.\<close>

definition Epoll_AddEvent ::
  "bool \<times> bool \<Rightarrow> nat \<Rightarrow> bool \<Rightarrow> bool \<Rightarrow> http_loop \<Rightarrow> (bool \<times> http_loop) option" where
  "Epoll_AddEvent garbage content enable_read enable_write s =
     (if MAX_EVENT_NUM \<le> hl_fd_num s then Some (False, s)
      else do {
        fd \<leftarrow> content_fd content s;
        let ev = (content, fst garbage \<or> enable_read, snd garbage \<or> enable_write);
        let s = (if fd \<in> hl_open s \<and> hl_epoll s fd = None then s\<lparr>hl_epoll := (hl_epoll s)(fd \<mapsto> ev)\<rparr> else s);
        Some (True, s\<lparr>hl_fd_num := hl_fd_num s + 1\<rparr>)
      })"

definition Epoll_SetEvent :: "nat option \<Rightarrow> bool \<Rightarrow> bool \<Rightarrow> http_loop \<Rightarrow> (bool \<times> http_loop) option" where
  "Epoll_SetEvent content enable_read enable_write s =
     (case content of
        None \<Rightarrow> Some (False, s)
      | Some content \<Rightarrow> do {
          fd \<leftarrow> content_fd content s;
          let s = (if hl_epoll s fd = None then s
                   else s\<lparr>hl_epoll := (hl_epoll s)(fd \<mapsto> (content, enable_read, enable_write))\<rparr>);
          Some (True, s)
        })"

text \<open>The descriptor is closed first, which takes it out of the table; the content and its socket are deleted.\<close>

definition Epoll_ClearEvent :: "nat option \<Rightarrow> http_loop \<Rightarrow> (bool \<times> http_loop) option" where
  "Epoll_ClearEvent content s =
     (case content of
        None \<Rightarrow> Some (False, s)
      | Some content \<Rightarrow> do {
          fd \<leftarrow> content_fd content s;
          let s = s\<lparr>hl_open := hl_open s - {fd}, hl_epoll := (hl_epoll s)(fd := None)\<rparr>;
          Some (True, s\<lparr>hl_contents := (hl_contents s)(content := None)\<rparr>)
        })"

definition PollEvent_mask :: "http_event \<Rightarrow> event_code" where
  "PollEvent_mask ev =
     (if he_hup ev then IoClosed
      else if he_in ev then IoReadable
      else if he_out ev then IoWritable
      else OtherThing)"

section \<open>Communicate\<close>

definition Communicate_new :: "bool \<times> bool \<Rightarrow> nat \<Rightarrow> http_loop \<Rightarrow> http_loop option" where
  "Communicate_new garbage listen s = do {
     (_, s) \<leftarrow> Epoll_AddEvent garbage listen True True (s\<lparr>hl_listen := listen\<rparr>);
     Some s
   }"

text \<open>
  The handlers of \<open>HttpSocketHandler\<close>: the first writes a zero behind the request and prints it, the
  second does so again and answers.  A length of -1, \<open>None\<close>, writes before the buffer.
\<close>

definition Handler_buffer :: "(nat \<Rightarrow> byte list) \<Rightarrow> byte list option \<Rightarrow> byte list option" where
  "Handler_buffer fresh received = do {
     dat \<leftarrow> received;
     buff \<leftarrow> store (fresh MAX_RECV_LENGTH) 0 dat;
     buff \<leftarrow> store buff (length dat) [0];
     store buff (length dat) [0]
   }"

text \<open>
  The branches of \<open>EventLoop\<close> for a connection; \<open>deal\<close> is \<open>DealWithRequest\<close>, \<open>Inl\<close> the code it leaves
  the program with.  After \<open>ClearEvent\<close> the log line asks the content for its descriptor.
\<close>

definition EventLoop_readable ::
  "(nat \<Rightarrow> byte list) \<Rightarrow> (fsys \<Rightarrow> string \<Rightarrow> http_conn \<Rightarrow> (int + fsys \<times> http_conn) option) \<Rightarrow> http_event \<Rightarrow>
   http_loop \<Rightarrow> (int + http_loop) option" where
  "EventLoop_readable fresh deal ev s = do {
     fd \<leftarrow> content_fd (he_content ev) s;
     if he_recv ev = Some [] then do {
       (_, s) \<leftarrow> Epoll_ClearEvent (Some (he_content ev)) s;
       _ \<leftarrow> content_fd (he_content ev) s;
       Some (Inr s)
     } else do {
       buff \<leftarrow> Handler_buffer fresh (he_recv ev);
       res \<leftarrow> deal (hl_fs s) (bytes_str buff) \<lparr>hc_sched = he_sched ev, hc_sent = []\<rparr>;
       case res of
         Inl code \<Rightarrow> Some (Inl code)
       | Inr (fs, c) \<Rightarrow> do {
           (_, s) \<leftarrow> Epoll_SetEvent (Some (he_content ev)) False True
             (s\<lparr>hl_fs := fs, hl_sent := hl_sent s @ [(fd, hc_sent c)]\<rparr>);
           Some (Inr s)
         }
     }
   }"

definition EventLoop_connection ::
  "(nat \<Rightarrow> byte list) \<Rightarrow> (fsys \<Rightarrow> string \<Rightarrow> http_conn \<Rightarrow> (int + fsys \<times> http_conn) option) \<Rightarrow> http_event \<Rightarrow>
   http_loop \<Rightarrow> (int + http_loop) option" where
  "EventLoop_connection fresh deal ev s =
     (case PollEvent_mask ev of
        IoReadable \<Rightarrow> EventLoop_readable fresh deal ev s
      | IoWritable \<Rightarrow> do {
          (_, s) \<leftarrow> Epoll_SetEvent (Some (he_content ev)) True False s;
          Some (Inr s)
        }
      | _ \<Rightarrow> Some (Inr s))"

text \<open>
  Version 1.0.0: a new connection gets a content of its own, which is registered.  The result of \<open>accept\<close>
  is not looked at.
\<close>

definition EventLoop_accept_1_0 :: "bool \<times> bool \<Rightarrow> http_event \<Rightarrow> http_loop \<Rightarrow> http_loop option" where
  "EventLoop_accept_1_0 garbage ev s = do {
     let connfd = he_accept ev;
     let content = hl_next s;
     let s = s\<lparr>hl_contents := (hl_contents s)(content \<mapsto> Some connfd), hl_next := content + 1,
       hl_open := (if connfd < 0 then hl_open s else insert connfd (hl_open s))\<rparr>;
     (_, s) \<leftarrow> Epoll_AddEvent garbage content True False s;
     Some s
   }"

definition deal_1_0 ::
  "(nat \<Rightarrow> byte list) \<Rightarrow> response \<Rightarrow> fsys \<Rightarrow> string \<Rightarrow> http_conn \<Rightarrow> (int + fsys \<times> http_conn) option" where
  "deal_1_0 fresh r fs dat c = map_option (map_sum (\<lambda>code. code) (\<lambda>c. (fs, c))) (DealWithRequest_1_0 fresh r fs dat c)"

definition EventLoop_turn_1_0 ::
  "(nat \<Rightarrow> byte list) \<Rightarrow> response \<Rightarrow> bool \<times> bool \<Rightarrow> http_event \<Rightarrow> http_loop \<Rightarrow> (int + http_loop) option" where
  "EventLoop_turn_1_0 fresh r garbage ev s = do {
     fd \<leftarrow> content_fd (he_content ev) s;
     listen_fd \<leftarrow> content_fd (hl_listen s) s;
     if fd = listen_fd then map_option Inr (EventLoop_accept_1_0 garbage ev s)
     else EventLoop_connection fresh (deal_1_0 fresh r) ev s
   }"

text \<open>The events of one poll; \<open>Inl\<close> is the code the program ends with in one of them.\<close>

fun EventLoop_batch_1_0 ::
  "(nat \<Rightarrow> byte list) \<Rightarrow> response \<Rightarrow> bool \<times> bool \<Rightarrow> http_event list \<Rightarrow> http_loop \<Rightarrow> (int + http_loop) option" where
  "EventLoop_batch_1_0 fresh r garbage [] s = Some (Inr s)"
| "EventLoop_batch_1_0 fresh r garbage (ev # evs) s = do {
     res \<leftarrow> EventLoop_turn_1_0 fresh r garbage ev s;
     case res of
       Inl code \<Rightarrow> Some (Inl code)
     | Inr s \<Rightarrow> EventLoop_batch_1_0 fresh r garbage evs s
   }"

text \<open>
  Version 1.1.0: the descriptor goes into the queue.  \<open>Push\<close> waits while the queue is full: \<open>Some None\<close>.
\<close>

definition deal_1_1 ::
  "(string \<Rightarrow> fsys \<Rightarrow> fsys) \<Rightarrow> (nat \<Rightarrow> byte list) \<Rightarrow> nat \<Rightarrow> response \<Rightarrow> fsys \<Rightarrow> string \<Rightarrow> http_conn \<Rightarrow>
   (int + fsys \<times> http_conn) option" where
  "deal_1_1 sys fresh now r fs dat c = map_option Inr (DealWithRequest sys fresh now r fs dat c)"

definition EventLoop_turn ::
  "(string \<Rightarrow> fsys \<Rightarrow> fsys) \<Rightarrow> (nat \<Rightarrow> byte list) \<Rightarrow> nat \<Rightarrow> response \<Rightarrow> http_event \<Rightarrow> http_loop \<Rightarrow>
   (int + http_loop) option option" where
  "EventLoop_turn sys fresh now r ev s = do {
     fd \<leftarrow> content_fd (he_content ev) s;
     listen_fd \<leftarrow> content_fd (hl_listen s) s;
     if fd = listen_fd then
       (let connfd = he_accept ev; (pushed, q) = try_push connfd (hl_queue s)
        in Some (if pushed then Some (Inr (s\<lparr>hl_queue := q,
             hl_open := (if connfd < 0 then hl_open s else insert connfd (hl_open s))\<rparr>)) else None))
     else map_option Some (EventLoop_connection fresh (deal_1_1 sys fresh now r) ev s)
   }"

section \<open>The workers\<close>

text \<open>
  The server of version 1.1.0, seen from its queue: each worker is idle or serves a connection.  The
  lists record the connections in the order they were accepted and taken up, and what was sent on each
  of those that are done.
\<close>

record http_server =
  hv_flow :: work_flow
  hv_queue :: "int task_queue"
  hv_busy :: "(nat \<times> int) list"
  hv_open :: "int set"
  hv_fs :: fsys
  hv_accepted :: "int list"
  hv_started :: "int list"
  hv_done :: "(int \<times> byte list) list"

definition HttpServer_Init :: "fsys \<Rightarrow> int + config \<Rightarrow> int + int \<Rightarrow> bool \<Rightarrow> (int + http_server) option" where
  "HttpServer_Init fs conf listen garbage =
     (case conf of
        Inl code \<Rightarrow> Some (Inl code)
      | Inr conf \<Rightarrow> do {
          _ \<leftarrow> Http_Port conf;
          case listen of
            Inl code \<Rightarrow> Some (Inl code)
          | Inr fd \<Rightarrow> do {
              thread_num \<leftarrow> Http_Thread_num conf;
              let (ret, flow) = WorkFlow_Init thread_num (WorkFlow_new garbage);
              Some (if ret then Inr
                \<lparr>hv_flow = flow, hv_queue = TaskQueue_new 100, hv_busy = [], hv_open = {fd}, hv_fs = fs,
                 hv_accepted = [], hv_started = [], hv_done = []\<rparr>
               else Inl 1)
            }
        })"

definition StartServer :: "http_server \<Rightarrow> http_server" where
  "StartServer s = s\<lparr>hv_flow := WorkFlow_Start (hv_flow s)\<rparr>"

text \<open>
  The steps: the loop accepts a connection and pushes it; a worker that is idle pops one
  (\<open>HttpWorkFlow::Process\<close>); a worker receives, answers and closes.
\<close>

datatype http_action =
  HttpAccept int
| HttpTake nat
| HttpAnswer nat "byte list option" "nat option list" nat

fun http_exec ::
  "(string \<Rightarrow> fsys \<Rightarrow> fsys) \<Rightarrow> (nat \<Rightarrow> byte list) \<Rightarrow> response \<Rightarrow> http_action \<Rightarrow> http_server \<Rightarrow> http_server option" where
  "http_exec sys fresh r (HttpAccept connfd) s =
     (let (pushed, q) = try_push connfd (hv_queue s)
      in if pushed then Some (s\<lparr>hv_queue := q, hv_accepted := hv_accepted s @ [connfd],
           hv_open := (if connfd < 0 then hv_open s else insert connfd (hv_open s))\<rparr>)
         else None)"
| "http_exec sys fresh r (HttpTake w) s =
     (if w \<in> set (wf_threads (hv_flow s)) \<and> map_of (hv_busy s) w = None then
        (case try_pop (hv_queue s) of
           (None, _) \<Rightarrow> None
         | (Some connfd, q) \<Rightarrow> Some (s\<lparr>hv_queue := q, hv_busy := (w, connfd) # hv_busy s,
             hv_started := hv_started s @ [connfd]\<rparr>))
      else None)"
| "http_exec sys fresh r (HttpAnswer w received sched now) s = do {
     connfd \<leftarrow> map_of (hv_busy s) w;
     (fs, c) \<leftarrow> HttpWorkFlow_Response sys fresh now r (hv_fs s) received \<lparr>hc_sched = sched, hc_sent = []\<rparr>;
     Some (s\<lparr>hv_fs := fs, hv_busy := filter (\<lambda>(v, _). v \<noteq> w) (hv_busy s), hv_open := hv_open s - {connfd},
       hv_done := hv_done s @ [(connfd, hc_sent c)]\<rparr>)
   }"

text \<open>The kernel gives a new connection a descriptor that is not open, or -1 for an error.\<close>

definition accept_fresh :: "http_action \<Rightarrow> http_server \<Rightarrow> bool" where
  "accept_fresh a s \<longleftrightarrow> (case a of HttpAccept fd \<Rightarrow> fd = - 1 \<or> 0 \<le> fd \<and> fd \<notin> hv_open s | _ \<Rightarrow> True)"

inductive http_reach ::
  "(string \<Rightarrow> fsys \<Rightarrow> fsys) \<Rightarrow> (nat \<Rightarrow> byte list) \<Rightarrow> response \<Rightarrow> http_server \<Rightarrow> http_server \<Rightarrow> bool"
  for sys fresh r s0 where
  start: "http_reach sys fresh r s0 s0"
| step: "http_reach sys fresh r s0 s' "
  if "http_reach sys fresh r s0 s" and "accept_fresh a s" and "http_exec sys fresh r a s = Some s'"

inductive_cases http_reachE: "http_reach sys fresh r s0 s"

end
