(* ===== verification/HttpLoopProperties.thy ===== *)
theory HttpLoopProperties
  imports HttpLoop HttpProperties "HOL-Library.Multiset"
begin

text \<open>
  The workers of version 1.1.0 serve every connection once; what a connection does to version 1.0.0,
  and how many it can register.
\<close>

section \<open>Version 1.1.0\<close>

text \<open>The invariant of the server behind the listening descriptor \<open>l\<close>: its lists, and its descriptors.\<close>

definition http_lists :: "http_server \<Rightarrow> bool" where
  "http_lists s \<longleftrightarrow> hv_accepted s = hv_started s @ tq_data (hv_queue s) \<and>
     mset (hv_started s) = mset (map snd (hv_busy s)) + mset (map fst (hv_done s)) \<and>
     length (tq_data (hv_queue s)) \<le> 100 \<and> tq_limit (hv_queue s) = 100 \<and> distinct (map fst (hv_busy s)) \<and>
     set (map fst (hv_busy s)) \<subseteq> set (wf_threads (hv_flow s))"

definition http_fds :: "int \<Rightarrow> http_server \<Rightarrow> bool" where
  "http_fds l s \<longleftrightarrow> distinct (l # tq_data (hv_queue s) @ map snd (hv_busy s)) \<and>
     hv_open s = set (l # tq_data (hv_queue s) @ map snd (hv_busy s))"

definition http_inv :: "int \<Rightarrow> http_server \<Rightarrow> bool" where
  "http_inv l s \<longleftrightarrow> http_lists s \<and> (- 1 \<notin> set (hv_accepted s) \<longrightarrow> http_fds l s)"

lemma http_inv_accept:
  assumes "http_inv l s" and "accept_fresh (HttpAccept fd) s" and "http_exec sys fresh r (HttpAccept fd) s = Some s'"
  shows "http_inv l s'"
proof -
  let ?q = "tq_data (hv_queue s)"
  from assms(3) have room: "length ?q < unat (tq_limit (hv_queue s))" and
    s': "s' = s\<lparr>hv_queue := (hv_queue s)\<lparr>tq_data := ?q @ [fd]\<rparr>, hv_accepted := hv_accepted s @ [fd],
      hv_open := (if fd < 0 then hv_open s else insert fd (hv_open s))\<rparr>"
    by (auto simp: try_push_def split: if_splits)
  have "http_lists s'" using assms(1) room unfolding http_inv_def http_lists_def s' by simp
  moreover have "http_fds l s'" if "- 1 \<notin> set (hv_accepted s')"
  proof -
    from that have "fd \<noteq> - 1" "- 1 \<notin> set (hv_accepted s)" by (auto simp: s')
    with assms(1,2) have "http_fds l s" "0 \<le> fd" "fd \<notin> hv_open s" by (auto simp: http_inv_def accept_fresh_def)
    then show ?thesis unfolding http_fds_def s' by auto
  qed
  ultimately show ?thesis by (simp add: http_inv_def)
qed

lemma http_inv_take:
  assumes "http_inv l s" and "http_exec sys fresh r (HttpTake w) s = Some s'"
  shows "http_inv l s'"
proof -
  from assms(2) have w: "w \<in> set (wf_threads (hv_flow s))" "map_of (hv_busy s) w = None"
    by (auto split: if_splits)
  from w assms(2) obtain fd q where q: "try_pop (hv_queue s) = (Some fd, q)"
    by (auto split: prod.splits option.splits)
  then obtain rest where d: "tq_data (hv_queue s) = fd # rest" "q = (hv_queue s)\<lparr>tq_data := rest\<rparr>"
    by (cases "tq_data (hv_queue s)") (auto simp: try_pop_def TaskQueue_Empty_def)
  have s': "s' = s\<lparr>hv_queue := q, hv_busy := (w, fd) # hv_busy s, hv_started := hv_started s @ [fd]\<rparr>"
    using assms(2) w q by simp
  have "http_lists s'"
    using assms(1) w d unfolding http_inv_def http_lists_def s' by (simp add: map_of_eq_None_iff)
  moreover have "http_fds l s'" if "http_fds l s"
    using that d unfolding http_fds_def s' by auto
  ultimately show ?thesis using assms(1) by (simp add: http_inv_def s')
qed

lemma filter_busy:
  assumes "distinct (map fst bs)" and "map_of bs w = Some fd"
  shows "mset (map snd bs) = mset (fd # map snd (filter (\<lambda>(v, _). v \<noteq> w) bs))"
  using assms
proof (induction bs)
  case (Cons b bs)
  obtain v g where b: "b = (v, g)" by (cases b)
  show ?case
  proof (cases "v = w")
    case True
    then have "filter (\<lambda>(v, _). v \<noteq> w) bs = bs"
      using Cons.prems(1) b by (force simp: filter_id_conv)
    then show ?thesis using True b Cons.prems by simp
  next
    case False
    then show ?thesis using Cons b by simp
  qed
qed simp

lemma http_inv_answer:
  assumes "http_inv l s" and "http_exec sys fresh r (HttpAnswer w received sched now) s = Some s'"
  shows "http_inv l s'"
proof -
  from assms(2) obtain fd where fd: "map_of (hv_busy s) w = Some fd" by (cases "map_of (hv_busy s) w") simp_all
  from assms(2) fd obtain fs c where
    resp: "HttpWorkFlow_Response sys fresh now r (hv_fs s) received \<lparr>hc_sched = sched, hc_sent = []\<rparr> = Some (fs, c)"
    by (auto simp: bind_eq_Some_conv)
  have s': "s' = s\<lparr>hv_fs := fs, hv_busy := filter (\<lambda>(v, _). v \<noteq> w) (hv_busy s), hv_open := hv_open s - {fd},
      hv_done := hv_done s @ [(fd, hc_sent c)]\<rparr>"
    using assms(2) fd resp by simp
  let ?bs = "filter (\<lambda>(v, _). v \<noteq> w) (hv_busy s)"
  have lists: "http_lists s" using assms(1) by (simp add: http_inv_def)
  then have dist: "distinct (map fst (hv_busy s))" by (simp add: http_lists_def)
  note m = filter_busy [OF dist fd]
  have "http_lists s'"
    using lists m distinct_map_filter [OF dist, of "\<lambda>(v, _). v \<noteq> w"] unfolding http_lists_def s' by auto
  moreover have "http_fds l s'" if "http_fds l s"
  proof -
    have "mset (l # tq_data (hv_queue s) @ map snd (hv_busy s)) = mset (l # tq_data (hv_queue s) @ fd # map snd ?bs)"
      using m by simp
    from mset_eq_imp_distinct_iff [OF this] mset_eq_setD [OF this] that show ?thesis
      unfolding http_fds_def s' by auto
  qed
  ultimately show ?thesis using assms(1) by (simp add: http_inv_def s')
qed

lemma http_inv_reach:
  assumes "http_reach sys fresh r s0 s" and "http_inv l s0"
  shows "http_inv l s"
  using assms
proof (induction rule: http_reach.induct)
  case (step s a s')
  then show ?case
    by (cases a) (auto intro: http_inv_accept http_inv_take http_inv_answer simp del: http_exec.simps)
qed simp

text \<open>
  C16. After \<open>Init\<close> and \<open>StartServer\<close>, whatever the order in which connections arrive, workers take them and
  finish, and whatever the clients send: connections are taken up in the order they were accepted; each
  is with exactly one worker or was answered once; the queue never holds more than 100; and as long as
  no \<open>accept\<close> fails no open descriptor is served twice, closed too early or left open.  If a connection
  is waiting or being served and there is a worker, some worker is busy or can take the next one.
\<close>

theorem http_served_once:
  assumes "HttpServer_Init fs conf (Inr l) garbage = Some (Inr s0)"
    and "http_reach sys fresh r (StartServer s0) s"
  shows "hv_accepted s = hv_started s @ tq_data (hv_queue s) \<and>
    mset (hv_started s) = mset (map snd (hv_busy s)) + mset (map fst (hv_done s)) \<and>
    length (tq_data (hv_queue s)) \<le> 100 \<and> distinct (map fst (hv_busy s)) \<and>
    (- 1 \<notin> set (hv_accepted s) \<longrightarrow>
      distinct (l # tq_data (hv_queue s) @ map snd (hv_busy s)) \<and>
      hv_open s = set (l # tq_data (hv_queue s) @ map snd (hv_busy s))) \<and>
    (length (hv_done s) < length (hv_accepted s) \<and> w \<in> set (wf_threads (hv_flow s)) \<longrightarrow>
      hv_busy s \<noteq> [] \<or> http_exec sys fresh r (HttpTake w) s \<noteq> None)"
proof -
  have "http_inv l (StartServer s0)"
    using assms(1) by (auto simp: HttpServer_Init_def StartServer_def TaskQueue_new_def http_inv_def http_lists_def
        http_fds_def WorkFlow_Init_def bind_eq_Some_conv Let_def split: sum.splits if_splits prod.splits)
  then have inv: "http_lists s" "- 1 \<notin> set (hv_accepted s) \<longrightarrow> http_fds l s"
    using http_inv_reach [OF assms(2)] by (auto simp: http_inv_def)
  have "http_exec sys fresh r (HttpTake w) s \<noteq> None"
    if "length (hv_done s) < length (hv_accepted s)" "w \<in> set (wf_threads (hv_flow s))" "hv_busy s = []"
  proof -
    have "length (hv_started s) = length (hv_done s)"
      using inv(1) that(3) by (metis http_lists_def list.simps(8) add_0 mset.simps(1) size_mset length_map)
    with inv(1) that(1) have "tq_data (hv_queue s) \<noteq> []" by (auto simp: http_lists_def)
    then show ?thesis using that(2,3) by (cases "tq_data (hv_queue s)") (simp_all add: try_pop_Cons)
  qed
  with inv show ?thesis unfolding http_lists_def http_fds_def by blast
qed

definition demo_http_conf :: config where
  "demo_http_conf = \<lparr>cf_mode = CHR ''='', cf_conf = [''PORT'' \<mapsto> ''80'', ''thread_num'' \<mapsto> ''2'']\<rparr>"

lemma demo_http_init:
  "\<exists>s0. HttpServer_Init fs (Inr demo_http_conf) (Inr 3) g = Some (Inr s0) \<and> wf_thread_num (hv_flow s0) = 2 \<and>
    wf_threads (hv_flow s0) = [] \<and> wf_next (hv_flow s0) = 0 \<and> hv_queue s0 = TaskQueue_new 100 \<and> hv_busy s0 = [] \<and> hv_open s0 = {3} \<and> hv_accepted s0 = []"
proof -
  have "atoi ''80'' = Some 80" "atoi ''2'' = Some 2" by code_simp+
  then show ?thesis
    by (simp add: HttpServer_Init_def demo_http_conf_def Http_Port_def Http_Thread_num_def Config_GetInt_def
        Config_GetString_def WorkFlow_Init_def WorkFlow_new_def)
qed

lemma http_served_once_witness:
  "\<exists>s0 s. HttpServer_Init demo_http_fs (Inr demo_http_conf) (Inr 3) False = Some (Inr s0) \<and>
    http_reach (\<lambda>_ fs. fs) (\<lambda>n. replicate n 0) demo_response (StartServer s0) s \<and> hv_accepted s = [5, 5] \<and>
    distinct (3 # tq_data (hv_queue s) @ map snd (hv_busy s))"
proof -
  let ?sys = "\<lambda>_ fs :: fsys. fs"
  let ?fresh = "\<lambda>n. replicate n 0 :: byte list"
  let ?exec = "http_exec ?sys ?fresh demo_response"
  from demo_http_init [of demo_http_fs False] obtain s0 where
    s0: "HttpServer_Init demo_http_fs (Inr demo_http_conf) (Inr 3) False = Some (Inr s0)" "wf_thread_num (hv_flow s0) = 2"
      "wf_threads (hv_flow s0) = []" "wf_next (hv_flow s0) = 0" "hv_queue s0 = TaskQueue_new 100" "hv_busy s0 = []" "hv_open s0 = {3}" "hv_accepted s0 = []" by auto
  have closed: "HttpWorkFlow_Response ?sys ?fresh 0 demo_response f (Some []) c = Some (f, c)" for f c
    by (simp add: HttpWorkFlow_Response_def store_def)
  note sim = try_push_def try_pop_def TaskQueue_Empty_def accept_fresh_def
  obtain s1 where s1: "?exec (HttpAccept 5) (StartServer s0) = Some s1" "tq_data (hv_queue s1) = [5]"
    "tq_limit (hv_queue s1) = 100" "hv_busy s1 = []" "1 \<in> set (wf_threads (hv_flow s1))" "hv_open s1 = {5, 3}"
    "hv_accepted s1 = [5]"
    using s0 by (simp add: sim StartServer_def Start_threads TaskQueue_new_def)
  have a1: "accept_fresh (HttpAccept 5) (StartServer s0)" using s0(7) by (simp add: accept_fresh_def StartServer_def)
  note r1 = http_reach.step [OF http_reach.start a1 s1(1)]
  obtain s2 where s2: "?exec (HttpTake 1) s1 = Some s2" "tq_data (hv_queue s2) = []" "tq_limit (hv_queue s2) = 100"
    "hv_busy s2 = [(1, 5)]" "hv_open s2 = {5, 3}" "hv_accepted s2 = [5]"
    using s1 by (simp add: sim)
  have r2: "http_reach ?sys ?fresh demo_response (StartServer s0) s2"
    using http_reach.step [OF r1 _ s2(1)] by (simp add: accept_fresh_def)
  obtain s3 where s3: "?exec (HttpAnswer 1 (Some []) [] 0) s2 = Some s3" "tq_data (hv_queue s3) = []"
    "tq_limit (hv_queue s3) = 100" "hv_open s3 = {3}" "hv_accepted s3 = [5]"
    using s2 by (simp add: closed)
  have r3: "http_reach ?sys ?fresh demo_response (StartServer s0) s3"
    using http_reach.step [OF r2 _ s3(1)] by (simp add: accept_fresh_def)
  obtain s4 where s4: "?exec (HttpAccept 5) s3 = Some s4" "hv_accepted s4 = [5, 5]"
    using s3 by (simp add: sim)
  have r4: "http_reach ?sys ?fresh demo_response (StartServer s0) s4"
    using http_reach.step [OF r3 _ s4(1)] s3(4) by (simp add: accept_fresh_def)
  have "distinct (3 # tq_data (hv_queue s4) @ map snd (hv_busy s4))"
    using http_served_once [OF s0(1) r4] s4(2) by simp
  then show ?thesis using s0(1) r4 s4(2) by blast
qed


text \<open>Two threads that have started and wait, with \<open>xs\<close> in the queue.\<close>

definition demo_workers :: "int list \<Rightarrow> int workers option" where
  "demo_workers xs = do {
     s \<leftarrow> WorkFlow_Run 0 (workers_Start (TaskQueue_new 100) (snd (WorkFlow_Init 2 (WorkFlow_new False))));
     s \<leftarrow> WorkFlow_Run 1 s;
     Some (s\<lparr>wk_queue := (wk_queue s)\<lparr>tq_data := xs\<rparr>\<rparr>)
   }"

lemma demo_workers:
  "\<exists>s. demo_workers xs = Some s \<and> joinable s \<and> tq_data (wk_queue s) = xs \<and> {t. wk_place s t = Some InPop} = {0, 1}"
proof -
  let ?s0 = "workers_Start (TaskQueue_new 100) (snd (WorkFlow_Init 2 (WorkFlow_new False))) :: int workers"
  have next2: "wf_next (WorkFlow_Start (snd (WorkFlow_Init 2 (WorkFlow_new False)))) = 2"
    by (simp add: WorkFlow_Start_def WorkFlow_Init_def WorkFlow_new_def start_threads)
  have s0: "wk_place ?s0 t = (if t < 2 then Some AtLoop else None)" "wf_running (wk_flow ?s0)" for t
    by (simp_all add: workers_Start_def next2 Start_running) (simp add: WorkFlow_Init_def WorkFlow_new_def)
  have "joinable ?s0" by (rule joinable_Start) (simp add: WorkFlow_Init_def WorkFlow_new_def)
  moreover obtain s1 where s1: "WorkFlow_Run 0 ?s0 = Some s1" "s1 = ?s0\<lparr>wk_place := (wk_place ?s0)(0 \<mapsto> InPop)\<rparr>"
    using s0 by (simp add: WorkFlow_Run_def)
  moreover obtain s2 where s2: "WorkFlow_Run 1 s1 = Some s2" "s2 = s1\<lparr>wk_place := (wk_place s1)(1 \<mapsto> InPop)\<rparr>"
    using s0 s1(2) by (simp add: WorkFlow_Run_def)
  ultimately have "joinable s2" by (blast intro: joinable_Run)
  moreover have "{t. wk_place s2 t = Some InPop} = {0, 1}" using s0(1) by (auto simp: s2(2) s1(2))
  ultimately show ?thesis using s1(1) s2(1) by (simp add: demo_workers_def joinable_queue)
qed


section \<open>Version 1.0.0\<close>

lemma deal_1_0_outcome:
  assumes "fresh_ok fresh" and "\<forall>e. length (type_of r e) \<le> 966"
    and "\<forall>name content. fs_files fs name = Some content \<longrightarrow> length content < 2 ^ 63"
  shows "deal_1_0 fresh r fs req c = None \<longleftrightarrow> request_file req = None"
    and "deal_1_0 fresh r fs req c = Some (Inl code) \<longleftrightarrow> request_file req = Some None \<and> code = 1"
proof -
  let ?cgi = "Http_CGI (rs_conf r)"
  have answer: "send_answer fresh r fs name c \<noteq> None" if "FileEnd name \<noteq> None" for name
  proof -
    from that obtain e where "FileEnd name = Some e" by blast
    with send_answer_defined [OF assms(1,3)] assms(2) show ?thesis by blast
  qed
  have name: "FileEnd (?cgi @ f) \<noteq> None" if "request_file req = Some (Some f)" for f
    using that by (auto simp: request_file_def Let_def split_def require_def bind_eq_Some_conv FileEnd_iff
        split: if_splits list.splits char.splits bool.splits)
  have page: "FileEnd (?cgi @ ''./default.html'') \<noteq> None" by (simp add: FileEnd_iff)
  have "request_file req = None \<and> deal_1_0 fresh r fs req c = None \<or>
      request_file req = Some None \<and> deal_1_0 fresh r fs req c = Some (Inl 1) \<or>
      (\<exists>f fc. request_file req = Some (Some f) \<and> deal_1_0 fresh r fs req c = Some (Inr fc))"
  proof (cases "request_file req")
    case (Some res)
    show ?thesis
    proof (cases res)
      case None
      then show ?thesis using Some by (simp add: deal_1_0_def DealWithRequest_1_0_def RequestFeile_1_0_def)
    next
      case (Some f)
      let ?shown = "if HasFile fs (?cgi @ f) then ?cgi @ f else ?cgi @ ''./default.html''"
      from answer [OF page] answer [OF name [of f]] \<open>request_file req = Some res\<close> Some
      obtain d where "send_answer fresh r fs ?shown c = Some d" by (cases "HasFile fs (?cgi @ f)") auto
      with \<open>request_file req = Some res\<close> Some show ?thesis
        by (simp add: deal_1_0_def DealWithRequest_1_0_def RequestFeile_1_0_def Let_def)
    qed
  qed (simp add: deal_1_0_def DealWithRequest_1_0_def RequestFeile_1_0_def)
  then show "deal_1_0 fresh r fs req c = None \<longleftrightarrow> request_file req = None"
    "deal_1_0 fresh r fs req c = Some (Inl code) \<longleftrightarrow> request_file req = Some None \<and> code = 1"
    by auto
qed

lemma Handler_buffer_text:
  assumes "fresh_ok fresh" and "\<forall>dat. received = Some dat \<longrightarrow> length dat \<le> 10000"
  shows "map_option bytes_str (Handler_buffer fresh received) =
    (case received of None \<Rightarrow> None
     | Some dat \<Rightarrow> if length dat = 10000 then None else Some (bytes_str (dat @ [0])))"
proof (cases received)
  case (Some dat)
  show ?thesis
  proof (cases "length dat < 10000")
    case True
    obtain r' where r': "store (fresh 10000) 0 dat = Some (dat @ r')" "length r' = 10000 - length dat"
      using True assms(1) by (simp add: store_def fresh_ok_def)
    with True obtain b r'' where "r' = b # r''" by (cases r') auto
    then have "store (dat @ r') (length dat) [0] = Some (dat @ 0 # r'')"
      "store (dat @ 0 # r'') (length dat) [0] = Some (dat @ 0 # r'')" by (simp_all add: store_def)
    then show ?thesis
      using Some True r'(1) bytes_str_stop [of dat r''] by (simp add: Handler_buffer_def MAX_RECV_LENGTH_def)
  next
    case False
    with assms(2) Some have "length dat = 10000" by auto
    moreover have "store (fresh 10000) 0 dat = Some dat"
      using \<open>length dat = 10000\<close> assms(1) by (simp add: store_def fresh_ok_def)
    ultimately show ?thesis using Some by (simp add: Handler_buffer_def MAX_RECV_LENGTH_def store_def)
  qed
qed (simp add: Handler_buffer_def)

text \<open>A request in the buffer: the outcome is that of \<open>DealWithRequest\<close>.\<close>

lemma readable_outcome:
  fixes deal :: "fsys \<Rightarrow> string \<Rightarrow> http_conn \<Rightarrow> (int + fsys \<times> http_conn) option"
  assumes "content_fd (he_content ev) s = Some fd" and "he_recv ev \<noteq> Some []"
    and "Handler_buffer fresh (he_recv ev) = Some buff"
  defines "out \<equiv> deal (hl_fs s) (bytes_str buff) \<lparr>hc_sched = he_sched ev, hc_sent = []\<rparr>"
  shows "EventLoop_readable fresh deal ev s = None \<longleftrightarrow> out = None"
    and "EventLoop_readable fresh deal ev s = Some (Inl code) \<longleftrightarrow> out = Some (Inl code)"
proof -
  let ?set = "\<lambda>f c. map_option (\<lambda>(_, s). Inr s) (Epoll_SetEvent (Some (he_content ev)) False True
        (s\<lparr>hl_fs := f, hl_sent := hl_sent s @ [(fd, hc_sent c)]\<rparr>)) :: (int + http_loop) option"
  have set: "\<exists>u. ?set f c = Some (Inr u)" for f c
    using assms(1) by (auto simp: Epoll_SetEvent_def content_fd_def)
  have run: "EventLoop_readable fresh deal ev s =
      (case out of None \<Rightarrow> None | Some (Inl code) \<Rightarrow> Some (Inl code) | Some (Inr (f, c)) \<Rightarrow> ?set f c)"
    using assms(1-3)
    by (auto simp: EventLoop_readable_def out_def map_option_case split_def split: option.split sum.split)
  have "EventLoop_readable fresh deal ev s = None \<longleftrightarrow> out = None"
    "EventLoop_readable fresh deal ev s = Some (Inl code) \<longleftrightarrow> out = Some (Inl code)" for code
  proof -
    consider "out = None" | c where "out = Some (Inl c)" | f c where "out = Some (Inr (f, c))"
      by (cases out; cases "the out") auto
    then have "(EventLoop_readable fresh deal ev s = None \<longleftrightarrow> out = None) \<and>
        (EventLoop_readable fresh deal ev s = Some (Inl code) \<longleftrightarrow> out = Some (Inl code))"
    proof cases
      case (3 f c)
      obtain u where "?set f c = Some (Inr u)" using set by blast
      then show ?thesis unfolding run 3 by (simp del: map_option_eq_Some)
    qed (simp_all add: run)
    then show "EventLoop_readable fresh deal ev s = None \<longleftrightarrow> out = None"
      "EventLoop_readable fresh deal ev s = Some (Inl code) \<longleftrightarrow> out = Some (Inl code)" by blast+
  qed
  then show "EventLoop_readable fresh deal ev s = None \<longleftrightarrow> out = None"
    and "EventLoop_readable fresh deal ev s = Some (Inl code) \<longleftrightarrow> out = Some (Inl code)" by blast+
qed

lemma readable_closed:
  assumes "content_fd (he_content ev) s = Some fd" and "he_recv ev = Some []"
  shows "EventLoop_readable fresh deal ev s = None"
proof -
  have "content_fd (he_content ev) (s\<lparr>hl_open := X, hl_epoll := E, hl_contents := (hl_contents s)(he_content ev := None)\<rparr>) = None" for X E
    by (simp add: content_fd_def)
  then show ?thesis using assms by (simp add: EventLoop_readable_def Epoll_ClearEvent_def Let_def)
qed


definition demo_loop :: http_loop where
  "demo_loop = \<lparr>hl_contents = [0 \<mapsto> Some 3, 1 \<mapsto> Some 5], hl_next = 2, hl_listen = 0, hl_epoll = Map.empty,
     hl_open = {3, 5}, hl_fd_num = 2, hl_fs = demo_http_fs, hl_queue = TaskQueue_new 100, hl_sent = []\<rparr>"

definition demo_readable :: "byte list \<Rightarrow> http_event" where
  "demo_readable dat = \<lparr>he_content = 1, he_in = True, he_out = False, he_hup = False, he_accept = - 1,
     he_recv = Some dat, he_sched = []\<rparr>"


text \<open>
  The count of \<open>AddEvent\<close> only grows, and once it has reached 255 no descriptor is registered any more: the
  connections that are accepted from then on are never served.
\<close>

definition no_new_fds :: "http_loop \<Rightarrow> http_loop \<Rightarrow> bool" where
  "no_new_fds s s' \<longleftrightarrow> hl_fd_num s \<le> hl_fd_num s' \<and>
     (MAX_EVENT_NUM \<le> hl_fd_num s \<longrightarrow> (\<forall>fd. hl_epoll s fd = None \<longrightarrow> hl_epoll s' fd = None))"

lemma no_new_fds_trans: "no_new_fds s t \<Longrightarrow> no_new_fds t u \<Longrightarrow> no_new_fds s u"
  by (auto simp: no_new_fds_def)

lemma case_code_Inr [simp]:
  "(case res of Inl code \<Rightarrow> Some (Inl code) | Inr x \<Rightarrow> f x) = Some (Inr y) \<longleftrightarrow> (\<exists>x. res = Inr x \<and> f x = Some (Inr y))"
  by (cases res) auto

lemma AddEvent_no_new_fds: "Epoll_AddEvent garbage content re wr s = Some (b, s') \<Longrightarrow> no_new_fds s s'"
  by (auto simp: Epoll_AddEvent_def no_new_fds_def Let_def bind_eq_Some_conv split: if_splits)

lemma SetEvent_no_new_fds: "Epoll_SetEvent content re wr s = Some (b, s') \<Longrightarrow> no_new_fds s s'"
  by (auto simp: Epoll_SetEvent_def no_new_fds_def Let_def bind_eq_Some_conv split: if_splits option.split_asm)

lemma ClearEvent_no_new_fds: "Epoll_ClearEvent content s = Some (b, s') \<Longrightarrow> no_new_fds s s'"
  by (auto simp: Epoll_ClearEvent_def no_new_fds_def Let_def bind_eq_Some_conv split: option.split_asm)

lemma accept_no_new_fds: "EventLoop_accept_1_0 garbage ev s = Some s' \<Longrightarrow> no_new_fds s s'"
  by (auto simp: EventLoop_accept_1_0_def Let_def bind_eq_Some_conv no_new_fds_def dest!: AddEvent_no_new_fds)

lemma readable_no_new_fds: "EventLoop_readable fresh deal ev s = Some (Inr s') \<Longrightarrow> no_new_fds s s'"
  by (auto simp: EventLoop_readable_def bind_eq_Some_conv no_new_fds_def split: if_splits
      dest!: SetEvent_no_new_fds ClearEvent_no_new_fds)

lemma turn_no_new_fds: "EventLoop_turn_1_0 fresh r garbage ev s = Some (Inr s') \<Longrightarrow> no_new_fds s s'"
  by (auto simp: EventLoop_turn_1_0_def EventLoop_connection_def bind_eq_Some_conv
      split: if_splits event_code.splits dest: accept_no_new_fds readable_no_new_fds SetEvent_no_new_fds)
    (auto simp: no_new_fds_def)

lemma batch_no_new_fds: "EventLoop_batch_1_0 fresh r garbage evs s = Some (Inr s') \<Longrightarrow> no_new_fds s s'"
proof (induction evs arbitrary: s)
  case (Cons ev evs)
  from Cons.prems obtain t where t: "EventLoop_turn_1_0 fresh r garbage ev s = Some (Inr t)"
    "EventLoop_batch_1_0 fresh r garbage evs t = Some (Inr s')"
    by (auto simp: bind_eq_Some_conv)
  show ?case using no_new_fds_trans [OF turn_no_new_fds [OF t(1)] Cons.IH [OF t(2)]] .
qed (simp add: no_new_fds_def)

end
