(* ===== verification/HttpTest.thy ===== *)
theory HttpTest
  imports HttpFacts "HOL-Library.Sublist"
begin

text \<open>
  The server in \<open>test_http_server/src\<close>: the version between 1.0.0 and 1.1.0.  It ends with \<open>exit(1)\<close> at a
  request it cannot read, and it does not ignore \<open>SIGPIPE\<close>, so a \<open>send\<close> to a peer that is gone kills it.
  Everything that may end the process returns a sum; the rest of the code is that of version 1.1.0, and
  the lemmas relate the two.
\<close>

section \<open>Sending\<close>

datatype send_result = Took nat | SendError | BrokenPipe

text \<open>How the process ended: by \<open>exit\<close>, or by the signal after these bytes had been sent.\<close>

datatype test_end = Exited int | Killed "byte list"

record test_conn =
  tc_sched :: "send_result list"
  tc_sent :: "byte list"

definition and_then :: "('e + 'a) option \<Rightarrow> ('a \<Rightarrow> ('e + 'b) option) \<Rightarrow> ('e + 'b) option" where
  "and_then m f =
     (case m of None \<Rightarrow> None | Some (Inl e) \<Rightarrow> Some (Inl e) | Some (Inr x) \<Rightarrow> f x)"

fun test_send_loop :: "send_result list \<Rightarrow> byte list \<Rightarrow> bool option \<times> byte list \<times> send_result list" where
  "test_send_loop sched [] = (Some True, [], sched)"
| "test_send_loop [] dat = (Some True, dat, [])"
| "test_send_loop (BrokenPipe # sched) dat = (None, [], sched)"
| "test_send_loop (SendError # sched) dat = (Some False, [], sched)"
| "test_send_loop (Took k # sched) dat =
     (let (ok, out, sched) = test_send_loop sched (drop k dat) in (ok, take k dat @ out, sched))"

definition SafeSendFile_test :: "byte list \<Rightarrow> nat \<Rightarrow> test_conn \<Rightarrow> (test_end + test_conn) option" where
  "SafeSendFile_test buff len c = do {
     dat \<leftarrow> load buff 0 len;
     let (ok, out, sched) = test_send_loop (tc_sched c) dat;
     Some (case ok of
         None \<Rightarrow> Inl (Killed (tc_sent c @ out))
       | Some _ \<Rightarrow> Inr (c\<lparr>tc_sched := sched, tc_sent := tc_sent c @ out\<rparr>))
   }"

section \<open>The answer\<close>

definition RequestFeile_test :: "string \<Rightarrow> (test_end + string) option" where
  "RequestFeile_test dat =
     map_option (\<lambda>r. case r of None \<Rightarrow> Inl (Exited 1) | Some f \<Rightarrow> Inr f) (request_file dat)"

definition SendHead_test ::
  "(nat \<Rightarrow> byte list) \<Rightarrow> response \<Rightarrow> string \<Rightarrow> test_conn \<Rightarrow> (test_end + test_conn) option" where
  "SendHead_test fresh r file_name c = do {
     (buff, len) \<leftarrow> c_snprintf (fresh 1000) 0 1000 (str_bytes (''HTTP/1.0 200 OK'' @ CRLF));
     end \<leftarrow> FileEnd file_name;
     let line = ''Content-type: '' @ FType_GetType end (rs_ftype r) @ CRLF;
     (buff, n) \<leftarrow> c_snprintf buff len (1000 - len) (str_bytes line);
     SafeSendFile_test buff (len + n) c
   }"

definition SendFileSize_test ::
  "(nat \<Rightarrow> byte list) \<Rightarrow> fsys \<Rightarrow> string \<Rightarrow> test_conn \<Rightarrow> (test_end + test_conn) option" where
  "SendFileSize_test fresh fs file_name c =
     (case fs_files fs file_name of
        None \<Rightarrow> Some (Inr c)
      | Some content \<Rightarrow> do {
          (buff, len) \<leftarrow> c_snprintf (fresh 100) 0 100
             (str_bytes (''Content-Length: '' @ nat_dec (length content) @ CRLF @ [CHR 0x0A]));
          SafeSendFile_test buff len c
        })"

function test_file_loop :: "byte list \<Rightarrow> test_conn \<Rightarrow> (test_end + test_conn) option" where
  "test_file_loop content c =
     (if content = [] then Some (Inr c)
      else let buff = take 10000 content
           in and_then (SafeSendFile_test buff (length buff) c) (test_file_loop (drop 10000 content)))"
  by pat_completeness auto
termination
  by (relation "measure (length \<circ> fst)") auto

declare test_file_loop.simps [simp del]

definition SendFile_test :: "fsys \<Rightarrow> string \<Rightarrow> test_conn \<Rightarrow> (test_end + test_conn) option" where
  "SendFile_test fs file_name c =
     (case fopen_read fs file_name of None \<Rightarrow> Some (Inr c) | Some content \<Rightarrow> test_file_loop content c)"

definition test_answer ::
  "(nat \<Rightarrow> byte list) \<Rightarrow> response \<Rightarrow> fsys \<Rightarrow> string \<Rightarrow> test_conn \<Rightarrow> (test_end + test_conn) option" where
  "test_answer fresh r fs file_name c =
     and_then (SendHead_test fresh r file_name c) (\<lambda>c.
     and_then (SendFileSize_test fresh fs file_name c) (SendFile_test fs file_name))"

text \<open>The file system the process leaves: a process that is killed does not remove its temporary page.\<close>

definition DealWithRequest_test ::
  "(string \<Rightarrow> fsys \<Rightarrow> fsys) \<Rightarrow> (nat \<Rightarrow> byte list) \<Rightarrow> nat \<Rightarrow> response \<Rightarrow> fsys \<Rightarrow> string \<Rightarrow> test_conn \<Rightarrow>
   (fsys \<times> (test_end + test_conn)) option" where
  "DealWithRequest_test sys fresh now r fs dat c = do {
     file \<leftarrow> RequestFeile_test dat;
     case file of
       Inl end \<Rightarrow> Some (fs, Inl end)
     | Inr file \<Rightarrow> do {
         let file_name = Http_CGI (rs_conf r) @ file;
         if \<not> HasFile fs file_name
         then map_option (\<lambda>c. (fs, c)) (test_answer fresh r fs (Http_CGI (rs_conf r) @ ''./default.html'') c)
         else do {
           file_end \<leftarrow> FileEnd file_name;
           if file_end = ''php''
           then do {
             let new_name = take 19 (nat_dec now @ ''.html'');
             let send_file = Http_CGI (rs_conf r) @ Http_Tmp (rs_conf r) @ new_name;
             let fs = GenerateSendFile sys file_name send_file fs;
             c \<leftarrow> test_answer fresh r fs send_file c;
             Some (case c of Inl _ \<Rightarrow> fs | Inr _ \<Rightarrow> SafeRemoveFile sys send_file fs, c)
           }
           else map_option (\<lambda>c. (fs, c)) (test_answer fresh r fs file_name c)
         }
       }
   }"

definition HttpWorkFlow_Response_test ::
  "(string \<Rightarrow> fsys \<Rightarrow> fsys) \<Rightarrow> (nat \<Rightarrow> byte list) \<Rightarrow> nat \<Rightarrow> response \<Rightarrow> fsys \<Rightarrow> byte list option \<Rightarrow>
   test_conn \<Rightarrow> (fsys \<times> (test_end + test_conn)) option" where
  "HttpWorkFlow_Response_test sys fresh now r fs received c = do {
     dat \<leftarrow> received;
     buff \<leftarrow> store (fresh 10240) 0 dat;
     if dat = [] then Some (fs, Inr c)
     else do {
       buff \<leftarrow> store buff (length dat) [0];
       DealWithRequest_test sys fresh now r fs (bytes_str buff) c
     }
   }"

section \<open>Against version 1.1.0\<close>

text \<open>The same connection for version 1.1.0, where a broken pipe is an error like others.\<close>

fun as_error :: "send_result \<Rightarrow> nat option" where
  "as_error (Took k) = Some k"
| "as_error SendError = None"
| "as_error BrokenPipe = None"

definition conn_1_1 :: "test_conn \<Rightarrow> http_conn" where
  "conn_1_1 c = \<lparr>hc_sched = map as_error (tc_sched c), hc_sent = tc_sent c\<rparr>"

text \<open>
  The outcome \<open>T\<close> of the test server fits the outcome \<open>E\<close> of version 1.1.0; \<open>p\<close> tells whether the pipe
  may break.
\<close>

definition agrees :: "bool \<Rightarrow> (test_end + test_conn) option \<Rightarrow> http_conn option \<Rightarrow> bool" where
  "agrees p T E \<longleftrightarrow>
     (case T of
        None \<Rightarrow> E = None
      | Some (Inr c) \<Rightarrow> E = Some (conn_1_1 c) \<and> (BrokenPipe \<in> set (tc_sched c) \<longrightarrow> p)
      | Some (Inl (Killed sent)) \<Rightarrow> p \<and> (\<forall>c. E = Some c \<longrightarrow> prefix sent (hc_sent c))
      | Some (Inl (Exited code)) \<Rightarrow> False)"

text \<open>An operation of version 1.1.0 that only adds to what was sent.\<close>

definition only_sends :: "(http_conn \<Rightarrow> http_conn option) \<Rightarrow> bool" where
  "only_sends g \<longleftrightarrow> (\<forall>c c'. g c = Some c' \<longrightarrow> prefix (hc_sent c) (hc_sent c'))"

lemma agrees_bind:
  assumes "agrees p T E" and "only_sends g"
    and "\<And>c. BrokenPipe \<in> set (tc_sched c) \<longrightarrow> p \<Longrightarrow> agrees p (f c) (g (conn_1_1 c))"
  shows "agrees p (and_then T f) (E \<bind> g)"
proof (cases T)
  case None
  with assms(1) show ?thesis by (simp add: agrees_def and_then_def)
next
  case (Some res)
  show ?thesis
  proof (cases res)
    case (Inl e)
    with Some assms(1) obtain sent where e: "e = Killed sent" and p: p
      and E: "\<forall>c. E = Some c \<longrightarrow> prefix sent (hc_sent c)"
      by (cases e) (auto simp: agrees_def)
    have "prefix sent (hc_sent c)" if "(E \<bind> g) = Some c" for c
      using that E assms(2) by (auto simp: bind_eq_Some_conv only_sends_def intro: prefix_order.order_trans)
    then show ?thesis using Some Inl e p by (simp add: agrees_def and_then_def)
  next
    case (Inr c)
    with Some assms(1) have "E = Some (conn_1_1 c)" "BrokenPipe \<in> set (tc_sched c) \<longrightarrow> p" by (simp_all add: agrees_def)
    with assms(3) [of c] Some Inr show ?thesis by (simp add: and_then_def)
  qed
qed

lemma test_send_loop_agrees:
  assumes "test_send_loop sched dat = (ok, out, rest)"
  shows "(case ok of
      None \<Rightarrow> BrokenPipe \<in> set sched \<and> (\<exists>r. send_loop (map as_error sched) dat = (False, out, r))
    | Some b \<Rightarrow> send_loop (map as_error sched) dat = (b, out, map as_error rest)) \<and> set rest \<subseteq> set sched"
  using assms
proof (induction sched dat arbitrary: ok out rest rule: test_send_loop.induct)
  case (5 k sched b dat)
  obtain ok' out' rest' where "test_send_loop sched (drop k (b # dat)) = (ok', out', rest')"
    by (cases "test_send_loop sched (drop k (b # dat))")
  with "5.IH" [OF this] "5.prems" show ?case by (auto split: option.splits)
qed auto

lemma SafeSendFile_agrees:
  assumes "BrokenPipe \<in> set (tc_sched c) \<longrightarrow> p"
  shows "agrees p (SafeSendFile_test buff len c)
    (SafeSendFile buff len (conn_1_1 c) \<bind> (\<lambda>(_, c). Some c))"
proof (cases "load buff 0 len")
  case (Some dat)
  obtain ok out rest where loop: "test_send_loop (tc_sched c) dat = (ok, out, rest)"
    by (cases "test_send_loop (tc_sched c) dat")
  from test_send_loop_agrees [OF this] show ?thesis
    using Some loop assms
    by (auto simp: SafeSendFile_test_def SafeSendFile_def agrees_def conn_1_1_def split: option.splits)
qed (simp add: SafeSendFile_test_def SafeSendFile_def agrees_def)

lemma SafeSendFile_sends: "SafeSendFile buff len c = Some (ok, c') \<Longrightarrow> prefix (hc_sent c) (hc_sent c')"
  by (auto simp: SafeSendFile_def bind_eq_Some_conv split_def Let_def)

lemma only_sends_bind: "only_sends f \<Longrightarrow> only_sends g \<Longrightarrow> only_sends (\<lambda>c. f c \<bind> g)"
  unfolding only_sends_def by (fastforce simp: bind_eq_Some_conv intro: prefix_order.order_trans)

lemma only_sends_SafeSendFile: "only_sends (\<lambda>c. SafeSendFile buff len c \<bind> (\<lambda>(_, c). Some c))"
  unfolding only_sends_def by (auto simp: bind_eq_Some_conv dest: SafeSendFile_sends)

lemma only_sends_SendFileSize: "only_sends (SendFileSize fresh fs name)"
  unfolding only_sends_def SendFileSize_def
  by (auto simp: bind_eq_Some_conv dest: SafeSendFile_sends split: option.splits)

lemma send_file_loop_sends: "send_file_loop content c = Some c' \<Longrightarrow> prefix (hc_sent c) (hc_sent c')"
proof (induction content c rule: send_file_loop.induct)
  case (1 content c)
  show ?case
  proof (cases "content = []")
    case False
    with "1.prems" obtain ok d where d: "SafeSendFile (take 10000 content) (length (take 10000 content)) c = Some (ok, d)"
      "send_file_loop (drop 10000 content) d = Some c'"
      by (auto simp: send_file_loop.simps [of content] bind_eq_Some_conv)
    from "1.IH" [OF False refl d(1) refl d(2)] SafeSendFile_sends [OF d(1)] show ?thesis
      by (blast intro: prefix_order.order_trans)
  qed (use "1.prems" in \<open>simp add: send_file_loop.simps\<close>)
qed

lemma only_sends_SendFile: "only_sends (SendFile fs name)"
  unfolding only_sends_def SendFile_def by (auto dest: send_file_loop_sends split: option.splits)

lemma SendHead_agrees:
  assumes "BrokenPipe \<in> set (tc_sched c) \<longrightarrow> p"
  shows "agrees p (SendHead_test fresh r name c) (SendHead fresh r name (conn_1_1 c))"
proof -
  let ?fst = "c_snprintf (fresh 1000) 0 1000 (str_bytes (''HTTP/1.0 200 OK'' @ CRLF))"
  let ?snd = "\<lambda>buff len e. c_snprintf buff len (1000 - len)
    (str_bytes (''Content-type: '' @ FType_GetType e (rs_ftype r) @ CRLF))"
  show ?thesis
  proof (cases "\<exists>buff len e b n. ?fst = Some (buff, len) \<and> FileEnd name = Some e \<and> ?snd buff len e = Some (b, n)")
    case True
    then obtain buff len e b n where s: "?fst = Some (buff, len)" "FileEnd name = Some e" "?snd buff len e = Some (b, n)"
      by blast
    have "SendHead_test fresh r name c = SafeSendFile_test b (len + n) c"
      unfolding SendHead_test_def s(1,2) bind.bind_lunit prod.case Let_def s(3) ..
    moreover have "SendHead fresh r name d = (SafeSendFile b (len + n) d \<bind> (\<lambda>(_, c). Some c))" for d
      unfolding SendHead_def s(1,2) bind.bind_lunit prod.case Let_def s(3) ..
    ultimately show ?thesis using SafeSendFile_agrees [OF assms] by simp
  next
    case False
    have "SendHead_test fresh r name c = None"
    proof (rule ccontr)
      assume "SendHead_test fresh r name c \<noteq> None"
      with False show False by (auto simp: SendHead_test_def Let_def bind_eq_Some_conv)
    qed
    moreover have "SendHead fresh r name d = None" for d
    proof (rule ccontr)
      assume "SendHead fresh r name d \<noteq> None"
      with False show False by (auto simp: SendHead_def Let_def bind_eq_Some_conv)
    qed
    ultimately show ?thesis by (simp add: agrees_def)
  qed
qed

lemma SendFileSize_agrees:
  assumes "BrokenPipe \<in> set (tc_sched c) \<longrightarrow> p"
  shows "agrees p (SendFileSize_test fresh fs name c) (SendFileSize fresh fs name (conn_1_1 c))"
proof (cases "fs_files fs name")
  case (Some content)
  show ?thesis
  proof (cases "c_snprintf (fresh 100) 0 100
      (str_bytes (''Content-Length: '' @ nat_dec (length content) @ CRLF @ [CHR 0x0A]))")
    case None
    then show ?thesis by (simp add: SendFileSize_test_def SendFileSize_def Some agrees_def)
  next
    case (Some bl)
    then show ?thesis
      using SafeSendFile_agrees [OF assms] \<open>fs_files fs name = Some content\<close>
      by (simp add: SendFileSize_test_def SendFileSize_def split_def)
  qed
qed (use assms in \<open>simp add: SendFileSize_test_def SendFileSize_def agrees_def\<close>)

lemma file_loop_agrees:
  "BrokenPipe \<in> set (tc_sched c) \<longrightarrow> p \<Longrightarrow> agrees p (test_file_loop content c) (send_file_loop content (conn_1_1 c))"
proof (induction content arbitrary: c rule: length_induct)
  case (1 content)
  show ?case
  proof (cases "content = []")
    case True
    then show ?thesis using "1.prems" by (simp add: test_file_loop.simps send_file_loop.simps agrees_def)
  next
    case False
    let ?buff = "take 10000 content" and ?rest = "drop 10000 content"
    have "agrees p (and_then (SafeSendFile_test ?buff (length ?buff) c) (test_file_loop ?rest))
        ((SafeSendFile ?buff (length ?buff) (conn_1_1 c) \<bind> (\<lambda>(_, c). Some c)) \<bind> send_file_loop ?rest)"
    proof (rule agrees_bind [OF SafeSendFile_agrees [OF "1.prems"]])
      show "only_sends (send_file_loop ?rest)" unfolding only_sends_def using send_file_loop_sends by blast
      show "agrees p (test_file_loop ?rest d) (send_file_loop ?rest (conn_1_1 d))"
        if "BrokenPipe \<in> set (tc_sched d) \<longrightarrow> p" for d
        using "1.IH" that False by simp
    qed
    then show ?thesis
      using False by (simp add: test_file_loop.simps [of content] send_file_loop.simps [of content] Let_def split_def)
  qed
qed

lemma SendFile_agrees:
  "BrokenPipe \<in> set (tc_sched c) \<longrightarrow> p \<Longrightarrow> agrees p (SendFile_test fs name c) (SendFile fs name (conn_1_1 c))"
  by (cases "fopen_read fs name")
    (simp_all add: SendFile_test_def SendFile_def file_loop_agrees, simp add: agrees_def)

lemma answer_agrees:
  assumes "BrokenPipe \<in> set (tc_sched c) \<longrightarrow> p"
  shows "agrees p (test_answer fresh r fs name c) (send_answer fresh r fs name (conn_1_1 c))"
  unfolding test_answer_def send_answer_def
  by (rule agrees_bind [OF SendHead_agrees [OF assms]], rule only_sends_bind,
      rule only_sends_SendFileSize, rule only_sends_SendFile,
      rule agrees_bind [OF SendFileSize_agrees], assumption, rule only_sends_SendFile, rule SendFile_agrees)

text \<open>The two servers at one request; \<open>sent\<close> are the bytes a broken pipe leaves behind.\<close>

definition same_answer ::
  "bool \<Rightarrow> (fsys \<times> (test_end + test_conn)) option \<Rightarrow> (fsys \<times> http_conn) option \<Rightarrow> bool" where
  "same_answer p T E \<longleftrightarrow>
     (case T of
        None \<Rightarrow> E = None
      | Some (fs, Inr c) \<Rightarrow> E = Some (fs, conn_1_1 c)
      | Some (fs, Inl (Killed sent)) \<Rightarrow> p \<and> (\<forall>fs' c. E = Some (fs', c) \<longrightarrow> prefix sent (hc_sent c))
      | Some (fs, Inl (Exited code)) \<Rightarrow> False)"

lemma same_answer_fs:
  assumes "agrees p T E"
  shows "same_answer p (map_option (\<lambda>c. (case c of Inl _ \<Rightarrow> fs | Inr _ \<Rightarrow> fs', c)) T) (map_option (\<lambda>c. (fs', c)) E)"
  using assms by (auto simp: agrees_def same_answer_def split: option.splits sum.splits test_end.splits)

lemma deal_agrees:
  assumes "request_file dat \<noteq> Some None" and "BrokenPipe \<in> set (tc_sched c) \<longrightarrow> p"
  shows "same_answer p (DealWithRequest_test sys fresh now r fs dat c) (DealWithRequest sys fresh now r fs dat (conn_1_1 c))"
proof (cases "request_file dat")
  case None
  then show ?thesis by (simp add: DealWithRequest_test_def DealWithRequest_def RequestFeile_test_def RequestFeile_def same_answer_def)
next
  case (Some f)
  with assms(1) obtain nm where f: "f = Some nm" by auto
  let ?name = "Http_CGI (rs_conf r) @ nm"
  note fs = same_answer_fs [OF answer_agrees [OF assms(2)]]
  have "(\<lambda>c :: test_end + test_conn. (case c of Inl _ \<Rightarrow> fs | Inr _ \<Rightarrow> fs, c)) = Pair fs"
    by (auto split: sum.splits)
  with fs [of fs fs] have fs0: "same_answer p (map_option (Pair fs) (test_answer fresh r fs name c))
    (map_option (Pair fs) (send_answer fresh r fs name (conn_1_1 c)))" for fresh r name
    by metis
  have reqs: "RequestFeile_test dat = Some (Inr nm)" "RequestFeile dat = Some nm"
    using Some f by (simp_all add: RequestFeile_test_def RequestFeile_def)
  show ?thesis
  proof (cases "HasFile fs ?name")
    case False
    then show ?thesis
      using fs [of fs fs] by (simp add: DealWithRequest_test_def DealWithRequest_def reqs Let_def cong: sum.case_cong)
  next
    case True
    show ?thesis
    proof (cases "FileEnd ?name")
      case None
      then show ?thesis using True by (simp add: DealWithRequest_test_def DealWithRequest_def reqs Let_def same_answer_def)
    next
      case (Some e)
      have bind: "(m \<bind> (\<lambda>x. Some (g x))) = map_option g m" for m :: "'x option" and g :: "'x \<Rightarrow> 'y"
        by (cases m) simp_all
      show ?thesis
        using fs fs0 True Some
        by (cases "e = ''php''")
          (simp_all add: DealWithRequest_test_def DealWithRequest_def reqs Let_def bind)
    qed
  qed
qed

end
