(* ===== verification/HttpTestProperties.thy ===== *)
theory HttpTestProperties
  imports HttpTest HttpProperties
begin

text \<open>
  What the server in \<open>test_http_server\<close> has in common with version 1.1.0.
\<close>

text \<open>The zero behind a request that does not fill the buffer.\<close>

lemma worker_buffer:
  assumes "fresh_ok fresh" and "length dat < 10240"
  obtains buff b where "store (fresh 10240) 0 dat = Some buff" and "store buff (length dat) [0] = Some b"
    and "bytes_str b = bytes_str (dat @ [0])"
proof -
  obtain r where r: "store (fresh 10240) 0 dat = Some (dat @ r)" "length r = 10240 - length dat"
    using assms by (simp add: store_def fresh_ok_def)
  with assms(2) obtain x r' where "r = x # r'" by (cases r) auto
  then have "store (dat @ r) (length dat) [0] = Some (dat @ 0 # r')" by (simp add: store_def)
  with r(1) that show thesis by (metis bytes_str_stop)
qed

text \<open>
  C15. The test server and version 1.1.0 do the same with a connection, up to two differences: a request
  that cannot be read - no \<open>GET\<close>, or no path - ends the test server with status 1, with nothing sent; and
  a broken pipe kills it, with a part of what version 1.1.0 sends.  Without them both leave the same file
  system and send the same bytes, and undefined behaviour of one is undefined behaviour of the other.
\<close>

theorem http_test_server_agrees:
  assumes "fresh_ok fresh" and "\<forall>dat. received = Some dat \<longrightarrow> length dat \<le> 10240"
  shows "if (\<exists>dat. received = Some dat \<and> dat \<noteq> [] \<and> length dat < 10240 \<and> request_file (bytes_str (dat @ [0])) = Some None)
    then HttpWorkFlow_Response_test sys fresh now r fs received c = Some (fs, Inl (Exited 1))
    else (case HttpWorkFlow_Response_test sys fresh now r fs received c of
        None \<Rightarrow> HttpWorkFlow_Response sys fresh now r fs received (conn_1_1 c) = None
      | Some (fs', Inr c') \<Rightarrow>
          HttpWorkFlow_Response sys fresh now r fs received (conn_1_1 c) = Some (fs', conn_1_1 c')
      | Some (_, Inl (Killed sent)) \<Rightarrow> BrokenPipe \<in> set (tc_sched c) \<and>
          (\<forall>fs' c'. HttpWorkFlow_Response sys fresh now r fs received (conn_1_1 c) = Some (fs', c') \<longrightarrow>
            prefix sent (hc_sent c'))
      | Some (_, Inl (Exited _)) \<Rightarrow> False)"
proof (cases received)
  case None
  then show ?thesis by (simp add: HttpWorkFlow_Response_test_def HttpWorkFlow_Response_def)
next
  case (Some dat)
  show ?thesis
  proof (cases "dat \<noteq> [] \<and> length dat < 10240")
    case False
    have full: "store (fresh 10240) 0 dat = Some dat \<and> store dat (length dat) [0] = None" if "length dat = 10240"
      using that assms(1) by (simp add: store_def fresh_ok_def)
    show ?thesis
    proof (cases "dat = []")
      case True
      then show ?thesis
        using Some assms(1) by (simp add: HttpWorkFlow_Response_test_def HttpWorkFlow_Response_def store_def fresh_ok_def)
    next
      case ne: False
      with False assms(2) Some have "length dat = 10240" by auto
      with full ne Some show ?thesis
        by (auto simp: HttpWorkFlow_Response_test_def HttpWorkFlow_Response_def)
    qed
  next
    case True
    from worker_buffer [OF assms(1)] True obtain buff b where b: "store (fresh 10240) 0 dat = Some buff"
      "store buff (length dat) [0] = Some b" "bytes_str b = bytes_str (dat @ [0])" by blast
    have run: "HttpWorkFlow_Response_test sys fresh now r fs (Some dat) c =
        DealWithRequest_test sys fresh now r fs (bytes_str (dat @ [0])) c"
      "HttpWorkFlow_Response sys fresh now r fs (Some dat) d = DealWithRequest sys fresh now r fs (bytes_str (dat @ [0])) d"
      for d
      using True b by (simp_all add: HttpWorkFlow_Response_test_def HttpWorkFlow_Response_def)
    show ?thesis
    proof (cases "request_file (bytes_str (dat @ [0])) = Some None")
      case refused: True
      then have "DealWithRequest_test sys fresh now r fs (bytes_str (dat @ [0])) c = Some (fs, Inl (Exited 1))"
        by (simp add: DealWithRequest_test_def RequestFeile_test_def)
      then show ?thesis using Some True refused by (simp add: run)
    next
      case False
      with deal_agrees [OF False, of c "BrokenPipe \<in> set (tc_sched c)" sys fresh now r fs] show ?thesis
        unfolding Some run same_answer_def by simp
    qed
  qed
qed

lemma http_test_server_agrees_witness:
  "HttpWorkFlow_Response_test (\<lambda>_ fs. fs) (\<lambda>n. replicate n 0) 0 demo_response demo_http_fs
      (Some (str_bytes ''HEAD /a.gif'')) \<lparr>tc_sched = [], tc_sent = []\<rparr> = Some (demo_http_fs, Inl (Exited 1)) \<and>
    (\<exists>c'. HttpWorkFlow_Response_test (\<lambda>_ fs. fs) (\<lambda>n. replicate n 0) 0 demo_response demo_http_fs
      (Some []) \<lparr>tc_sched = [], tc_sent = [1]\<rparr> = Some (demo_http_fs, Inr c') \<and> hc_sent (conn_1_1 c') = [1])"
proof -
  have head: "request_file (bytes_str (str_bytes ''HEAD /a.gif'' @ [0])) = Some None"
    using bytes_str_zero [of "''HEAD /a.gif''" "[]"]
    by (simp add: c_path_def request_file_def scan_word_def Let_def is_space_def)
  show ?thesis
    using http_test_server_agrees [OF fresh_ok_replicate, of "Some (str_bytes ''HEAD /a.gif'')" "\<lambda>_ fs. fs" 0
        demo_response demo_http_fs "\<lparr>tc_sched = [], tc_sent = []\<rparr>"] head
      http_test_server_agrees [OF fresh_ok_replicate, of "Some []" "\<lambda>_ fs. fs" 0
        demo_response demo_http_fs "\<lparr>tc_sched = [], tc_sent = [1]\<rparr>"]
    by (auto simp: HttpWorkFlow_Response_def store_def conn_1_1_def str_bytes_def
        split: option.splits sum.splits test_end.splits prod.splits)
qed

end
