(* ===== verification/Spec2Isabelle.thy ===== *)
theory Spec2Isabelle
  imports RsyncAligned NetProperties RemoteProperties CopyProperties
    StoreProperties UtilProperties ChatProperties HttpProperties
    NetLoopProperties NetEchoProperties Singleton Processor HttpLoopProperties
    HttpTestProperties "HOL-Library.Code_Target_Numeral"
begin

text \<open>
  A verification library for the C++ programs of this repository.  The core is \<open>single_fs\<close>: a clone of
  rsync for files on one machine (\<open>librsync\<close>), one over the network (\<open>simple_rsync\<close>), the network
  library both the network programs use (\<open>depends/net\<close>, \<open>depends/net.v1\<close>), a store of numbered
  files (\<open>depends/fs\<close>) with a client and a server (\<open>app\<close>), a chat (\<open>chat\<close>), and helpers (\<open>depends/utils\<close>,
  \<open>include\<close>).  Beside it stand three versions of a server for http (\<open>http_server.1.0.0\<close>, \<open>http_server.1.1.0\<close>,
  \<open>test_http_server\<close>).

  \<^bold>\<open>How the parts interact.\<close>  \<open>rdiff\<close> makes a signature of an old file, scans a new file for the
  chunks of the signature, writes what it found as a delta and applies the delta to the old file.  The
  scans roll a weak checksum over the file; the checksum holds its window in a ring buffer; files are
  read through a window (\<open>FileMap\<close>) and written through a buffer (\<open>WriteFileMap\<close>).  In
  \<open>simple_rsync\<close> the server makes the list of chunks of its file and serves single chunks, and the
  client scans its own old file for them and asks for the rest; \<open>cp\<close> does the same with two local
  files.  Requests are \<open>Packet\<close>s, filled through a \<open>Package\<close> cursor and framed on a stream by
  \<open>StreamSocketContext\<close>.  The server of \<open>app\<close> stores what it is sent in an \<open>Ifs\<close>.

  \<^bold>\<open>The model.\<close>  An operation of a class is a function on a record of the members of the class; \<open>None\<close> is
  undefined behaviour, an exception, or a loop that does not end; error codes are values.  Bytes and unsigned
  integers are words, \<open>int\<close> variables are integers, with conversions and overflow written out
  (theory \<open>Prelude\<close>).  Loops are structural recursion, \<open>function\<close> with a measure, or
  \<open>partial_function (option)\<close> where they may not end; no fuel is used, and every theorem about such a loop
  states that it returns.  Allocations that the code does not initialise are arguments (\<open>fresh\<close>,
  \<open>tail\<close>), and MD4, a function of OpenSSL, is the argument \<open>md4\<close> (\<open>api\<close> where its three steps are
  used separately).  A sum of 16 bytes is all that is assumed of it, and in the theorems on scans that it
  does not confuse the runs of bytes at hand.  \<open>CHUNK_SIZE\<close> and \<open>SCAN_BUFFER_SIZE\<close> are arguments
  of the model, so that the theorems hold for any chunk size up to the capacity of the ring buffer.

  \<^bold>\<open>The theories\<close>, with the sources they model:
  \<^item> \<open>Prelude\<close>: types, the fault monad, memory blocks, byte order, \<open>atoi\<close>.
  \<^item> \<open>CircleQueue\<close>: \<open>include/circle_queue.h\<close>.  Class invariant, abstraction to a list, and the locale
    \<open>fifo\<close> which the queue satisfies as long as its capacity is not changed while it is wrapped.
  \<^item> \<open>Checksum\<close>: \<open>librsync/checksum*.cpp\<close>, \<open>basesum.h\<close>.  The locale \<open>basesum\<close> states what a rolling checksum is;
    it is interpreted on each of the four classes.
  \<^item> \<open>FileIO\<close>: \<open>depends/fs/file_utils.cpp\<close>, \<open>file_map\<close>, \<open>write_file_map\<close> and \<open>file_tool\<close> of \<open>librsync\<close>.
  \<^item> \<open>RsyncCore\<close>: \<open>librsync/rsync_core.cpp\<close> and \<open>rdiff.cpp\<close>; signature facts.  \<open>RsyncScan\<close>: the invariant of
    the scan.  \<open>RsyncPatch\<close>: delta and patch, and the run as a whole.  \<open>RsyncAligned\<close>: what the scan
    finds in a new file made of old chunks.
  \<^item> \<open>NetData\<close>: \<open>package\<close>, \<open>packet.h\<close>, \<open>simple_list.h\<close>, \<open>channel.h\<close> of \<open>depends/net\<close>.  \<open>TaskQueue\<close>: its bounded
    queue, as critical sections and their interleavings, and the queue of \<open>http_server.1.0.0\<close>.
    \<open>StreamSocket\<close>: the two versions of the stream protocol; the locale \<open>framing\<close> is what a receiver needs of
    a frame format.  \<open>NetProperties\<close>: their properties.
  \<^item> \<open>NetLoop\<close>: \<open>communicate_loop\<close>, \<open>listen_socket_context\<close>, \<open>socket_context\<close>, \<open>net_machine\<close>, and the life of a
    connection of either version.  \<open>NetLoopFacts\<close>: the registry invariant and the locale \<open>event_batch\<close>, what a
    loop over the events of one poll needs of its handler.  \<open>NetLoopSafety\<close>: one event, and the
    interpretation of the locale.  \<open>NetLoopProperties\<close>: their properties.
  \<^item> \<open>NetEcho\<close>, \<open>NetEchoProperties\<close>: the handlers and programs that come with the library (\<open>listen_handler\<close>,
    \<open>stream_handler.h\<close>, \<open>client.cpp\<close>), on top of version 0 of the stream protocol and the queue of a connection.
    \<open>Singleton\<close>: \<open>singleton.h\<close> and \<open>cthread_mutex.cpp\<close>, with any number of threads.
  \<^item> \<open>RsyncService\<close>, \<open>ServiceScan\<close>: \<open>simple_rsync/rsync_service.cpp\<close> and \<open>scan.cpp\<close>, and what the scans
    compute.  \<open>RsyncRemote\<close>, \<open>RemoteFacts\<close>, \<open>RemoteTransfer\<close>: \<open>client.cpp\<close>, \<open>server_handler.cpp\<close>,
    \<open>server_processor.cpp\<close>, from the bytes of a request to the file put together.  \<open>RemoteProperties\<close>:
    their properties.  \<open>Processor\<close>: the threads of the server.
  \<^item> \<open>LocalCopy\<close>, \<open>CopyFacts\<close>, \<open>CopyProperties\<close>: the five programs of \<open>simple_rsync/cp.cpp\<close>; the locale
    \<open>window_pass\<close> is a pass over a file in pieces, interpreted on the bodies of \<open>cp3\<close> and \<open>cp6\<close>.
  \<^item> \<open>FileStore\<close>, \<open>StoreFacts\<close>: \<open>depends/fs/ifs.cpp\<close> and its refinement of a growing list of files.
    \<open>StoreApp\<close>, \<open>StoreProperties\<close>: \<open>app/server_handler.cpp\<close>, \<open>app/client.cpp\<close>.
  \<^item> \<open>ChatCore\<close>: \<open>chat\<close>, the client, the table of users, and the server as a step function over the places its
    two threads have reached.  \<open>ChatFacts\<close>: what packets carry.  \<open>ChatSystem\<close>: the locale \<open>registry\<close>, two
    maps changed by logins and lost connections, extended by \<open>registry_by_name\<close> and interpreted on the table;
    reachable states.  \<open>ChatSafety\<close>: the conditions under which no connection is used after its end.
    \<open>ChatRuns\<close>: what requests do, and the states without a next step.  \<open>ChatProperties\<close>: their properties.
  \<^item> \<open>HttpCore\<close>: \<open>http_server.1.1.0\<close>, its configuration files (\<open>depend/config\<close>, \<open>src/http_conf\<close>), helpers
    (\<open>depend/util\<close>) and answers (\<open>src/response.cpp\<close>, \<open>cgi.cpp\<close>, \<open>http_work_flow.cpp\<close>), with what \<open>http_server.1.0.0\<close>
    does differently.  \<open>HttpFacts\<close>, \<open>HttpProperties\<close>: what is read, what is sent, and what faults.
    \<open>Workers\<close>: the threads of 1.1.0 (\<open>depend/thread\<close>), from their start to the join.  \<open>HttpLoop\<close>,
    \<open>HttpLoopProperties\<close>: the event loops of both versions (\<open>depend/epoll\<close>), and the server (\<open>src/http_server.cpp\<close>)
    as an inductive set of reachable states.  \<open>HttpTest\<close>, \<open>HttpTestProperties\<close>: \<open>test_http_server\<close> and how it
    differs.
  \<^item> \<open>LogTime\<close>, \<open>UtilProperties\<close>: \<open>depends/utils/log.cpp\<close>, \<open>time_utils.h\<close>.
  \<^item> this theory: \<open>rdiff\<close> and the classes under it.

  \<^bold>\<open>What is shown.\<close>  The transfers reproduce the file they are meant to reproduce, under
  hypotheses that concrete inputs show to be needed (C1, C2, C28, C33; the lemmas \<open>rdiff_may_append\<close>,
  \<open>rdiff_overlap_faults\<close> and \<open>get_file_stale_window\<close>); the stages between (C5--C7, C26, C27, C32); the
  checksums and the ring buffer against their plain counterparts (C10, C13); the data structures and
  protocols of the network library, with the interleavings that break them (C17--C20, C23, C24), a packet
  sent there and back (C22), its event loop, from one poll to the destructor (C3, C4), and its singleton (C29);
  the threads of the rsync server, which always stop (C40); the chat server, its messages,
  its invariant under conditions on clients and timing, what happens without them, and its deadlock (C8,
  C11, C14, C21, C25, C31); the store, across restarts and over the network (C36--C38); the http
  servers, what they answer and what breaks them, their configuration (C9, C12, C30, C39), how the test
  version differs (C15), what their loops and workers do with connections (C16, C34), and when the workers
  can be stopped (C35).

  \<^bold>\<open>Bounds.\<close>  Files are smaller than \<open>DEFAULT_BUFFER_LENGTH\<close> (20 MB) where a \<open>FileMap\<close> is used, which the class
  needs itself, and smaller than \<open>2 ^ 31\<close> bytes elsewhere; chunks are smaller than the ring buffer's
  4 MB; paths are shorter than \<open>2 ^ 30\<close>.

  \<^bold>\<open>Not modelled.\<close>  Calls of the system beyond their results: a disk that is full, a connection that breaks in
  the middle of a packet, the timing of threads outside of the queues, the id generator, the singleton, the
  chat server, the processor and the http workers; the reordering of memory accesses.  The wrappers of single
  \<open>pthread\<close> calls (\<open>cthread.cpp\<close>), the destructor of \<open>HttpServer\<close> and the ends of the other programs that run
  for ever are left out.  The other files of \<open>test_http_server\<close> are copies of those of version 1.1.0, as are those of
  \<open>depends/net.v1\<close> of \<open>depends/net\<close> apart from the stream protocol, and the checksums of \<open>simple_rsync\<close> of those of
  \<open>librsync\<close>: the definitions and lemmas hold for both.  \<open>depends/fs/main.cpp\<close> uses a class that is not in the
  repository.  \<open>test_socket\<close> and the other test programs only call the interfaces.
\<close>

section \<open>Concrete inputs\<close>

text \<open>
  A digest for the witnesses: 16 bytes, one-to-one on messages of one length up to 16.
\<close>

definition demo_md4 :: "byte list \<Rightarrow> byte list" where
  "demo_md4 m = take 16 (m @ replicate 16 0)"

definition demo_fs :: "byte list \<Rightarrow> byte list \<Rightarrow> fsys" where
  "demo_fs old new = \<lparr>fs_files = [''o'' \<mapsto> old, ''n'' \<mapsto> new], fs_denied = (\<lambda>_. False)\<rparr>"

definition demo_argv :: "string list" where
  "demo_argv = [''rdiff'', ''o'', ''s'', ''n'', ''d'', ''r'']"

definition demo_result :: "int \<Rightarrow> byte list \<Rightarrow> byte list \<Rightarrow> byte list option option" where
  "demo_result cs old new =
     map_option (\<lambda>(_, fs). fs_files fs ''r'') (rdiff_main demo_md4 cs [0] (demo_fs old new) demo_argv)"

lemma length_demo_md4: "length (demo_md4 m) = 16"
  by (simp add: demo_md4_def)

lemma demo_md4_inj:
  assumes "demo_md4 v = demo_md4 w" and "length v = length w" and "length v \<le> 16"
  shows "v = w"
proof -
  have "take (length u) (demo_md4 u) = u" if "length u \<le> 16" for u
    using that by (simp add: demo_md4_def min_absorb1)
  from this [of v] this [of w] assms show ?thesis by metis
qed

lemma demo_no_collision: "C \<le> 16 \<Longrightarrow> no_collision demo_md4 C old new"
  unfolding no_collision_def by (metis demo_md4_inj length_chunk)

lemma demo_setting:
  assumes "0 < C" "C \<le> 16" "C \<le> length new" "length new \<le> 100" "length old \<le> 100"
  shows "rdiff_setting C (demo_fs old new) ''o'' old ''s'' ''n'' new ''d'' ''r''"
proof -
  have "length old div C \<le> 100" using assms(5) by (rule le_trans [OF div_le_dividend])
  moreover have "(length new + C) div C \<le> 116"
    using assms(2,4) by (intro le_trans [OF div_le_dividend]) simp
  ultimately show ?thesis
    using assms by (simp add: rdiff_setting_def file_ok_def demo_fs_def BUFFER_LENGTH_def
        DEFAULT_BUFFER_LENGTH_def)
qed

section \<open>The rsync algorithm end to end\<close>

text \<open>
  C1. \<open>rdiff\<close> with all five file arguments returns 0 and the result file it writes is the new file,
  followed by at most one chunk length of further bytes.  Hypotheses: the sizes of
  \<open>rdiff_setting\<close>, the digest does not confuse a run of bytes of the new file with a chunk, and no
  two chunks occur in the new file overlapping in exactly one byte.
\<close>

theorem rdiff_reconstructs:
  assumes "rdiff_setting C fs po old ps pn new pd pr"
    and "\<forall>m. length (md4 m) = 16" and "0 \<in> set tail"
    and "no_collision md4 C old new" and "no_overlap C old new"
  shows "\<exists>fs' junk. rdiff_main md4 (int C) tail fs [prog, po, ps, pn, pd, pr] = Some (0, fs') \<and>
           fs_files fs' pr = Some (new @ junk) \<and> length junk \<le> C"
  using assms by (rule rdiff_prefix)

lemma rdiff_reconstructs_witness:
  "\<exists>fs' junk. rdiff_main demo_md4 (int 2) [0] (demo_fs [1, 2, 3] [9, 1, 2, 7])
       [''rdiff'', ''o'', ''s'', ''n'', ''d'', ''r''] = Some (0, fs') \<and>
     fs_files fs' ''r'' = Some ([9, 1, 2, 7] @ junk) \<and> length junk \<le> 2"
  by (rule rdiff_reconstructs [OF demo_setting _ _ demo_no_collision])
    (auto simp: length_demo_md4 no_overlap_def occurs_def chunk_def drop_Cons' less_Suc_eq)

text \<open>
  C2. When the new file is made of whole chunks of the old file, in any order and number, the delta
  file holds the 8 bytes of its header and 9 bytes for each chunk, and the result of the patch is
  exactly the new file; equal weak sums of two chunks of the old file must mean equal chunks.
\<close>

theorem rdiff_permuted_chunks:
  assumes "rdiff_setting C fs po old ps pn (concat (map (chunk C old) ks)) pd pr"
    and "\<forall>k \<in> set ks. k < length old div C" and "weak_distinct C old"
    and "\<forall>m. length (md4 m) = 16" and "0 \<in> set tail"
  shows "\<exists>fs' d. rdiff_main md4 (int C) tail fs [prog, po, ps, pn, pd, pr] = Some (0, fs') \<and>
           fs_files fs' pr = Some (concat (map (chunk C old) ks)) \<and>
           fs_files fs' pd = Some d \<and> length d = 8 + 9 * length ks"
  using assms by (rule rdiff_aligned)

lemma rdiff_permuted_chunks_witness:
  "\<exists>fs' d. rdiff_main demo_md4 (int 2) [0]
       (demo_fs [1, 2, 3] (concat (map (chunk 2 [1, 2, 3]) [0, 0])))
       [''rdiff'', ''o'', ''s'', ''n'', ''d'', ''r''] = Some (0, fs') \<and>
     fs_files fs' ''r'' = Some (concat (map (chunk 2 [1, 2, 3]) [0, 0])) \<and>
     fs_files fs' ''d'' = Some d \<and> length d = 8 + 9 * length [0, 0 :: nat]"
  by (rule rdiff_permuted_chunks [OF demo_setting])
    (simp_all add: length_demo_md4 chunk_def weak_distinct_def)

text \<open>
  The bytes behind the end are real: the last windows of the scan run past the end of the file
  into stale bytes of the mapping, and a chunk may be found there.  The result then is longer than
  the new file.
\<close>

theorem rdiff_may_append:
  "demo_result 3 [98, 97, 97] [97, 98, 97] = Some (Some [97, 98, 97, 97])"
  by code_simp

text \<open>
  The hypothesis on overlaps is needed: after a hit in the inner loop the next window begins on
  the last byte of the chunk found, and a hit there records a literal of length -1, on which
  \<open>AppendData\<close> faults.
\<close>

theorem rdiff_overlap_faults: "demo_result 2 [0, 0] [9, 0, 0, 0] = None"
  by code_simp

text \<open>
  C5. The signature file of a file, read back with any memory behind it that has a zero byte, is the
  list of its whole chunks: each with its offset, its length, the rolling sum and the digest of its
  bytes.
\<close>

theorem signature_roundtrip:
  assumes "file_ok fs po old" and "\<not> fs_denied fs ps" and "0 < C" and "C < 4194312"
    and "\<forall>m. length (md4 m) = 16" and "0 \<in> set tail"
  shows "\<exists>fs' sig meta. GenerateSigFile md4 (int C) fs po ps = Some (0, fs') \<and>
           fs_files fs' ps = Some sig \<and> ParseMetaList (sig @ tail) = Some (Some meta) \<and>
           length meta = length old div C \<and>
           (\<forall>k < length old div C. meta ! k =
              \<lparr>ci_weak_sum = weak3 (chunk C old k), ci_from = True, ci_offset = int (k * C),
               ci_length = int C, ci_strong_sum = hex_string (md4 (chunk C old k))\<rparr>)"
proof -
  have "int C \<le> 2 ^ 30" and "int (length old) < DEFAULT_BUFFER_LENGTH"
    using assms(1,4) by (simp_all add: file_ok_def)
  with GenerateSigFile_ok [OF assms(1,3) _ assms(5,2)] ParseMetaList_meta_list [OF assms(5) _ assms(4,6)]
  show ?thesis by (fastforce simp: meta_list_def meta_of_def)
qed

lemma signature_roundtrip_witness:
  "\<exists>fs' sig meta. GenerateSigFile demo_md4 (int 2) (demo_fs [1, 2, 3, 4, 5] []) ''o'' ''s'' = Some (0, fs') \<and>
     fs_files fs' ''s'' = Some sig \<and> ParseMetaList (sig @ [0]) = Some (Some meta) \<and>
     length meta = length [1, 2, 3, 4, 5 :: byte] div 2 \<and>
     (\<forall>k < length [1, 2, 3, 4, 5 :: byte] div 2. meta ! k =
        \<lparr>ci_weak_sum = weak3 (chunk 2 [1, 2, 3, 4, 5] k), ci_from = True, ci_offset = int (k * 2),
         ci_length = int 2, ci_strong_sum = hex_string (demo_md4 (chunk 2 [1, 2, 3, 4, 5] k))\<rparr>)"
  by (rule signature_roundtrip)
    (simp_all add: length_demo_md4 file_ok_def demo_fs_def DEFAULT_BUFFER_LENGTH_def)

text \<open>
  C6. The scan returns on every new file of at least one chunk, and its nodes lie inside the two
  files and spell the new file out up to its end.
\<close>

theorem scan_terminates:
  assumes "file_ok fs p new" and "0 < C" and "C \<le> length new" and "C < 4194312"
    and "no_collision md4 C old new" and "\<forall>m. length (md4 m) = 16" and "no_overlap C old new"
  shows "\<exists>nodes meta. ScanNewFile md4 (int C) fs (Some (meta_list md4 C old)) p = Some (nodes, meta) \<and>
           (\<forall>n \<in> set nodes. node_ok old new n) \<and>
           take (length new) (spell old new nodes) = new"
  using ScanNewFile_ok [OF assms] by (fastforce simp: covers_def)

lemma scan_terminates_witness:
  "\<exists>nodes meta. ScanNewFile demo_md4 (int 2) (demo_fs [1, 2, 3] [9, 1, 2, 7])
       (Some (meta_list demo_md4 2 [1, 2, 3])) ''n'' = Some (nodes, meta) \<and>
     (\<forall>n \<in> set nodes. node_ok [1, 2, 3] [9, 1, 2, 7] n) \<and>
     take (length [9, 1, 2, 7 :: byte]) (spell [1, 2, 3] [9, 1, 2, 7] nodes) = [9, 1, 2, 7]"
  by (rule scan_terminates [OF _ _ _ _ demo_no_collision])
    (auto simp: length_demo_md4 no_overlap_def occurs_def chunk_def drop_Cons' less_Suc_eq file_ok_def
       demo_fs_def DEFAULT_BUFFER_LENGTH_def)

text \<open>
  C7. \<open>PatchFile\<close> on a delta file writes, in order, the literal bytes and the runs of the old file
  that the records of the delta name, and changes no other file.
\<close>

theorem patch_applies_delta:
  assumes "file_ok fs po old" and "file_ok fs pd (delta_bytes new nodes)"
    and "\<forall>n \<in> set nodes. node_ok old new n" and "length nodes < 2 ^ 31"
    and "int (length new) < 2 ^ 30" and "\<not> fs_denied fs pr" and "po \<noteq> pr" and "pd \<noteq> pr"
  shows "\<exists>fs'. PatchFile fs po pd pr = Some (None, fs') \<and>
           fs_files fs' pr = Some (spell old new nodes) \<and> fs_frame pr fs fs'"
  using assms by (rule PatchFile_ok)

lemma patch_applies_delta_witness:
  "\<exists>fs'. PatchFile (demo_fs [1, 2, 3] (delta_bytes [7, 8] [OffsetNode True 1 1, OffsetNode False 0 2]))
       ''o'' ''n'' ''r'' = Some (None, fs') \<and>
     fs_files fs' ''r'' = Some (spell [1, 2, 3] [7, 8] [OffsetNode True 1 1, OffsetNode False 0 2]) \<and>
     fs_frame ''r'' (demo_fs [1, 2, 3] (delta_bytes [7, 8] [OffsetNode True 1 1, OffsetNode False 0 2])) fs'"
  by (rule patch_applies_delta)
    (simp_all add: file_ok_def demo_fs_def DEFAULT_BUFFER_LENGTH_def delta_bytes_def node_record_def
       OffsetNode_def node_ok_def)

text \<open>
  A file that does not begin with the magic number of a delta is refused with -1 before the
  result file is created.
\<close>

theorem patch_wrong_magic:
  assumes "file_ok fs pd D" and "4 \<le> length D" and "rd32 (take 4 D) \<noteq> DELTA_MAGIC"
  shows "PatchFile fs po pd pr = Some (Some (- 1), fs)"
  using assms by (rule PatchFile_magic)

lemma patch_wrong_magic_witness:
  "PatchFile (demo_fs [1] [1, 2, 3, 4]) ''o'' ''n'' ''r'' = Some (Some (- 1), demo_fs [1] [1, 2, 3, 4])"
  by (rule patch_wrong_magic [of _ _ "[1, 2, 3, 4]"])
    (simp_all add: file_ok_def demo_fs_def DEFAULT_BUFFER_LENGTH_def, code_simp)

text \<open>
  A record that begins with neither mark ends the patch with -1; the result file then holds what
  the records before it say.
\<close>

theorem patch_malformed_record:
  assumes "file_ok fs po old" and "file_ok fs pd D"
    and "D = be32 DELTA_MAGIC @ wr_i32 (int n) @ concat (map (node_record new) nodes) @ m # rest"
    and "m \<noteq> 0xff" and "m \<noteq> 0x00" and "length nodes < n" and "n < 2 ^ 31"
    and "\<forall>n \<in> set nodes. node_ok old new n" and "int (length new) < 2 ^ 30"
    and "\<not> fs_denied fs pr" and "po \<noteq> pr" and "pd \<noteq> pr"
  shows "\<exists>fs'. PatchFile fs po pd pr = Some (Some (- 1), fs') \<and>
           fs_files fs' pr = Some (spell old new nodes) \<and> fs_frame pr fs fs'"
  using assms by (rule PatchFile_malformed)

lemma patch_malformed_record_witness:
  "\<exists>fs'. PatchFile (demo_fs [1, 2, 3] (be32 DELTA_MAGIC @ wr_i32 (int 2) @
         concat (map (node_record [7, 8]) [OffsetNode False 0 2]) @ 5 # []))
       ''o'' ''n'' ''r'' = Some (Some (- 1), fs') \<and>
     fs_files fs' ''r'' = Some (spell [1, 2, 3] [7, 8] [OffsetNode False 0 2]) \<and>
     fs_frame ''r'' (demo_fs [1, 2, 3] (be32 DELTA_MAGIC @ wr_i32 (int 2) @
         concat (map (node_record [7, 8]) [OffsetNode False 0 2]) @ 5 # [])) fs'"
  by (rule patch_malformed_record [where n = 2 and m = 5 and rest = "[]", OF _ _ refl])
    (simp_all add: file_ok_def demo_fs_def DEFAULT_BUFFER_LENGTH_def node_record_def
       OffsetNode_def node_ok_def)

section \<open>Checksums and the ring buffer\<close>

text \<open>
  C10. The rolling sum of \<open>Checksum3\<close>: after \<open>Init\<close> on the first \<open>L\<close> bytes of a buffer and one
  \<open>Update\<close> for each further byte, \<open>tmp_sum\<close> is what \<open>Sum1\<close> computes from scratch on the last \<open>L\<close>
  bytes, for both values of \<open>CHAR_OFFSET\<close>.
\<close>

theorem checksum3_rolls:
  assumes "0 < L" and "L < 4194312" and "L \<le> length buf"
  shows "\<exists>s0 s'. Checksum3_Init off buf (int L) Checksum3_new = Some s0 \<and>
           foldM (Checksum3_Update off) xs s0 = Some s' \<and>
           Checksum3_Sum1 off (drop (length xs) (take L buf @ xs)) (int L) = Some (ck3_tmp_sum s')"
  using checksum3.init_roll [OF Checksum3_new_ready [OF assms(2)] assms(1,3), of off xs] by auto

lemma checksum3_rolls_witness:
  "\<exists>s0 s'. Checksum3_Init 5 [1, 2, 3] (int 2) Checksum3_new = Some s0 \<and>
     foldM (Checksum3_Update 5) [7, 200] s0 = Some s' \<and>
     Checksum3_Sum1 5 (drop (length [7, 200 :: byte]) (take 2 [1, 2, 3] @ [7, 200])) (int 2) =
       Some (ck3_tmp_sum s')"
  by (rule checksum3_rolls) simp_all

text \<open>
  \<open>Sum1\<close> of \<open>Checksum3\<close>, whose first loop takes four bytes at a time, packs two sums modulo
  \<open>2 ^ 16\<close>: the sum of the bytes, and the sum of the bytes weighted by their distance to the end.
\<close>

theorem checksum3_sum1_spec:
  "Checksum3_Sum1 off w (int (length w)) =
     Some (((\<Sum>b\<leftarrow>w. ucast b + off) AND 0xffff) +
       push_bit 16 (\<Sum>i\<leftarrow>[0..<length w]. of_nat (length w - i) * (ucast (w ! i) + off)))"
proof -
  have "ck3_s2 off w = (\<Sum>i\<leftarrow>[0..<length w]. of_nat (length w - i) * (ucast (w ! i) + off))"
  proof (induction w)
    case (Cons b w)
    have "[0..<length (b # w)] = 0 # map Suc [0..<length w]"
      by (simp add: upt_conv_Cons map_Suc_upt del: upt_Suc)
    then show ?case by (simp add: Cons comp_def del: upt_Suc)
  qed simp
  then show ?thesis by (simp add: Checksum3_Sum1_eq ck3_pack_def ck3_s1_def)
qed

text \<open>
  The polynomial hash of \<open>Checksum2\<close> rolls: after \<open>Init\<close> and any updates \<open>tmp_sum\<close> is \<open>Sum1\<close>
  of the last \<open>L\<close> bytes, on a new object.
\<close>

theorem checksum2_rolls:
  assumes "0 < L" and "L < 4194312" and "L \<le> length buf"
  shows "\<exists>s0 s'. Checksum2_Init buf (int L) Checksum2_new = Some s0 \<and>
           foldM Checksum2_Update xs s0 = Some s' \<and>
           Checksum2_Sum1 (drop (length xs) (take L buf @ xs)) (int L) = Some (ck2_tmp_sum s')"
  using checksum2.init_roll [OF Checksum2_new_ready [OF assms(2)] assms(1,3), of xs] by auto

lemma checksum2_rolls_witness:
  "\<exists>s0 s'. Checksum2_Init [1, 2, 3] (int 2) Checksum2_new = Some s0 \<and>
     foldM Checksum2_Update [7, 200] s0 = Some s' \<and>
     Checksum2_Sum1 (drop (length [7, 200 :: byte]) (take 2 [1, 2, 3] @ [7, 200])) (int 2) =
       Some (ck2_tmp_sum s')"
  by (rule checksum2_rolls) simp_all


definition demo_queue :: "byte cqueue" where
  "demo_queue = \<lparr>cq_data = [0 \<mapsto> 4, 1 \<mapsto> 5], cq_size = 2, cq_capacity = 16, cq_front = 0, cq_end = 2\<rparr>"


text \<open>
  When the content of a full ring is wrapped, the \<open>push\<close> that has to grow it reads behind the
  old allocation: \<open>Realloc\<close> overwrites \<open>capacity_\<close> before it computes how much to copy.
\<close>

theorem ring_growth_overreads:
  assumes "cq_inv q" and "cq_wrapped q" and "cq_capacity q - 1 \<le> cq_size q"
  shows "cq_push t q = None"
  using assms by (rule cq_push_wrapped_full)

definition demo_full :: "byte cqueue" where
  "demo_full = \<lparr>cq_data = [0 \<mapsto> 6, 2 \<mapsto> 5], cq_size = 2, cq_capacity = 3, cq_front = 2, cq_end = 1\<rparr>"

lemma ring_growth_overreads_witness: "cq_push 7 demo_full = None"
  by (rule ring_growth_overreads)
    (auto simp: demo_full_def cq_inv_def cq_wrapped_def cq_cell_def less_2_cases_iff upt_rec)

section \<open>Files\<close>

text \<open>
  \<open>copy_part_of_file\<close> writes the requested part of the source, cut at its end, to the
  destination and changes no other file.
\<close>

theorem copy_part_spec:
  assumes "fs_files fs src = Some c" and "\<not> fs_denied fs src" and "\<not> fs_denied fs dst"
    and "src \<noteq> dst" and "int (length c) < DEFAULT_BUFFER_LENGTH" and "off \<le> length c"
    and "len < 2 ^ 30"
  shows "\<exists>fs'. copy_part_of_file fs src (int off) (int len) dst = Some fs' \<and>
           fs_files fs' dst = Some (take len (drop off c)) \<and> fs_frame dst fs fs'"
  using assms by (rule copy_part_of_file_ok)

lemma copy_part_spec_witness:
  "\<exists>fs'. copy_part_of_file (demo_fs [1, 2, 3] []) ''o'' (int 1) (int 5) ''r'' = Some fs' \<and>
     fs_files fs' ''r'' = Some (take 5 (drop 1 [1, 2, 3])) \<and> fs_frame ''r'' (demo_fs [1, 2, 3] []) fs'"
  by (rule copy_part_spec) (simp_all add: demo_fs_def DEFAULT_BUFFER_LENGTH_def)

text \<open>
  The buffered writer: appending blocks of at most 4 MB each and deleting the writer leaves
  their concatenation in the file, however the flushes fall.
\<close>

theorem writer_concatenates:
  assumes "\<not> fs_denied fs p" and "\<forall>bs \<in> set bss. int (length bs) \<le> BUFFER_LENGTH"
  shows "\<exists>fs1 w fs'.
           foldM (\<lambda>bs (fs, w). AppendData fs (Some bs) (int (length bs)) w) bss (WriteFileMap_new fs p) =
             Some (fs1, w) \<and>
           WriteFileMap_delete fs1 w = Some fs' \<and> fs_files fs' p = Some (concat bss) \<and> fs_frame p fs fs'"
proof -
  have e: "(\<lambda>bs (fs, w). AppendData fs (Some bs) (int (length bs)) w) = put"
    by (intro ext) (simp add: put_def split: prod.splits)
  obtain st where "foldM put bss (WriteFileMap_new fs p) = Some st" "writing p fs ([] @ concat bss) st"
    by (rule puts_ok [OF writing_start [OF assms(1)] assms(2)])
  then show ?thesis unfolding e by (cases st) (auto elim!: writing_end)
qed

lemma writer_concatenates_witness:
  "\<exists>fs1 w fs'.
     foldM (\<lambda>bs (fs, w). AppendData fs (Some bs) (int (length bs)) w) [[1, 2], [], [3]]
       (WriteFileMap_new (demo_fs [] []) ''r'') = Some (fs1, w) \<and>
     WriteFileMap_delete fs1 w = Some fs' \<and> fs_files fs' ''r'' = Some (concat [[1, 2], [], [3]]) \<and>
     fs_frame ''r'' (demo_fs [] []) fs'"
  by (rule writer_concatenates) (simp_all add: demo_fs_def BUFFER_LENGTH_def)

end
